(* ===== verification/Prelude.thy ===== *)
theory Prelude
  imports Main "HOL-Library.Word" "HOL-Library.Monad_Syntax"
begin

text \<open>
  What every theory of the development shares: the names of the machine integers of the
  kernel, the model of undefined behaviour, bit fields of machine words, and the generic
  lemmas on words and lists that the components need.

  \<^item> An unsigned C++ integer of \<open>w\<close> bits is a \<open>w word\<close>; \<open>size_t\<close> and \<open>uintptr_t\<close> have
    64 bits on the x86-64 target of the kernel, and \<open>int\<close> has 32.
  \<^item> An operation whose C++ code has no defined result for some arguments (an index outside
    a \<open>std::array\<close>, a null dereference, a loop that never ends) returns an \<open>option\<close>, and
    \<open>None\<close> is that case. Errors the code reports are ordinary values of its error type.
\<close>

unbundle bit_operations_syntax

type_synonym u8 = "8 word"
type_synonym u16 = "16 word"
type_synonym u32 = "32 word"
type_synonym u64 = "64 word"

subsection \<open>Collections of facts\<close>

text \<open>
  \<open>field_simps_bits\<close>: how a bit field reads after a write to the same or another field.
  \<open>run_simps\<close>: the unfolding equations a concrete run of the model needs.
\<close>

named_theorems field_simps_bits
named_theorems run_simps

subsection \<open>Bit fields of words\<close>

text \<open>
  A packed C++ bit field that starts at bit \<open>off\<close> of its storage unit and has \<open>n\<close> bits:
  reading gives the field's value, and writing keeps the other bits and truncates the
  value to the field's width.
\<close>

definition bits_get :: "nat \<Rightarrow> nat \<Rightarrow> 'a::len word \<Rightarrow> 'a word" where
  "bits_get off n w = take_bit n (drop_bit off w)"

definition bits_set :: "nat \<Rightarrow> nat \<Rightarrow> 'a::len word \<Rightarrow> 'a word \<Rightarrow> 'a word" where
  "bits_set off n v w = (w AND NOT (push_bit off (mask n))) OR push_bit off (take_bit n v)"

lemma bit_bits_get: "bit (bits_get off n w) i \<longleftrightarrow> i < n \<and> bit w (off + i)"
  by (auto simp: bits_get_def bit_simps)

lemma bit_bits_set:
  "bit (bits_set off n v w) i \<longleftrightarrow>
     i < LENGTH('a) \<and> (if off \<le> i \<and> i < off + n then bit v (i - off) else bit w i)"
  for w :: "'a::len word"
  by (auto simp: bits_set_def bit_simps)

lemma bits_get_set_same [field_simps_bits]:
  "off + n \<le> LENGTH('a) \<Longrightarrow> bits_get off n (bits_set off n v w) = take_bit n v"
  for w :: "'a::len word"
  by (rule bit_word_eqI) (auto simp: bit_bits_get bit_bits_set bit_simps)

lemma bits_get_set_other [field_simps_bits]:
  assumes "off + n \<le> off' \<or> off' + n' \<le> off"
  shows "bits_get off n (bits_set off' n' v w) = bits_get off n w"
  using assms
  by (intro bit_word_eqI) (auto simp: bit_bits_get bit_bits_set dest: bit_imp_le_length)

lemma bits_get_0 [simp]: "bits_get off n 0 = 0"
  by (simp add: bits_get_def)

lemma bits_get_take_bit [simp]: "take_bit n (bits_get off n w) = bits_get off n w"
  by (simp add: bits_get_def)

lemma bits_get_bound: "n < LENGTH('a) \<Longrightarrow> unat (bits_get off n w) < 2 ^ n"
  for w :: "'a::len word"
  by (simp add: bits_get_def unsigned_take_bit_eq)

lemma take_bit_ucast_id:
  "LENGTH('b) \<le> n \<Longrightarrow> take_bit n (ucast (v :: 'b::len word) :: 'a::len word) = ucast v"
  by (rule bit_word_eqI) (auto simp: bit_simps dest: bit_imp_le_length)

lemma ucast_ucast_id:
  "LENGTH('b) \<le> LENGTH('a) \<Longrightarrow> ucast (ucast (v :: 'b::len word) :: 'a::len word) = v"
  by (rule bit_word_eqI) (auto simp: bit_simps dest: bit_imp_le_length)

subsection \<open>Counted loops\<close>

text \<open>
  The loop \<open>for (i = a; i < a + k; ++i) body(i)\<close> over a state: the body may be undefined,
  and then the loop is.
\<close>

fun for_range :: "(nat \<Rightarrow> 's \<Rightarrow> 's option) \<Rightarrow> nat \<Rightarrow> nat \<Rightarrow> 's \<Rightarrow> 's option" where
  "for_range body i 0 s = Some s"
| "for_range body i (Suc k) s = do { s' \<leftarrow> body i s; for_range body (Suc i) k s' }"

lemma for_range_rule:
  assumes "P i s"
    and "\<And>j t. i \<le> j \<Longrightarrow> j < i + k \<Longrightarrow> P j t \<Longrightarrow> \<exists>t'. body j t = Some t' \<and> P (Suc j) t'"
  shows "\<exists>s'. for_range body i k s = Some s' \<and> P (i + k) s'"
  using assms
proof (induction k arbitrary: i s)
  case 0
  then show ?case by simp
next
  case (Suc k)
  from Suc.prems(2)[of i s] Suc.prems(1) obtain t
    where t: "body i s = Some t" "P (Suc i) t" by auto
  have "\<exists>s'. for_range body (Suc i) k t = Some s' \<and> P (Suc i + k) s'"
    using t(2) Suc.prems(2) by (intro Suc.IH) auto
  with t show ?case by auto
qed

lemma for_range_None:
  "i \<le> j \<Longrightarrow> j < i + k \<Longrightarrow> (\<And>t. body j t = None) \<Longrightarrow> for_range body i k s = None"
proof (induction k arbitrary: i s)
  case (Suc k)
  then show ?case by (cases "i = j"; cases "body i s") auto
qed simp

lemma for_range_inv:
  assumes "for_range body i k s = Some s'" and "P i s"
    and "\<And>j t t'. i \<le> j \<Longrightarrow> j < i + k \<Longrightarrow> P j t \<Longrightarrow> body j t = Some t' \<Longrightarrow> P (Suc j) t'"
  shows "P (i + k) s'"
  using assms
proof (induction k arbitrary: i s)
  case 0
  then show ?case by simp
next
  case (Suc k)
  from Suc.prems(1) obtain t where t: "body i s = Some t" "for_range body (Suc i) k t = Some s'"
    by (auto simp: bind_eq_Some_conv)
  have "P (Suc i + k) s'"
    using Suc.prems t by (intro Suc.IH[OF t(2)]) auto
  then show ?case by simp
qed

subsection \<open>Words as natural numbers\<close>

lemma unat_lt2p: "unat x < 2 ^ LENGTH('a)"
  for x :: "'a::len word"
  by (rule unsigned_less)

lemma unat_plus_eq: "unat a + unat b < 2 ^ LENGTH('a) \<Longrightarrow> unat (a + b) = unat a + unat b"
  for a b :: "'a::len word"
  by (simp add: unat_word_ariths)

lemma unat_plus_1_less:
  fixes x y :: "'a::len word"
  assumes "x < y"
  shows "unat (x + 1) = Suc (unat x)"
proof -
  from assms have "Suc (unat x) \<le> unat y" by (simp add: word_less_nat_alt)
  then have "Suc (unat x) < 2 ^ LENGTH('a)" using unat_lt2p[of y] by (rule le_less_trans)
  then show ?thesis by (simp add: unat_word_ariths)
qed

lemma unat_mult_eq: "unat a * unat b < 2 ^ LENGTH('a) \<Longrightarrow> unat (a * b) = unat a * unat b"
  for a b :: "'a::len word"
  by (simp add: unat_word_ariths)

lemma unat_of_nat_eq: "n < 2 ^ LENGTH('a) \<Longrightarrow> unat (of_nat n :: 'a::len word) = n"
  by (simp add: unat_of_nat)

lemma unat_plus_of_nat:
  "unat a + n < 2 ^ LENGTH('a) \<Longrightarrow> unat (a + of_nat n) = unat a + n"
  for a :: "'a::len word"
  by (simp add: unat_word_ariths unat_of_nat)

lemma unat_exp: "k < LENGTH('a) \<Longrightarrow> unat (2 ^ k :: 'a::len word) = 2 ^ k"
proof -
  assume "k < LENGTH('a)"
  then have "unat (of_nat (2 ^ k) :: 'a word) = 2 ^ k" by (intro unat_of_nat_eq) simp
  then show ?thesis by simp
qed

lemma nat_bit_less: "(i :: nat) < 2 ^ n \<Longrightarrow> bit i k \<Longrightarrow> k < n"
  by (metis bit_take_bit_iff take_bit_nat_eq_self)

subsection \<open>Arrays filled in a loop\<close>

text \<open>\<open>for (i = 0; i < n; ++i) xs[i] = f(i)\<close> on an array of at least \<open>n\<close> elements.\<close>

lemma fold_list_update_map:
  "n \<le> length xs \<Longrightarrow> fold (\<lambda>i ys. ys[i := f i]) [0..<n] xs = map f [0..<n] @ drop n xs"
proof (induction n)
  case (Suc n)
  then have "drop n xs = xs ! n # drop (Suc n) xs" by (simp add: Cons_nth_drop_Suc)
  with Suc show ?case by (simp add: list_update_append)
qed simp

end
