(* ===== verification/Kernel_Error.thy ===== *)
theory Kernel_Error
  imports Prelude
begin

text \<open>
  The kernel's error type (\<open>src/kernel/error.hpp\<close>): the codes in the order of the enum,
  the test for an error, and the table of names, which is shorter than the enum.
\<close>

datatype error_code =
    Success
  | Full
  | Empty
  | IndexOutOfRange
  | NotImplemented
  | NoPCIMSI
  | NoEnoughMemory
  | UnknownPixelFormat
  | LastOfCode

record 'a with_error =
  we_value :: 'a
  we_error :: error_code

definition error_bool :: "error_code \<Rightarrow> bool" where
  "error_bool code \<longleftrightarrow> code \<noteq> Success"

text \<open>The number \<open>static_cast<int>\<close> gives an enumerator.\<close>

primrec error_num :: "error_code \<Rightarrow> nat" where
  "error_num Success = 0"
| "error_num Full = 1"
| "error_num Empty = 2"
| "error_num IndexOutOfRange = 3"
| "error_num NotImplemented = 4"
| "error_num NoPCIMSI = 5"
| "error_num NoEnoughMemory = 6"
| "error_num UnknownPixelFormat = 7"
| "error_num LastOfCode = 8"

definition code_names :: "string list" where
  "code_names =
     [''Success'', ''Full'', ''Empty'', ''IndexOutOfRange'', ''NotImplemented'',
      ''NoPCIMSI'', ''NoEnoughMemory'']"

definition error_name :: "error_code \<Rightarrow> string" where
  "error_name code =
     (let num_code = error_num code
      in if num_code < length code_names then code_names ! num_code else ''Unknown'')"

lemma error_bool_Success [simp]: "\<not> error_bool Success"
  by (simp add: error_bool_def)

lemma error_name_eq:
  "error_name c = (case c of Success \<Rightarrow> ''Success'' | Full \<Rightarrow> ''Full'' | Empty \<Rightarrow> ''Empty''
     | IndexOutOfRange \<Rightarrow> ''IndexOutOfRange'' | NotImplemented \<Rightarrow> ''NotImplemented''
     | NoPCIMSI \<Rightarrow> ''NoPCIMSI'' | NoEnoughMemory \<Rightarrow> ''NoEnoughMemory''
     | UnknownPixelFormat \<Rightarrow> ''Unknown'' | LastOfCode \<Rightarrow> ''Unknown'')"
  by (cases c) (simp_all add: error_name_def code_names_def)

subsection \<open>Loops that stop at the first error\<close>

text \<open>
  \<open>for (x : xs) if (auto err = body(x)) return err;\<close> followed by \<open>return Success\<close>, with the
  state the body changes.
\<close>

primrec each_until_error ::
    "('a \<Rightarrow> 's \<Rightarrow> (error_code \<times> 's) option) \<Rightarrow> 'a list \<Rightarrow> 's \<Rightarrow> (error_code \<times> 's) option" where
  "each_until_error body [] s = Some (Success, s)"
| "each_until_error body (x # xs) s = do {
     (err, s') \<leftarrow> body x s;
     if error_bool err then Some (err, s') else each_until_error body xs s' }"

text \<open>A property of states that every iteration keeps and that the body needs to be defined.\<close>

lemma each_until_error_total:
  assumes "\<And>x s. x \<in> set xs \<Longrightarrow> P s \<Longrightarrow> \<exists>e s'. body x s = Some (e, s') \<and> P s' \<and> E e" and "P s"
    and "E Success"
  shows "\<exists>e s'. each_until_error body xs s = Some (e, s') \<and> P s' \<and> E e"
  using assms
proof (induction xs arbitrary: s)
  case (Cons x xs)
  from Cons.prems(1)[of x s] Cons.prems(2) obtain e s1 where b: "body x s = Some (e, s1)" "P s1" "E e" by auto
  show ?case
  proof (cases "error_bool e")
    case True
    with b show ?thesis by simp
  next
    case False
    with b Cons show ?thesis by simp
  qed
qed simp

text \<open>Two bodies that agree give the same loop.\<close>

lemma each_until_error_mono:
  assumes "\<And>x s r. x \<in> set xs \<Longrightarrow> body x s = Some r \<Longrightarrow> body' x s = Some r"
    and "each_until_error body xs s = Some r"
  shows "each_until_error body' xs s = Some r"
  using assms
proof (induction xs arbitrary: s)
  case (Cons x xs)
  from Cons.prems(2) obtain e s1 where b: "body x s = Some (e, s1)"
    and r: "(if error_bool e then Some (e, s1) else each_until_error body xs s1) = Some r"
    by (auto simp: bind_eq_Some_conv)
  have b': "body' x s = Some (e, s1)" using Cons.prems(1) b by simp
  show ?case
  proof (cases "error_bool e")
    case True
    with b' r show ?thesis by auto
  next
    case False
    with b' r Cons.IH[of s1] Cons.prems(1) show ?thesis by simp
  qed
qed simp

text \<open>
  A relation between the state before and after, kept by every successful iteration: it then
  holds of the whole loop, and after a loop without errors every iteration has succeeded.
\<close>

lemma each_until_error_Success:
  assumes refl: "\<And>s. R s s" and trans: "\<And>s t u. R s t \<Longrightarrow> R t u \<Longrightarrow> R s u"
    and keep: "\<And>x s s'. R s s' \<Longrightarrow> Q x s \<Longrightarrow> Q x s'"
    and step: "\<And>x s s'. x \<in> set xs \<Longrightarrow> P s \<Longrightarrow> body x s = Some (Success, s') \<Longrightarrow> P s' \<and> R s s' \<and> Q x s'"
    and "P s" and "each_until_error body xs s = Some (Success, s')"
  shows "P s' \<and> R s s' \<and> (\<forall>x\<in>set xs. Q x s')"
  using step \<open>P s\<close> \<open>each_until_error body xs s = _\<close>
proof (induction xs arbitrary: s)
  case Nil
  then show ?case using refl by simp
next
  case (Cons x xs)
  from Cons.prems(3) obtain s1 where b: "body x s = Some (Success, s1)"
    and r: "each_until_error body xs s1 = Some (Success, s')"
    by (auto simp: bind_eq_Some_conv error_bool_def split: if_splits)
  have "P s1 \<and> R s s1 \<and> Q x s1"
    by (rule Cons.prems(1)[OF _ Cons.prems(2) b]) simp
  then have 1: "P s1" "R s s1" "Q x s1" by simp_all
  from r have "P s' \<and> R s1 s' \<and> (\<forall>x\<in>set xs. Q x s')"
    by (rule Cons.IH[rotated 2]) (rule Cons.prems(1), simp, assumption, assumption, rule 1(1))
  then have 2: "P s'" "R s1 s'" "\<forall>x\<in>set xs. Q x s'" by simp_all
  have "Q x s'" using 2(2) 1(3) by (rule keep)
  moreover have "R s s'" using 1(2) 2(2) by (rule trans)
  ultimately show ?case using 2(1,3) by simp
qed

end
