(* ===== verification/Memory_Manager.thy ===== *)
theory Memory_Manager
  imports Kernel_Error
begin

text \<open>
  The physical frame allocator: \<open>src/kernel/memory_manager.hpp\<close>,
  \<open>src/kernel/memory_manager.cpp\<close> and the memory map of \<open>src/kernel/memory_map.hpp\<close>.

  The bitmap \<open>alloc_map_\<close> is a \<open>std::array\<close> of 524288 lines of 64 bits. It is the function
  \<open>alloc_map\<close> on line numbers, read and written only below \<open>map_lines\<close>: an access at or
  beyond it is undefined in C++ and \<open>None\<close> here. Frame numbers and counts are 64-bit words
  with C++'s wrap-around.
\<close>

subsection \<open>The memory map handed over by the firmware\<close>

record memory_map =
  buffer_size :: u64
  buffer :: u64
  map_size :: u64
  map_key :: u64
  descriptor_size :: u64
  descriptor_version :: u32

record memory_descriptor =
  md_type :: u32
  physical_start :: u64
  virtual_start :: u64
  number_of_pages :: u64
  attribute :: u64

datatype memory_type =
    EfiReservedMemoryType | EfiLoaderCode | EfiLoaderData | EfiBootServicesCode
  | EfiBootServicesData | EfiRuntimeServicesCode | EfiRuntimeServicesData
  | EfiConventionalMemory | EfiUnusableMemory | EfiACPIReclaimMemory | EfiACPIMemoryNVS
  | EfiMemoryMappedIO | EfiMemoryMappedIOPortSpace | EfiPalCode | EfiPersistentMemory
  | EfiMaxMemoryType
  | EfiUnnamed u32

text \<open>
  \<open>static_cast<MemoryType>\<close>: the enum has the fixed underlying type \<open>uint32_t\<close>, so a
  number without an enumerator is a value of the enum too (\<open>EfiUnnamed\<close>).
\<close>

definition memory_type_names :: "memory_type list" where
  "memory_type_names =
     [EfiReservedMemoryType, EfiLoaderCode, EfiLoaderData, EfiBootServicesCode,
      EfiBootServicesData, EfiRuntimeServicesCode, EfiRuntimeServicesData,
      EfiConventionalMemory, EfiUnusableMemory, EfiACPIReclaimMemory, EfiACPIMemoryNVS,
      EfiMemoryMappedIO, EfiMemoryMappedIOPortSpace, EfiPalCode, EfiPersistentMemory,
      EfiMaxMemoryType]"

definition memory_type_of :: "u32 \<Rightarrow> memory_type" where
  "memory_type_of n =
     (if unat n < length memory_type_names then memory_type_names ! unat n else EfiUnnamed n)"

definition is_available :: "memory_type \<Rightarrow> bool" where
  "is_available t \<longleftrightarrow>
     t = EfiBootServicesCode \<or> t = EfiBootServicesData \<or> t = EfiConventionalMemory"

definition uefi_page_size :: u64 where
  "uefi_page_size = 4096"

subsection \<open>Frames and the bitmap\<close>

definition kib :: "u64 \<Rightarrow> u64" where "kib k = k * 1024"
definition mib :: "u64 \<Rightarrow> u64" where "mib m = m * kib 1024"
definition gib :: "u64 \<Rightarrow> u64" where "gib g = g * mib 1024"

definition bytes_per_frame :: u64 where
  "bytes_per_frame = kib 4"

datatype frame_id = FrameID (frame_num: u64)

definition frame :: "frame_id \<Rightarrow> u64" where
  "frame f = frame_num f * bytes_per_frame"

definition null_frame :: frame_id where
  "null_frame = FrameID (- 1)"

definition max_physical_memory_bytes :: u64 where
  "max_physical_memory_bytes = gib 128"

definition frame_count :: u64 where
  "frame_count = max_physical_memory_bytes div bytes_per_frame"

definition bits_per_map_line :: u64 where
  "bits_per_map_line = 8 * 8"

definition map_lines :: u64 where
  "map_lines = frame_count div bits_per_map_line"

record bitmap_memory_manager =
  alloc_map :: "nat \<Rightarrow> u64"
  range_begin :: frame_id
  range_end :: frame_id

definition new_bitmap_memory_manager :: bitmap_memory_manager where
  "new_bitmap_memory_manager =
     \<lparr>alloc_map = (\<lambda>_. 0), range_begin = FrameID 0, range_end = FrameID frame_count\<rparr>"

definition get_bit :: "bitmap_memory_manager \<Rightarrow> frame_id \<Rightarrow> bool option" where
  "get_bit m f =
     (let line_index = frame_num f div bits_per_map_line;
          bit_index = frame_num f mod bits_per_map_line
      in if line_index < map_lines
         then Some (alloc_map m (unat line_index) AND push_bit (unat bit_index) 1 \<noteq> 0)
         else None)"

definition set_bit :: "bitmap_memory_manager \<Rightarrow> frame_id \<Rightarrow> bool \<Rightarrow> bitmap_memory_manager option" where
  "set_bit m f allocated =
     (let line_index = frame_num f div bits_per_map_line;
          bit_index = frame_num f mod bits_per_map_line;
          line = alloc_map m (unat line_index)
      in if line_index < map_lines
         then Some (m\<lparr>alloc_map := (alloc_map m)(unat line_index :=
                (if allocated then line OR push_bit (unat bit_index) 1
                 else line AND NOT (push_bit (unat bit_index) 1)))\<rparr>)
         else None)"

subsection \<open>The operations\<close>

definition mark_allocated ::
    "bitmap_memory_manager \<Rightarrow> frame_id \<Rightarrow> u64 \<Rightarrow> bitmap_memory_manager option" where
  "mark_allocated m start_frame num_frames =
     for_range (\<lambda>i m. set_bit m (FrameID (frame_num start_frame + of_nat i)) True)
       0 (unat num_frames) m"

definition set_memory_range ::
    "bitmap_memory_manager \<Rightarrow> frame_id \<Rightarrow> frame_id \<Rightarrow> bitmap_memory_manager" where
  "set_memory_range m b e = m\<lparr>range_begin := b, range_end := e\<rparr>"

text \<open>
  The inner loop of \<open>allocate\<close>, from the current \<open>i\<close>: it leaves the function when the range
  is exhausted, and otherwise stops at the \<open>i\<close> of the first allocated frame, or at
  \<open>num_frames\<close> if there is none.
\<close>

datatype scan_result = Exhausted | Stopped u64

function scan_frames :: "bitmap_memory_manager \<Rightarrow> u64 \<Rightarrow> u64 \<Rightarrow> u64 \<Rightarrow> scan_result option" where
  "scan_frames m start_frame_id num_frames i =
     (if i < num_frames then
        (if frame_num (range_end m) \<le> start_frame_id + i then Some Exhausted
         else do {
           b \<leftarrow> get_bit m (FrameID (start_frame_id + i));
           if b then Some (Stopped i)
           else scan_frames m start_frame_id num_frames (i + 1) })
      else Some (Stopped i))"
  by pat_completeness auto
termination
proof (relation "measure (\<lambda>(m, s, n, i). unat n - unat i)", goal_cases)
  case (2 m s n i b)
  then show ?case by (simp add: unat_plus_1_less[of i n]) (simp add: word_less_nat_alt)
qed simp

declare scan_frames.simps [simp del]

text \<open>
  What the inner loop found, as the termination of the outer loop needs it: it stops
  before \<open>num_frames\<close> only at a frame inside the range, and the addition never wraps.
\<close>

lemma scan_frames_Stopped_bound:
  assumes "scan_frames m s n i = Some (Stopped j)" and "j \<noteq> n"
    and "unat s + unat i < 2 ^ 64" and "i \<le> n"
  shows "j < n \<and> unat s + unat j < unat (frame_num (range_end m))"
  using assms
proof (induction m s n i rule: scan_frames.induct)
  case (1 m s n i)
  show ?case
  proof (cases "i < n \<and> s + i < frame_num (range_end m)")
    case True
    from True have lt: "unat s + unat i < unat (frame_num (range_end m))"
      using 1(4) by (simp add: word_less_nat_alt unat_plus_eq)
    have "unat i < unat n" using True by (simp add: word_less_nat_alt)
    have Suc_i: "unat (i + 1) = unat i + 1" using True by (simp add: unat_plus_1_less[of i n])
    have E: "unat (frame_num (range_end m)) < 2 ^ 64" using unat_lt2p[of "frame_num (range_end m)"] by simp
    have "\<not> frame_num (range_end m) \<le> s + i" using True by (simp add: not_le)
    with True have eq: "scan_frames m s n i =
        get_bit m (FrameID (s + i)) \<bind> (\<lambda>b. if b then Some (Stopped i) else scan_frames m s n (i + 1))"
      by (simp add: scan_frames.simps[of m s n i])
    then obtain b where b: "get_bit m (FrameID (s + i)) = Some b"
      and res: "(if b then Some (Stopped i) else scan_frames m s n (i + 1)) = Some (Stopped j)"
      using "1.prems"(1) unfolding eq bind_eq_Some_conv by blast
    show ?thesis
    proof (cases b)
      case True
      with res lt \<open>i < n \<and> _\<close> show ?thesis by simp
    next
      case False
      moreover have "i + 1 \<le> n" using \<open>unat i < unat n\<close> Suc_i by (simp add: word_le_nat_alt)
      ultimately show ?thesis
        using 1(1)[OF _ _ b] res True lt E Suc_i "1.prems"(2) by (auto simp: not_le)
    qed
  next
    case False
    with "1.prems" show ?thesis by (auto simp: scan_frames.simps[of m s n i] split: if_splits)
  qed
qed

text \<open>The outer loop of \<open>allocate\<close>, from the current \<open>start_frame_id\<close>.\<close>

function allocate_from ::
    "bitmap_memory_manager \<Rightarrow> u64 \<Rightarrow> u64 \<Rightarrow> (frame_id with_error \<times> bitmap_memory_manager) option" where
  "allocate_from m num_frames start_frame_id =
     (case scan_frames m start_frame_id num_frames 0 of
        None \<Rightarrow> None
      | Some Exhausted \<Rightarrow> Some (\<lparr>we_value = null_frame, we_error = NoEnoughMemory\<rparr>, m)
      | Some (Stopped i) \<Rightarrow>
          if i = num_frames then do {
            m' \<leftarrow> mark_allocated m (FrameID start_frame_id) num_frames;
            Some (\<lparr>we_value = FrameID start_frame_id, we_error = Success\<rparr>, m') }
          else allocate_from m num_frames (start_frame_id + (i + 1)))"
  by pat_completeness auto
termination
proof (relation "measure (\<lambda>(m, n, s). unat (frame_num (range_end m)) - unat s)", goal_cases)
  case (2 m n s r i)
  then have b: "i < n \<and> unat s + unat i < unat (frame_num (range_end m))"
    using unat_lt2p[of s] by (intro scan_frames_Stopped_bound[where i = 0]) auto
  have E: "unat (frame_num (range_end m)) < 2 ^ 64" using unat_lt2p[of "frame_num (range_end m)"] by simp
  have "unat (i + 1) = unat i + 1" using b by (simp add: unat_plus_1_less[of i n])
  then have "unat (s + (i + 1)) = unat s + unat i + 1" using b E by (simp add: unat_plus_eq)
  moreover have "unat s + unat i < unat (frame_num (range_end m))" using b by simp
  ultimately show ?case by (simp only: in_measure prod.case)
qed simp

declare allocate_from.simps [simp del]

definition allocate ::
    "bitmap_memory_manager \<Rightarrow> u64 \<Rightarrow> (frame_id with_error \<times> bitmap_memory_manager) option" where
  "allocate m num_frames = allocate_from m num_frames (frame_num (range_begin m))"

definition free ::
    "bitmap_memory_manager \<Rightarrow> frame_id \<Rightarrow> u64 \<Rightarrow> (error_code \<times> bitmap_memory_manager) option" where
  "free m start_frame num_frames = do {
     m' \<leftarrow> for_range (\<lambda>i m. set_bit m (FrameID (frame_num start_frame + of_nat i)) False)
            0 (unat num_frames) m;
     Some (Success, m') }"

subsection \<open>The set of allocated frames\<close>

text \<open>
  The abstract state of the manager is the set of allocated frame numbers. \<open>frame_bit\<close> reads
  the bit of a frame, and \<open>manager_ok\<close> says that the managed range lies inside the bitmap.
\<close>

definition frame_bit :: "bitmap_memory_manager \<Rightarrow> nat \<Rightarrow> bool" where
  "frame_bit m g \<longleftrightarrow> bit (alloc_map m (g div 64)) (g mod 64)"

definition allocated_frames :: "bitmap_memory_manager \<Rightarrow> nat set" where
  "allocated_frames m = {g. frame_bit m g}"

definition managed_frames :: "bitmap_memory_manager \<Rightarrow> nat set" where
  "managed_frames m = {unat (frame_num (range_begin m))..<unat (frame_num (range_end m))}"

definition manager_ok :: "bitmap_memory_manager \<Rightarrow> bool" where
  "manager_ok m \<longleftrightarrow> frame_num (range_end m) \<le> frame_count"

definition frame_block :: "frame_id \<Rightarrow> u64 \<Rightarrow> nat set" where
  "frame_block f n = {unat (frame_num f)..<unat (frame_num f) + unat n}"

lemma frame_constants [simp]:
  "bytes_per_frame = 4096" "frame_count = 33554432" "bits_per_map_line = 64" "map_lines = 524288"
  "uefi_page_size = 4096"
  by (simp_all add: bytes_per_frame_def frame_count_def max_physical_memory_bytes_def
      bits_per_map_line_def map_lines_def gib_def mib_def kib_def uefi_page_size_def)

lemma line_index_less: "w div 64 < (524288 :: u64) \<longleftrightarrow> unat w < 33554432"
  by (simp add: word_less_nat_alt unat_div) arith

lemma get_bit_eq:
  "get_bit m f = (if unat (frame_num f) < 33554432 then Some (frame_bit m (unat (frame_num f))) else None)"
  by (simp add: get_bit_def Let_def line_index_less frame_bit_def unat_div unat_mod
      bit_iff_and_push_bit_not_eq_0)

lemma div_mod_eq_64: "(g::nat) = h \<longleftrightarrow> g div 64 = h div 64 \<and> g mod 64 = h mod 64"
  by (metis div_mult_mod_eq)

lemma set_bit_eq:
  "set_bit m f b =
     (if unat (frame_num f) < 33554432
      then Some (m\<lparr>alloc_map := (alloc_map m)(unat (frame_num f) div 64 :=
        (let line = alloc_map m (unat (frame_num f) div 64)
         in if b then line OR push_bit (unat (frame_num f) mod 64) 1
            else line AND NOT (push_bit (unat (frame_num f) mod 64) 1)))\<rparr>)
      else None)"
  by (simp add: set_bit_def Let_def line_index_less unat_div unat_mod)

lemma bit_set_line:
  "bit (if b then line OR push_bit k 1 else line AND NOT (push_bit k 1)) i \<longleftrightarrow>
     (if i = k then b else bit line i)"
  if "i < 64" "k < 64" for line :: u64
  using that by (auto simp: bit_simps)

lemma set_bit_frame_bit:
  assumes "set_bit m f b = Some m'"
  shows "frame_bit m' g \<longleftrightarrow> (if g = unat (frame_num f) then b else frame_bit m g)"
proof -
  let ?k = "unat (frame_num f)"
  have m': "alloc_map m' = (alloc_map m)(?k div 64 :=
      (if b then alloc_map m (?k div 64) OR push_bit (?k mod 64) 1
       else alloc_map m (?k div 64) AND NOT (push_bit (?k mod 64) 1)))"
    using assms by (auto simp: set_bit_eq Let_def split: if_splits)
  show ?thesis
  proof (cases "g div 64 = ?k div 64")
    case True
    then show ?thesis
      using bit_set_line[of "g mod 64" "?k mod 64" b "alloc_map m (?k div 64)"] div_mod_eq_64[of g ?k]
      by (simp add: frame_bit_def m')
  next
    case False
    then show ?thesis using div_mod_eq_64[of g ?k] by (simp add: frame_bit_def m')
  qed
qed

lemma set_bit_defined:
  "unat (frame_num f) < 33554432 \<Longrightarrow>
   \<exists>m'. set_bit m f b = Some m' \<and> range_begin m' = range_begin m \<and> range_end m' = range_end m"
  by (simp add: set_bit_eq)

text \<open>The loops of \<open>mark_allocated\<close> and \<open>free\<close> write \<open>b\<close> to a whole block.\<close>

lemma set_bits_loop:
  assumes "unat s + unat n \<le> 33554432"
  shows "\<exists>m'. for_range (\<lambda>i m. set_bit m (FrameID (s + of_nat i)) b) 0 (unat n) m = Some m' \<and>
    range_begin m' = range_begin m \<and> range_end m' = range_end m \<and>
    (\<forall>g. frame_bit m' g \<longleftrightarrow> (if g \<in> {unat s..<unat s + unat n} then b else frame_bit m g))"
proof -
  let ?P = "\<lambda>k m'. range_begin m' = range_begin m \<and> range_end m' = range_end m \<and>
    (\<forall>g. frame_bit m' g \<longleftrightarrow> (if g \<in> {unat s..<unat s + k} then b else frame_bit m g))"
  have "\<exists>m'. for_range (\<lambda>i m. set_bit m (FrameID (s + of_nat i)) b) 0 (unat n) m = Some m' \<and>
      ?P (0 + unat n) m'"
  proof (rule for_range_rule[where P = ?P])
    fix j t assume j: "j < 0 + unat n" and P: "?P j t"
    have "unat s + j < 2 ^ LENGTH(64)" using j assms by simp
    then have num: "unat (s + of_nat j) = unat s + j" by (rule unat_plus_of_nat)
    then obtain t' where t': "set_bit t (FrameID (s + of_nat j)) b = Some t'"
      "range_begin t' = range_begin t" "range_end t' = range_end t"
      using set_bit_defined[of "FrameID (s + of_nat j)" t b] j assms by auto
    have "?P (Suc j) t'" using P t' num by (auto simp: set_bit_frame_bit[OF t'(1)])
    with t' show "\<exists>t'. set_bit t (FrameID (s + of_nat j)) b = Some t' \<and> ?P (Suc j) t'" by blast
  qed auto
  then show ?thesis by simp
qed

lemma mark_allocated_spec:
  assumes "unat (frame_num f) + unat n \<le> 33554432"
  shows "\<exists>m'. mark_allocated m f n = Some m' \<and>
    range_begin m' = range_begin m \<and> range_end m' = range_end m \<and>
    allocated_frames m' = allocated_frames m \<union> frame_block f n"
proof -
  obtain m' where "mark_allocated m f n = Some m'"
    "range_begin m' = range_begin m" "range_end m' = range_end m"
    and bits: "\<And>g. frame_bit m' g \<longleftrightarrow> (if g \<in> frame_block f n then True else frame_bit m g)"
    unfolding mark_allocated_def frame_block_def
    using set_bits_loop[OF assms, where b = True and m = m] by blast
  moreover have "allocated_frames m' = allocated_frames m \<union> frame_block f n"
    by (rule set_eqI) (simp add: allocated_frames_def bits)
  ultimately show ?thesis by blast
qed

lemma free_spec:
  assumes "unat (frame_num f) + unat n \<le> 33554432"
  shows "\<exists>m'. free m f n = Some (Success, m') \<and>
    range_begin m' = range_begin m \<and> range_end m' = range_end m \<and>
    allocated_frames m' = allocated_frames m - frame_block f n"
proof -
  obtain m' where loop: "for_range (\<lambda>i m. set_bit m (FrameID (frame_num f + of_nat i)) False)
      0 (unat n) m = Some m'"
    and rest: "range_begin m' = range_begin m" "range_end m' = range_end m"
    and bits: "\<And>g. frame_bit m' g \<longleftrightarrow> (if g \<in> frame_block f n then False else frame_bit m g)"
    unfolding frame_block_def
    using set_bits_loop[OF assms, where b = False and m = m] by blast
  have "free m f n = Some (Success, m')" by (simp add: free_def loop)
  moreover have "allocated_frames m' = allocated_frames m - frame_block f n"
    by (rule set_eqI) (simp add: allocated_frames_def bits)
  ultimately show ?thesis using rest by blast
qed

subsection \<open>First fit\<close>

text \<open>
  What \<open>allocate\<close> promises, on the abstract state: the lowest block of \<open>n\<close> free frames inside
  the range.
\<close>

definition block_fits :: "nat set \<Rightarrow> nat \<Rightarrow> nat \<Rightarrow> nat \<Rightarrow> bool" where
  "block_fits A e n s \<longleftrightarrow> s + n \<le> e \<and> (\<forall>g\<in>{s..<s + n}. g \<notin> A)"

definition first_fit :: "nat set \<Rightarrow> nat \<Rightarrow> nat \<Rightarrow> nat \<Rightarrow> nat option" where
  "first_fit A b e n = find (block_fits A e n) [b..<e]"

lemma find_upt_Some:
  "P s \<Longrightarrow> b \<le> s \<Longrightarrow> s < e \<Longrightarrow> (\<And>t. b \<le> t \<Longrightarrow> t < s \<Longrightarrow> \<not> P t) \<Longrightarrow> find P [b..<e] = Some s"
  by (auto simp: find_Some_iff intro!: exI[of _ "s - b"])

lemma first_fit_here:
  "block_fits A e n s \<Longrightarrow> 0 < n \<Longrightarrow> first_fit A s e n = Some s"
  unfolding first_fit_def by (rule find_upt_Some) (auto simp: block_fits_def)

lemma first_fit_None:
  "(\<And>t. b \<le> t \<Longrightarrow> \<not> block_fits A e n t) \<Longrightarrow> first_fit A b e n = None"
  by (auto simp: first_fit_def find_None_iff)

lemma find_append: "find P (xs @ ys) = (case find P xs of None \<Rightarrow> find P ys | Some x \<Rightarrow> Some x)"
  by (induction xs) auto

lemma first_fit_skip:
  assumes "b \<le> c" and "\<And>t. b \<le> t \<Longrightarrow> t < c \<Longrightarrow> \<not> block_fits A e n t"
  shows "first_fit A b e n = first_fit A c e n"
proof (cases "c \<le> e")
  case True
  with assms(1) have "[b..<e] = [b..<c] @ [c..<e]" by (metis le_add_diff_inverse upt_add_eq_append)
  moreover have "find (block_fits A e n) [b..<c] = None" using assms(2) by (simp add: find_None_iff)
  ultimately show ?thesis by (simp add: first_fit_def find_append)
next
  case False
  then have "find (block_fits A e n) [b..<e] = None" using assms(2) by (simp add: find_None_iff)
  with False show ?thesis by (simp add: first_fit_def)
qed

text \<open>The inner loop, from \<open>i\<close>: defined, and what its result says of the frames.\<close>

lemma scan_frames_spec:
  fixes m s n i
  defines "E \<equiv> unat (frame_num (range_end m))"
  assumes "manager_ok m" and "unat s + unat i < 2 ^ 64" and "i \<le> n"
  shows "\<exists>r. scan_frames m s n i = Some r \<and>
    (case r of Exhausted \<Rightarrow> E < unat s + unat n
     | Stopped j \<Rightarrow> i \<le> j \<and> j \<le> n \<and> (\<forall>g\<in>{unat s + unat i..<unat s + unat j}. \<not> frame_bit m g) \<and>
         (j = n \<longrightarrow> i < n \<longrightarrow> unat s + unat n \<le> E) \<and>
         (j < n \<longrightarrow> unat s + unat j < E \<and> frame_bit m (unat s + unat j)))"
  using assms(2-4) unfolding E_def
proof (induction m s n i rule: scan_frames.induct)
  case (1 m s n i)
  let ?E = "unat (frame_num (range_end m))"
  have num: "unat (s + i) = unat s + unat i" using "1.prems"(2) by (simp add: unat_plus_eq)
  have E: "?E \<le> 33554432" using "1.prems"(1) by (simp add: manager_ok_def word_le_nat_alt)
  consider (over) "\<not> i < n" | (exhausted) "i < n" "frame_num (range_end m) \<le> s + i"
    | (busy) "i < n" "unat s + unat i < ?E" "frame_bit m (unat s + unat i)"
    | (free) "i < n" "unat s + unat i < ?E" "\<not> frame_bit m (unat s + unat i)"
    by (fastforce simp: word_le_nat_alt num)
  then show ?case
  proof cases
    case over
    then have "scan_frames m s n i = Some (Stopped i)" by (simp add: scan_frames.simps[of m s n i])
    with over "1.prems"(3) show ?thesis by auto
  next
    case exhausted
    then have "unat i < unat n" "?E \<le> unat s + unat i"
      by (simp_all add: word_less_nat_alt word_le_nat_alt num)
    then have "?E < unat s + unat n" by linarith
    with exhausted show ?thesis by (simp add: scan_frames.simps[of m s n i])
  next
    case busy
    then have "scan_frames m s n i = Some (Stopped i)"
      using E by (simp add: scan_frames.simps[of m s n i] word_le_nat_alt num get_bit_eq)
    with busy show ?thesis by auto
  next
    case free
    then have get: "get_bit m (FrameID (s + i)) = Some False"
      and nle: "\<not> frame_num (range_end m) \<le> s + i"
      using E by (simp_all add: word_le_nat_alt num get_bit_eq)
    have Suc_i: "unat (i + 1) = Suc (unat i)" using free by (simp add: unat_plus_1_less[of i n])
    have le: "i + 1 \<le> n" using free(1) Suc_i by (simp add: word_le_nat_alt word_less_nat_alt)
    have eq: "scan_frames m s n i = scan_frames m s n (i + 1)"
      using free nle get by (simp add: scan_frames.simps[of m s n i])
    have "unat s + unat (i + 1) < 2 ^ 64" using free(2) E Suc_i by simp
    from "1.IH"[OF free(1) nle get _ "1.prems"(1) this le]
    obtain r where r: "scan_frames m s n (i + 1) = Some r" and
      case_r: "case r of Exhausted \<Rightarrow> ?E < unat s + unat n
       | Stopped j \<Rightarrow> i + 1 \<le> j \<and> j \<le> n \<and> (\<forall>g\<in>{unat s + unat (i + 1)..<unat s + unat j}. \<not> frame_bit m g) \<and>
           (j = n \<longrightarrow> i + 1 < n \<longrightarrow> unat s + unat n \<le> ?E) \<and>
           (j < n \<longrightarrow> unat s + unat j < ?E \<and> frame_bit m (unat s + unat j))"
      by auto
    show ?thesis
    proof (cases r)
      case Exhausted
      with r case_r eq show ?thesis by simp
    next
      case (Stopped j)
      have ij: "Suc (unat i) \<le> unat j" using case_r Stopped Suc_i by (simp add: word_le_nat_alt)
      have "unat s + unat n \<le> ?E" if "j = n"
        using that case_r Stopped free(2) Suc_i ij
        by (cases "i + 1 < n") (auto simp: word_less_nat_alt)
      moreover have "\<not> frame_bit m g" if "g \<in> {unat s + unat i..<unat s + unat j}" for g
        using that case_r Stopped free(3) Suc_i by (cases "g = unat s + unat i") auto
      ultimately show ?thesis using r eq case_r Stopped ij by (auto simp: word_le_nat_alt)
    qed
  qed
qed

text \<open>
  The refinement of \<open>allocate\<close>: what a run from the abstract result \<open>ff\<close> of the first-fit
  search returns and leaves.
\<close>

definition refines_first_fit ::
    "bitmap_memory_manager \<Rightarrow> u64 \<Rightarrow> nat option \<Rightarrow>
     (frame_id with_error \<times> bitmap_memory_manager) option \<Rightarrow> bool" where
  "refines_first_fit m n ff res \<longleftrightarrow>
     (case ff of
        None \<Rightarrow> res = Some (\<lparr>we_value = null_frame, we_error = NoEnoughMemory\<rparr>, m)
      | Some f \<Rightarrow> \<exists>m'. res = Some (\<lparr>we_value = FrameID (of_nat f), we_error = Success\<rparr>, m') \<and>
          range_begin m' = range_begin m \<and> range_end m' = range_end m \<and>
          allocated_frames m' = allocated_frames m \<union> {f..<f + unat n})"

lemma scan_frames_from_0:
  assumes "manager_ok m" and "0 < n"
  defines "E \<equiv> unat (frame_num (range_end m))"
  shows "(scan_frames m s n 0 = Some Exhausted \<and> E < unat s + unat n) \<or>
    (scan_frames m s n 0 = Some (Stopped n) \<and> unat s + unat n \<le> E \<and>
       (\<forall>g\<in>{unat s..<unat s + unat n}. \<not> frame_bit m g)) \<or>
    (\<exists>j<n. scan_frames m s n 0 = Some (Stopped j) \<and> unat s + unat j < E \<and>
       frame_bit m (unat s + unat j))"
proof -
  have "unat s + unat (0 :: u64) < 2 ^ 64" using unat_lt2p[of s] by simp
  from scan_frames_spec[OF assms(1) this, of n] obtain r where r: "scan_frames m s n 0 = Some r"
    and case_r: "case r of Exhausted \<Rightarrow> E < unat s + unat n
       | Stopped j \<Rightarrow> 0 \<le> j \<and> j \<le> n \<and> (\<forall>g\<in>{unat s + unat (0 :: u64)..<unat s + unat j}. \<not> frame_bit m g) \<and>
           (j = n \<longrightarrow> 0 < n \<longrightarrow> unat s + unat n \<le> E) \<and>
           (j < n \<longrightarrow> unat s + unat j < E \<and> frame_bit m (unat s + unat j))"
    unfolding E_def by auto
  show ?thesis
  proof (cases r)
    case Exhausted
    with r case_r show ?thesis by simp
  next
    case (Stopped j)
    then have "j < n \<or> j = n" using case_r by auto
    with Stopped r case_r assms(2) show ?thesis by auto
  qed
qed

text \<open>The outer loop finds the lowest fitting block at or after its start.\<close>

lemma allocate_from_spec:
  assumes "manager_ok m" and "0 < n"
  shows "refines_first_fit m n
    (first_fit (allocated_frames m) (unat s) (unat (frame_num (range_end m))) (unat n))
    (allocate_from m n s)"
  using assms
proof (induction m n s rule: allocate_from.induct)
  case (1 m n s)
  let ?E = "unat (frame_num (range_end m))" and ?A = "allocated_frames m"
  have E: "?E \<le> 33554432" using "1.prems"(1) by (simp add: manager_ok_def word_le_nat_alt)
  have n0: "0 < unat n" using "1.prems"(2) by (simp add: word_less_nat_alt)
  consider (exhausted) "scan_frames m s n 0 = Some Exhausted" "?E < unat s + unat n"
    | (fits) "scan_frames m s n 0 = Some (Stopped n)" "unat s + unat n \<le> ?E"
        "\<forall>g\<in>{unat s..<unat s + unat n}. \<not> frame_bit m g"
    | (busy) j where "scan_frames m s n 0 = Some (Stopped j)" "j < n" "unat s + unat j < ?E"
        "frame_bit m (unat s + unat j)"
    using scan_frames_from_0[OF "1.prems", of s] by blast
  then show ?case
  proof cases
    case exhausted
    then have "first_fit ?A (unat s) ?E (unat n) = None"
      by (intro first_fit_None) (simp add: block_fits_def)
    with exhausted(1) show ?thesis by (simp add: refines_first_fit_def allocate_from.simps[of m n s])
  next
    case fits
    then have "first_fit ?A (unat s) ?E (unat n) = Some (unat s)"
      using n0 by (intro first_fit_here) (simp_all add: block_fits_def allocated_frames_def)
    moreover have "unat (frame_num (FrameID s)) + unat n \<le> 33554432" using fits(2) E by simp
    from mark_allocated_spec[OF this, of m] obtain m' where
      "mark_allocated m (FrameID s) n = Some m'" "range_begin m' = range_begin m"
      "range_end m' = range_end m" "allocated_frames m' = ?A \<union> frame_block (FrameID s) n" by blast
    ultimately show ?thesis
      using fits(1) by (simp add: refines_first_fit_def allocate_from.simps[of m n s] frame_block_def)
  next
    case busy
    have "unat (j + 1) = Suc (unat j)" using busy(2) by (rule unat_plus_1_less)
    then have next_s: "unat (s + (j + 1)) = unat s + unat j + 1"
      using busy(3) E by (simp add: unat_plus_eq)
    have j: "unat j < unat n" using busy(2) by (simp add: word_less_nat_alt)
    have "first_fit ?A (unat s) ?E (unat n) = first_fit ?A (unat (s + (j + 1))) ?E (unat n)"
    proof (rule first_fit_skip)
      fix t assume t: "unat s \<le> t" "t < unat (s + (j + 1))"
      then have "unat s + unat j \<in> {t..<t + unat n}" using next_s j by simp
      then show "\<not> block_fits ?A ?E (unat n) t"
        using busy(4) unfolding block_fits_def allocated_frames_def by blast
    qed (simp add: next_s)
    moreover have "j \<noteq> n" using busy(2) by simp
    moreover have "allocate_from m n s = allocate_from m n (s + (j + 1))"
      using busy(1) \<open>j \<noteq> n\<close> by (simp add: allocate_from.simps[of m n s])
    ultimately show ?thesis using "1.IH"[OF busy(1) refl _ "1.prems"] by simp
  qed
qed

text \<open>Claim C1.
  The allocator is a first-fit allocator. For any manager whose range lies inside the bitmap
  and any positive number of frames, \<open>allocate\<close> has a result (no out-of-range access, no
  endless loop). When some block of that many free frames lies inside the range, it succeeds
  with the lowest such block, marks exactly these frames and keeps the range; otherwise it
  returns \<open>null_frame\<close> with \<open>NoEnoughMemory\<close> and leaves the manager as it was.
\<close>

theorem allocate_first_fit:
  assumes "manager_ok m" and "0 < n"
  shows "case first_fit (allocated_frames m) (unat (frame_num (range_begin m)))
                (unat (frame_num (range_end m))) (unat n) of
       None \<Rightarrow> allocate m n = Some (\<lparr>we_value = null_frame, we_error = NoEnoughMemory\<rparr>, m)
     | Some f \<Rightarrow> \<exists>m'. allocate m n = Some (\<lparr>we_value = FrameID (of_nat f), we_error = Success\<rparr>, m') \<and>
         range_begin m' = range_begin m \<and> range_end m' = range_end m \<and>
         allocated_frames m' = allocated_frames m \<union> {f..<f + unat n}"
  using allocate_from_spec[OF assms, of "frame_num (range_begin m)"]
  unfolding allocate_def refines_first_fit_def .

text \<open>A fresh manager in which frames 0 and 2 are taken: the first free pair is 3 and 4.\<close>

definition example_manager :: bitmap_memory_manager where
  "example_manager = new_bitmap_memory_manager\<lparr>alloc_map := (\<lambda>_. 0)(0 := 5), range_end := FrameID 6\<rparr>"

lemma example_manager_bits:
  "range_begin example_manager = FrameID 0" "range_end example_manager = FrameID 6"
  "manager_ok example_manager" "allocated_frames example_manager = {0, 2}"
proof -
  have eq: "(5 :: int) = push_bit 2 1 OR 1" by simp
  have five: "bit (5 :: int) k \<longleftrightarrow> k = 0 \<or> k = 2" for k
    unfolding eq bit_or_iff bit_push_bit_iff bit_1_iff by auto
  have "frame_bit example_manager g \<longleftrightarrow> g \<in> {0, 2}" for g
    by (auto simp: frame_bit_def example_manager_def five div_eq_0_iff)
  then show "allocated_frames example_manager = {0, 2}" by (auto simp: allocated_frames_def)
qed (simp_all add: example_manager_def new_bitmap_memory_manager_def manager_ok_def)

theorem allocate_first_fit_witness:
  "\<exists>m'. allocate example_manager 2 = Some (\<lparr>we_value = FrameID 3, we_error = Success\<rparr>, m') \<and>
     allocated_frames m' = {0, 2, 3, 4}"
proof -
  have ff: "first_fit {0, 2} 0 6 2 = Some 3"
    by (simp add: first_fit_def block_fits_def upt_rec atLeastLessThan_upt numeral_eq_Suc)
  have two: "(0 :: u64) < 2" by simp
  show ?thesis
    using allocate_first_fit[OF example_manager_bits(3) two]
    by (auto simp: example_manager_bits ff)
qed

subsection \<open>The allocator interface\<close>

text \<open>
  What a client of the frame allocator may rely on: every call has a result, a success
  hands out managed frames nobody holds and takes exactly them, a failure changes nothing,
  and releasing a block gives exactly its frames back.
\<close>

locale frame_allocator =
  fixes alloc :: "'s \<Rightarrow> u64 \<Rightarrow> (frame_id with_error \<times> 's) option"
    and release :: "'s \<Rightarrow> frame_id \<Rightarrow> u64 \<Rightarrow> (error_code \<times> 's) option"
    and used :: "'s \<Rightarrow> nat set"
    and managed :: "'s \<Rightarrow> nat set"
    and ok :: "'s \<Rightarrow> bool"
  assumes alloc_total: "ok s \<Longrightarrow> \<exists>r. alloc s n = Some r"
    and alloc_success: "ok s \<Longrightarrow> alloc s n = Some (r, s') \<Longrightarrow> we_error r = Success \<Longrightarrow>
      ok s' \<and> managed s' = managed s \<and> frame_block (we_value r) n \<subseteq> managed s - used s \<and>
      used s' = used s \<union> frame_block (we_value r) n"
    and alloc_failure: "ok s \<Longrightarrow> alloc s n = Some (r, s') \<Longrightarrow> we_error r \<noteq> Success \<Longrightarrow> s' = s"
    and release_block: "ok s \<Longrightarrow> frame_block f n \<subseteq> managed s \<Longrightarrow>
      \<exists>s'. release s f n = Some (Success, s') \<and> ok s' \<and> managed s' = managed s \<and>
        used s' = used s - frame_block f n"

text \<open>A client that asks for blocks of the given sizes, one after the other, and keeps those it gets.\<close>

primrec alloc_seq ::
    "('s \<Rightarrow> u64 \<Rightarrow> (frame_id with_error \<times> 's) option) \<Rightarrow> 's \<Rightarrow> u64 list \<Rightarrow>
     (nat set list \<times> 's) option" where
  "alloc_seq alloc s [] = Some ([], s)"
| "alloc_seq alloc s (n # ns) = do {
     (r, s') \<leftarrow> alloc s n;
     (bs, s'') \<leftarrow> alloc_seq alloc s' ns;
     Some (if we_error r = Success then frame_block (we_value r) n # bs else bs, s'') }"

fun pairwise_disjoint :: "nat set list \<Rightarrow> bool" where
  "pairwise_disjoint [] = True"
| "pairwise_disjoint (b # bs) = ((\<forall>c\<in>set bs. b \<inter> c = {}) \<and> pairwise_disjoint bs)"

context frame_allocator
begin

lemma seq_total: "ok s \<Longrightarrow> \<exists>bs s'. alloc_seq alloc s ns = Some (bs, s') \<and> ok s' \<and> managed s' = managed s"
proof (induction ns arbitrary: s)
  case (Cons n ns)
  then obtain r s1 where r: "alloc s n = Some (r, s1)" using alloc_total by fastforce
  have s1: "ok s1 \<and> managed s1 = managed s"
    using Cons.prems r alloc_success[OF Cons.prems r] alloc_failure[OF Cons.prems r] by blast
  then obtain bs s2 where "alloc_seq alloc s1 ns = Some (bs, s2)" "ok s2" "managed s2 = managed s1"
    using Cons.IH by blast
  with r s1 show ?case by simp
qed simp

lemma seq_blocks:
  "ok s \<Longrightarrow> alloc_seq alloc s ns = Some (bs, s') \<Longrightarrow>
   pairwise_disjoint bs \<and> (\<forall>b\<in>set bs. b \<subseteq> managed s - used s) \<and> used s' = used s \<union> \<Union> (set bs)"
proof (induction ns arbitrary: s bs)
  case (Cons n ns)
  from Cons.prems(2) obtain r s1 bs1 where r: "alloc s n = Some (r, s1)"
    and rest: "alloc_seq alloc s1 ns = Some (bs1, s')"
    and bs: "bs = (if we_error r = Success then frame_block (we_value r) n # bs1 else bs1)"
    by (auto simp: bind_eq_Some_conv)
  show ?case
  proof (cases "we_error r = Success")
    case True
    with alloc_success[OF Cons.prems(1) r] have s1: "ok s1" "managed s1 = managed s"
      "frame_block (we_value r) n \<subseteq> managed s - used s" "used s1 = used s \<union> frame_block (we_value r) n"
      by auto
    from Cons.IH[OF s1(1) rest] s1 bs True show ?thesis by (simp add: Un_assoc) blast
  next
    case False
    with alloc_failure[OF Cons.prems(1) r] have "s1 = s" by simp
    with Cons.IH[OF Cons.prems(1)] rest bs False show ?thesis by simp
  qed
qed simp

lemma alloc_release:
  assumes "ok s" and "alloc s n = Some (r, s')" and "we_error r = Success"
  shows "\<exists>s''. release s' (we_value r) n = Some (Success, s'') \<and> used s'' = used s \<and> managed s'' = managed s"
proof -
  from alloc_success[OF assms] have "ok s'" "managed s' = managed s"
    "frame_block (we_value r) n \<subseteq> managed s - used s" "used s' = used s \<union> frame_block (we_value r) n"
    by auto
  moreover from calculation release_block[of s' "we_value r" n] obtain s'' where
    "release s' (we_value r) n = Some (Success, s'')" "managed s'' = managed s'"
    "used s'' = used s' - frame_block (we_value r) n" by blast
  ultimately show ?thesis by blast
qed

end

text \<open>The bitmap manager provides the interface.\<close>

lemma allocate_0: "allocate m 0 = Some (\<lparr>we_value = range_begin m, we_error = Success\<rparr>, m)"
  by (simp add: allocate_def allocate_from.simps[of m 0] scan_frames.simps[of m _ 0] mark_allocated_def)

lemma first_fit_SomeD:
  "first_fit A b e n = Some f \<Longrightarrow> b \<le> f \<and> f + n \<le> e \<and> {f..<f + n} \<inter> A = {}"
  by (auto simp: first_fit_def find_Some_iff block_fits_def nth_append)

lemma allocate_cases:
  assumes "manager_ok m"
  obtains (none) "allocate m n = Some (\<lparr>we_value = null_frame, we_error = NoEnoughMemory\<rparr>, m)"
  | (some) f m' where "allocate m n = Some (\<lparr>we_value = f, we_error = Success\<rparr>, m')" "manager_ok m'"
      "managed_frames m' = managed_frames m" "frame_block f n \<subseteq> managed_frames m - allocated_frames m"
      "allocated_frames m' = allocated_frames m \<union> frame_block f n"
proof (cases "n = 0")
  case True
  with assms some[of "range_begin m" m] show ?thesis by (simp add: allocate_0 frame_block_def)
next
  case False
  let ?E = "unat (frame_num (range_end m))" and ?B = "unat (frame_num (range_begin m))"
  let ?ff = "first_fit (allocated_frames m) ?B ?E (unat n)"
  have ref: "refines_first_fit m n ?ff (allocate m n)"
    unfolding allocate_def using False assms by (intro allocate_from_spec) (auto simp: word_neq_0_conv)
  show ?thesis
  proof (cases ?ff)
    case None
    with ref none show ?thesis by (simp add: refines_first_fit_def)
  next
    case (Some f)
    with ref obtain m' where m': "allocate m n = Some (\<lparr>we_value = FrameID (of_nat f), we_error = Success\<rparr>, m')"
      "range_begin m' = range_begin m" "range_end m' = range_end m"
      "allocated_frames m' = allocated_frames m \<union> {f..<f + unat n}"
      by (auto simp: refines_first_fit_def)
    have fd: "?B \<le> f" "f + unat n \<le> ?E" "{f..<f + unat n} \<inter> allocated_frames m = {}"
      using first_fit_SomeD[OF Some] by auto
    have "f < 2 ^ 64" using fd(2) unat_lt2p[of "frame_num (range_end m)"] by simp
    then have blk: "frame_block (FrameID (of_nat f)) n = {f..<f + unat n}"
      by (simp add: frame_block_def unat_of_nat_eq)
    have "frame_block (FrameID (of_nat f)) n \<subseteq> managed_frames m - allocated_frames m"
      unfolding blk managed_frames_def using fd by fastforce
    with m' assms show ?thesis
      by (intro some[OF m'(1)]) (simp_all add: manager_ok_def managed_frames_def blk)
  qed
qed

lemma free_total:
  assumes "manager_ok m" and "frame_block f n \<subseteq> managed_frames m"
  shows "\<exists>m'. free m f n = Some (Success, m') \<and> manager_ok m' \<and> managed_frames m' = managed_frames m \<and>
    allocated_frames m' = allocated_frames m - frame_block f n"
proof (cases "n = 0")
  case True
  with assms show ?thesis by (simp add: free_def frame_block_def)
next
  case False
  then have n: "0 < unat n" by (simp add: unat_gt_0)
  then have "unat (frame_num f) + unat n - 1 \<in> frame_block f n" by (auto simp: frame_block_def)
  with assms(2) have "unat (frame_num f) + unat n - 1 < unat (frame_num (range_end m))"
    unfolding managed_frames_def by (meson atLeastLessThan_iff subsetD)
  with assms(1) n have "unat (frame_num f) + unat n \<le> 33554432"
    by (simp add: manager_ok_def word_le_nat_alt)
  from free_spec[OF this, of m] assms show ?thesis
    by (auto simp: manager_ok_def managed_frames_def)
qed

interpretation bitmap: frame_allocator allocate free allocated_frames managed_frames manager_ok
proof
  show "\<exists>r. allocate s n = Some r" if "manager_ok s" for s n
    using that by (rule allocate_cases[of s n]) auto
  show "manager_ok s' \<and> managed_frames s' = managed_frames s \<and>
      frame_block (we_value r) n \<subseteq> managed_frames s - allocated_frames s \<and>
      allocated_frames s' = allocated_frames s \<union> frame_block (we_value r) n"
    if "manager_ok s" "allocate s n = Some (r, s')" "we_error r = Success" for s n r s'
    using that(1) by (rule allocate_cases[of s n]) (use that in auto)
  show "s' = s" if "manager_ok s" "allocate s n = Some (r, s')" "we_error r \<noteq> Success" for s n r s'
    using that(1) by (rule allocate_cases[of s n]) (use that in auto)
qed (rule free_total)

subsection \<open>What clients get\<close>

text \<open>Claim C2.
  A client that asks the manager for any sequence of block sizes always gets an answer, and
  the blocks it is given are pairwise disjoint, inside the managed range and disjoint from
  the frames that were taken before; afterwards exactly these frames are taken in addition.
\<close>

theorem allocations_disjoint:
  assumes "manager_ok m"
  shows "\<exists>bs m'. alloc_seq allocate m ns = Some (bs, m') \<and> pairwise_disjoint bs \<and>
    (\<forall>b\<in>set bs. b \<subseteq> managed_frames m - allocated_frames m) \<and>
    allocated_frames m' = allocated_frames m \<union> \<Union> (set bs)"
  using bitmap.seq_total[OF assms, of ns] bitmap.seq_blocks[OF assms, of ns] by blast

theorem allocations_disjoint_witness:
  "\<exists>bs m'. alloc_seq allocate example_manager [1, 7, 2] = Some (bs, m') \<and> pairwise_disjoint bs \<and>
    (\<forall>b\<in>set bs. b \<subseteq> managed_frames example_manager - {0, 2})"
  using allocations_disjoint[OF example_manager_bits(3), of "[1, 7, 2]"] example_manager_bits(4) by auto

text \<open>Claim C3.
  Freeing what was just allocated undoes the allocation: after a successful \<open>allocate\<close>,
  \<open>free\<close> of the returned frames succeeds, and the set of allocated frames and the managed
  range are what they were before.
\<close>

theorem allocate_free_roundtrip:
  assumes "manager_ok m" and "allocate m n = Some (r, m')" and "we_error r = Success"
  shows "\<exists>m''. free m' (we_value r) n = Some (Success, m'') \<and>
    allocated_frames m'' = allocated_frames m \<and> managed_frames m'' = managed_frames m"
  using bitmap.alloc_release[OF assms] by blast

theorem allocate_free_roundtrip_witness:
  "\<exists>m' m''. allocate example_manager 2 = Some (\<lparr>we_value = FrameID 3, we_error = Success\<rparr>, m') \<and>
     free m' (FrameID 3) 2 = Some (Success, m'') \<and> allocated_frames m'' = {0, 2}"
proof -
  have "first_fit {0, 2} 0 6 2 = Some 3"
    by (simp add: first_fit_def block_fits_def upt_rec atLeastLessThan_upt numeral_eq_Suc)
  moreover have "refines_first_fit example_manager 2
      (first_fit {0, 2} 0 6 (unat (2 :: u64))) (allocate example_manager 2)"
    using allocate_from_spec[OF example_manager_bits(3), of 2 0]
    by (simp add: allocate_def example_manager_bits)
  ultimately obtain m' where
    a: "allocate example_manager 2 = Some (\<lparr>we_value = FrameID 3, we_error = Success\<rparr>, m')"
    by (auto simp: refines_first_fit_def)
  from allocate_free_roundtrip[OF example_manager_bits(3) a] a show ?thesis
    by (auto simp: example_manager_bits)
qed

end
