(* ===== verification/Heap.thy ===== *)
theory Heap
  imports Memory_Manager
begin

text \<open>
  The heap of the C library: \<open>sbrk\<close> and \<open>initialize_heap\<close> of \<open>src/kernel/sbrk.cpp\<close>.

  \<open>caddr_t\<close> is a pointer to \<open>char\<close>, so \<open>program_break + incr\<close> adds the sign-extended 32-bit
  \<open>incr\<close> to the address and \<open>>=\<close> compares addresses. The two file-scope pointers and the C
  library's \<open>errno\<close> are the state.
\<close>

datatype errno_code = ENOMEM

record heap_state =
  program_break :: u64
  program_break_end :: u64
  errno :: "errno_code option"

definition sbrk :: "heap_state \<Rightarrow> 32 word \<Rightarrow> u64 \<times> heap_state" where
  "sbrk h incr =
     (if program_break h = 0 \<or> program_break_end h \<le> program_break h + scast incr
      then (- 1, h\<lparr>errno := Some ENOMEM\<rparr>)
      else (program_break h, h\<lparr>program_break := program_break h + scast incr\<rparr>))"

definition heap_frames :: u64 where
  "heap_frames = 64 * 512"

definition initialize_heap ::
    "bitmap_memory_manager \<Rightarrow> heap_state \<Rightarrow> (error_code \<times> bitmap_memory_manager \<times> heap_state) option" where
  "initialize_heap mm h = do {
     (heap_start, mm') \<leftarrow> allocate mm heap_frames;
     if error_bool (we_error heap_start) then Some (we_error heap_start, mm', h)
     else let b = frame_num (we_value heap_start) * bytes_per_frame
          in Some (Success, mm', h\<lparr>program_break := b, program_break_end := b + heap_frames * bytes_per_frame\<rparr>) }"

subsection \<open>Runs of \<open>sbrk\<close>\<close>

text \<open>
  A run of calls: the areas of the calls that succeeded, as sets of byte addresses, and the
  state at the end. \<open>heap_ok\<close>: the break is set, at most the end, and far from the end of the
  address space.
\<close>

fun sbrk_run :: "heap_state \<Rightarrow> 32 word list \<Rightarrow> nat set list \<times> heap_state" where
  "sbrk_run h [] = ([], h)"
| "sbrk_run h (incr # incrs) =
     (let (p, h') = sbrk h incr; (areas, h'') = sbrk_run h' incrs
      in (if p = - 1 then areas else {unat p..<unat p + nat (sint incr)} # areas, h''))"

definition heap_ok :: "heap_state \<Rightarrow> bool" where
  "heap_ok h \<longleftrightarrow> program_break h \<noteq> 0 \<and> program_break h \<le> program_break_end h \<and>
     unat (program_break_end h) < 2 ^ 63"

definition heap_area :: "heap_state \<Rightarrow> nat set" where
  "heap_area h = {unat (program_break h)..<unat (program_break_end h)}"

lemma unat_plus_scast:
  fixes p :: u64 and incr :: "32 word"
  assumes "0 \<le> sint incr" and "unat p < 2 ^ 63"
  shows "unat (p + scast incr) = unat p + nat (sint incr)"
proof -
  have lt: "sint incr < 2 ^ 31" using sint_lt[of incr] by simp
  have "uint (scast incr :: u64) = take_bit 64 (sint incr)"
    unfolding scast_eq by (simp only: unsigned_of_int) simp
  then have s: "unat (scast incr :: u64) = nat (sint incr)"
    using assms(1) lt by (simp add: unat_eq_nat_uint take_bit_int_eq_self)
  have "unat p + unat (scast incr :: u64) < 2 ^ LENGTH(64)"
    unfolding s using assms lt by (simp add: nat_less_iff)
  from unat_plus_eq[OF this] s show ?thesis by simp
qed

text \<open>One call with a non-negative increment: on success the area starts at the old break.\<close>

lemma sbrk_cases:
  assumes "heap_ok h" and "0 \<le> sint incr"
  obtains (fail) "sbrk h incr = (- 1, h\<lparr>errno := Some ENOMEM\<rparr>)"
      "unat (program_break_end h) \<le> unat (program_break h) + nat (sint incr)"
  | (ok) "sbrk h incr = (program_break h, h\<lparr>program_break := program_break h + scast incr\<rparr>)"
      "program_break h \<noteq> - 1"
      "unat (program_break h + scast incr) = unat (program_break h) + nat (sint incr)"
      "unat (program_break h) + nat (sint incr) < unat (program_break_end h)"
proof -
  have b: "unat (program_break h) < 2 ^ 63" using assms(1) by (simp add: heap_ok_def word_le_nat_alt)
  note s = unat_plus_scast[OF assms(2) b]
  show ?thesis
  proof (cases "program_break_end h \<le> program_break h + scast incr")
    case True
    with s show ?thesis by (intro fail) (simp_all add: sbrk_def word_le_nat_alt)
  next
    case False
    have "program_break h \<noteq> - 1"
    proof
      assume "program_break h = - 1"
      with b show False by (simp add: unsigned_minus_1_eq_mask mask_eq_exp_minus_1)
    qed
    with False s assms(1) show ?thesis
      by (intro ok) (simp_all add: sbrk_def heap_ok_def word_le_nat_alt not_le)
  qed
qed

lemma sbrk_run_areas:
  assumes "heap_ok h" and "\<forall>incr\<in>set incrs. 0 \<le> sint incr" and "sbrk_run h incrs = (areas, h')"
  shows "heap_ok h' \<and> pairwise_disjoint areas \<and> (\<forall>a\<in>set areas. a \<subseteq> heap_area h) \<and>
    program_break_end h' = program_break_end h"
  using assms
proof (induction incrs arbitrary: h areas)
  case (Cons incr incrs)
  have incr: "0 \<le> sint incr" using Cons.prems(2) by simp
  from Cons.prems(1) incr show ?case
  proof (cases rule: sbrk_cases)
    case fail
    let ?h1 = "h\<lparr>errno := Some ENOMEM\<rparr>"
    have "sbrk_run ?h1 incrs = (areas, h')" using Cons.prems(3) fail by (auto split: prod.splits)
    moreover have "heap_ok ?h1" using Cons.prems(1) by (simp add: heap_ok_def)
    ultimately have "heap_ok h' \<and> pairwise_disjoint areas \<and> (\<forall>a\<in>set areas. a \<subseteq> heap_area ?h1) \<and>
      program_break_end h' = program_break_end ?h1"
      using Cons.IH Cons.prems(2) by simp
    then show ?thesis by (simp add: heap_area_def)
  next
    case ok
    let ?h1 = "h\<lparr>program_break := program_break h + scast incr\<rparr>"
    let ?a = "{unat (program_break h)..<unat (program_break h) + nat (sint incr)}"
    obtain areas1 where rest: "sbrk_run ?h1 incrs = (areas1, h')" and areas: "areas = ?a # areas1"
      using Cons.prems(3) ok by (auto split: prod.splits)
    have h1: "heap_ok ?h1"
      using Cons.prems(1) ok(3,4) by (auto simp: heap_ok_def word_le_nat_alt unat_eq_0[symmetric])
    have area1: "heap_area ?h1 = {unat (program_break h) + nat (sint incr)..<unat (program_break_end h)}"
      by (simp add: heap_area_def ok(3))
    from Cons.IH[OF h1 _ rest] Cons.prems(2)
    have IH: "heap_ok h'" "pairwise_disjoint areas1" "\<forall>a\<in>set areas1. a \<subseteq> heap_area ?h1"
      "program_break_end h' = program_break_end h" by auto
    have "?a \<inter> c = {}" if "c \<in> set areas1" for c using that IH(3) area1 by fastforce
    moreover have "a \<subseteq> heap_area h" if "a \<in> set areas1" for a
      using that IH(3) area1 by (fastforce simp: heap_area_def)
    moreover have "?a \<subseteq> heap_area h" using ok(4) by (auto simp: heap_area_def)
    ultimately show ?thesis using IH areas by auto
  qed
qed simp

subsection \<open>The heap lies in its own frames\<close>

definition frame_bytes :: "nat set \<Rightarrow> nat set" where
  "frame_bytes F = {a. a div 4096 \<in> F}"

lemma initialize_heap_cases:
  assumes "manager_ok m"
  obtains (none) "initialize_heap m h = Some (NoEnoughMemory, m, h)"
  | (some) f m' where "initialize_heap m h = Some (Success, m', h\<lparr>program_break := f * 4096,
        program_break_end := f * 4096 + 134217728\<rparr>)" "manager_ok m'"
      "frame_block (FrameID f) 32768 \<subseteq> managed_frames m - allocated_frames m"
      "allocated_frames m' = allocated_frames m \<union> frame_block (FrameID f) 32768"
proof (cases rule: allocate_cases[OF assms, of 32768])
  case 1
  then show ?thesis
    by (intro none) (simp add: initialize_heap_def heap_frames_def error_bool_def)
next
  case (2 f m')
  then show ?thesis
    by (intro some[of m' "frame_num f"]) (simp_all add: initialize_heap_def heap_frames_def Let_def)
qed

text \<open>
  The bytes between the two pointers are the bytes of the block: none of the multiplications
  wraps, because the manager's frames end at 128 GiB.
\<close>

lemma heap_area_frames:
  assumes "manager_ok m" and "frame_block (FrameID f) 32768 \<subseteq> managed_frames m"
    and "1 \<le> frame_num (range_begin m)"
    and h: "h' = h\<lparr>program_break := f * 4096, program_break_end := f * 4096 + 134217728\<rparr>"
  shows "heap_ok h'" and "heap_area h' = frame_bytes (frame_block (FrameID f) 32768)"
proof -
  have "unat f \<in> frame_block (FrameID f) 32768" "unat f + 32767 \<in> frame_block (FrameID f) 32768"
    by (simp_all add: frame_block_def)
  with assms(2) have "unat f \<in> managed_frames m" "unat f + 32767 \<in> managed_frames m" by blast+
  then have f: "1 \<le> unat f" "unat f + 32768 \<le> 33554432"
    using assms(1,3) by (auto simp: managed_frames_def manager_ok_def word_le_nat_alt)
  have b: "unat (f * 4096) = unat f * 4096" using f unat_mult_eq[of f 4096] by simp
  moreover have e: "unat (f * 4096 + 134217728) = unat f * 4096 + 134217728"
    using f b unat_plus_eq[of "f * 4096" 134217728] by simp
  ultimately show "heap_ok h'"
    using f unfolding h heap_ok_def by (auto simp: word_le_nat_alt unat_eq_0[symmetric])
  show "heap_area h' = frame_bytes (frame_block (FrameID f) 32768)"
    by (auto simp: h heap_area_def frame_bytes_def frame_block_def b e)
qed

text \<open>Claim C6.
  After \<open>initialize_heap\<close> succeeded on a manager that never hands out frame 0, every sequence
  of \<open>sbrk\<close> calls with non-negative increments returns areas that are pairwise disjoint and
  lie in the frames that \<open>initialize_heap\<close> took from the free frames of the manager: the heap
  never overlaps itself or memory of anybody else.
\<close>

theorem heap_areas_private:
  assumes "manager_ok m" and "1 \<le> frame_num (range_begin m)"
    and "initialize_heap m h = Some (Success, m', h')" and "\<forall>incr\<in>set incrs. 0 \<le> sint incr"
  shows "pairwise_disjoint (fst (sbrk_run h' incrs)) \<and>
    (\<forall>a\<in>set (fst (sbrk_run h' incrs)). a \<subseteq> frame_bytes (allocated_frames m' - allocated_frames m)) \<and>
    card (allocated_frames m' - allocated_frames m) = 32768"
proof (cases rule: initialize_heap_cases[OF assms(1), of h])
  case 1
  with assms(3) show ?thesis by simp
next
  case (2 f m1)
  with assms(3) have h': "h' = h\<lparr>program_break := f * 4096, program_break_end := f * 4096 + 134217728\<rparr>"
    and m1: "m1 = m'" by simp_all
  from 2 have blk: "frame_block (FrameID f) 32768 \<subseteq> managed_frames m" by blast
  note ok = heap_area_frames[OF assms(1) blk assms(2) h']
  obtain areas h'' where run: "sbrk_run h' incrs = (areas, h'')" by fastforce
  have "allocated_frames m' - allocated_frames m = frame_block (FrameID f) 32768"
    using 2 m1 by auto
  moreover have "card (frame_block (FrameID f) 32768) = 32768" by (simp add: frame_block_def)
  ultimately show ?thesis
    using sbrk_run_areas[OF ok(1) assms(4) run] ok(2) run by simp
qed

definition example_free_manager :: bitmap_memory_manager where
  "example_free_manager = new_bitmap_memory_manager\<lparr>range_begin := FrameID 1\<rparr>"

definition example_heap :: heap_state where
  "example_heap = \<lparr>program_break = 0, program_break_end = 0, errno = None\<rparr>"

lemma example_free_manager_ok:
  "manager_ok example_free_manager" "allocated_frames example_free_manager = {}"
  "range_begin example_free_manager = FrameID 1" "range_end example_free_manager = FrameID 33554432"
  by (simp_all add: example_free_manager_def new_bitmap_memory_manager_def manager_ok_def
      allocated_frames_def frame_bit_def)

lemma example_initialize_heap:
  "\<exists>m'. initialize_heap example_free_manager example_heap =
     Some (Success, m', \<lparr>program_break = 4096, program_break_end = 134221824, errno = None\<rparr>)"
proof -
  have "first_fit {} 1 33554432 32768 = Some 1"
    by (rule first_fit_here) (simp_all add: block_fits_def)
  with allocate_from_spec[OF example_free_manager_ok(1), of 32768 1] show ?thesis
    by (auto simp: initialize_heap_def allocate_def heap_frames_def example_free_manager_ok
        refines_first_fit_def example_heap_def)
qed

theorem heap_areas_private_witness:
  "\<exists>m' h'. initialize_heap example_free_manager example_heap = Some (Success, m', h') \<and>
     pairwise_disjoint (fst (sbrk_run h' [16, 4096])) \<and>
     (\<forall>a\<in>set (fst (sbrk_run h' [16, 4096])). a \<subseteq> frame_bytes (allocated_frames m' - {}))"
proof -
  obtain m' h' where i: "initialize_heap example_free_manager example_heap = Some (Success, m', h')"
    using example_initialize_heap by blast
  have b: "1 \<le> frame_num (range_begin example_free_manager)" by (simp add: example_free_manager_ok)
  have n: "\<forall>incr\<in>set [16, 4096 :: 32 word]. 0 \<le> sint incr" by simp
  note p = heap_areas_private[OF example_free_manager_ok(1) b i n, unfolded example_free_manager_ok(2)]
  show ?thesis
    by (intro exI conjI, rule i, rule conjunct1[OF p], rule conjunct1[OF conjunct2[OF p]])
qed

end
