(* ===== verification/Memory_Init.thy ===== *)
theory Memory_Init
  imports Memory_Manager
begin

text \<open>
  \<open>initialize_memory_manager\<close> of \<open>src/kernel/memory_manager.cpp\<close>: the walk over the UEFI
  memory map that marks the frames the kernel may not use.

  The descriptors are read through a pointer that steps through the firmware's buffer, so
  the memory is a parameter: \<open>mem a\<close> is the descriptor stored at address \<open>a\<close>. The loop is a
  \<open>partial_function\<close>: with a descriptor size of 0 it would never end, and then its value is
  \<open>None\<close>, as it is when the bitmap is written out of range.
\<close>

definition init_gap :: "u64 \<Rightarrow> memory_descriptor \<Rightarrow> bitmap_memory_manager \<Rightarrow> bitmap_memory_manager option" where
  "init_gap available_end desc mm =
     (if available_end < physical_start desc
      then mark_allocated mm (FrameID (available_end div bytes_per_frame))
             ((physical_start desc - available_end) div bytes_per_frame)
      else Some mm)"

definition init_region ::
    "u64 \<Rightarrow> memory_descriptor \<Rightarrow> bitmap_memory_manager \<Rightarrow> (u64 \<times> bitmap_memory_manager) option" where
  "init_region available_end desc mm =
     (if is_available (memory_type_of (md_type desc))
      then Some (physical_start desc + number_of_pages desc * uefi_page_size, mm)
      else do {
        mm' \<leftarrow> mark_allocated mm (FrameID (physical_start desc div bytes_per_frame))
                (number_of_pages desc * uefi_page_size div bytes_per_frame);
        Some (available_end, mm') })"

text \<open>The body of the loop, for the descriptor \<open>desc\<close> the iterator points to.\<close>

definition init_step ::
    "memory_descriptor \<Rightarrow> u64 \<times> bitmap_memory_manager \<Rightarrow> (u64 \<times> bitmap_memory_manager) option" where
  "init_step desc st = do {
     mm \<leftarrow> init_gap (fst st) desc (snd st);
     init_region (fst st) desc mm }"

partial_function (option) init_loop ::
    "(u64 \<Rightarrow> memory_descriptor) \<Rightarrow> u64 \<Rightarrow> u64 \<Rightarrow> u64 \<Rightarrow> u64 \<times> bitmap_memory_manager \<Rightarrow>
     (u64 \<times> bitmap_memory_manager) option" where
  "init_loop mem map_end desc_size iter st =
     (if iter < map_end then do {
        st' \<leftarrow> init_step (mem iter) st;
        init_loop mem map_end desc_size (iter + desc_size) st' }
      else Some st)"

definition initialize_memory_manager ::
    "(u64 \<Rightarrow> memory_descriptor) \<Rightarrow> memory_map \<Rightarrow> bitmap_memory_manager \<Rightarrow> bitmap_memory_manager option" where
  "initialize_memory_manager mem mmap mm = do {
     (available_end, mm') \<leftarrow>
        init_loop mem (buffer mmap + map_size mmap) (descriptor_size mmap) (buffer mmap) (0, mm);
     Some (set_memory_range mm' (FrameID 1) (FrameID (available_end div bytes_per_frame))) }"

subsection \<open>The loop as a fold over the descriptors\<close>

definition descriptors :: "(u64 \<Rightarrow> memory_descriptor) \<Rightarrow> memory_map \<Rightarrow> nat \<Rightarrow> memory_descriptor list" where
  "descriptors mem mmap k = map (\<lambda>i. mem (buffer mmap + of_nat i * descriptor_size mmap)) [0..<k]"

fun init_all ::
    "memory_descriptor list \<Rightarrow> u64 \<times> bitmap_memory_manager \<Rightarrow> (u64 \<times> bitmap_memory_manager) option" where
  "init_all [] st = Some st"
| "init_all (d # ds) st = do { st' \<leftarrow> init_step d st; init_all ds st' }"

text \<open>
  The map has exactly \<open>k\<close> descriptors of a positive size, and the buffer does not reach
  the end of the address space.
\<close>

definition map_has :: "memory_map \<Rightarrow> nat \<Rightarrow> bool" where
  "map_has mmap k \<longleftrightarrow> 0 < descriptor_size mmap \<and> unat (map_size mmap) = k * unat (descriptor_size mmap) \<and>
     unat (buffer mmap) + unat (map_size mmap) < 2 ^ 64"

lemma init_loop_fold:
  assumes "0 < d" and "unat iter + k * unat d < 2 ^ 64" and "unat e = unat iter + k * unat d"
  shows "init_loop mem e d iter st = init_all (map (\<lambda>i. mem (iter + of_nat i * d)) [0..<k]) st"
  using assms
proof (induction k arbitrary: iter st)
  case 0
  then have "\<not> iter < e" by (simp add: word_less_nat_alt)
  then show ?case by (simp add: init_loop.simps)
next
  case (Suc k)
  have d: "0 < unat d" using Suc.prems(1) by (simp add: word_less_nat_alt)
  then have lt: "iter < e" using Suc.prems(3) by (simp add: word_less_nat_alt)
  have "unat iter + unat d < 2 ^ LENGTH(64)" using Suc.prems(2) by simp
  then have nxt: "unat (iter + d) = unat iter + unat d" by (rule unat_plus_eq)
  have ds: "map (\<lambda>i. mem (iter + of_nat i * d)) [0..<Suc k] =
      mem iter # map (\<lambda>i. mem (iter + d + of_nat i * d)) [0..<k]"
    by (simp add: upt_conv_Cons map_Suc_upt[symmetric] algebra_simps del: upt_Suc)
  have IH: "init_loop mem e d (iter + d) = init_all (map (\<lambda>i. mem (iter + d + of_nat i * d)) [0..<k])"
    using Suc.prems nxt by (intro ext Suc.IH) simp_all
  show ?case unfolding ds by (subst init_loop.simps) (simp add: lt IH)
qed

lemma initialize_fold:
  assumes "map_has mmap k"
  shows "initialize_memory_manager mem mmap mm = do {
     (available_end, mm') \<leftarrow> init_all (descriptors mem mmap k) (0, mm);
     Some (set_memory_range mm' (FrameID 1) (FrameID (available_end div bytes_per_frame))) }"
proof -
  have "unat (buffer mmap) + unat (map_size mmap) < 2 ^ LENGTH(64)" using assms by (simp add: map_has_def)
  from unat_plus_eq[OF this] assms show ?thesis
    unfolding initialize_memory_manager_def descriptors_def
    by (subst init_loop_fold[where k = k]) (auto simp: map_has_def)
qed

subsection \<open>The frames the map gives to the kernel\<close>

text \<open>
  \<open>desc_frames\<close> are the frames a descriptor covers and \<open>usable_frames\<close> those that an
  available descriptor covers. A \<open>sound_map\<close> has page-aligned regions inside the 128 GiB
  the bitmap covers, in ascending order and without overlap.
\<close>

definition desc_first :: "memory_descriptor \<Rightarrow> nat" where
  "desc_first d = unat (physical_start d) div 4096"

definition desc_end :: "memory_descriptor \<Rightarrow> nat" where
  "desc_end d = desc_first d + unat (number_of_pages d)"

definition desc_frames :: "memory_descriptor \<Rightarrow> nat set" where
  "desc_frames d = {desc_first d..<desc_end d}"

definition usable_frames :: "memory_descriptor list \<Rightarrow> nat set" where
  "usable_frames ds = \<Union> (desc_frames ` {d \<in> set ds. is_available (memory_type_of (md_type d))})"

fun sound_map :: "nat \<Rightarrow> memory_descriptor list \<Rightarrow> bool" where
  "sound_map lo [] = True"
| "sound_map lo (d # ds) =
     (unat (physical_start d) mod 4096 = 0 \<and> desc_end d \<le> 33554432 \<and> lo \<le> desc_first d \<and>
      sound_map (desc_end d) ds)"

text \<open>
  The invariant of the walk, with \<open>lo\<close> the end of the last region and \<open>V\<close> the usable frames
  seen so far: below \<open>available_end\<close> the free frames are exactly \<open>V\<close>, and nothing from \<open>lo\<close>
  on is marked yet.
\<close>

definition init_inv :: "nat \<Rightarrow> nat set \<Rightarrow> u64 \<times> bitmap_memory_manager \<Rightarrow> bool" where
  "init_inv lo V st \<longleftrightarrow>
     (let av = unat (fst st) div 4096; A = allocated_frames (snd st)
      in unat (fst st) mod 4096 = 0 \<and> av \<le> lo \<and> lo \<le> 33554432 \<and> V \<subseteq> {..<av} \<and>
         V \<inter> A = {} \<and> {..<av} - V \<subseteq> A \<and> A \<subseteq> {..<lo})"

lemma desc_words:
  assumes "unat (physical_start d) mod 4096 = 0" and "desc_end d \<le> 33554432"
  shows "unat (physical_start d) = 4096 * desc_first d"
    and "unat (number_of_pages d * 4096) = 4096 * unat (number_of_pages d)"
    and "unat (physical_start d + number_of_pages d * 4096) = 4096 * desc_end d"
proof -
  show start: "unat (physical_start d) = 4096 * desc_first d"
    using mult_div_mod_eq[of 4096 "unat (physical_start d)"] assms(1) by (simp add: desc_first_def)
  have "unat (number_of_pages d) * unat (4096 :: u64) < 2 ^ LENGTH(64)"
    using assms(2) by (simp add: desc_end_def)
  then show pages: "unat (number_of_pages d * 4096) = 4096 * unat (number_of_pages d)"
    by (subst unat_mult_eq) simp_all
  have "unat (physical_start d) + unat (number_of_pages d * 4096) < 2 ^ LENGTH(64)"
    using assms(2) unfolding start pages by (simp add: desc_end_def)
  then show "unat (physical_start d + number_of_pages d * 4096) = 4096 * desc_end d"
    by (subst unat_plus_eq) (simp_all add: start pages desc_end_def)
qed

lemma init_gap_spec:
  assumes inv: "init_inv lo V (av, mm)" and "lo \<le> desc_first d"
    and d: "unat (physical_start d) mod 4096 = 0" "desc_end d \<le> 33554432"
  shows "\<exists>mm'. init_gap av d mm = Some mm' \<and>
    allocated_frames mm' = allocated_frames mm \<union> {unat av div 4096..<desc_first d}"
proof -
  note w = desc_words[OF d]
  from inv have av: "unat av = 4096 * (unat av div 4096)" "unat av div 4096 \<le> lo"
    by (auto simp: init_inv_def Let_def)
  show ?thesis
  proof (cases "av < physical_start d")
    case True
    then have sub: "unat (physical_start d - av) = 4096 * (desc_first d - unat av div 4096)"
      using av w(1) by (subst unat_sub) (auto simp: word_less_nat_alt word_le_nat_alt diff_mult_distrib2)
    let ?f = "FrameID (av div 4096)" and ?n = "(physical_start d - av) div 4096"
    have n: "unat ?n = desc_first d - unat av div 4096" by (simp add: unat_div sub)
    have f: "unat (frame_num ?f) = unat av div 4096" by (simp add: unat_div)
    have "unat (frame_num ?f) + unat ?n \<le> 33554432"
      using n f av(2) assms(2) d(2) by (simp add: desc_end_def)
    from mark_allocated_spec[OF this, of mm] True n f av(2) assms(2) show ?thesis
      by (auto simp: init_gap_def frame_block_def)
  next
    case False
    then have "desc_first d \<le> unat av div 4096"
      using w(1) by (simp add: word_less_nat_alt)
    with False show ?thesis by (auto simp: init_gap_def)
  qed
qed

lemma init_step_inv:
  assumes inv: "init_inv lo V st" and lo: "lo \<le> desc_first d"
    and d: "unat (physical_start d) mod 4096 = 0" "desc_end d \<le> 33554432"
  shows "\<exists>st'. init_step d st = Some st' \<and>
    init_inv (desc_end d)
      (V \<union> (if is_available (memory_type_of (md_type d)) then desc_frames d else {})) st'"
proof -
  obtain av mm where st: "st = (av, mm)" by (cases st)
  note w = desc_words[OF d]
  from init_gap_spec[OF inv[unfolded st] lo d] obtain mm1 where gap: "init_gap av d mm = Some mm1"
    and A1: "allocated_frames mm1 = allocated_frames mm \<union> {unat av div 4096..<desc_first d}" by blast
  have le: "desc_first d \<le> desc_end d" by (simp add: desc_end_def)
  show ?thesis
  proof (cases "is_available (memory_type_of (md_type d))")
    case True
    then have "init_step d st = Some (physical_start d + number_of_pages d * 4096, mm1)"
      by (simp add: init_step_def st gap init_region_def)
    moreover have "init_inv (desc_end d) (V \<union> desc_frames d) (physical_start d + number_of_pages d * 4096, mm1)"
      using inv lo d(2) le unfolding init_inv_def Let_def st fst_conv snd_conv w(3) A1
      by (auto simp: desc_frames_def)
    ultimately show ?thesis using True by auto
  next
    case False
    let ?f = "FrameID (physical_start d div 4096)" and ?n = "number_of_pages d * 4096 div 4096"
    have n: "unat ?n = unat (number_of_pages d)" and f: "unat (frame_num ?f) = desc_first d"
      by (simp_all add: unat_div w(2) desc_first_def)
    have "unat (frame_num ?f) + unat ?n \<le> 33554432" using n f d(2) by (simp add: desc_end_def)
    from mark_allocated_spec[OF this, of mm1] obtain mm2 where
      m2: "mark_allocated mm1 ?f ?n = Some mm2" "allocated_frames mm2 = allocated_frames mm1 \<union> desc_frames d"
      using n f by (auto simp: frame_block_def desc_frames_def desc_end_def)
    then have "init_step d st = Some (av, mm2)"
      using False by (simp add: init_step_def st gap init_region_def)
    moreover have "init_inv (desc_end d) V (av, mm2)"
      using inv lo d(2) le unfolding init_inv_def Let_def st fst_conv snd_conv m2(2) A1
      by (auto simp: desc_frames_def)
    ultimately show ?thesis using False by auto
  qed
qed

lemma init_all_inv:
  "init_inv lo V st \<Longrightarrow> sound_map lo ds \<Longrightarrow>
   \<exists>lo' st'. init_all ds st = Some st' \<and> init_inv lo' (V \<union> usable_frames ds) st'"
proof (induction ds arbitrary: lo V st)
  case Nil
  then show ?case by (auto simp: usable_frames_def)
next
  case (Cons d ds)
  let ?D = "if is_available (memory_type_of (md_type d)) then desc_frames d else {}"
  from Cons.prems have sd: "unat (physical_start d) mod 4096 = 0" "desc_end d \<le> 33554432"
    "lo \<le> desc_first d" "sound_map (desc_end d) ds" by auto
  from init_step_inv[OF Cons.prems(1) sd(3,1,2)] obtain st1
    where st1: "init_step d st = Some st1" "init_inv (desc_end d) (V \<union> ?D) st1" by blast
  have "V \<union> ?D \<union> usable_frames ds = V \<union> usable_frames (d # ds)"
    by (auto simp: usable_frames_def)
  with Cons.IH[OF st1(2) sd(4)] st1(1) show ?case by auto
qed

lemma initialize_usable:
  assumes "map_has mmap k" and "sound_map 0 (descriptors mem mmap k)"
  shows "\<exists>m. initialize_memory_manager mem mmap new_bitmap_memory_manager = Some m \<and> manager_ok m \<and>
    range_begin m = FrameID 1 \<and>
    managed_frames m - allocated_frames m = usable_frames (descriptors mem mmap k) - {0}"
proof -
  let ?V = "usable_frames (descriptors mem mmap k)"
  have "init_inv 0 {} (0, new_bitmap_memory_manager)"
    by (simp add: init_inv_def allocated_frames_def frame_bit_def new_bitmap_memory_manager_def)
  from init_all_inv[OF this assms(2)] obtain lo av mm where
    run: "init_all (descriptors mem mmap k) (0, new_bitmap_memory_manager) = Some (av, mm)"
    and inv: "init_inv lo ?V (av, mm)" by auto
  let ?m = "set_memory_range mm (FrameID 1) (FrameID (av div 4096))"
  have "allocated_frames ?m = allocated_frames mm"
    by (simp add: allocated_frames_def frame_bit_def set_memory_range_def)
  moreover have "managed_frames ?m = {1..<unat av div 4096}"
    by (simp add: managed_frames_def set_memory_range_def unat_div)
  moreover have "manager_ok ?m"
    using inv by (simp add: manager_ok_def set_memory_range_def word_le_nat_alt unat_div init_inv_def Let_def)
  moreover have "range_begin ?m = FrameID 1" by (simp add: set_memory_range_def)
  ultimately show ?thesis
    using run inv by (auto simp: initialize_fold[OF assms(1)] init_inv_def Let_def)
qed

text \<open>Claim C4.
  Initialisation gives the kernel exactly the usable memory. For a memory map of \<open>k\<close>
  descriptors that are page-aligned, ascending, without overlap and inside 128 GiB,
  \<open>initialize_memory_manager\<close> on a fresh manager has a result, the managed range lies inside
  the bitmap, and the managed frames that are free are exactly the frames of the available
  regions, without frame 0.
\<close>

theorem initialize_memory_manager_usable:
  assumes "map_has mmap k" and "sound_map 0 (descriptors mem mmap k)"
  shows "\<exists>m. initialize_memory_manager mem mmap new_bitmap_memory_manager = Some m \<and> manager_ok m \<and>
    managed_frames m - allocated_frames m = usable_frames (descriptors mem mmap k) - {0}"
  using initialize_usable[OF assms] by blast

text \<open>
  A map of three regions: 2 pages of conventional memory at 0, a reserved page at frame 4
  and 3 pages of boot-services data at frame 5. Usable: frames 1, 5, 6 and 7.
\<close>

definition example_mem :: "u64 \<Rightarrow> memory_descriptor" where
  "example_mem a =
     (if a = 0x1000 then \<lparr>md_type = 7, physical_start = 0, virtual_start = 0, number_of_pages = 2, attribute = 0\<rparr>
      else if a = 0x1030 then \<lparr>md_type = 0, physical_start = 0x4000, virtual_start = 0, number_of_pages = 1, attribute = 0\<rparr>
      else \<lparr>md_type = 4, physical_start = 0x5000, virtual_start = 0, number_of_pages = 3, attribute = 0\<rparr>)"

definition example_map :: memory_map where
  "example_map = \<lparr>buffer_size = 0x4000, buffer = 0x1000, map_size = 0x90, map_key = 0,
     descriptor_size = 0x30, descriptor_version = 1\<rparr>"

theorem initialize_memory_manager_usable_witness:
  "\<exists>m. initialize_memory_manager example_mem example_map new_bitmap_memory_manager = Some m \<and>
     managed_frames m - allocated_frames m = {1, 5, 6, 7}"
proof -
  have h: "map_has example_map 3" by (simp add: map_has_def example_map_def)
  have ds: "descriptors example_mem example_map 3 = [example_mem 0x1000, example_mem 0x1030, example_mem 0x1060]"
    by (simp add: descriptors_def example_map_def upt_rec)
  have s: "sound_map 0 (descriptors example_mem example_map 3)"
    by (simp add: ds example_mem_def desc_end_def desc_first_def)
  have av: "is_available (memory_type_of (md_type (example_mem 0x1000)))"
    "\<not> is_available (memory_type_of (md_type (example_mem 0x1030)))"
    "is_available (memory_type_of (md_type (example_mem 0x1060)))"
    by (simp_all add: example_mem_def is_available_def memory_type_of_def memory_type_names_def)
  have "{d \<in> set (descriptors example_mem example_map 3). is_available (memory_type_of (md_type d))} =
      {example_mem 0x1000, example_mem 0x1060}"
    unfolding ds using av by auto
  moreover have "desc_frames (example_mem 0x1000) = {0..<Suc (Suc 0)}" "desc_frames (example_mem 0x1060) = {5..<8}"
    by (simp_all add: desc_frames_def desc_end_def desc_first_def example_mem_def)
  ultimately have "usable_frames (descriptors example_mem example_map 3) = {0..<Suc (Suc 0)} \<union> {5..<8}"
    unfolding usable_frames_def by simp
  moreover have "{0..<Suc (Suc 0)} \<union> {5..<8} - {0} = {1, 5, 6, 7 :: nat}"
    by (rule set_eqI) (simp, presburger)
  ultimately have "usable_frames (descriptors example_mem example_map 3) - {0} = {1, 5, 6, 7}" by simp
  with initialize_memory_manager_usable[OF h s] show ?thesis by auto
qed

subsection \<open>Regions the bitmap does not cover\<close>

lemma mark_allocated_out_of_range:
  assumes "33554432 < unat (frame_num f) + unat n" and "0 < unat n"
    and "unat (frame_num f) + unat n < 2 ^ 64"
  shows "mark_allocated m f n = None"
proof -
  let ?j = "max (unat (frame_num f)) 33554432 - unat (frame_num f)"
  have "?j < unat n" using assms(1,2) by (simp add: max_def) linarith
  moreover have "set_bit m' (FrameID (frame_num f + of_nat ?j)) True = None" for m'
  proof -
    have "unat (frame_num f) + ?j < 2 ^ LENGTH(64)" using \<open>?j < unat n\<close> assms(3) by simp
    from unat_plus_of_nat[OF this] show ?thesis by (simp add: set_bit_eq max_def)
  qed
  ultimately show ?thesis
    unfolding mark_allocated_def by (intro for_range_None[where j = ?j]) simp_all
qed

lemma init_step_out_of_range:
  assumes "\<not> is_available (memory_type_of (md_type d))" and "33554432 < desc_end d"
    and "0 < number_of_pages d" and "unat (number_of_pages d) < 2 ^ 51"
  shows "init_step d st = None"
proof -
  have "unat (number_of_pages d) * unat (4096 :: u64) < 2 ^ LENGTH(64)" using assms(4) by simp
  from unat_mult_eq[OF this] have n: "unat (number_of_pages d * 4096 div 4096) = unat (number_of_pages d)"
    by (simp add: unat_div)
  have f: "unat (physical_start d div 4096) = desc_first d" by (simp add: unat_div desc_first_def)
  have "desc_first d < 2 ^ 52"
    unfolding desc_first_def using unat_lt2p[of "physical_start d"] by (simp add: less_mult_imp_div_less)
  then have "mark_allocated mm (FrameID (physical_start d div 4096)) (number_of_pages d * 4096 div 4096) = None" for mm
    using assms n f by (intro mark_allocated_out_of_range) (simp_all add: desc_end_def word_less_nat_alt)
  with assms(1) show ?thesis
    by (cases "init_gap (fst st) d (snd st)") (simp_all add: init_step_def init_region_def)
qed

lemma init_all_None: "d \<in> set ds \<Longrightarrow> (\<And>st. init_step d st = None) \<Longrightarrow> init_all ds st = None"
proof (induction ds arbitrary: st)
  case (Cons e ds)
  show ?case
  proof (cases "d = e")
    case True
    with Cons.prems(2) show ?thesis by simp
  next
    case False
    with Cons.prems(1) have "d \<in> set ds" by simp
    then have "init_all ds = (\<lambda>_. None)" using Cons.IH Cons.prems(2) by blast
    then show ?thesis by simp
  qed
qed simp

text \<open>Claim C5.
  The walk does not check the bitmap's size: as soon as the map has an unavailable region,
  of at least one and less than 2^51 pages, that reaches beyond 128 GiB,
  \<open>initialize_memory_manager\<close> writes outside \<open>alloc_map_\<close>, whatever the rest of the map is.
\<close>

theorem initialize_memory_manager_out_of_range:
  assumes "map_has mmap k" and "d \<in> set (descriptors mem mmap k)"
    and "\<not> is_available (memory_type_of (md_type d))" and "33554432 < desc_end d"
    and "0 < number_of_pages d" and "unat (number_of_pages d) < 2 ^ 51"
  shows "initialize_memory_manager mem mmap m = None"
  using init_all_None[OF assms(2) init_step_out_of_range[OF assms(3-6)]]
  by (simp add: initialize_fold[OF assms(1)])

text \<open>A memory map with one page of reserved memory at 1012 GiB.\<close>

theorem initialize_memory_manager_out_of_range_witness:
  "initialize_memory_manager
     (\<lambda>_. \<lparr>md_type = 0, physical_start = 0xfd00000000, virtual_start = 0, number_of_pages = 1, attribute = 0\<rparr>)
     (example_map\<lparr>map_size := 0x30\<rparr>) new_bitmap_memory_manager = None"
  by (rule initialize_memory_manager_out_of_range[where k = 1 and d = "\<lparr>md_type = 0,
        physical_start = 0xfd00000000, virtual_start = 0, number_of_pages = 1, attribute = 0\<rparr>"])
     (simp_all add: map_has_def example_map_def descriptors_def is_available_def memory_type_of_def
        memory_type_names_def desc_end_def desc_first_def)

end
