(* ===== verification/Paging.thy ===== *)
theory Paging
  imports Prelude
begin

text \<open>
  The identity page table: \<open>setup_identity_page_table\<close> of \<open>src/kernel/paging.cpp\<close>, and the
  four-level address translation of the x86-64 processor that reads it.

  The three static arrays are lists. Where the linker puts them is not in the sources: the
  addresses are a parameter (\<open>table_addrs\<close>), and \<open>addrs_ok\<close> says what \<open>alignas(4096)\<close> and the
  separate storage of the arrays guarantee. Static arrays start zero-filled.
\<close>

definition page_directory_count :: nat where
  "page_directory_count = 64"

definition page_size_4k :: u64 where
  "page_size_4k = 4096"

definition page_size_2m :: u64 where
  "page_size_2m = 512 * page_size_4k"

definition page_size_1g :: u64 where
  "page_size_1g = 512 * page_size_2m"

record page_tables =
  pml4_table :: "u64 list"
  pdp_table :: "u64 list"
  page_directory :: "u64 list list"
  cr3 :: u64

record table_addrs =
  pml4_addr :: u64
  pdp_addr :: u64
  pd_addr :: u64

text \<open>\<open>&page_directory[i]\<close>: the rows are contiguous and have 4096 bytes each.\<close>

definition pd_row_addr :: "table_addrs \<Rightarrow> nat \<Rightarrow> u64" where
  "pd_row_addr a i = pd_addr a + of_nat i * 4096"

definition new_page_tables :: "u64 \<Rightarrow> page_tables" where
  "new_page_tables c = \<lparr>pml4_table = replicate 512 0, pdp_table = replicate 512 0,
     page_directory = replicate page_directory_count (replicate 512 0), cr3 = c\<rparr>"

definition page_entry :: "nat \<Rightarrow> nat \<Rightarrow> u64" where
  "page_entry i_pdpt i_pd = (of_nat i_pdpt * page_size_1g + of_nat i_pd * page_size_2m) OR 0x083"

definition setup_identity_page_table :: "table_addrs \<Rightarrow> page_tables \<Rightarrow> page_tables" where
  "setup_identity_page_table a t0 =
     (let t1 = t0\<lparr>pml4_table := (pml4_table t0)[0 := pdp_addr a OR 0x003]\<rparr>;
          t2 = fold (\<lambda>i_pdpt t.
                 let t' = t\<lparr>pdp_table := (pdp_table t)[i_pdpt := pd_row_addr a i_pdpt OR 0x003]\<rparr>;
                     row = fold (\<lambda>i_pd r. r[i_pd := page_entry i_pdpt i_pd]) [0..<512] (page_directory t' ! i_pdpt)
                 in t'\<lparr>page_directory := (page_directory t')[i_pdpt := row]\<rparr>)
               [0..<length (page_directory t1)] t1
      in t2\<lparr>cr3 := pml4_addr a\<rparr>)"

subsection \<open>The processor's translation\<close>

text \<open>
  The physical memory the processor reads, restricted to the three tables, and the walk: an
  entry must be present (bit 0), bits 12 to 51 hold the next table, and bit 7 in the third and
  second level makes the entry a page of 1 GiB or 2 MiB.
\<close>

definition read_table :: "table_addrs \<Rightarrow> page_tables \<Rightarrow> u64 \<Rightarrow> u64 option" where
  "read_table a t p =
     (let n = unat p; l4 = unat (pml4_addr a); l3 = unat (pdp_addr a); l2 = unat (pd_addr a)
      in if n mod 8 \<noteq> 0 then None
         else if l4 \<le> n \<and> n < l4 + 4096 then Some (pml4_table t ! ((n - l4) div 8))
         else if l3 \<le> n \<and> n < l3 + 4096 then Some (pdp_table t ! ((n - l3) div 8))
         else if l2 \<le> n \<and> n < l2 + page_directory_count * 4096
         then Some (page_directory t ! ((n - l2) div 4096) ! ((n - l2) mod 4096 div 8))
         else None)"

definition entry_addr :: "u64 \<Rightarrow> u64" where
  "entry_addr e = e AND push_bit 12 (mask 40)"

definition table_entry :: "(u64 \<Rightarrow> u64 option) \<Rightarrow> u64 \<Rightarrow> u64 \<Rightarrow> nat \<Rightarrow> u64 option" where
  "table_entry rd table va level = do {
     e \<leftarrow> rd (entry_addr table + 8 * bits_get (12 + 9 * level) 9 va);
     if bit e 0 then Some e else None }"

definition translate :: "(u64 \<Rightarrow> u64 option) \<Rightarrow> u64 \<Rightarrow> u64 \<Rightarrow> u64 option" where
  "translate rd root va = do {
     e4 \<leftarrow> table_entry rd root va 3;
     e3 \<leftarrow> table_entry rd e4 va 2;
     if bit e3 7 then Some ((e3 AND push_bit 30 (mask 22)) OR take_bit 30 va) else do {
       e2 \<leftarrow> table_entry rd e3 va 1;
       if bit e2 7 then Some ((e2 AND push_bit 21 (mask 31)) OR take_bit 21 va) else do {
         e1 \<leftarrow> table_entry rd e2 va 0;
         Some (entry_addr e1 OR take_bit 12 va) } } }"

definition addrs_ok :: "table_addrs \<Rightarrow> bool" where
  "addrs_ok a \<longleftrightarrow>
     unat (pml4_addr a) mod 4096 = 0 \<and> unat (pdp_addr a) mod 4096 = 0 \<and> unat (pd_addr a) mod 4096 = 0 \<and>
     unat (pml4_addr a) + 4096 \<le> 2 ^ 52 \<and> unat (pdp_addr a) + 4096 \<le> 2 ^ 52 \<and>
     unat (pd_addr a) + page_directory_count * 4096 \<le> 2 ^ 52 \<and>
     pml4_addr a \<noteq> pdp_addr a \<and>
     \<not> (pd_addr a \<le> pml4_addr a \<and> pml4_addr a < pd_addr a + of_nat page_directory_count * 4096) \<and>
     \<not> (pd_addr a \<le> pdp_addr a \<and> pdp_addr a < pd_addr a + of_nat page_directory_count * 4096)"

subsection \<open>What the set-up writes\<close>

lemma setup_loop:
  assumes "length (pdp_table t) = 512" and "length (page_directory t) = 64"
    and "\<forall>r\<in>set (page_directory t). length r = 512" and "n \<le> 64"
  shows "fold (\<lambda>i_pdpt t.
       let t' = t\<lparr>pdp_table := (pdp_table t)[i_pdpt := pd_row_addr a i_pdpt OR 0x003]\<rparr>;
           row = fold (\<lambda>i_pd r. r[i_pd := page_entry i_pdpt i_pd]) [0..<512] (page_directory t' ! i_pdpt)
       in t'\<lparr>page_directory := (page_directory t')[i_pdpt := row]\<rparr>) [0..<n] t =
     t\<lparr>pdp_table := map (\<lambda>i. pd_row_addr a i OR 0x003) [0..<n] @ drop n (pdp_table t),
       page_directory := map (\<lambda>i. map (page_entry i) [0..<512]) [0..<n] @ drop n (page_directory t)\<rparr>"
  using assms(4)
proof (induction n)
  case (Suc n)
  have d: "drop n (pdp_table t) = pdp_table t ! n # drop (Suc n) (pdp_table t)"
    "drop n (page_directory t) = page_directory t ! n # drop (Suc n) (page_directory t)"
    using Suc.prems assms by (simp_all add: Cons_nth_drop_Suc)
  have "length (page_directory t ! n) = 512" using assms(2,3) Suc.prems by simp
  with Suc d show ?case by (simp add: list_update_append fold_list_update_map nth_append Let_def)
qed simp

lemma setup_tables:
  "setup_identity_page_table a (new_page_tables c) =
     \<lparr>pml4_table = (pdp_addr a OR 3) # replicate 511 0,
      pdp_table = map (\<lambda>i. pd_row_addr a i OR 3) [0..<64] @ replicate 448 0,
      page_directory = map (\<lambda>i. map (page_entry i) [0..<512]) [0..<64], cr3 = pml4_addr a\<rparr>"
proof -
  let ?t1 = "\<lparr>pml4_table = (pdp_addr a OR 3) # replicate 511 0, pdp_table = replicate 512 0,
     page_directory = replicate 64 (replicate 512 0), cr3 = c\<rparr> :: page_tables"
  have r: "replicate 512 (0 :: u64) = 0 # replicate 511 0"
    using replicate_Suc[of 511 "0 :: u64"] by simp
  have one: "(new_page_tables c)\<lparr>pml4_table := (pml4_table (new_page_tables c))[0 := pdp_addr a OR 3]\<rparr> = ?t1"
    by (simp add: new_page_tables_def page_directory_count_def r)
  have len: "length (page_directory ?t1) = 64" by simp
  show ?thesis
    unfolding setup_identity_page_table_def one Let_def[of ?t1] len
    by (subst setup_loop) simp_all
qed

subsection \<open>Reading the tables back\<close>

lemma frame_aligned_bits:
  fixes p :: u64
  assumes "unat p mod 4096 = 0" and "unat p < 2 ^ 52" and "bit p k"
  shows "12 \<le> k \<and> k < 52"
proof -
  have b: "bit (unat p) k" using assms(3) by (simp add: bit_unsigned_iff bit_imp_le_length)
  have "take_bit 12 (unat p) = 0" using assms(1) by (simp add: take_bit_eq_mod)
  then have "\<not> k < 12" using b by (metis bit_0_eq bit_take_bit_iff bot_apply bot_bool_def)
  moreover have "take_bit 52 (unat p) = unat p" using assms(2) by (simp add: take_bit_nat_eq_self)
  then have "k < 52" using b by (metis bit_take_bit_iff)
  ultimately show ?thesis by simp
qed

lemma entry_addr_pointer:
  assumes "unat p mod 4096 = 0" and "unat p < 2 ^ 52"
  shows "entry_addr (p OR 3) = p" and "entry_addr p = p" and "bit (p OR 3) 0" and "\<not> bit (p OR 3) 7"
proof -
  note b = frame_aligned_bits[OF assms]
  have three: "bit (3 :: int) k \<longleftrightarrow> k < 2" for k
    using bit_mask_iff[of 2 k, where ?'a = int] by (simp add: mask_eq_exp_minus_1)
  have k: "n - 12 < 40" if "bit p n" for n using b[OF that] by linarith
  show "entry_addr (p OR 3) = p"
    by (rule bit_word_eqI) (use b k in \<open>auto simp: entry_addr_def bit_simps three\<close>)
  show "entry_addr p = p"
    by (rule bit_word_eqI) (use b k in \<open>auto simp: entry_addr_def bit_simps three\<close>)
  show "bit (p OR 3) 0" "\<not> bit (p OR 3) 7" using b[of 7] by (auto simp: bit_or_iff three)
qed

lemma bits_get_9_less: "unat (bits_get off 9 va) < 512" for va :: u64
  using bits_get_bound[where n = 9 and off = off and w = va] by simp

lemma table_slot_addr:
  fixes p :: u64
  assumes "unat p < 2 ^ 52" and "unat x < 512"
  shows "unat (p + 8 * x) = unat p + 8 * unat x"
proof -
  have "unat (8 * x) = 8 * unat x" using unat_mult_eq[of 8 x] assms(2) by simp
  with unat_plus_eq[of p "8 * x"] assms show ?thesis by simp
qed

text \<open>The processor reads slot \<open>x\<close> of each table where the kernel wrote it.\<close>

lemma addrs_word:
  assumes "addrs_ok a"
  shows "unat (pd_addr a + 262144) = unat (pd_addr a) + 262144"
  using assms unat_plus_eq[of "pd_addr a" 262144] by (simp add: addrs_ok_def page_directory_count_def)

lemma aligned_disjoint:
  "(p :: nat) mod 4096 = 0 \<Longrightarrow> q mod 4096 = 0 \<Longrightarrow> p \<noteq> q \<Longrightarrow> p + 4096 \<le> q \<or> q + 4096 \<le> p"
  by (auto simp: mod_eq_0_iff_dvd elim!: dvdE)

lemma aligned_disjoint_pd:
  "(p :: nat) mod 4096 = 0 \<Longrightarrow> q mod 4096 = 0 \<Longrightarrow> \<not> (q \<le> p \<and> p < q + 262144) \<Longrightarrow>
   p + 4096 \<le> q \<or> q + 262144 \<le> p"
  by (auto simp: mod_eq_0_iff_dvd elim!: dvdE)

lemma unat_pd_row_addr:
  assumes "addrs_ok a" and "i < 64"
  shows "unat (pd_row_addr a i) = unat (pd_addr a) + i * 4096"
proof -
  have "unat (pd_addr a) + 262144 \<le> 2 ^ 52" using assms(1) by (simp add: addrs_ok_def page_directory_count_def)
  moreover have "unat (of_nat i * 4096 :: u64) = i * 4096"
    using assms(2) by (subst unat_mult_eq) (simp_all add: unat_of_nat_eq)
  ultimately show ?thesis
    using unat_plus_eq[of "pd_addr a" "of_nat i * 4096"] assms(2) by (simp add: pd_row_addr_def)
qed

lemma pd_row_addr_ok:
  assumes "addrs_ok a" and "i < 64"
  shows "unat (pd_row_addr a i) mod 4096 = 0" and "unat (pd_row_addr a i) < 2 ^ 52"
  using assms(1) assms(2) by (simp_all add: unat_pd_row_addr[OF assms] addrs_ok_def page_directory_count_def)

lemma read_table_slots:
  assumes "addrs_ok a" and x: "unat x < 512"
  shows "read_table a t (pml4_addr a + 8 * x) = Some (pml4_table t ! unat x)"
    and "read_table a t (pdp_addr a + 8 * x) = Some (pdp_table t ! unat x)"
    and "i < 64 \<Longrightarrow> read_table a t (pd_row_addr a i + 8 * x) = Some (page_directory t ! i ! unat x)"
proof -
  let ?l4 = "unat (pml4_addr a)" and ?l3 = "unat (pdp_addr a)" and ?l2 = "unat (pd_addr a)"
  have al: "?l4 mod 4096 = 0" "?l3 mod 4096 = 0" "?l2 mod 4096 = 0"
    and le: "?l4 < 2 ^ 52" "?l3 < 2 ^ 52" "?l2 + 262144 \<le> 2 ^ 52" and ne: "?l4 \<noteq> ?l3"
    and n4: "\<not> (?l2 \<le> ?l4 \<and> ?l4 < ?l2 + 262144)" and n3: "\<not> (?l2 \<le> ?l3 \<and> ?l3 < ?l2 + 262144)"
    using assms(1) addrs_word[OF assms(1)]
    by (auto simp: addrs_ok_def page_directory_count_def word_le_nat_alt word_less_nat_alt word_unat_eq_iff)
  note dis = aligned_disjoint[OF al(1,2) ne] aligned_disjoint_pd[OF al(1,3) n4] aligned_disjoint_pd[OF al(2,3) n3]
  have m8: "?l4 mod 8 = 0" "?l3 mod 8 = 0" "?l2 mod 8 = 0"
    using al by (auto simp: mod_eq_0_iff_dvd intro: dvd_trans[of 8 4096])
  show "read_table a t (pml4_addr a + 8 * x) = Some (pml4_table t ! unat x)"
    using x m8 by (simp add: read_table_def Let_def table_slot_addr[OF le(1) x])
  show "read_table a t (pdp_addr a + 8 * x) = Some (pdp_table t ! unat x)"
    using x m8 dis by (auto simp: read_table_def Let_def table_slot_addr[OF le(2) x])
  assume i: "i < 64"
  have "unat (pd_row_addr a i) = ?l2 + i * 4096" and "unat (pd_row_addr a i) < 2 ^ 52"
    using unat_pd_row_addr[OF assms(1) i] pd_row_addr_ok(2)[OF assms(1) i] by simp_all
  then have slot: "unat (pd_row_addr a i + 8 * x) = ?l2 + (i * 4096 + 8 * unat x)"
    using table_slot_addr[OF _ x, of "pd_row_addr a i"] by simp
  have d: "(i * 4096 + 8 * unat x) div 4096 = i" "(i * 4096 + 8 * unat x) mod 4096 = 8 * unat x"
    using x by simp_all
  have b: "i * 4096 + 8 * unat x < 262144" using i x by simp
  show "read_table a t (pd_row_addr a i + 8 * x) = Some (page_directory t ! i ! unat x)"
    using x m8 dis b
    by (auto simp: read_table_def Let_def slot d page_directory_count_def mod_add_left_eq[symmetric])
qed

subsection \<open>The translation is the identity on the first 64 GiB\<close>

text \<open>A 2 MiB entry: its flags, and the address of the page.\<close>

lemma bit_page_flags: "bit (0x83 :: int) k \<longleftrightarrow> k = 0 \<or> k = 1 \<or> k = 7"
proof -
  have eq: "(0x83 :: int) = push_bit 7 1 OR mask 2" by (simp add: mask_eq_exp_minus_1)
  show ?thesis unfolding eq bit_or_iff bit_push_bit_iff bit_1_iff bit_mask_iff by auto
qed

lemma bit_page_entry:
  assumes "i < 64" and "j < 512"
  shows "bit (page_entry i j) k \<longleftrightarrow> k = 0 \<or> k = 1 \<or> k = 7 \<or>
    21 \<le> k \<and> k < 30 \<and> bit j (k - 21) \<or> 30 \<le> k \<and> k < 36 \<and> bit i (k - 30)"
proof -
  have i: "n < 36" if "bit i (n - 30)" for n using nat_bit_less[of i 6 "n - 30"] assms(1) that by simp
  have j: "n < 30" if "bit j (n - 21)" for n using nat_bit_less[of j 9 "n - 21"] assms(2) that by simp
  have "(of_nat i * 1073741824 + of_nat j * 2097152 :: u64) = push_bit 30 (of_nat i) + push_bit 21 (of_nat j)"
    by (simp add: push_bit_eq_mult)
  also have "\<dots> = push_bit 30 (of_nat i) OR push_bit 21 (of_nat j)"
    by (rule disjunctive_add) (auto simp: bit_simps dest: j)
  finally have "page_entry i j = (push_bit 30 (of_nat i) OR push_bit 21 (of_nat j)) OR 0x83"
    by (simp add: page_entry_def page_size_1g_def page_size_2m_def page_size_4k_def)
  then show ?thesis
    by (auto simp: bit_simps bit_page_flags dest: i j)
qed

definition canonical :: "u64 \<Rightarrow> bool" where
  "canonical va \<longleftrightarrow> (\<forall>k\<in>{47..<64}. bit va k = bit va 47)"

lemma low_address_bits:
  fixes va :: u64
  assumes "va < 0x1000000000" and "bit va k"
  shows "k < 36"
proof -
  have "unat va < 2 ^ 36" using assms by (simp add: word_less_nat_alt)
  from nat_bit_less[OF this] assms(2) show ?thesis by (simp add: bit_unsigned_iff bit_imp_le_length)
qed

lemma mapped_index:
  fixes va :: u64
  assumes "va < 0x1000000000"
  shows "bits_get 39 9 va = 0 \<and> unat (bits_get 30 9 va) < 64"
proof -
  note va = low_address_bits[OF assms]
  have "bits_get 30 9 va = bits_get 30 6 va" "bits_get 39 9 va = 0"
    by (rule bit_word_eqI, auto simp: bit_bits_get dest: va)+
  then show ?thesis using bits_get_bound[where n = 6 and off = 30 and w = va] by simp
qed

lemma page_entry_translation:
  assumes "va < 0x1000000000"
  shows "(page_entry (unat (bits_get 30 9 va)) (unat (bits_get 21 9 va)) AND push_bit 21 (mask 31)) OR
    take_bit 21 va = va"
proof -
  note va = low_address_bits[OF assms]
  have i: "unat (bits_get 30 9 va) < 64" using mapped_index[OF assms] by simp
  have k21: "k - 21 < 31" if "bit va k" for k using va[OF that] by linarith
  show ?thesis
  proof (rule bit_word_eqI)
    fix k assume "k < LENGTH(64)"
    consider "k < 21" | "21 \<le> k" "k < 30" | "30 \<le> k" by linarith
    then show "bit ((page_entry (unat (bits_get 30 9 va)) (unat (bits_get 21 9 va)) AND
        push_bit 21 (mask 31)) OR take_bit 21 va) k = bit va k"
      by cases (use \<open>k < _\<close> va[of k] k21[of k] in
        \<open>auto simp: bit_simps bit_page_entry[OF i bits_get_9_less] bit_bits_get\<close>)
  qed
qed

lemma unmapped_index:
  assumes "canonical va" and "\<not> va < 0x1000000000" and "bits_get 39 9 va = 0"
  shows "64 \<le> unat (bits_get 30 9 va)"
proof (rule ccontr)
  assume "\<not> 64 \<le> unat (bits_get 30 9 va)"
  then have i3: "unat (bits_get 30 9 va) < 2 ^ 6" by simp
  have low: "\<not> bit va k" if "36 \<le> k" "k < 48" for k
  proof (cases "k < 39")
    case True
    have "\<not> bit (unat (bits_get 30 9 va)) (k - 30)" using nat_bit_less[OF i3, of "k - 30"] that by auto
    then show ?thesis using that True by (simp add: bit_unsigned_iff bit_bits_get bit_imp_le_length)
  next
    case False
    have "\<not> bit (bits_get 39 9 va) (k - 39)" by (simp add: assms(3))
    then show ?thesis using that False by (simp add: bit_bits_get)
  qed
  have "\<not> bit va k" if "36 \<le> k" "k < 64" for k
    using low[of k] low[of 47] that assms(1) by (cases "k < 48") (auto simp: canonical_def)
  then have "take_bit 36 va = va" by (intro bit_word_eqI) (auto simp: bit_simps intro: leI ccontr)
  then have "unat va < 2 ^ 36" by (metis unsigned_take_bit_eq take_bit_nat_less_exp)
  with assms(2) show False by (simp add: word_less_nat_alt)
qed

lemma identity_translation:
  assumes "addrs_ok a" and "canonical va"
  shows "let t = setup_identity_page_table a (new_page_tables c)
    in translate (read_table a t) (cr3 t) va = (if va < 0x1000000000 then Some va else None)"
proof -
  define t where "t = setup_identity_page_table a (new_page_tables c)"
  note t = t_def[unfolded setup_tables]
  let ?i4 = "bits_get 39 9 va" and ?i3 = "bits_get 30 9 va" and ?i2 = "bits_get 21 9 va"
  note rd = read_table_slots[OF assms(1) bits_get_9_less]
  have l4: "unat (pml4_addr a) mod 4096 = 0" "unat (pml4_addr a) < 2 ^ 52"
    and l3: "unat (pdp_addr a) mod 4096 = 0" "unat (pdp_addr a) < 2 ^ 52"
    using assms(1) by (simp_all add: addrs_ok_def)
  have e4: "table_entry (read_table a t) (cr3 t) va 3 = (if ?i4 = 0 then Some (pdp_addr a OR 3) else None)"
  proof -
    have "pml4_table t ! unat ?i4 = (if ?i4 = 0 then pdp_addr a OR 3 else 0)"
      using bits_get_9_less[of 39 va] by (auto simp: t nth_Cons' unat_eq_0)
    then show ?thesis using entry_addr_pointer[OF l4] entry_addr_pointer(3)[OF l3] rd(1)[of t 39 va]
      by (simp add: table_entry_def t)
  qed
  have e3: "table_entry (read_table a t) (pdp_addr a OR 3) va 2 =
      (if unat ?i3 < 64 then Some (pd_row_addr a (unat ?i3) OR 3) else None)"
  proof -
    have "pdp_table t ! unat ?i3 = (if unat ?i3 < 64 then pd_row_addr a (unat ?i3) OR 3 else 0)"
      using bits_get_9_less[of 30 va] by (simp add: t nth_append)
    then show ?thesis using entry_addr_pointer(1)[OF l3] entry_addr_pointer(3)[OF pd_row_addr_ok[OF assms(1)]]
        rd(2)[of t 30 va]
      by (simp add: table_entry_def)
  qed
  have e2: "table_entry (read_table a t) (pd_row_addr a (unat ?i3) OR 3) va 1 =
      Some (page_entry (unat ?i3) (unat ?i2))" if i3: "unat ?i3 < 64"
    using entry_addr_pointer(1)[OF pd_row_addr_ok[OF assms(1) i3]] rd(3)[OF i3, of t 21 va]
      bits_get_9_less[of 21 va] i3 bit_page_entry[OF i3 bits_get_9_less, of 21 va 0]
    by (simp add: table_entry_def t)
  show ?thesis
  proof (cases "?i4 = 0 \<and> unat ?i3 < 64")
    case True
    then have lt: "va < 0x1000000000" using unmapped_index[OF assms(2)] by force
    have "bit (page_entry (unat ?i3) (unat ?i2)) 7" "\<not> bit (pd_row_addr a (unat ?i3) OR 3) 7"
      using bit_page_entry[OF conjunct2[OF True] bits_get_9_less, of 21 va 7]
        entry_addr_pointer(4)[OF pd_row_addr_ok[OF assms(1) conjunct2[OF True]]] by simp_all
    then show ?thesis
      using True e2 lt page_entry_translation[OF lt]
      by (simp add: t_def[symmetric] Let_def translate_def e4 e3)
  next
    case False
    have "\<not> va < 0x1000000000" using mapped_index False by blast
    then show ?thesis using False by (auto simp: t_def[symmetric] Let_def translate_def e4 e3)
  qed
qed

text \<open>Claim C7.
  After \<open>setup_identity_page_table\<close> the processor translates every virtual address below
  64 GiB to itself, and has no translation for any other canonical address.
\<close>

theorem identity_page_table:
  assumes "addrs_ok a" and "canonical va"
  shows "let t = setup_identity_page_table a (new_page_tables c)
    in translate (read_table a t) (cr3 t) va = (if va < 0x1000000000 then Some va else None)"
  using assms by (rule identity_translation)

definition example_addrs :: table_addrs where
  "example_addrs = \<lparr>pml4_addr = 0x1000, pdp_addr = 0x2000, pd_addr = 0x3000\<rparr>"

theorem identity_page_table_witness:
  "let t = setup_identity_page_table example_addrs (new_page_tables 0)
   in translate (read_table example_addrs t) (cr3 t) 0x123456789 = Some 0x123456789"
proof -
  have "addrs_ok example_addrs" by (simp add: addrs_ok_def example_addrs_def page_directory_count_def)
  moreover have "\<not> bit (0x123456789 :: u64) k" if "47 \<le> k" for k
  proof
    assume "bit (0x123456789 :: u64) k"
    then have "k < 36" by (rule low_address_bits[rotated]) simp
    with that show False by simp
  qed
  then have "canonical 0x123456789" unfolding canonical_def by (metis atLeastLessThan_iff order_refl)
  ultimately show ?thesis using identity_page_table[of example_addrs "0x123456789" 0] by (simp add: Let_def)
qed

end
