(* ===== verification/Descriptors.thy ===== *)
theory Descriptors
  imports Prelude
begin

text \<open>
  The descriptor tables of the processor (\<open>segment.cpp\<close>, \<open>interrupt.hpp\<close>, \<open>interrupt.cpp\<close>,
  \<open>x86_descriptor.hpp\<close>) and the local APIC timer (\<open>timer.cpp\<close>).

  The packed unions are their 64-bit or 16-bit storage unit with bit fields in declaration
  order. A narrowing assignment to a field keeps the low bits (\<open>bits_set\<close>).
\<close>

datatype descriptor_type =
  Upper8Bytes | LDT | TSSAvailable | TSSBusy | CallGate | InterruptGate | TrapGate | ReadWrite | ExecuteRead

primrec descriptor_type_num :: "descriptor_type \<Rightarrow> u64" where
  "descriptor_type_num Upper8Bytes = 0"
| "descriptor_type_num LDT = 2"
| "descriptor_type_num TSSAvailable = 9"
| "descriptor_type_num TSSBusy = 11"
| "descriptor_type_num CallGate = 12"
| "descriptor_type_num InterruptGate = 14"
| "descriptor_type_num TrapGate = 15"
| "descriptor_type_num ReadWrite = 2"
| "descriptor_type_num ExecuteRead = 10"

subsection \<open>Segments\<close>

type_synonym segment_descriptor = u64

definition set_code_segment :: "segment_descriptor \<Rightarrow> descriptor_type \<Rightarrow> u32 \<Rightarrow> u32 \<Rightarrow> u32 \<Rightarrow> segment_descriptor" where
  "set_code_segment desc type descriptor_privilege_level base limit =
     (let d = 0;
          d = bits_set 16 16 (ucast (base AND 0xffff)) d;
          d = bits_set 32 8 (ucast (drop_bit 16 base AND 0xff)) d;
          d = bits_set 56 8 (ucast (drop_bit 24 base AND 0xff)) d;
          d = bits_set 0 16 (ucast (limit AND 0xffff)) d;
          d = bits_set 48 4 (ucast (drop_bit 16 limit AND 0xf)) d;
          d = bits_set 40 4 (descriptor_type_num type) d;
          d = bits_set 44 1 1 d;
          d = bits_set 45 2 (ucast descriptor_privilege_level) d;
          d = bits_set 47 1 1 d;
          d = bits_set 52 1 0 d;
          d = bits_set 53 1 1 d;
          d = bits_set 54 1 0 d;
          d = bits_set 55 1 1 d
      in d)"

definition set_data_segment :: "segment_descriptor \<Rightarrow> descriptor_type \<Rightarrow> u32 \<Rightarrow> u32 \<Rightarrow> u32 \<Rightarrow> segment_descriptor" where
  "set_data_segment desc type descriptor_privilege_level base limit =
     (let d = set_code_segment desc type descriptor_privilege_level base limit;
          d = bits_set 53 1 0 d;
          d = bits_set 54 1 1 d
      in d)"

text \<open>
  The registers the assembly routines load (\<open>load_gdp\<close>, \<open>set_ds_all\<close>, \<open>set_cs_ss\<close>), and the
  address of \<open>gdt\<close>, which the linker chooses, as an argument.
\<close>

record segment_state =
  gdt :: "segment_descriptor list"
  gdtr_limit :: u16
  gdtr_base :: u64
  ds_all :: u16
  cs :: u16
  ss :: u16

definition setup_segments :: "u64 \<Rightarrow> segment_state \<Rightarrow> segment_state" where
  "setup_segments gdt_addr s =
     (let g = gdt s;
          g = g[0 := 0];
          g = g[1 := set_code_segment (g ! 1) ExecuteRead 0 0 0xfffff];
          g = g[2 := set_data_segment (g ! 2) ReadWrite 0 0 0xfffff]
      in s\<lparr>gdt := g, gdtr_limit := 3 * 8 - 1, gdtr_base := gdt_addr\<rparr>)"

definition initialize_segmentation :: "u64 \<Rightarrow> segment_state \<Rightarrow> segment_state" where
  "initialize_segmentation gdt_addr s =
     (let s = setup_segments gdt_addr s;
          kernel_cs = push_bit 3 1; kernel_ss = push_bit 3 2;
          s = s\<lparr>ds_all := 0\<rparr>
      in s\<lparr>cs := kernel_cs, ss := kernel_ss\<rparr>)"

text \<open>What the processor takes from a descriptor: base, limit and the flags.\<close>

definition segment_base :: "segment_descriptor \<Rightarrow> u64" where
  "segment_base d = bits_get 16 16 d OR push_bit 16 (bits_get 32 8 d) OR push_bit 24 (bits_get 56 8 d)"

definition segment_limit :: "segment_descriptor \<Rightarrow> u64" where
  "segment_limit d = bits_get 0 16 d OR push_bit 16 (bits_get 48 4 d)"

lemma bit_numeral_masks:
  "bit (0xffff :: int) k \<longleftrightarrow> k < 16" "bit (0xff :: int) k \<longleftrightarrow> k < 8" "bit (0xf :: int) k \<longleftrightarrow> k < 4"
  using bit_mask_iff[of 16 k, where ?'a = int] bit_mask_iff[of 8 k, where ?'a = int]
    bit_mask_iff[of 4 k, where ?'a = int]
  by (simp_all add: mask_eq_exp_minus_1)

text \<open>A field of \<open>n\<close> bits takes every value of \<open>n\<close> bits as it is.\<close>

lemma take_bit_descriptor_type [simp]: "take_bit 4 (descriptor_type_num t) = descriptor_type_num t"
  by (cases t) simp_all

lemma take_bit_pieces [simp]:
  fixes x :: u32
  shows "take_bit 16 (ucast (x AND 0xffff) :: u64) = ucast (take_bit 16 x)"
    and "take_bit 8 (ucast (x AND 0xff) :: u64) = ucast (take_bit 8 x)"
    and "take_bit 4 (ucast (x AND 0xf) :: u64) = ucast (take_bit 4 x)"
  by (rule bit_word_eqI, auto simp: bit_simps bit_numeral_masks)+

lemma join_base_pieces:
  "ucast (take_bit 16 x) OR push_bit 16 (ucast (take_bit 8 (drop_bit 16 x))) OR
     push_bit 24 (ucast (take_bit 8 (drop_bit 24 x))) = (ucast x :: u64)" for x :: u32
proof (rule bit_word_eqI)
  fix k assume "k < LENGTH(64)"
  consider "k < 16" | "16 \<le> k" "k < 24" | "24 \<le> k" "k < 32" | "32 \<le> k" by linarith
  then show "bit (ucast (take_bit 16 x) OR push_bit 16 (ucast (take_bit 8 (drop_bit 16 x))) OR
      push_bit 24 (ucast (take_bit 8 (drop_bit 24 x))) :: u64) k = bit (ucast x :: u64) k"
    by cases (auto simp: bit_simps dest: bit_imp_le_length)
qed

lemma join_limit_pieces:
  "ucast (take_bit 16 x) OR push_bit 16 (ucast (take_bit 4 (drop_bit 16 x))) = (ucast (take_bit 20 x) :: u64)"
  for x :: u32
proof (rule bit_word_eqI)
  fix k assume "k < LENGTH(64)"
  consider "k < 16" | "16 \<le> k" by linarith
  then show "bit (ucast (take_bit 16 x) OR push_bit 16 (ucast (take_bit 4 (drop_bit 16 x))) :: u64) k =
      bit (ucast (take_bit 20 x) :: u64) k"
    by cases (auto simp: bit_simps)
qed

definition segment_fields :: "segment_descriptor \<Rightarrow> descriptor_type \<Rightarrow> u32 \<Rightarrow> u32 \<Rightarrow> u32 \<Rightarrow> bool" where
  "segment_fields d t dpl base limit \<longleftrightarrow>
     segment_base d = ucast base \<and> segment_limit d = ucast (take_bit 20 limit) \<and>
     bits_get 40 4 d = descriptor_type_num t \<and> bits_get 45 2 d = ucast (take_bit 2 dpl) \<and>
     bits_get 44 1 d = 1 \<and> bits_get 47 1 d = 1 \<and> bits_get 52 1 d = 0 \<and> bits_get 55 1 d = 1"

text \<open>
  The descriptors the kernel builds decode, by the processor's layout, to the arguments: base,
  the low 20 bits of the limit, the type and the low two bits of the privilege level; both are
  present, non-system descriptors with page granularity; the code segment is a 64-bit one
  (\<open>L\<close> set, \<open>D\<close> clear) and the data segment the reverse.
\<close>

lemma segment_descriptor_fields:
  "let c = set_code_segment desc t dpl base limit; d = set_data_segment desc t dpl base limit
   in segment_fields c t dpl base limit \<and> bits_get 53 1 c = 1 \<and> bits_get 54 1 c = 0 \<and>
      segment_fields d t dpl base limit \<and> bits_get 53 1 d = 0 \<and> bits_get 54 1 d = 1"
proof -
  have dpl: "take_bit 2 (ucast dpl) = (ucast (take_bit 2 dpl) :: u64)"
    by (rule bit_word_eqI) (auto simp: bit_simps)
  show ?thesis
    by (simp add: set_data_segment_def set_code_segment_def Let_def segment_base_def segment_limit_def
        segment_fields_def field_simps_bits join_base_pieces join_limit_pieces dpl)
qed

subsection \<open>Interrupt descriptors\<close>

record interrupt_descriptor =
  offset_low :: u16
  segment_selector :: u16
  attr :: u16
  offset_middle :: u16
  offset_high :: u32
  reserved :: u32

definition make_idt_attr :: "descriptor_type \<Rightarrow> u8 \<Rightarrow> bool \<Rightarrow> u8 \<Rightarrow> u16" where
  "make_idt_attr type descriptor_privilege_level present interrupt_stack_table =
     (let a = 0;
          a = bits_set 0 3 (ucast interrupt_stack_table) a;
          a = bits_set 8 4 (ucast (descriptor_type_num type)) a;
          a = bits_set 13 2 (ucast descriptor_privilege_level) a;
          a = bits_set 15 1 (of_bool present) a
      in a)"

definition set_idt_entry :: "interrupt_descriptor \<Rightarrow> u16 \<Rightarrow> u64 \<Rightarrow> u16 \<Rightarrow> interrupt_descriptor" where
  "set_idt_entry desc a offset selector =
     desc\<lparr>attr := a, offset_low := ucast (offset AND 0xffff),
       offset_middle := ucast (drop_bit 16 offset AND 0xffff),
       offset_high := ucast (drop_bit 32 offset), segment_selector := selector\<rparr>"

text \<open>The vector of the host controller's interrupt, and the handler address the processor jumps to.\<close>

definition interrupt_vector_xhci :: nat where
  "interrupt_vector_xhci = 0x40"

definition handler_offset :: "interrupt_descriptor \<Rightarrow> u64" where
  "handler_offset d = ucast (offset_low d) OR push_bit 16 (ucast (offset_middle d)) OR
     push_bit 32 (ucast (offset_high d))"

text \<open>
  An entry written by \<open>set_idt_entry\<close> with attributes from \<open>make_idt_attr\<close> makes the processor
  jump to exactly the given 64-bit handler address with the given selector, and its gate type,
  privilege level, present bit and stack table index are the ones asked for.
\<close>

lemma idt_entry_roundtrip:
  "let d = set_idt_entry desc (make_idt_attr t dpl p ist) offset sel
   in handler_offset d = offset \<and> segment_selector d = sel \<and>
      bits_get 8 4 (attr d) = ucast (descriptor_type_num t) \<and>
      bits_get 13 2 (attr d) = ucast (take_bit 2 dpl) \<and>
      bits_get 15 1 (attr d) = of_bool p \<and> bits_get 0 3 (attr d) = ucast (take_bit 3 ist) \<and>
      bits_get 3 5 (attr d) = 0 \<and> bits_get 12 1 (attr d) = 0"
proof -
  have off: "(ucast (ucast (x AND 0xffff) :: u16) OR push_bit 16 (ucast (ucast (drop_bit 16 x AND 0xffff) :: u16)) OR
      push_bit 32 (ucast (ucast (drop_bit 32 x) :: u32)) :: u64) = x" for x
  proof (rule bit_word_eqI)
    fix k assume "k < LENGTH(64)"
    consider "k < 16" | "16 \<le> k" "k < 32" | "32 \<le> k" by linarith
    then show "bit (ucast (ucast (x AND 0xffff) :: u16) OR push_bit 16 (ucast (ucast (drop_bit 16 x AND 0xffff) :: u16)) OR
        push_bit 32 (ucast (ucast (drop_bit 32 x) :: u32)) :: u64) k = bit x k"
      by cases (use \<open>k < _\<close> in \<open>auto simp: bit_simps bit_numeral_masks\<close>)
  qed
  have cast: "take_bit 2 (ucast dpl) = (ucast (take_bit 2 dpl) :: u16)"
    "take_bit 3 (ucast ist) = (ucast (take_bit 3 ist) :: u16)"
    by (rule bit_word_eqI, auto simp: bit_simps)+
  have type: "take_bit 4 (ucast (descriptor_type_num t)) = (ucast (descriptor_type_num t) :: u16)"
    by (cases t) simp_all
  show ?thesis
    by (simp add: set_idt_entry_def handler_offset_def off make_idt_attr_def Let_def field_simps_bits cast type)
qed

subsection \<open>The local APIC timer\<close>

text \<open>
  The memory-mapped registers of the local APIC that the kernel uses; the processor counts
  \<open>current_count\<close> down from the value written to \<open>initial_count\<close>.
\<close>

record lapic =
  eoi :: "u32 option"
  lvt_timer :: u32
  initial_count :: u32
  current_count :: u32
  divide_config :: u32

definition count_max :: u32 where
  "count_max = - 1"

definition notify_end_of_interrput :: "lapic \<Rightarrow> lapic" where
  "notify_end_of_interrput l = l\<lparr>eoi := Some 0\<rparr>"

definition initialize_lapic_timer :: "lapic \<Rightarrow> lapic" where
  "initialize_lapic_timer l = l\<lparr>divide_config := 11, lvt_timer := push_bit 16 1 OR 32\<rparr>"

definition start_lapic_timer :: "lapic \<Rightarrow> lapic" where
  "start_lapic_timer l = l\<lparr>initial_count := count_max\<rparr>"

definition lapic_timer_elapsed :: "lapic \<Rightarrow> u32" where
  "lapic_timer_elapsed l = count_max - current_count l"

definition stop_lapic_timer :: "lapic \<Rightarrow> lapic" where
  "stop_lapic_timer l = l\<lparr>initial_count := 0\<rparr>"

lemma elapsed_counts_ticks:
  "current_count l = initial_count (start_lapic_timer l) - ticks \<Longrightarrow> lapic_timer_elapsed l = ticks"
  by (simp add: lapic_timer_elapsed_def start_lapic_timer_def)

lemma timer_masked_one_shot:
  "bits_get 16 1 (lvt_timer (initialize_lapic_timer l)) = 1"
  "bits_get 17 2 (lvt_timer (initialize_lapic_timer l)) = 0"
  by (simp_all add: initialize_lapic_timer_def bits_get_def drop_bit_eq_div)

end
