(* ===== verification/Pci.thy ===== *)
theory Pci
  imports Kernel_Error
begin

text \<open>
  The PCI bus: \<open>src/kernel/pci.hpp\<close> and \<open>src/kernel/pci.cpp\<close>.

  The kernel reaches the configuration space through two I/O ports: what it writes to
  \<open>config_address\<close> selects the register that \<open>config_data\<close> reads or writes. The state is that
  address register, the configuration space as the ports show it (\<open>config_space\<close>, a function
  of the address), and the global table of devices. How the hardware reacts to a write of
  \<open>config_data\<close> is not in the sources: it is the parameter \<open>wr\<close> of the operations that write.
\<close>

record class_code =
  cc_base :: u8
  cc_sub :: u8
  cc_interface :: u8

definition class_match1 :: "class_code \<Rightarrow> u8 \<Rightarrow> bool" where
  "class_match1 c b \<longleftrightarrow> b = cc_base c"

definition class_match2 :: "class_code \<Rightarrow> u8 \<Rightarrow> u8 \<Rightarrow> bool" where
  "class_match2 c b s \<longleftrightarrow> class_match1 c b \<and> s = cc_sub c"

definition class_match3 :: "class_code \<Rightarrow> u8 \<Rightarrow> u8 \<Rightarrow> u8 \<Rightarrow> bool" where
  "class_match3 c b s i \<longleftrightarrow> class_match2 c b s \<and> i = cc_interface c"

record pci_device =
  dev_bus :: u8
  dev_device :: u8
  dev_function :: u8
  dev_header_type :: u8
  dev_vendor_id :: u16
  dev_class_code :: class_code

text \<open>\<open>devices\<close> is the array of 32 elements; only the first \<open>num_devices\<close> are meaningful.\<close>

record pci =
  config_reg :: u32
  config_space :: "u32 \<Rightarrow> u32"
  devices :: "pci_device list"
  num_devices :: nat

subsection \<open>Configuration registers\<close>

definition make_address :: "u8 \<Rightarrow> u8 \<Rightarrow> u8 \<Rightarrow> u8 \<Rightarrow> u32" where
  "make_address bus device function reg_addr =
     (let shl = (\<lambda>x bits. push_bit bits x)
      in shl 1 31 OR shl (ucast bus) 16 OR shl (ucast device) 11 OR shl (ucast function) 8 OR
         (ucast reg_addr AND 0xfc))"

definition write_address :: "u32 \<Rightarrow> pci \<Rightarrow> pci" where
  "write_address address s = s\<lparr>config_reg := address\<rparr>"

definition write_data :: "(u32 \<Rightarrow> u32 \<Rightarrow> (u32 \<Rightarrow> u32) \<Rightarrow> u32 \<Rightarrow> u32) \<Rightarrow> u32 \<Rightarrow> pci \<Rightarrow> pci" where
  "write_data wr value s = s\<lparr>config_space := wr (config_reg s) value (config_space s)\<rparr>"

definition read_data :: "pci \<Rightarrow> u32" where
  "read_data s = config_space s (config_reg s)"

definition read_vendor_id :: "u8 \<Rightarrow> u8 \<Rightarrow> u8 \<Rightarrow> pci \<Rightarrow> u16 \<times> pci" where
  "read_vendor_id bus device function s =
     (let s = write_address (make_address bus device function 0x00) s
      in (ucast (read_data s AND 0xffff), s))"

definition read_header_type :: "u8 \<Rightarrow> u8 \<Rightarrow> u8 \<Rightarrow> pci \<Rightarrow> u8 \<times> pci" where
  "read_header_type bus device function s =
     (let s = write_address (make_address bus device function 0x0c) s
      in (ucast (drop_bit 16 (read_data s) AND 0xff), s))"

definition read_class_code :: "u8 \<Rightarrow> u8 \<Rightarrow> u8 \<Rightarrow> pci \<Rightarrow> class_code \<times> pci" where
  "read_class_code bus device function s =
     (let s = write_address (make_address bus device function 0x08) s; data = read_data s
      in (\<lparr>cc_base = ucast (drop_bit 24 data AND 0xff), cc_sub = ucast (drop_bit 16 data AND 0xff),
           cc_interface = ucast (drop_bit 8 data AND 0xff)\<rparr>, s))"

definition read_bus_numbers :: "u8 \<Rightarrow> u8 \<Rightarrow> u8 \<Rightarrow> pci \<Rightarrow> u32 \<times> pci" where
  "read_bus_numbers bus device function s =
     (let s = write_address (make_address bus device function 0x18) s in (read_data s, s))"

definition read_conf_reg :: "pci_device \<Rightarrow> u8 \<Rightarrow> pci \<Rightarrow> u32 \<times> pci" where
  "read_conf_reg device reg_addr s =
     (let s = write_address (make_address (dev_bus device) (dev_device device) (dev_function device) reg_addr) s
      in (read_data s, s))"

definition write_conf_reg ::
    "(u32 \<Rightarrow> u32 \<Rightarrow> (u32 \<Rightarrow> u32) \<Rightarrow> u32 \<Rightarrow> u32) \<Rightarrow> pci_device \<Rightarrow> u8 \<Rightarrow> u32 \<Rightarrow> pci \<Rightarrow> pci" where
  "write_conf_reg wr device reg_addr value s =
     write_data wr value
       (write_address (make_address (dev_bus device) (dev_device device) (dev_function device) reg_addr) s)"

definition calc_bar_address :: "u32 \<Rightarrow> u8" where
  "calc_bar_address bar_index = ucast (0x10 + 4 * bar_index)"

definition read_bar :: "pci_device \<Rightarrow> u32 \<Rightarrow> pci \<Rightarrow> u64 with_error \<times> pci" where
  "read_bar device bar_index s =
     (if 6 \<le> bar_index then (\<lparr>we_value = 0, we_error = IndexOutOfRange\<rparr>, s)
      else
        let addr = calc_bar_address bar_index; (bar, s) = read_conf_reg device addr s
        in if bar AND 4 = 0 then (\<lparr>we_value = ucast bar, we_error = Success\<rparr>, s)
           else if 5 \<le> bar_index then (\<lparr>we_value = 0, we_error = IndexOutOfRange\<rparr>, s)
           else
             let (bar_upper, s) = read_conf_reg device (addr + 4) s
             in (\<lparr>we_value = ucast bar OR push_bit 32 (ucast bar_upper), we_error = Success\<rparr>, s))"

definition is_single_function_device :: "u8 \<Rightarrow> bool" where
  "is_single_function_device header_type \<longleftrightarrow> header_type AND 0x80 = 0"

subsection \<open>Scanning the buses\<close>

definition add_device :: "u8 \<Rightarrow> u8 \<Rightarrow> u8 \<Rightarrow> u8 \<Rightarrow> class_code \<Rightarrow> pci \<Rightarrow> error_code \<times> pci" where
  "add_device bus device function header_type class_code s =
     (if num_devices s = length (devices s) then (Full, s)
      else
        let (vendor_id, s) = read_vendor_id bus device function s;
            d = \<lparr>dev_bus = bus, dev_device = device, dev_function = function,
                 dev_header_type = header_type, dev_vendor_id = vendor_id, dev_class_code = class_code\<rparr>;
            s = s\<lparr>devices := (devices s)[num_devices s := d]\<rparr>
        in (Success, s\<lparr>num_devices := num_devices s + 1\<rparr>))"

text \<open>
  \<open>scan_bus\<close>, \<open>scan_device\<close> and \<open>scan_function\<close> call each other: a bridge makes the scan go
  down to its secondary bus. Each is defined over the \<open>scan_bus\<close> of the next level, and
  \<open>scan_bus (Suc n)\<close> follows bridges at most \<open>n\<close> levels deep; \<open>None\<close> is a deeper descent.
\<close>

definition scan_function_with ::
    "(u8 \<Rightarrow> pci \<Rightarrow> (error_code \<times> pci) option) \<Rightarrow> u8 \<Rightarrow> u8 \<Rightarrow> u8 \<Rightarrow> pci \<Rightarrow> (error_code \<times> pci) option" where
  "scan_function_with down bus device function s =
     (let (header_type, s) = read_header_type bus device function s;
          (class_code, s) = read_class_code bus device function s;
          (err, s) = add_device bus device function header_type class_code s
      in if error_bool err then Some (err, s)
         else if cc_base class_code = 0x06 \<and> cc_sub class_code = 0x04 then
           let (bus_numbers, s) = read_bus_numbers bus device function s;
               secondary_bus = ucast (drop_bit 8 bus_numbers AND 0xff)
           in down secondary_bus s
         else Some (Success, s))"

definition scan_other_function ::
    "(u8 \<Rightarrow> pci \<Rightarrow> (error_code \<times> pci) option) \<Rightarrow> u8 \<Rightarrow> u8 \<Rightarrow> u8 \<Rightarrow> pci \<Rightarrow> (error_code \<times> pci) option" where
  "scan_other_function down bus device function s =
     (let (vendor, s) = read_vendor_id bus device function s
      in if vendor = 0xffff then Some (Success, s)
         else scan_function_with down bus device function s)"

definition other_functions :: "u8 list" where
  "other_functions = map of_nat [1..<8]"

definition scan_device_with ::
    "(u8 \<Rightarrow> pci \<Rightarrow> (error_code \<times> pci) option) \<Rightarrow> u8 \<Rightarrow> u8 \<Rightarrow> pci \<Rightarrow> (error_code \<times> pci) option" where
  "scan_device_with down bus device s = do {
     (err, s) \<leftarrow> scan_function_with down bus device 0 s;
     if error_bool err then Some (err, s)
     else
       let (header_type, s) = read_header_type bus device 0 s
       in if is_single_function_device header_type then Some (Success, s)
          else each_until_error (scan_other_function down bus device) other_functions s }"

definition scan_slot ::
    "(u8 \<Rightarrow> pci \<Rightarrow> (error_code \<times> pci) option) \<Rightarrow> u8 \<Rightarrow> u8 \<Rightarrow> pci \<Rightarrow> (error_code \<times> pci) option" where
  "scan_slot down bus device s =
     (let (vendor, s) = read_vendor_id bus device 0 s
      in if vendor = 0xffff then Some (Success, s) else scan_device_with down bus device s)"

definition bus_slots :: "u8 list" where
  "bus_slots = map of_nat [0..<32]"

primrec scan_bus :: "nat \<Rightarrow> u8 \<Rightarrow> pci \<Rightarrow> (error_code \<times> pci) option" where
  "scan_bus 0 bus s = None"
| "scan_bus (Suc n) bus s = each_until_error (scan_slot (scan_bus n) bus) bus_slots s"

definition scan_function :: "nat \<Rightarrow> u8 \<Rightarrow> u8 \<Rightarrow> u8 \<Rightarrow> pci \<Rightarrow> (error_code \<times> pci) option" where
  "scan_function n = scan_function_with (scan_bus n)"

definition scan_device :: "nat \<Rightarrow> u8 \<Rightarrow> u8 \<Rightarrow> pci \<Rightarrow> (error_code \<times> pci) option" where
  "scan_device n = scan_device_with (scan_bus n)"

definition scan_host_function :: "nat \<Rightarrow> u8 \<Rightarrow> pci \<Rightarrow> (error_code \<times> pci) option" where
  "scan_host_function n function s =
     (let (vendor, s) = read_vendor_id 0 0 function s
      in if vendor = 0xffff then Some (Success, s) else scan_bus n function s)"

definition scan_all_bus :: "nat \<Rightarrow> pci \<Rightarrow> (error_code \<times> pci) option" where
  "scan_all_bus n s =
     (let s = s\<lparr>num_devices := 0\<rparr>; (header_type, s) = read_header_type 0 0 0 s
      in if is_single_function_device header_type then scan_bus n 0 s
         else each_until_error (scan_host_function n) other_functions s)"

subsection \<open>What the ports show\<close>

text \<open>The registers of a function as values of the configuration space.\<close>

definition vendor_of :: "(u32 \<Rightarrow> u32) \<Rightarrow> u8 \<Rightarrow> u8 \<Rightarrow> u8 \<Rightarrow> u16" where
  "vendor_of cfg b d f = ucast (cfg (make_address b d f 0x00) AND 0xffff)"

definition header_of :: "(u32 \<Rightarrow> u32) \<Rightarrow> u8 \<Rightarrow> u8 \<Rightarrow> u8 \<Rightarrow> u8" where
  "header_of cfg b d f = ucast (drop_bit 16 (cfg (make_address b d f 0x0c)) AND 0xff)"

definition class_of :: "(u32 \<Rightarrow> u32) \<Rightarrow> u8 \<Rightarrow> u8 \<Rightarrow> u8 \<Rightarrow> class_code" where
  "class_of cfg b d f =
     (let data = cfg (make_address b d f 0x08)
      in \<lparr>cc_base = ucast (drop_bit 24 data AND 0xff), cc_sub = ucast (drop_bit 16 data AND 0xff),
          cc_interface = ucast (drop_bit 8 data AND 0xff)\<rparr>)"

definition secondary_of :: "(u32 \<Rightarrow> u32) \<Rightarrow> u8 \<Rightarrow> u8 \<Rightarrow> u8 \<Rightarrow> u8" where
  "secondary_of cfg b d f = ucast (drop_bit 8 (cfg (make_address b d f 0x18)) AND 0xff)"

definition entry_of :: "(u32 \<Rightarrow> u32) \<Rightarrow> u8 \<Rightarrow> u8 \<Rightarrow> u8 \<Rightarrow> pci_device" where
  "entry_of cfg b d f = \<lparr>dev_bus = b, dev_device = d, dev_function = f, dev_header_type = header_of cfg b d f,
     dev_vendor_id = vendor_of cfg b d f, dev_class_code = class_of cfg b d f\<rparr>"

definition is_bridge :: "pci_device \<Rightarrow> bool" where
  "is_bridge x \<longleftrightarrow> cc_base (dev_class_code x) = 0x06 \<and> cc_sub (dev_class_code x) = 0x04"

text \<open>The reads change only the address register.\<close>

lemma read_results [run_simps]:
  "read_vendor_id b d f s = (vendor_of (config_space s) b d f, s\<lparr>config_reg := make_address b d f 0x00\<rparr>)"
  "read_header_type b d f s = (header_of (config_space s) b d f, s\<lparr>config_reg := make_address b d f 0x0c\<rparr>)"
  "read_class_code b d f s = (class_of (config_space s) b d f, s\<lparr>config_reg := make_address b d f 0x08\<rparr>)"
  "read_bus_numbers b d f s = (config_space s (make_address b d f 0x18), s\<lparr>config_reg := make_address b d f 0x18\<rparr>)"
  "read_conf_reg x r s = (config_space s (make_address (dev_bus x) (dev_device x) (dev_function x) r),
     s\<lparr>config_reg := make_address (dev_bus x) (dev_device x) (dev_function x) r\<rparr>)"
  by (simp_all add: read_vendor_id_def read_header_type_def read_class_code_def read_bus_numbers_def
      read_conf_reg_def write_address_def read_data_def vendor_of_def header_of_def class_of_def Let_def)

text \<open>The functions that exist on a bus, and the buses that bridges lead to.\<close>

definition fn_exists :: "(u32 \<Rightarrow> u32) \<Rightarrow> u8 \<Rightarrow> u8 \<Rightarrow> u8 \<Rightarrow> bool" where
  "fn_exists cfg b d f \<longleftrightarrow> d \<in> set bus_slots \<and> vendor_of cfg b d 0 \<noteq> 0xffff \<and>
     (f = 0 \<or> \<not> is_single_function_device (header_of cfg b d 0) \<and> f \<in> set other_functions \<and>
        vendor_of cfg b d f \<noteq> 0xffff)"

definition host_buses :: "(u32 \<Rightarrow> u32) \<Rightarrow> u8 set" where
  "host_buses cfg = (if is_single_function_device (header_of cfg 0 0 0) then {0}
     else {f \<in> set other_functions. vendor_of cfg 0 0 f \<noteq> 0xffff})"

inductive bus_reached :: "(u32 \<Rightarrow> u32) \<Rightarrow> u8 \<Rightarrow> bool" for cfg where
  host: "b \<in> host_buses cfg \<Longrightarrow> bus_reached cfg b"
| bridge: "bus_reached cfg b \<Longrightarrow> fn_exists cfg b d f \<Longrightarrow> is_bridge (entry_of cfg b d f) \<Longrightarrow>
    bus_reached cfg (secondary_of cfg b d f)"

definition reachable_entries :: "(u32 \<Rightarrow> u32) \<Rightarrow> pci_device set" where
  "reachable_entries cfg = {entry_of cfg b d f | b d f. bus_reached cfg b \<and> fn_exists cfg b d f}"

definition recorded :: "pci \<Rightarrow> pci_device list" where
  "recorded s = take (num_devices s) (devices s)"

definition table_ok :: "(u32 \<Rightarrow> u32) \<Rightarrow> pci \<Rightarrow> bool" where
  "table_ok cfg s \<longleftrightarrow> config_space s = cfg \<and> length (devices s) = 32 \<and> num_devices s \<le> 32"

lemma table_ok_reg [simp]:
  "table_ok cfg (s\<lparr>config_reg := a\<rparr>) = table_ok cfg s" "recorded (s\<lparr>config_reg := a\<rparr>) = recorded s"
  by (simp_all add: table_ok_def recorded_def)

lemma add_device_cases:
  assumes "table_ok cfg s"
  obtains (full) "add_device b d f (header_of cfg b d f) (class_of cfg b d f) s = (Full, s)" "num_devices s = 32"
  | (added) s' where
      "add_device b d f (header_of cfg b d f) (class_of cfg b d f) s = (Success, s')" "table_ok cfg s'"
      "recorded s' = recorded s @ [entry_of cfg b d f]" "num_devices s' = Suc (num_devices s)"
proof (cases "num_devices s = 32")
  case True
  with assms show ?thesis by (intro full) (simp_all add: add_device_def table_ok_def)
next
  case False
  with assms have lt: "num_devices s < 32" "length (devices s) = 32" by (simp_all add: table_ok_def)
  define s' where "s' = snd (add_device b d f (header_of cfg b d f) (class_of cfg b d f) s)"
  show ?thesis
  proof (rule added[of s'])
    show "recorded s' = recorded s @ [entry_of cfg b d f]"
      using lt assms
      by (simp add: s'_def add_device_def recorded_def read_results take_Suc_conv_app_nth entry_of_def table_ok_def)
  qed (use lt assms in \<open>simp_all add: s'_def add_device_def read_results table_ok_def\<close>)
qed

subsection \<open>The scan ends, and records only what exists\<close>

text \<open>
  \<open>scan_inv n s\<close>: the table is well formed, holds only reachable functions, and is full enough
  for a descent of depth \<open>n\<close>: a bridge is recorded before its bus is scanned, so each level of
  the descent uses up an entry of the table.
\<close>

definition scan_inv :: "(u32 \<Rightarrow> u32) \<Rightarrow> nat \<Rightarrow> pci \<Rightarrow> bool" where
  "scan_inv cfg n s \<longleftrightarrow> table_ok cfg s \<and> set (recorded s) \<subseteq> reachable_entries cfg \<and> 33 \<le> n + num_devices s"

definition scan_error :: "error_code \<Rightarrow> bool" where
  "scan_error e \<longleftrightarrow> e = Success \<or> e = Full"

lemma scan_inv_reg [simp]: "scan_inv cfg n (s\<lparr>config_reg := a\<rparr>) = scan_inv cfg n s"
  by (simp add: scan_inv_def)

lemma scan_inv_more: "scan_inv cfg n s \<Longrightarrow> n \<le> m \<Longrightarrow> scan_inv cfg m s"
  by (simp add: scan_inv_def)

lemma scan_function_total:
  assumes down: "\<And>b s. bus_reached cfg b \<Longrightarrow> scan_inv cfg n s \<Longrightarrow>
      \<exists>e s'. down b s = Some (e, s') \<and> scan_inv cfg n s' \<and> scan_error e"
    and "bus_reached cfg b" and "fn_exists cfg b d f" and inv: "scan_inv cfg (Suc n) s"
  shows "\<exists>e s'. scan_function_with down b d f s = Some (e, s') \<and> scan_inv cfg (Suc n) s' \<and> scan_error e"
proof -
  have cfg: "config_space s = cfg" and ok: "table_ok cfg s" using inv by (simp_all add: scan_inv_def table_ok_def)
  let ?s = "s\<lparr>config_reg := make_address b d f 0x08\<rparr>"
  have "table_ok cfg ?s" using ok by simp
  then show ?thesis
  proof (cases rule: add_device_cases[where b = b and d = d and f = f])
    case full
    then show ?thesis using inv by (simp add: scan_function_with_def read_results cfg error_bool_def scan_error_def)
  next
    case (added s')
    have "entry_of cfg b d f \<in> reachable_entries cfg"
      using assms(2,3) by (auto simp: reachable_entries_def)
    then have inv': "scan_inv cfg n s'" using added inv by (auto simp: scan_inv_def)
    have cfg': "config_space s' = cfg" using added by (simp add: table_ok_def)
    show ?thesis
    proof (cases "is_bridge (entry_of cfg b d f)")
      case True
      then have "bus_reached cfg (secondary_of cfg b d f)" by (rule bus_reached.bridge[OF assms(2,3)])
      from down[OF this, of "s'\<lparr>config_reg := make_address b d f 0x18\<rparr>"] inv'
      obtain e s'' where "down (secondary_of cfg b d f) (s'\<lparr>config_reg := make_address b d f 0x18\<rparr>) = Some (e, s'')"
        "scan_inv cfg n s''" "scan_error e" by auto
      then show ?thesis using True added scan_inv_more[of cfg n s'' "Suc n"]
        by (simp add: scan_function_with_def read_results cfg cfg' error_bool_def is_bridge_def entry_of_def
            secondary_of_def)
    next
      case False
      then show ?thesis using added inv' scan_inv_more[of cfg n s' "Suc n"]
        by (auto simp: scan_function_with_def read_results cfg cfg' error_bool_def is_bridge_def entry_of_def
            scan_error_def)
    qed
  qed
qed

lemma scan_bus_total:
  "bus_reached cfg b \<Longrightarrow> scan_inv cfg n s \<Longrightarrow>
   \<exists>e s'. scan_bus n b s = Some (e, s') \<and> scan_inv cfg n s' \<and> scan_error e"
proof (induction n arbitrary: b s)
  case 0
  then show ?case by (auto simp: scan_inv_def table_ok_def)
next
  case (Suc n)
  have fn: "\<exists>e s'. scan_function_with (scan_bus n) b d f s = Some (e, s') \<and> scan_inv cfg (Suc n) s' \<and> scan_error e"
    if "fn_exists cfg b d f" "scan_inv cfg (Suc n) s" for d f s
    using Suc.IH Suc.prems(1) that by (rule scan_function_total)
  have other: "\<exists>e s'. scan_other_function (scan_bus n) b d f s = Some (e, s') \<and> scan_inv cfg (Suc n) s' \<and> scan_error e"
    if "scan_inv cfg (Suc n) s" "d \<in> set bus_slots" "vendor_of cfg b d 0 \<noteq> 0xffff"
      "\<not> is_single_function_device (header_of cfg b d 0)" "f \<in> set other_functions" for d f s
    using that fn[of d f "s\<lparr>config_reg := make_address b d f 0x00\<rparr>"]
    by (auto simp: scan_other_function_def read_results fn_exists_def scan_inv_def table_ok_def scan_error_def)
  have slot: "\<exists>e s'. scan_slot (scan_bus n) b d s = Some (e, s') \<and> scan_inv cfg (Suc n) s' \<and> scan_error e"
    if inv: "scan_inv cfg (Suc n) s" and d: "d \<in> set bus_slots" for d s
  proof (cases "vendor_of cfg b d 0 = 0xffff")
    case True
    then show ?thesis using inv by (auto simp: scan_slot_def read_results scan_inv_def table_ok_def scan_error_def)
  next
    case False
    have cfg: "config_space s = cfg" using inv by (simp add: scan_inv_def table_ok_def)
    have "fn_exists cfg b d 0" using False d by (simp add: fn_exists_def)
    from fn[OF this, of "s\<lparr>config_reg := make_address b d 0 0x00\<rparr>"] inv
    obtain e1 s1 where 1: "scan_function_with (scan_bus n) b d 0 (s\<lparr>config_reg := make_address b d 0 0x00\<rparr>) = Some (e1, s1)"
      "scan_inv cfg (Suc n) s1" "scan_error e1" by auto
    have cfg1: "config_space s1 = cfg" using 1(2) by (simp add: scan_inv_def table_ok_def)
    let ?s1 = "s1\<lparr>config_reg := make_address b d 0 0x0c\<rparr>"
    have loop: "\<exists>e s'. each_until_error (scan_other_function (scan_bus n) b d) other_functions ?s1 = Some (e, s') \<and>
        scan_inv cfg (Suc n) s' \<and> scan_error e" if "\<not> is_single_function_device (header_of cfg b d 0)"
      by (rule each_until_error_total) (use other d False that 1 in \<open>auto simp: scan_error_def\<close>)
    show ?thesis
    proof (cases "error_bool e1 \<or> is_single_function_device (header_of cfg b d 0)")
      case True
      then show ?thesis using 1 False
        by (auto simp: scan_slot_def scan_device_with_def read_results cfg cfg1 scan_error_def)
    next
      case False
      then show ?thesis using 1 \<open>vendor_of cfg b d 0 \<noteq> 0xffff\<close> loop
        by (auto simp: scan_slot_def scan_device_with_def read_results cfg cfg1 scan_error_def)
    qed
  qed
  show ?case unfolding scan_bus.simps
    by (rule each_until_error_total) (use slot Suc.prems in \<open>auto simp: scan_error_def\<close>)
qed

text \<open>A deeper bound gives the same result.\<close>

lemma scan_function_mono:
  assumes "\<And>b s r. down b s = Some r \<Longrightarrow> down' b s = Some r" and "scan_function_with down b d f s = Some r"
  shows "scan_function_with down' b d f s = Some r"
  using assms(2) unfolding scan_function_with_def Let_def
  by (auto split: prod.splits if_splits intro: assms(1))

lemma scan_other_function_mono:
  assumes "\<And>b s r. down b s = Some r \<Longrightarrow> down' b s = Some r" and "scan_other_function down b d f s = Some r"
  shows "scan_other_function down' b d f s = Some r"
  using assms(2) unfolding scan_other_function_def Let_def
  by (auto split: prod.splits if_splits intro: scan_function_mono[OF assms(1)])

lemma scan_slot_mono:
  assumes down: "\<And>b s r. down b s = Some r \<Longrightarrow> down' b s = Some r" and "scan_slot down b d s = Some r"
  shows "scan_slot down' b d s = Some r"
proof (cases "fst (read_vendor_id b d 0 s) = 0xffff")
  case True
  then show ?thesis using assms(2) by (simp add: scan_slot_def split: prod.splits)
next
  case False
  define s0 where "s0 = snd (read_vendor_id b d 0 s)"
  from False assms(2) have "scan_device_with down b d s0 = Some r"
    by (simp add: scan_slot_def s0_def split: prod.splits)
  then obtain e1 s1 where f: "scan_function_with down b d 0 s0 = Some (e1, s1)"
    and r: "(if error_bool e1 then Some (e1, s1) else
       let (header_type, s) = read_header_type b d 0 s1
       in if is_single_function_device header_type then Some (Success, s)
          else each_until_error (scan_other_function down b d) other_functions s) = Some r"
    unfolding scan_device_with_def bind_eq_Some_conv by auto
  have f': "scan_function_with down' b d 0 s0 = Some (e1, s1)" using scan_function_mono[OF down f] .
  have loop: "each_until_error (scan_other_function down' b d) other_functions t = Some r"
    if "each_until_error (scan_other_function down b d) other_functions t = Some r" for t
    using _ that by (rule each_until_error_mono) (rule scan_other_function_mono[OF down])
  have "scan_device_with down' b d s0 = Some r"
    using r loop
    by (auto simp: scan_device_with_def f' Let_def split: prod.splits if_splits)
  with False show ?thesis by (auto simp: scan_slot_def s0_def split: prod.splits)
qed

lemma scan_bus_mono: "scan_bus n b s = Some r \<Longrightarrow> scan_bus (n + k) b s = Some r"
proof (induction n arbitrary: b s r)
  case (Suc n)
  from Suc.prems have "each_until_error (scan_slot (scan_bus n) b) bus_slots s = Some r" by simp
  then have "each_until_error (scan_slot (scan_bus (n + k)) b) bus_slots s = Some r"
    by (rule each_until_error_mono[rotated]) (rule scan_slot_mono[OF Suc.IH])
  then show ?case by simp
qed simp

subsection \<open>A successful scan records everything\<close>

text \<open>
  \<open>covers R b\<close>: all functions of bus \<open>b\<close> are in \<open>R\<close>. \<open>scan_rel s s'\<close>: the scan from \<open>s\<close> to \<open>s'\<close>
  only appends to the table, and covers the bus behind each bridge it appends.
\<close>

definition covers :: "(u32 \<Rightarrow> u32) \<Rightarrow> pci_device list \<Rightarrow> u8 \<Rightarrow> bool" where
  "covers cfg R b \<longleftrightarrow> (\<forall>d f. fn_exists cfg b d f \<longrightarrow> entry_of cfg b d f \<in> set R)"

definition scan_rel :: "(u32 \<Rightarrow> u32) \<Rightarrow> pci \<Rightarrow> pci \<Rightarrow> bool" where
  "scan_rel cfg s s' \<longleftrightarrow> (\<exists>new. recorded s' = recorded s @ new \<and>
     (\<forall>x\<in>set new. is_bridge x \<longrightarrow>
        covers cfg (recorded s') (secondary_of cfg (dev_bus x) (dev_device x) (dev_function x))))"

lemma covers_mono: "covers cfg R b \<Longrightarrow> set R \<subseteq> set R' \<Longrightarrow> covers cfg R' b"
  by (auto simp: covers_def)

lemma scan_rel_recorded: "scan_rel cfg s s' \<Longrightarrow> set (recorded s) \<subseteq> set (recorded s')"
  by (auto simp: scan_rel_def)

lemma scan_rel_refl: "scan_rel cfg s s"
  by (simp add: scan_rel_def)

lemma scan_rel_trans:
  assumes "scan_rel cfg s t" and "scan_rel cfg t u"
  shows "scan_rel cfg s u"
proof -
  obtain n1 n2 where "recorded t = recorded s @ n1" "recorded u = recorded t @ n2"
    and 1: "\<forall>x\<in>set n1. is_bridge x \<longrightarrow> covers cfg (recorded t) (secondary_of cfg (dev_bus x) (dev_device x) (dev_function x))"
    and 2: "\<forall>x\<in>set n2. is_bridge x \<longrightarrow> covers cfg (recorded u) (secondary_of cfg (dev_bus x) (dev_device x) (dev_function x))"
    using assms by (auto simp: scan_rel_def)
  moreover have "set (recorded t) \<subseteq> set (recorded u)" using assms(2) by (rule scan_rel_recorded)
  ultimately show ?thesis
    unfolding scan_rel_def by (intro exI[of _ "n1 @ n2"]) (auto intro: covers_mono)
qed

lemma scan_rel_reg [simp]:
  "scan_rel cfg (s\<lparr>config_reg := a\<rparr>) s' = scan_rel cfg s s'"
  "scan_rel cfg s (s'\<lparr>config_reg := a\<rparr>) = scan_rel cfg s s'"
  by (simp_all add: scan_rel_def)

lemma scan_function_complete:
  assumes down: "\<And>b s s'. table_ok cfg s \<Longrightarrow> down b s = Some (Success, s') \<Longrightarrow>
      table_ok cfg s' \<and> scan_rel cfg s s' \<and> covers cfg (recorded s') b"
    and ok: "table_ok cfg s" and run: "scan_function_with down b d f s = Some (Success, s')"
  shows "table_ok cfg s' \<and> scan_rel cfg s s' \<and> entry_of cfg b d f \<in> set (recorded s')"
proof -
  have cfg: "config_space s = cfg" using ok by (simp add: table_ok_def)
  let ?s = "s\<lparr>config_reg := make_address b d f 0x08\<rparr>" and ?x = "entry_of cfg b d f"
  have "table_ok cfg ?s" using ok by simp
  then show ?thesis
  proof (cases rule: add_device_cases[where b = b and d = d and f = f])
    case full
    with run show ?thesis by (simp add: scan_function_with_def read_results cfg error_bool_def)
  next
    case (added s1)
    have cfg1: "config_space s1 = cfg" using added by (simp add: table_ok_def)
    show ?thesis
    proof (cases "is_bridge ?x")
      case True
      let ?s1 = "s1\<lparr>config_reg := make_address b d f 0x18\<rparr>"
      from run True added have "down (secondary_of cfg b d f) ?s1 = Some (Success, s')"
        by (simp add: scan_function_with_def read_results cfg cfg1 error_bool_def is_bridge_def entry_of_def
            secondary_of_def)
      from down[OF _ this] added(2) have 1: "table_ok cfg s'" "scan_rel cfg s1 s'"
        "covers cfg (recorded s') (secondary_of cfg b d f)" by simp_all
      from 1(2) obtain new where new: "recorded s' = recorded s1 @ new"
        "\<forall>x\<in>set new. is_bridge x \<longrightarrow> covers cfg (recorded s') (secondary_of cfg (dev_bus x) (dev_device x) (dev_function x))"
        by (auto simp: scan_rel_def)
      then have "scan_rel cfg s s'" unfolding scan_rel_def
        using 1(3) added(3) by (intro exI[of _ "?x # new"]) (simp add: entry_of_def)
      then show ?thesis using 1 new added(3) by simp
    next
      case False
      with run added have "s' = s1"
        by (simp add: scan_function_with_def read_results cfg cfg1 error_bool_def is_bridge_def entry_of_def
            split: if_splits)
      then show ?thesis using added False by (auto simp: scan_rel_def)
    qed
  qed
qed

text \<open>Loops of scans: what each iteration has recorded stays recorded.\<close>

lemma scan_loop_complete:
  assumes step: "\<And>x s s'. x \<in> set xs \<Longrightarrow> table_ok cfg s \<Longrightarrow> body x s = Some (Success, s') \<Longrightarrow>
      table_ok cfg s' \<and> scan_rel cfg s s' \<and> X x \<subseteq> set (recorded s')"
    and "table_ok cfg s" and "each_until_error body xs s = Some (Success, s')"
  shows "table_ok cfg s' \<and> scan_rel cfg s s' \<and> (\<forall>x\<in>set xs. X x \<subseteq> set (recorded s'))"
proof (rule each_until_error_Success[where R = "scan_rel cfg" and P = "table_ok cfg"])
  show "scan_rel cfg s u" if "scan_rel cfg s t" "scan_rel cfg t u" for s t u
    using that by (rule scan_rel_trans)
  show "X x \<subseteq> set (recorded s')" if "scan_rel cfg s s'" "X x \<subseteq> set (recorded s)" for x s s'
    using scan_rel_recorded[OF that(1)] that(2) by blast
  show "each_until_error body xs s = Some (Success, s')" by (rule assms(3))
qed (use assms scan_rel_refl in blast)+

lemma scan_other_functions_complete:
  assumes down: "\<And>b s s'. table_ok cfg s \<Longrightarrow> down b s = Some (Success, s') \<Longrightarrow>
      table_ok cfg s' \<and> scan_rel cfg s s' \<and> covers cfg (recorded s') b"
    and "table_ok cfg s" and "each_until_error (scan_other_function down b d) other_functions s = Some (Success, s')"
  shows "table_ok cfg s' \<and> scan_rel cfg s s' \<and>
    (\<forall>f\<in>set other_functions. vendor_of cfg b d f \<noteq> 0xffff \<longrightarrow> entry_of cfg b d f \<in> set (recorded s'))"
proof -
  let ?X = "\<lambda>f. if vendor_of cfg b d f \<noteq> 0xffff then {entry_of cfg b d f} else {}"
  have "table_ok cfg s' \<and> scan_rel cfg s s' \<and> (\<forall>f\<in>set other_functions. ?X f \<subseteq> set (recorded s'))"
    using _ assms(2,3)
  proof (rule scan_loop_complete)
    fix f s s' assume ok: "table_ok cfg s" and run: "scan_other_function down b d f s = Some (Success, s')"
    have cfg: "config_space s = cfg" using ok by (simp add: table_ok_def)
    let ?s = "s\<lparr>config_reg := make_address b d f 0x00\<rparr>"
    show "table_ok cfg s' \<and> scan_rel cfg s s' \<and> ?X f \<subseteq> set (recorded s')"
    proof (cases "vendor_of cfg b d f = 0xffff")
      case True
      then have "s' = ?s" using run by (simp add: scan_other_function_def read_results cfg)
      then show ?thesis using ok True by (simp add: scan_rel_refl)
    next
      case False
      then have "scan_function_with down b d f ?s = Some (Success, s')"
        using run by (simp add: scan_other_function_def read_results cfg)
      from scan_function_complete[OF down _ this] ok show ?thesis by simp
    qed
  qed
  then show ?thesis by (auto split: if_splits)
qed

lemma scan_slot_complete:
  assumes down: "\<And>b s s'. table_ok cfg s \<Longrightarrow> down b s = Some (Success, s') \<Longrightarrow>
      table_ok cfg s' \<and> scan_rel cfg s s' \<and> covers cfg (recorded s') b"
    and ok: "table_ok cfg s" and run: "scan_slot down b d s = Some (Success, s')"
  shows "table_ok cfg s' \<and> scan_rel cfg s s' \<and> (\<forall>f. fn_exists cfg b d f \<longrightarrow> entry_of cfg b d f \<in> set (recorded s'))"
proof -
  have cfg: "config_space s = cfg" using ok by (simp add: table_ok_def)
  let ?s = "s\<lparr>config_reg := make_address b d 0 0x00\<rparr>"
  show ?thesis
  proof (cases "vendor_of cfg b d 0 = 0xffff")
    case True
    then have "s' = ?s" using run by (simp add: scan_slot_def read_results cfg)
    then show ?thesis using ok True by (simp add: scan_rel_refl fn_exists_def)
  next
    case False
    then have "scan_device_with down b d ?s = Some (Success, s')" using run by (simp add: scan_slot_def read_results cfg)
    then obtain s1 where f: "scan_function_with down b d 0 ?s = Some (Success, s1)"
      and r: "(let (header_type, s) = read_header_type b d 0 s1
         in if is_single_function_device header_type then Some (Success, s)
            else each_until_error (scan_other_function down b d) other_functions s) = Some (Success, s')"
      unfolding scan_device_with_def bind_eq_Some_conv by (auto simp: error_bool_def split: if_splits)
    from scan_function_complete[OF down _ f] ok
    have 1: "table_ok cfg s1" "scan_rel cfg s s1" "entry_of cfg b d 0 \<in> set (recorded s1)" by simp_all
    have cfg1: "config_space s1 = cfg" using 1 by (simp add: table_ok_def)
    let ?s1 = "s1\<lparr>config_reg := make_address b d 0 0x0c\<rparr>"
    show ?thesis
    proof (cases "is_single_function_device (header_of cfg b d 0)")
      case True
      then have "s' = ?s1" using r by (simp add: read_results cfg1)
      then show ?thesis using 1 True by (auto simp: fn_exists_def)
    next
      case multi: False
      then have "each_until_error (scan_other_function down b d) other_functions ?s1 = Some (Success, s')"
        using r by (simp add: read_results cfg1)
      from scan_other_functions_complete[OF down _ this] 1
      have 2: "table_ok cfg s'" "scan_rel cfg s1 s'"
        "\<forall>f\<in>set other_functions. vendor_of cfg b d f \<noteq> 0xffff \<longrightarrow> entry_of cfg b d f \<in> set (recorded s')" by simp_all
      then show ?thesis
        using scan_rel_trans[OF 1(2) 2(2)] scan_rel_recorded[OF 2(2)] 1(3) by (auto simp: fn_exists_def)
    qed
  qed
qed

lemma scan_bus_complete:
  "table_ok cfg s \<Longrightarrow> scan_bus n b s = Some (Success, s') \<Longrightarrow>
   table_ok cfg s' \<and> scan_rel cfg s s' \<and> covers cfg (recorded s') b"
proof (induction n arbitrary: b s s')
  case (Suc n)
  from Suc.prems(2) have "each_until_error (scan_slot (scan_bus n) b) bus_slots s = Some (Success, s')" by simp
  with _ Suc.prems(1) have "table_ok cfg s' \<and> scan_rel cfg s s' \<and>
    (\<forall>d\<in>set bus_slots. {entry_of cfg b d f | f. fn_exists cfg b d f} \<subseteq> set (recorded s'))"
    by (rule scan_loop_complete) (use scan_slot_complete[OF Suc.IH] in blast)
  then show ?case unfolding covers_def fn_exists_def by blast
qed simp

lemma scan_all_bus_result:
  assumes "length (devices s) = 32"
  shows "\<exists>e s'. (\<forall>n\<ge>33. scan_all_bus n s = Some (e, s')) \<and> scan_error e \<and> num_devices s' \<le> 32 \<and>
    set (recorded s') \<subseteq> reachable_entries (config_space s) \<and> config_space s' = config_space s \<and> length (devices s') = 32"
proof -
  define cfg where "cfg = config_space s"
  define s0 where "s0 = s\<lparr>num_devices := 0, config_reg := make_address 0 0 0 0x0c\<rparr>"
  have cfg0: "config_space s0 = cfg" by (simp add: s0_def cfg_def)
  have inv: "scan_inv cfg 33 s0" using assms by (simp add: scan_inv_def table_ok_def s0_def cfg_def recorded_def)
  have all: "scan_all_bus n s = (if is_single_function_device (header_of cfg 0 0 0) then scan_bus n 0 s0
      else each_until_error (scan_host_function n) other_functions s0)" for n
    by (simp add: scan_all_bus_def read_results s0_def cfg_def Let_def)
  have "\<exists>e s'. scan_all_bus 33 s = Some (e, s') \<and> scan_inv cfg 33 s' \<and> scan_error e"
  proof (cases "is_single_function_device (header_of cfg 0 0 0)")
    case True
    then have "bus_reached cfg 0" by (auto simp: host_buses_def intro: bus_reached.host)
    from scan_bus_total[OF this inv] True show ?thesis by (simp add: all)
  next
    case False
    have "\<exists>e s'. scan_host_function 33 f s = Some (e, s') \<and> scan_inv cfg 33 s' \<and> scan_error e"
      if f: "f \<in> set other_functions" and s: "scan_inv cfg 33 s" for f s
    proof (cases "vendor_of cfg 0 0 f = 0xffff")
      case True
      with s show ?thesis by (auto simp: scan_host_function_def read_results scan_error_def scan_inv_def table_ok_def)
    next
      case exists: False
      then have "bus_reached cfg f" using f False by (auto simp: host_buses_def intro: bus_reached.host)
      from scan_bus_total[OF this, of 33 "s\<lparr>config_reg := make_address 0 0 f 0x00\<rparr>"] s exists show ?thesis
        by (auto simp: scan_host_function_def read_results scan_inv_def table_ok_def)
    qed
    then show ?thesis using False inv unfolding all
      by (simp del: scan_bus.simps) (rule each_until_error_total, auto simp: scan_error_def)
  qed
  then obtain e s' where run: "scan_all_bus 33 s = Some (e, s')" "scan_inv cfg 33 s'" "scan_error e" by blast
  have "scan_all_bus n s = Some (e, s')" if "33 \<le> n" for n
  proof -
    from that obtain k where n: "n = 33 + k" by (auto simp: le_iff_add)
    have host: "scan_host_function n f t = Some r" if "scan_host_function 33 f t = Some r" for f t r
      using that scan_bus_mono[of 33 f _ r k] by (auto simp: scan_host_function_def n read_results split: if_splits)
    show ?thesis using run(1) scan_bus_mono[of 33 0 s0 _ k] each_until_error_mono[OF host]
      by (auto simp: all n split: if_splits)
  qed
  then show ?thesis using run(2,3) by (auto simp: scan_inv_def table_ok_def cfg_def)
qed

text \<open>Claim C8.
  Scanning the PCI buses always ends, whatever the configuration space contains, bridges in a
  cycle included: with a table of 32 entries no descent is deeper than 33 buses. It returns
  \<open>Success\<close> or \<open>Full\<close>, and every recorded device is a function that exists on a reachable bus.
\<close>

theorem scan_all_bus_total:
  assumes "length (devices s) = 32"
  shows "\<exists>e s'. (\<forall>n\<ge>33. scan_all_bus n s = Some (e, s')) \<and> scan_error e \<and> num_devices s' \<le> 32 \<and>
    set (recorded s') \<subseteq> reachable_entries (config_space s)"
  using scan_all_bus_result[OF assms] by blast

lemma host_scan_complete:
  assumes "table_ok cfg s" and "scan_host_function n f s = Some (Success, s')"
  shows "table_ok cfg s' \<and> scan_rel cfg s s' \<and> (vendor_of cfg 0 0 f \<noteq> 0xffff \<longrightarrow> covers cfg (recorded s') f)"
proof -
  have cfg: "config_space s = cfg" using assms(1) by (simp add: table_ok_def)
  show ?thesis
  proof (cases "vendor_of cfg 0 0 f = 0xffff")
    case True
    with assms(2) have "s' = s\<lparr>config_reg := make_address 0 0 f 0x00\<rparr>"
      by (simp add: scan_host_function_def read_results cfg)
    then show ?thesis using assms(1) True by (simp add: scan_rel_refl)
  next
    case False
    with assms(2) have "scan_bus n f (s\<lparr>config_reg := make_address 0 0 f 0x00\<rparr>) = Some (Success, s')"
      by (simp add: scan_host_function_def read_results cfg)
    from scan_bus_complete[OF _ this] assms(1) show ?thesis by simp
  qed
qed

text \<open>From an empty table, closure under bridges covers every reachable bus.\<close>

lemma reached_covered:
  assumes "scan_rel cfg s s'" and "recorded s = []" and host: "\<forall>b\<in>host_buses cfg. covers cfg (recorded s') b"
  shows "bus_reached cfg b \<Longrightarrow> covers cfg (recorded s') b"
proof (induction rule: bus_reached.induct)
  case (bridge b d f)
  then have "entry_of cfg b d f \<in> set (recorded s')" by (simp add: covers_def)
  with assms(1,2) bridge.hyps(3) show ?case by (fastforce simp: scan_rel_def entry_of_def)
qed (use host in simp)

lemma scan_all_bus_covers:
  assumes "length (devices s) = 32" and "33 \<le> n" and "scan_all_bus n s = Some (Success, s')"
  shows "set (recorded s') = reachable_entries (config_space s)"
proof -
  define cfg where "cfg = config_space s"
  define s0 where "s0 = s\<lparr>num_devices := 0, config_reg := make_address 0 0 0 0x0c\<rparr>"
  have ok: "table_ok cfg s0" and emp: "recorded s0 = []"
    using assms(1) by (simp_all add: table_ok_def s0_def cfg_def recorded_def)
  have run: "(if is_single_function_device (header_of cfg 0 0 0) then scan_bus n 0 s0
      else each_until_error (scan_host_function n) other_functions s0) = Some (Success, s')"
    using assms(3) by (simp add: scan_all_bus_def read_results s0_def cfg_def Let_def split: if_splits)
  have "scan_rel cfg s0 s' \<and> (\<forall>b\<in>host_buses cfg. covers cfg (recorded s') b)"
  proof (cases "is_single_function_device (header_of cfg 0 0 0)")
    case True
    with scan_bus_complete[OF ok, of n 0 s'] run show ?thesis by (simp add: host_buses_def)
  next
    case False
    then have loop: "each_until_error (scan_host_function n) other_functions s0 = Some (Success, s')" using run by simp
    let ?X = "\<lambda>f. if vendor_of cfg 0 0 f \<noteq> 0xffff then {entry_of cfg f d g | d g. fn_exists cfg f d g} else {}"
    have "table_ok cfg s' \<and> scan_rel cfg s0 s' \<and> (\<forall>f\<in>set other_functions. ?X f \<subseteq> set (recorded s'))"
      using _ ok loop
    proof (rule scan_loop_complete)
      show "table_ok cfg t' \<and> scan_rel cfg t t' \<and> ?X f \<subseteq> set (recorded t')"
        if "table_ok cfg t" "scan_host_function n f t = Some (Success, t')" for f t t'
        using host_scan_complete[OF that] by (auto simp: covers_def)
    qed
    then show ?thesis using False by (fastforce simp: host_buses_def covers_def)
  qed
  then have "reachable_entries cfg \<subseteq> set (recorded s')"
    using reached_covered[OF _ emp] by (fastforce simp: reachable_entries_def covers_def)
  moreover obtain e s'' where "scan_all_bus n s = Some (e, s'')" "set (recorded s'') \<subseteq> reachable_entries cfg"
    using scan_all_bus_result[OF assms(1)] assms(2) unfolding cfg_def by blast
  ultimately show ?thesis using assms(3) by (simp add: cfg_def)
qed

text \<open>Claim C9.
  When the scan reports \<open>Success\<close>, the table holds exactly the functions that exist on the
  buses reachable through bridges. The roots are bus 0 when function 0 of the host bridge says
  it is the only one, and otherwise the buses 1 to 7 whose host bridge function exists.
\<close>

theorem scan_all_bus_complete:
  assumes "length (devices s) = 32" and "33 \<le> n" and "scan_all_bus n s = Some (Success, s')"
  shows "set (recorded s') = reachable_entries (config_space s)"
  using assms by (rule scan_all_bus_covers)

definition example_config :: "u32 \<Rightarrow> u32" where
  "example_config a =
     (if a = 0x80001800 then 0x12348086
      else if a = 0x80001808 then 0x0c033001
      else if a = 0x8000180c then 0
      else if a = 0x8000000c then 0 else 0xffffffff)"

definition example_pci :: pci where
  "example_pci = \<lparr>config_reg = 0, config_space = example_config,
     devices = replicate 32 \<lparr>dev_bus = 0, dev_device = 0, dev_function = 0, dev_header_type = 0, dev_vendor_id = 0,
       dev_class_code = \<lparr>cc_base = 0, cc_sub = 0, cc_interface = 0\<rparr>\<rparr>, num_devices = 0\<rparr>"

lemma example_scan:
  "map_option (\<lambda>(e, s'). (e, map (\<lambda>d. (dev_bus d, dev_device d, dev_function d)) (recorded s'))) (scan_all_bus 33 example_pci) =
    Some (Success, [(0, 3, 0)])"
  by code_simp

lemma example_scan_Some:
  "\<exists>s'. scan_all_bus 33 example_pci = Some (Success, s') \<and> map dev_device (recorded s') = [3]"
  using example_scan by (cases "scan_all_bus 33 example_pci") auto

lemma example_pci_table [simp]: "length (devices example_pci) = 32"
  by (simp add: example_pci_def)

theorem scan_all_bus_total_witness:
  "\<exists>e s'. scan_all_bus 40 example_pci = Some (e, s') \<and> set (recorded s') \<subseteq> reachable_entries (config_space example_pci)"
proof -
  obtain e s' where r: "\<forall>n\<ge>33. scan_all_bus n example_pci = Some (e, s')"
    "set (recorded s') \<subseteq> reachable_entries (config_space example_pci)"
    using scan_all_bus_total[OF example_pci_table] by blast
  have "scan_all_bus 40 example_pci = Some (e, s')" by (rule r(1)[rule_format]) simp
  with r(2) show ?thesis by (intro exI conjI)
qed

theorem scan_all_bus_complete_witness:
  "\<exists>s'. scan_all_bus 33 example_pci = Some (Success, s') \<and> map dev_device (recorded s') = [3] \<and>
     set (recorded s') = reachable_entries (config_space example_pci)"
proof -
  obtain s' where s': "scan_all_bus 33 example_pci = Some (Success, s')" "map dev_device (recorded s') = [3]"
    using example_scan_Some by (elim exE conjE) (rule that)
  note c = scan_all_bus_complete[OF example_pci_table order_refl s'(1)]
  show ?thesis by (rule exI[of _ s'], intro conjI, rule s'(1), rule s'(2), rule c)
qed

end
