(* ===== verification/Pci_Config.thy ===== *)
theory Pci_Config
  imports Pci
begin

text \<open>
  Using the devices found on the PCI bus: base address registers (the results of \<open>read_bar\<close>),
  the choice of the xHCI host controller (\<open>find_xhc_device\<close>) and message signalled interrupts
  (\<open>configure_msi\<close> and what it calls), all of \<open>src/kernel/pci.cpp\<close>.
\<close>

subsection \<open>The host controller\<close>

text \<open>\<open>find_xhc_device\<close> returns a pointer into \<open>devices\<close>: its index here, \<open>None\<close> for \<open>nullptr\<close>.\<close>

fun xhc_loop :: "pci_device list \<Rightarrow> nat \<Rightarrow> nat option \<Rightarrow> nat option" where
  "xhc_loop [] i xhc_device = xhc_device"
| "xhc_loop (d # ds) i xhc_device =
     (if class_match3 (dev_class_code d) 0x0c 0x03 0x30 then
        (if dev_vendor_id d = 0x8086 then Some i else xhc_loop ds (i + 1) (Some i))
      else xhc_loop ds (i + 1) xhc_device)"

definition find_xhc_device :: "pci \<Rightarrow> nat option" where
  "find_xhc_device s = xhc_loop (take (num_devices s) (devices s)) 0 None"

definition is_xhc :: "pci_device \<Rightarrow> bool" where
  "is_xhc d \<longleftrightarrow> dev_class_code d = \<lparr>cc_base = 0x0c, cc_sub = 0x03, cc_interface = 0x30\<rparr>"

lemma class_match3_xhc: "class_match3 (dev_class_code d) 0x0c 0x03 0x30 = is_xhc d"
  by (auto simp: class_match3_def class_match2_def class_match1_def is_xhc_def)

lemma xhc_loop_spec:
  "xhc_loop ds i cur =
     (case find (\<lambda>j. is_xhc (ds ! j) \<and> dev_vendor_id (ds ! j) = 0x8086) [0..<length ds] of
        Some j \<Rightarrow> Some (i + j)
      | None \<Rightarrow> (case find (\<lambda>j. is_xhc (ds ! j)) (rev [0..<length ds]) of Some j \<Rightarrow> Some (i + j) | None \<Rightarrow> cur))"
proof (induction ds arbitrary: i cur)
  case (Cons d ds)
  have up: "[0..<length (d # ds)] = 0 # map Suc [0..<length ds]"
    by (simp add: map_Suc_upt upt_conv_Cons del: upt_Suc)
  have find_map: "find P (map Suc js) = map_option Suc (find (\<lambda>j. P (Suc j)) js)" for P js
    by (induction js) auto
  have find_append: "find P (xs @ [x]) = (case find P xs of Some y \<Rightarrow> Some y | None \<Rightarrow> if P x then Some x else None)"
    for P and xs :: "nat list" and x
    by (induction xs) auto
  show ?case
    unfolding up
    by (auto simp: Cons.IH class_match3_xhc find_map find_append rev_map split: option.splits)
qed simp

text \<open>
  \<open>find_xhc_device\<close> picks the first xHCI controller (class 0c.03.30) made by Intel, if there is
  one, and otherwise the last xHCI controller of the table, if there is one.
\<close>

lemma find_xhc_device_spec:
  "find_xhc_device s =
     (let ds = recorded s; is = [0..<length ds]
      in case find (\<lambda>i. is_xhc (ds ! i) \<and> dev_vendor_id (ds ! i) = 0x8086) is of
           Some i \<Rightarrow> Some i
         | None \<Rightarrow> find (\<lambda>i. is_xhc (ds ! i)) (rev is))"
  by (simp add: find_xhc_device_def xhc_loop_spec Let_def recorded_def split: option.splits)

subsection \<open>Base address registers\<close>

lemma bit_reg_mask: "bit (0xfc :: int) k \<longleftrightarrow> 2 \<le> k \<and> k < 8"
proof -
  have eq: "(0xfc :: int) = push_bit 2 (mask 6)" by (simp add: mask_eq_exp_minus_1)
  show ?thesis unfolding eq bit_push_bit_iff bit_mask_iff by auto
qed

lemma bits_get_or: "bits_get off n (x OR y) = bits_get off n x OR bits_get off n y"
  by (rule bit_word_eqI) (auto simp: bit_bits_get bit_simps)

lemma reg_of_make_address: "bits_get 0 8 (make_address b d f r) = ucast (r AND 0xfc)"
proof -
  have push: "bits_get 0 8 (push_bit n x) = 0" if "8 \<le> n" for n and x :: u32
    using that by (intro bit_word_eqI) (auto simp: bit_bits_get bit_simps)
  have "bits_get 0 8 (ucast r AND 0xfc :: u32) = ucast (r AND 0xfc)"
    by (rule bit_word_eqI) (auto simp: bit_bits_get bit_simps bit_reg_mask)
  then show ?thesis unfolding make_address_def Let_def bits_get_or by (simp add: push del: push_bit_of_1)
qed

definition dev_reg :: "(u32 \<Rightarrow> u32) \<Rightarrow> pci_device \<Rightarrow> u8 \<Rightarrow> u32" where
  "dev_reg cfg x r = cfg (make_address (dev_bus x) (dev_device x) (dev_function x) r)"

definition bar_reg :: "(u32 \<Rightarrow> u32) \<Rightarrow> pci_device \<Rightarrow> nat \<Rightarrow> u32" where
  "bar_reg cfg x i = dev_reg cfg x (of_nat (16 + 4 * i))"

lemma and_4_eq_0: "x AND 4 = 0 \<longleftrightarrow> \<not> bit x 2" for x :: u32
  using and_exp_eq_0_iff_not_bit[of x 2] by simp

text \<open>
  \<open>read_bar\<close> on every branch: an index above 5 is refused; a 32-bit register is returned as it
  is; for a 64-bit one the result has the register in its low half and the next register in
  its high half, except that index 5, which has no next register, is refused. Nothing but the
  address port changes.
\<close>

lemma read_bar_spec:
  "\<exists>r a. read_bar x bar_index s = (r, s\<lparr>config_reg := a\<rparr>) \<and>
     (let i = unat bar_index; bar = bar_reg (config_space s) x i
      in if 6 \<le> i \<or> i = 5 \<and> bit bar 2 then r = \<lparr>we_value = 0, we_error = IndexOutOfRange\<rparr>
         else we_error r = Success \<and> take_bit 32 (we_value r) = ucast bar \<and>
           drop_bit 32 (we_value r) = (if bit bar 2 then ucast (bar_reg (config_space s) x (i + 1)) else 0))"
proof (cases "6 \<le> bar_index")
  case True
  then show ?thesis
    by (intro exI[of _ "\<lparr>we_value = 0, we_error = IndexOutOfRange\<rparr>"] exI[of _ "config_reg s"])
       (simp add: read_bar_def word_le_nat_alt Let_def)
next
  case False
  define i where "i = unat bar_index"
  then have i: "i < 6" "bar_index = of_nat i" using False by (simp_all add: word_le_nat_alt)
  have small: "i = 0 \<or> i = 1 \<or> i = 2 \<or> i = 3 \<or> i = 4 \<or> i = 5" using i(1) by linarith
  have addr: "calc_bar_address bar_index = of_nat (16 + 4 * i)"
    "of_nat (16 + 4 * i) + 4 = (of_nat (16 + 4 * (i + 1)) :: u8)"
    using small unfolding calc_bar_address_def i(2) by auto
  have join: "take_bit 32 (push_bit 32 (ucast h) :: u64) = 0" "drop_bit 32 (push_bit 32 (ucast h) :: u64) = ucast h"
    "take_bit 32 (ucast l :: u64) = ucast l" "drop_bit 32 (ucast l :: u64) = 0" for l h :: u32
    by (rule bit_word_eqI, auto simp: bit_simps dest: bit_imp_le_length)+
  have le5: "5 \<le> bar_index \<longleftrightarrow> i = 5" using i(1) unfolding i_def word_le_nat_alt by auto
  have ev: "read_bar x bar_index s =
      (let bar = bar_reg (config_space s) x i;
           a = make_address (dev_bus x) (dev_device x) (dev_function x) (of_nat (16 + 4 * i));
           b = make_address (dev_bus x) (dev_device x) (dev_function x) (of_nat (16 + 4 * (i + 1)))
       in if \<not> bit bar 2 then (\<lparr>we_value = ucast bar, we_error = Success\<rparr>, s\<lparr>config_reg := a\<rparr>)
          else if i = 5 then (\<lparr>we_value = 0, we_error = IndexOutOfRange\<rparr>, s\<lparr>config_reg := a\<rparr>)
          else (\<lparr>we_value = ucast bar OR push_bit 32 (ucast (bar_reg (config_space s) x (i + 1))),
                 we_error = Success\<rparr>, s\<lparr>config_reg := b\<rparr>))"
    using False
    by (simp only: read_bar_def Let_def read_results addr le5 and_4_eq_0 bar_reg_def dev_reg_def prod.case
        if_False) simp
  show ?thesis
    unfolding ev i_def[symmetric] using i(1) by (auto simp: Let_def join)
qed

subsection \<open>Message signalled interrupts\<close>

text \<open>
  A capability header: identifier in bits 0 to 7, the address of the next capability in bits 8
  to 15. In the header of an MSI capability follow \<open>msi_enable\<close> (bit 16), \<open>multi_msg_capable\<close>
  (17 to 19), \<open>multi_msg_enable\<close> (20 to 22), \<open>addr_64_capable\<close> (23) and
  \<open>per_vector_mask_capable\<close> (24).
\<close>

record msi_capability =
  msi_header :: u32
  msg_addr :: u32
  msg_upper_addr :: u32
  msg_data :: u32
  mask_bits :: u32
  pending_bits :: u32

datatype msi_trigger_mode = Edge | Level

datatype msi_delivery_mode = Fixed | LowestPriority | SMI | NMI | INIT | ExtINT

primrec delivery_mode_num :: "msi_delivery_mode \<Rightarrow> u32" where
  "delivery_mode_num Fixed = 0"
| "delivery_mode_num LowestPriority = 1"
| "delivery_mode_num SMI = 2"
| "delivery_mode_num NMI = 4"
| "delivery_mode_num INIT = 5"
| "delivery_mode_num ExtINT = 7"

definition read_capability_header :: "pci_device \<Rightarrow> u8 \<Rightarrow> pci \<Rightarrow> u32 \<times> pci" where
  "read_capability_header device addr s = read_conf_reg device addr s"

definition capability_msi :: u32 where "capability_msi = 0x05"
definition capability_msix :: u32 where "capability_msix = 0x11"

definition read_msi_capability :: "pci_device \<Rightarrow> u8 \<Rightarrow> pci \<Rightarrow> msi_capability \<times> pci" where
  "read_msi_capability device cap_addr s =
     (let (h, s) = read_conf_reg device cap_addr s;
          (a, s) = read_conf_reg device (cap_addr + 4) s;
          (ua, s) = (if bits_get 23 1 h \<noteq> 0 then read_conf_reg device (cap_addr + 8) s else (0, s));
          msg_data_addr = (if bits_get 23 1 h \<noteq> 0 then cap_addr + 12 else cap_addr + 8);
          (d, s) = read_conf_reg device msg_data_addr s;
          (m, s) = (if bits_get 24 1 h \<noteq> 0 then read_conf_reg device (msg_data_addr + 4) s else (0, s));
          (p, s) = (if bits_get 24 1 h \<noteq> 0 then read_conf_reg device (msg_data_addr + 8) s else (0, s))
      in (\<lparr>msi_header = h, msg_addr = a, msg_upper_addr = ua, msg_data = d, mask_bits = m, pending_bits = p\<rparr>, s))"

definition write_msi_capability ::
    "(u32 \<Rightarrow> u32 \<Rightarrow> (u32 \<Rightarrow> u32) \<Rightarrow> u32 \<Rightarrow> u32) \<Rightarrow> pci_device \<Rightarrow> u8 \<Rightarrow> msi_capability \<Rightarrow> pci \<Rightarrow> pci" where
  "write_msi_capability wr device cap_addr msi_cap s =
     (let h = msi_header msi_cap;
          s = write_conf_reg wr device cap_addr h s;
          s = write_conf_reg wr device (cap_addr + 4) (msg_addr msi_cap) s;
          s = (if bits_get 23 1 h \<noteq> 0 then write_conf_reg wr device (cap_addr + 8) (msg_upper_addr msi_cap) s else s);
          msg_data_addr = (if bits_get 23 1 h \<noteq> 0 then cap_addr + 12 else cap_addr + 8);
          s = write_conf_reg wr device msg_data_addr (msg_data msi_cap) s
      in if bits_get 24 1 h \<noteq> 0 then
           write_conf_reg wr device (msg_data_addr + 8) (pending_bits msi_cap)
             (write_conf_reg wr device (msg_data_addr + 4) (mask_bits msi_cap) s)
         else s)"

definition configure_msi_register ::
    "(u32 \<Rightarrow> u32 \<Rightarrow> (u32 \<Rightarrow> u32) \<Rightarrow> u32 \<Rightarrow> u32) \<Rightarrow> pci_device \<Rightarrow> u8 \<Rightarrow> u32 \<Rightarrow> u32 \<Rightarrow> u32 \<Rightarrow> pci \<Rightarrow> error_code \<times> pci" where
  "configure_msi_register wr device cap_addr addr data num_vector_exponent s =
     (let (msi_cap, s) = read_msi_capability device cap_addr s;
          h = msi_header msi_cap;
          h = bits_set 20 3 (if bits_get 17 3 h \<le> num_vector_exponent then bits_get 17 3 h else num_vector_exponent) h;
          h = bits_set 16 1 1 h;
          msi_cap = msi_cap\<lparr>msi_header := h, msg_addr := addr, msg_data := data\<rparr>
      in (Success, write_msi_capability wr device cap_addr msi_cap s))"

text \<open>The walk through the capability list; \<open>None\<close> when the list never ends.\<close>

partial_function (option) find_capabilities ::
    "pci_device \<Rightarrow> u8 \<Rightarrow> u8 \<Rightarrow> u8 \<Rightarrow> pci \<Rightarrow> (u8 \<times> u8 \<times> pci) option" where
  "find_capabilities device cap_addr msi_cap_addr msix_cap_addr s =
     (if cap_addr = 0 then Some (msi_cap_addr, msix_cap_addr, s)
      else
        let (header, s) = read_capability_header device cap_addr s;
            cap_id = bits_get 0 8 header
        in find_capabilities device (ucast (bits_get 8 8 header))
             (if cap_id = capability_msi then cap_addr else msi_cap_addr)
             (if cap_id = capability_msi then msix_cap_addr
              else if cap_id = capability_msix then cap_addr else msix_cap_addr) s)"

definition configure_msi ::
    "(u32 \<Rightarrow> u32 \<Rightarrow> (u32 \<Rightarrow> u32) \<Rightarrow> u32 \<Rightarrow> u32) \<Rightarrow> pci_device \<Rightarrow> u32 \<Rightarrow> u32 \<Rightarrow> u32 \<Rightarrow> pci \<Rightarrow> (error_code \<times> pci) option" where
  "configure_msi wr device addr data num_vector_exponent s = do {
     let (r, s) = read_conf_reg device 0x34 s;
     (msi_cap_addr, msix_cap_addr, s) \<leftarrow> find_capabilities device (ucast (r AND 0xff)) 0 0 s;
     Some (if msi_cap_addr \<noteq> 0 then configure_msi_register wr device msi_cap_addr addr data num_vector_exponent s
           else if msix_cap_addr \<noteq> 0 then (NotImplemented, s)
           else (NoPCIMSI, s)) }"

definition configure_msi_fixed_destination ::
    "(u32 \<Rightarrow> u32 \<Rightarrow> (u32 \<Rightarrow> u32) \<Rightarrow> u32 \<Rightarrow> u32) \<Rightarrow> pci_device \<Rightarrow> u8 \<Rightarrow> msi_trigger_mode \<Rightarrow> msi_delivery_mode \<Rightarrow>
     u8 \<Rightarrow> u32 \<Rightarrow> pci \<Rightarrow> (error_code \<times> pci) option" where
  "configure_msi_fixed_destination wr device apic_id trigger_mode delivery_mode vector num_vector_exponent s =
     (let addr = 0xfee00000 OR push_bit 12 (ucast apic_id);
          data = push_bit 8 (delivery_mode_num delivery_mode) OR ucast vector;
          data = (if trigger_mode = Level then data OR 0xc000 else data)
      in configure_msi wr device addr data num_vector_exponent s)"

text \<open>The capability list of a device from an address: its addresses in order.\<close>

inductive cap_chain :: "(u32 \<Rightarrow> u32) \<Rightarrow> pci_device \<Rightarrow> u8 \<Rightarrow> u8 list \<Rightarrow> bool" for cfg x where
  last: "cap_chain cfg x 0 []"
| step: "a \<noteq> 0 \<Longrightarrow> cap_chain cfg x (ucast (bits_get 8 8 (dev_reg cfg x a))) as \<Longrightarrow> cap_chain cfg x a (a # as)"

definition caps_with :: "(u32 \<Rightarrow> u32) \<Rightarrow> pci_device \<Rightarrow> u32 \<Rightarrow> u8 list \<Rightarrow> u8 list" where
  "caps_with cfg x ident as = filter (\<lambda>a. bits_get 0 8 (dev_reg cfg x a) = ident) as"

lemma find_capabilities_chain:
  assumes "cap_chain cfg x a as" and "config_space s = cfg"
  shows "\<exists>r. find_capabilities x a m mx s =
    Some (last (m # caps_with cfg x capability_msi as), last (mx # caps_with cfg x capability_msix as), s\<lparr>config_reg := r\<rparr>)"
  using assms
proof (induction arbitrary: m mx s rule: cap_chain.induct)
  case last
  then show ?case
    by (subst find_capabilities.simps) (simp add: caps_with_def, rule exI[of _ "config_reg s"], simp)
next
  case (step a as)
  let ?s = "s\<lparr>config_reg := make_address (dev_bus x) (dev_device x) (dev_function x) a\<rparr>"
  let ?h = "dev_reg cfg x a"
  have "find_capabilities x a m mx s = find_capabilities x (ucast (bits_get 8 8 ?h))
      (if bits_get 0 8 ?h = capability_msi then a else m)
      (if bits_get 0 8 ?h = capability_msi then mx else if bits_get 0 8 ?h = capability_msix then a else mx) ?s"
    using step.hyps(1) step.prems
    by (subst find_capabilities.simps) (simp add: read_capability_header_def read_results dev_reg_def Let_def)
  moreover have "capability_msi \<noteq> capability_msix" by (simp add: capability_msi_def capability_msix_def)
  ultimately show ?case
    using step.IH[of ?s] step.prems by (auto simp: caps_with_def)
qed

text \<open>Two register numbers select the same register when they agree up to the low two bits.\<close>

definition same_reg :: "u8 \<Rightarrow> u8 \<Rightarrow> bool" where
  "same_reg r r' \<longleftrightarrow> r AND 0xfc = r' AND 0xfc"

lemma make_address_eq_iff: "make_address b d f r = make_address b d f r' \<longleftrightarrow> same_reg r r'"
proof
  assume "make_address b d f r = make_address b d f r'"
  then have "ucast (r AND 0xfc) = (ucast (r' AND 0xfc) :: u32)" by (metis reg_of_make_address)
  then have "ucast (ucast (r AND 0xfc) :: u32) = (ucast (ucast (r' AND 0xfc) :: u32) :: u8)" by simp
  then show "same_reg r r'" unfolding same_reg_def by (subst (asm) ucast_ucast_id, simp, subst (asm) ucast_ucast_id, simp_all)
next
  assume "same_reg r r'"
  moreover have "(ucast x AND 0xfc :: u32) = ucast (x AND 0xfc)" for x :: u8
    by (rule bit_word_eqI) (auto simp: bit_simps bit_reg_mask)
  ultimately show "make_address b d f r = make_address b d f r'" by (simp add: make_address_def same_reg_def)
qed

lemma unat_and_fc: "unat (x AND 0xfc) = unat x div 4 * 4" for x :: u8
proof -
  have "x AND 0xfc = push_bit 2 (drop_bit 2 x)"
  proof (rule bit_word_eqI)
    fix n assume "n < LENGTH(8)"
    then show "bit (x AND 252) n = bit (push_bit 2 (drop_bit 2 x)) n"
      by (cases "2 \<le> n") (auto simp: bit_simps bit_reg_mask le_iff_add)
  qed
  moreover have "unat (drop_bit 2 x) = unat x div 4" by (simp add: drop_bit_eq_div unat_div)
  moreover have "unat x < 256" using unsigned_less[of x] by simp
  ultimately show ?thesis by (simp add: push_bit_eq_mult unat_word_ariths)
qed

lemma same_reg_offset:
  assumes "j < 6" and "k < 6"
  shows "same_reg (m + of_nat (4 * j)) (m + of_nat (4 * k)) \<longleftrightarrow> j = k"
proof
  have lt: "unat m < 256" using unsigned_less[of m] by simp
  have u: "unat (m + of_nat (4 * i)) = (4 * i + unat m) mod 256" if "i < 6" for i
    using that by (simp add: unat_word_ariths unat_of_nat_eq add.commute del: of_nat_mult)
  have d: "(4 * i + unat m) mod 256 div 4 = (i + unat m div 4) mod 64" for i
  proof -
    have "(4 * i + unat m) mod (4 * 64) = 4 * ((4 * i + unat m) div 4 mod 64) + (4 * i + unat m) mod 4"
      by (rule mod_mult2_eq)
    then show ?thesis by simp
  qed
  assume "same_reg (m + of_nat (4 * j)) (m + of_nat (4 * k))"
  then have "unat ((m + of_nat (4 * j)) AND 0xfc) = unat ((m + of_nat (4 * k)) AND 0xfc)" by (simp only: same_reg_def)
  then have "(j + unat m div 4) mod 64 = (k + unat m div 4) mod 64"
    unfolding unat_and_fc u[OF assms(1)] u[OF assms(2)] d by simp
  moreover have "(i + unat m div 4) mod 64 = (if i + unat m div 4 < 64 then i + unat m div 4 else i + unat m div 4 - 64)"
    if "i < 6" for i using lt that by (auto simp: mod_if)
  ultimately show "j = k" using assms by (auto split: if_splits)
qed (simp add: same_reg_def)

lemma same_reg_add [simp]:
  "\<not> same_reg (m + 4) m" "\<not> same_reg (m + 8) m" "\<not> same_reg (m + 12) m" "\<not> same_reg (m + 16) m" "\<not> same_reg (m + 20) m"
  "\<not> same_reg (m + 8) (m + 4)" "\<not> same_reg (m + 12) (m + 4)" "\<not> same_reg (m + 16) (m + 4)" "\<not> same_reg (m + 20) (m + 4)"
  "\<not> same_reg (m + 12) (m + 8)" "\<not> same_reg (m + 16) (m + 8)" "\<not> same_reg (m + 20) (m + 8)"
  "\<not> same_reg (m + 16) (m + 12)" "\<not> same_reg (m + 20) (m + 12)" "\<not> same_reg (m + 20) (m + 16)"
  using same_reg_offset[of 1 0 m] same_reg_offset[of 2 0 m] same_reg_offset[of 3 0 m] same_reg_offset[of 4 0 m]
    same_reg_offset[of 5 0 m] same_reg_offset[of 2 1 m] same_reg_offset[of 3 1 m] same_reg_offset[of 4 1 m]
    same_reg_offset[of 5 1 m] same_reg_offset[of 3 2 m] same_reg_offset[of 4 2 m] same_reg_offset[of 5 2 m]
    same_reg_offset[of 4 3 m] same_reg_offset[of 5 3 m] same_reg_offset[of 5 4 m]
  by simp_all

lemma same_reg_commute: "same_reg a b = same_reg b a"
  by (auto simp: same_reg_def)

lemma same_reg_refl [simp]: "same_reg a a"
  by (simp add: same_reg_def)

lemma same_reg_subst: "same_reg r a \<Longrightarrow> same_reg r b = same_reg a b"
  by (simp add: same_reg_def)

lemma same_reg_add_sym [simp]:
  "\<not> same_reg m (m + 4)" "\<not> same_reg m (m + 8)" "\<not> same_reg m (m + 12)" "\<not> same_reg m (m + 16)" "\<not> same_reg m (m + 20)"
  "\<not> same_reg (m + 4) (m + 8)" "\<not> same_reg (m + 4) (m + 12)" "\<not> same_reg (m + 4) (m + 16)" "\<not> same_reg (m + 4) (m + 20)"
  "\<not> same_reg (m + 8) (m + 12)" "\<not> same_reg (m + 8) (m + 16)" "\<not> same_reg (m + 8) (m + 20)"
  "\<not> same_reg (m + 12) (m + 16)" "\<not> same_reg (m + 12) (m + 20)" "\<not> same_reg (m + 16) (m + 20)"
  by (metis same_reg_commute same_reg_add)+

text \<open>
  The registers of the device hold what is written to them. (Read-only bits of the MSI header
  are written back with the value they have, and the rest of the capability is writable.)
\<close>

definition plain_registers :: "(u32 \<Rightarrow> u32 \<Rightarrow> (u32 \<Rightarrow> u32) \<Rightarrow> u32 \<Rightarrow> u32) \<Rightarrow> pci_device \<Rightarrow> bool" where
  "plain_registers wr x \<longleftrightarrow> (\<forall>r v c. let a = make_address (dev_bus x) (dev_device x) (dev_function x) r in wr a v c = c(a := v))"

lemma dev_reg_write:
  assumes "plain_registers wr x"
  shows "dev_reg (config_space (write_conf_reg wr x r v s)) x r' =
    (if same_reg r' r then v else dev_reg (config_space s) x r')"
  using assms
  by (simp add: plain_registers_def write_conf_reg_def write_data_def write_address_def dev_reg_def
      make_address_eq_iff Let_def)

lemma read_conf_reg_eq:
  "read_conf_reg x r s = (dev_reg (config_space s) x r,
     s\<lparr>config_reg := make_address (dev_bus x) (dev_device x) (dev_function x) r\<rparr>)"
  by (simp add: read_results dev_reg_def)

definition msi_header_for :: "u32 \<Rightarrow> u32 \<Rightarrow> u32" where
  "msi_header_for h n = bits_set 16 1 1 (bits_set 20 3 (min (bits_get 17 3 h) n) h)"

lemma msi_header_for_caps:
  "bits_get 23 1 (msi_header_for h n) = bits_get 23 1 h" "bits_get 24 1 (msi_header_for h n) = bits_get 24 1 h"
  by (simp_all add: msi_header_for_def field_simps_bits)

lemma dev_reg_same: "same_reg r r' \<Longrightarrow> dev_reg cfg x r = dev_reg cfg x r'"
  unfolding dev_reg_def by (rule arg_cong[where f = cfg]) (simp add: make_address_eq_iff)

lemma configure_msi_register_spec:
  assumes "plain_registers wr x" and h: "h = dev_reg (config_space s) x m"
    and "configure_msi_register wr x m addr data n s = (e, s')"
  shows "e = Success \<and> (\<forall>r. dev_reg (config_space s') x r =
      (if same_reg r m then msi_header_for h n
       else if same_reg r (m + 4) then addr
       else if same_reg r (m + (if bits_get 23 1 h \<noteq> 0 then 12 else 8)) then data
       else dev_reg (config_space s) x r))"
proof -
  define t where "t = snd (read_msi_capability x m s)"
  define cap where "cap = (fst (read_msi_capability x m s))\<lparr>msi_header := msi_header_for h n, msg_addr := addr, msg_data := data\<rparr>"
  have t: "config_space t = config_space s"
    by (simp add: t_def read_msi_capability_def read_conf_reg_eq Let_def)
  have hm: "msi_header (fst (read_msi_capability x m s)) = h"
    by (simp add: read_msi_capability_def read_conf_reg_eq Let_def h)
  have s': "e = Success" "s' = write_msi_capability wr x m cap t"
    using assms(3)
    by (auto simp: configure_msi_register_def Let_def case_prod_unfold hm t_def cap_def msi_header_for_def min_def
        split: if_splits)
  let ?D = "m + (if bits_get 23 1 h \<noteq> 0 then 12 else 8)"
  have cap: "msi_header cap = msi_header_for h n" "msg_addr cap = addr" "msg_data cap = data"
    "bits_get 23 1 h \<noteq> 0 \<Longrightarrow> msg_upper_addr cap = dev_reg (config_space s) x (m + 8)"
    "bits_get 24 1 h \<noteq> 0 \<Longrightarrow> mask_bits cap = dev_reg (config_space s) x (?D + 4)"
    "bits_get 24 1 h \<noteq> 0 \<Longrightarrow> pending_bits cap = dev_reg (config_space s) x (?D + 8)"
    by (simp_all add: cap_def read_msi_capability_def read_conf_reg_eq Let_def h)
  note dw = dev_reg_write[OF assms(1)]
  let ?u = "\<lambda>k. dev_reg (config_space s) x (m + k)"
  have ev: "dev_reg (config_space s') x r =
      (let d = (if bits_get 23 1 h \<noteq> 0 then 12 else 8)
       in if bits_get 24 1 h \<noteq> 0 \<and> same_reg r (m + (d + 8)) then ?u (d + 8)
          else if bits_get 24 1 h \<noteq> 0 \<and> same_reg r (m + (d + 4)) then ?u (d + 4)
          else if same_reg r (m + d) then data
          else if bits_get 23 1 h \<noteq> 0 \<and> same_reg r (m + 8) then ?u 8
          else if same_reg r (m + 4) then addr
          else if same_reg r m then msi_header_for h n else dev_reg (config_space s) x r)" for r
    unfolding s'(2) write_msi_capability_def Let_def cap(1,2,3) msi_header_for_caps
    using cap(4,5,6) by (simp add: dw t add.assoc)
  have "dev_reg (config_space s') x r = (if same_reg r m then msi_header_for h n
      else if same_reg r (m + 4) then addr else if same_reg r ?D then data else dev_reg (config_space s) x r)" for r
  proof -
    consider (a) k where "k \<in> {0, 4, 8, 12, 16, 20}" "same_reg r (m + k)"
      | (b) "\<forall>k\<in>{0, 4, 8, 12, 16, 20}. \<not> same_reg r (m + k)" by blast
    then show ?thesis
    proof cases
      case (a k)
      note f = same_reg_subst[OF a(2)] dev_reg_same[OF a(2)]
      from a(1) consider "k = 0" | "k = 4" | "k = 8" | "k = 12" | "k = 16" | "k = 20" by blast
      then show ?thesis unfolding ev Let_def by cases (simp_all add: f)
    next
      case b
      then show ?thesis unfolding ev Let_def by simp
    qed
  qed
  with s'(1) show ?thesis by blast
qed

lemma cap_chain_nonzero: "cap_chain cfg x a as \<Longrightarrow> b \<in> set as \<Longrightarrow> b \<noteq> 0"
  by (induction rule: cap_chain.induct) auto

lemma last_cap:
  assumes "cap_chain cfg x a as"
  shows "last (0 # caps_with cfg x ident as) = 0 \<longleftrightarrow> caps_with cfg x ident as = []"
    and "caps_with cfg x ident as \<noteq> [] \<Longrightarrow> last (0 # caps_with cfg x ident as) = last (caps_with cfg x ident as)"
proof -
  have "b \<noteq> 0" if "b \<in> set (caps_with cfg x ident as)" for b
    using that cap_chain_nonzero[OF assms] by (auto simp: caps_with_def)
  then show "last (0 # caps_with cfg x ident as) = 0 \<longleftrightarrow> caps_with cfg x ident as = []"
    using last_in_set[of "caps_with cfg x ident as"] by auto
qed simp

lemma msi_fixed_destination:
  assumes "plain_registers wr x"
    and "cap_chain (config_space s) x (ucast (dev_reg (config_space s) x 0x34 AND 0xff)) as"
  shows "\<exists>e s'. configure_msi_fixed_destination wr x apic_id trigger mode vector n s = Some (e, s') \<and>
    (let cfg = config_space s; msi = caps_with cfg x capability_msi as; msix = caps_with cfg x capability_msix as;
         m = last msi; h = dev_reg cfg x m;
         data = push_bit 8 (delivery_mode_num mode) OR ucast vector OR (if trigger = Level then 0xc000 else 0)
     in if msi = [] then e = (if msix = [] then NoPCIMSI else NotImplemented) \<and> config_space s' = cfg
        else e = Success \<and> (\<forall>r. dev_reg (config_space s') x r =
          (if same_reg r m then bits_set 16 1 1 (bits_set 20 3 (min (bits_get 17 3 h) n) h)
           else if same_reg r (m + 4) then 0xfee00000 OR push_bit 12 (ucast apic_id)
           else if same_reg r (m + (if bits_get 23 1 h \<noteq> 0 then 12 else 8)) then data
           else dev_reg cfg x r)))"
proof -
  define data where "data = push_bit 8 (delivery_mode_num mode) OR ucast vector OR (if trigger = Level then 0xc000 else 0)"
  define addr :: u32 where "addr = 0xfee00000 OR push_bit 12 (ucast apic_id)"
  let ?cfg = "config_space s"
  let ?msi = "caps_with ?cfg x capability_msi as" and ?msix = "caps_with ?cfg x capability_msix as"
  let ?s0 = "s\<lparr>config_reg := make_address (dev_bus x) (dev_device x) (dev_function x) 0x34\<rparr>"
  have fixed: "configure_msi_fixed_destination wr x apic_id trigger mode vector n s = configure_msi wr x addr data n s"
    by (simp add: configure_msi_fixed_destination_def data_def addr_def Let_def or.assoc)
  from find_capabilities_chain[OF assms(2), of ?s0 0 0] obtain a where
    "find_capabilities x (ucast (dev_reg ?cfg x 0x34 AND 0xff)) 0 0 ?s0 = Some (last (0 # ?msi), last (0 # ?msix), s\<lparr>config_reg := a\<rparr>)"
    by auto
  then have run: "configure_msi wr x addr data n s =
      Some (if ?msi \<noteq> [] then configure_msi_register wr x (last ?msi) addr data n (s\<lparr>config_reg := a\<rparr>)
            else if ?msix \<noteq> [] then (NotImplemented, s\<lparr>config_reg := a\<rparr>) else (NoPCIMSI, s\<lparr>config_reg := a\<rparr>))"
    unfolding configure_msi_def read_conf_reg_eq Let_def prod.case
    by (simp add: last_cap[OF assms(2)] del: last.simps)
  show ?thesis
  proof (cases "?msi = []")
    case True
    then show ?thesis unfolding fixed run by (auto simp: Let_def)
  next
    case False
    obtain e s' where r: "configure_msi_register wr x (last ?msi) addr data n (s\<lparr>config_reg := a\<rparr>) = (e, s')" by fastforce
    from configure_msi_register_spec[OF assms(1) refl r] False show ?thesis
      unfolding fixed run r Let_def data_def[symmetric] addr_def[symmetric] msi_header_for_def by simp
  qed
qed


definition example_xhc :: pci_device where
  "example_xhc = \<lparr>dev_bus = 0, dev_device = 3, dev_function = 0, dev_header_type = 0, dev_vendor_id = 0x8086,
     dev_class_code = \<lparr>cc_base = 0x0c, cc_sub = 0x03, cc_interface = 0x30\<rparr>\<rparr>"

definition example_msi :: "u32 \<Rightarrow> u32" where
  "example_msi a = (if a = 0x80001834 then 0x50 else if a = 0x80001850 then 0x00860005 else 0)"

lemma example_msi_chain: "cap_chain example_msi example_xhc 0x50 [0x50]"
proof (rule cap_chain.step)
  have "dev_reg example_msi example_xhc 0x50 = 0x00860005" by code_simp
  then have "ucast (bits_get 8 8 (dev_reg example_msi example_xhc 0x50)) = (0 :: u8)"
    by (simp add: bits_get_def drop_bit_eq_div take_bit_eq_mod)
  then show "cap_chain example_msi example_xhc (ucast (bits_get 8 8 (dev_reg example_msi example_xhc 0x50))) []"
    by (simp add: cap_chain.last)
qed simp


end
