(* ===== verification/Array_Map.thy ===== *)
theory Array_Map
  imports Prelude
begin

text \<open>
  The fixed-size map of the USB driver: \<open>src/kernel/usb/interface/usb/arraymap.hpp\<close>.

  The table is a list of slots, a key that may be missing and a value. The loops over the
  indices are recursions over the slots.
\<close>

type_synonym ('k, 'v) array_map = "('k option \<times> 'v) list"

fun get :: "('k, 'v) array_map \<Rightarrow> 'k \<Rightarrow> 'v option" where
  "get [] key = None"
| "get ((opt_k, v) # t) key = (if opt_k = Some key then Some v else get t key)"

fun put :: "('k, 'v) array_map \<Rightarrow> 'k \<Rightarrow> 'v \<Rightarrow> ('k, 'v) array_map" where
  "put [] key v = []"
| "put ((opt_k, w) # t) key v = (if opt_k = None then (Some key, v) # t else (opt_k, w) # put t key v)"

fun delete :: "('k, 'v) array_map \<Rightarrow> 'k \<Rightarrow> ('k, 'v) array_map" where
  "delete [] key = []"
| "delete ((opt_k, w) # t) key = (if opt_k = Some key then (None, w) # t else (opt_k, w) # delete t key)"

definition new_array_map :: "nat \<Rightarrow> 'v \<Rightarrow> ('k, 'v) array_map" where
  "new_array_map N v = replicate N (None, v)"

subsection \<open>The interface\<close>

text \<open>
  A map with room for a bounded number of keys. \<open>Put\<close> is only specified for a key that is not
  in the map: the code then adds it if there is room, and silently drops it otherwise.
\<close>

locale bounded_map =
  fixes lookup :: "'m \<Rightarrow> 'k \<Rightarrow> 'v option"
    and insert :: "'m \<Rightarrow> 'k \<Rightarrow> 'v \<Rightarrow> 'm"
    and remove :: "'m \<Rightarrow> 'k \<Rightarrow> 'm"
    and room :: "'m \<Rightarrow> nat"
    and invar :: "'m \<Rightarrow> bool"
  assumes insert_invar: "invar m \<Longrightarrow> lookup m k = None \<Longrightarrow> invar (insert m k v)"
    and lookup_insert: "invar m \<Longrightarrow> lookup m k = None \<Longrightarrow> 0 < room m \<Longrightarrow> lookup (insert m k v) = (lookup m)(k \<mapsto> v)"
    and insert_full: "room m = 0 \<Longrightarrow> insert m k v = m"
    and room_insert: "room (insert m k v) = room m - 1"
    and remove_invar: "invar m \<Longrightarrow> invar (remove m k)"
    and lookup_remove: "invar m \<Longrightarrow> lookup (remove m k) = (lookup m)(k := None)"
    and room_remove: "invar m \<Longrightarrow> lookup m k \<noteq> None \<Longrightarrow> room (remove m k) = room m + 1"
begin

text \<open>Putting a new key and deleting it again leaves every lookup and the room as they were.\<close>

lemma insert_remove:
  assumes "invar m" and "lookup m k = None" and "0 < room m"
  shows "lookup (remove (insert m k v) k) = lookup m" and "room (remove (insert m k v) k) = room m"
proof -
  have i: "invar (insert m k v)" and l: "lookup (insert m k v) = (lookup m)(k \<mapsto> v)"
    using assms insert_invar lookup_insert by blast+
  show "lookup (remove (insert m k v) k) = lookup m"
    using assms(2) by (auto simp: lookup_remove[OF i] l)
  show "room (remove (insert m k v) k) = room m"
    using room_remove[OF i, of k] l assms(3) by (simp add: room_insert)
qed

end

subsection \<open>The table implements it\<close>

definition keys_of :: "('k, 'v) array_map \<Rightarrow> 'k list" where
  "keys_of t = concat (map (\<lambda>(k, v). case k of None \<Rightarrow> [] | Some x \<Rightarrow> [x]) t)"

definition free_slots :: "('k, 'v) array_map \<Rightarrow> nat" where
  "free_slots t = length (filter (\<lambda>(k, v). k = None) t)"

definition map_ok :: "('k, 'v) array_map \<Rightarrow> bool" where
  "map_ok t \<longleftrightarrow> distinct (keys_of t)"

lemma keys_of_simps [simp]:
  "keys_of [] = []" "keys_of ((None, v) # t) = keys_of t" "keys_of ((Some k, v) # t) = k # keys_of t"
  by (simp_all add: keys_of_def)

lemma free_slots_simps [simp]:
  "free_slots [] = 0" "free_slots ((None, v) # t) = Suc (free_slots t)" "free_slots ((Some k, v) # t) = free_slots t"
  by (simp_all add: free_slots_def)

lemma get_None_iff: "get t k = None \<longleftrightarrow> k \<notin> set (keys_of t)"
proof (induction t k rule: get.induct)
  case (2 opt_k v t key)
  then show ?case by (cases opt_k) auto
qed simp

lemma set_keys_put: "0 < free_slots t \<Longrightarrow> set (keys_of (put t k v)) = insert k (set (keys_of t))"
proof (induction t k v rule: put.induct)
  case (2 opt_k w t key v)
  then show ?case by (cases opt_k) auto
qed simp

lemma put_full: "free_slots t = 0 \<Longrightarrow> put t k v = t"
proof (induction t k v rule: put.induct)
  case (2 opt_k w t key v)
  then show ?case by (cases opt_k) auto
qed simp

lemma set_keys_put_subset: "set (keys_of (put t k v)) \<subseteq> insert k (set (keys_of t))"
  by (cases "free_slots t = 0") (auto simp: put_full set_keys_put)

lemma distinct_keys_put: "distinct (keys_of t) \<Longrightarrow> k \<notin> set (keys_of t) \<Longrightarrow> distinct (keys_of (put t k v))"
proof (induction t k v rule: put.induct)
  case (2 opt_k w t key v)
  then show ?case using set_keys_put_subset[of t key v] by (cases opt_k) auto
qed simp

lemma get_put: "k \<notin> set (keys_of t) \<Longrightarrow> 0 < free_slots t \<Longrightarrow> get (put t k v) = (get t)(k \<mapsto> v)"
proof (induction t k v rule: put.induct)
  case (2 opt_k w t key v)
  then show ?case by (cases opt_k) (auto simp: fun_eq_iff)
qed simp

lemma free_slots_put: "free_slots (put t k v) = free_slots t - 1"
proof (induction t k v rule: put.induct)
  case (2 opt_k w t key v)
  then show ?case by (cases opt_k) auto
qed simp

lemma keys_delete: "distinct (keys_of t) \<Longrightarrow> keys_of (delete t k) = filter (\<lambda>x. x \<noteq> k) (keys_of t)"
proof (induction t k rule: delete.induct)
  case (2 opt_k w t key)
  show ?case
  proof (cases opt_k)
    case (Some x)
    then show ?thesis using 2 by (cases "x = key") (auto simp: filter_True intro!: filter_True[symmetric])
  qed (use 2 in simp)
qed simp

lemma get_delete: "distinct (keys_of t) \<Longrightarrow> get (delete t k) = (get t)(k := None)"
proof (induction t k rule: delete.induct)
  case (2 opt_k w t key)
  then show ?case using get_None_iff[of t key] by (cases opt_k) (auto simp: fun_eq_iff)
qed (simp add: fun_eq_iff)

lemma free_slots_delete: "k \<in> set (keys_of t) \<Longrightarrow> free_slots (delete t k) = Suc (free_slots t)"
proof (induction t k rule: delete.induct)
  case (2 opt_k w t key)
  then show ?case by (cases opt_k) auto
qed simp

interpretation array_map: bounded_map get put delete free_slots map_ok
proof
  show "map_ok (put m k v)" if "map_ok m" "get m k = None" for m :: "('a, 'b) array_map" and k v
    using that distinct_keys_put by (simp add: map_ok_def get_None_iff)
  show "get (put m k v) = (get m)(k \<mapsto> v)" if "map_ok m" "get m k = None" "0 < free_slots m"
    for m :: "('a, 'b) array_map" and k v
    using that get_put by (simp add: get_None_iff)
  show "map_ok (delete m k)" if "map_ok m" for m :: "('a, 'b) array_map" and k
    using that by (simp add: map_ok_def keys_delete)
  show "get (delete m k) = (get m)(k := None)" if "map_ok m" for m :: "('a, 'b) array_map" and k
    using that by (simp add: map_ok_def get_delete)
  show "free_slots (delete m k) = free_slots m + 1" if "map_ok m" "get m k \<noteq> None"
    for m :: "('a, 'b) array_map" and k
    using that free_slots_delete by (simp add: get_None_iff)
qed (simp_all add: put_full free_slots_put)

text \<open>Claim C13.
  The array map behaves as a map as long as only absent keys are put: a put key is found with
  its value if there is a free slot and the map is unchanged if there is none, other keys keep
  their values, a deleted key is gone, and deleting a key that was just put restores every
  lookup and the number of free slots.
\<close>

theorem array_map_laws:
  assumes "map_ok t" and "get t k = None"
  shows "(if free_slots t = 0 then put t k v = t
      else get (put t k v) = (get t)(k \<mapsto> v) \<and> get (delete (put t k v) k) = get t \<and>
        free_slots (delete (put t k v) k) = free_slots t) \<and>
    map_ok (put t k v) \<and> map_ok (delete t k') \<and> get (delete t k') = (get t)(k' := None)"
proof (cases "free_slots t = 0")
  case True
  then show ?thesis
    using array_map.insert_full array_map.insert_invar[OF assms] array_map.remove_invar[OF assms(1)]
      array_map.lookup_remove[OF assms(1)] by simp
next
  case False
  then show ?thesis
    using array_map.lookup_insert[OF assms] array_map.insert_remove[OF assms] array_map.insert_invar[OF assms]
      array_map.remove_invar[OF assms(1)] array_map.lookup_remove[OF assms(1)] by simp
qed

theorem array_map_laws_witness:
  "let t = put (new_array_map 4 (0 :: nat)) ''a'' 1
   in get (put t ''b'' 2) = (get t)(''b'' \<mapsto> 2) \<and> get (delete (put t ''b'' 2) ''b'') = get t"
proof -
  let ?t = "put (new_array_map 4 (0 :: nat)) ''a'' 1"
  have "map_ok ?t" "get ?t ''b'' = None" "free_slots ?t \<noteq> 0"
    by (simp_all add: new_array_map_def map_ok_def numeral_eq_Suc)
  then show ?thesis using array_map_laws[of ?t "''b''" 2] by (simp add: Let_def)
qed

end
