(* ===== verification/Usb_Types.thy ===== *)
theory Usb_Types
  imports Prelude
begin

text \<open>
  The small types of the USB driver: its error codes (\<open>usb/error.hpp\<close>), endpoints
  (\<open>usb/endpoint.hpp\<close>) and setup packets (\<open>usb/setupdata.hpp\<close>). File and line of an error
  are for messages only and are left out.
\<close>

datatype usb_error =
  kSuccess | kFull | kEmpty | kNoEnoughMemory | kIndexOutOfRange | kHostControllerNotHalted | kInvalidSlotID
| kPortNotConnected | kInvalidEndpointNumber | kTransferRingNotSet | kAlreadyAllocated | kNotImplemented
| kInvalidDescriptor | kBufferTooSmall | kUnknownDevice | kNoCorrespondingSetupStage | kTransferFailed
| kInvalidPhase | kUnknownXHCISpeedID | kNoWaiter

definition usb_error_codes :: "usb_error list" where
  "usb_error_codes = [kSuccess, kFull, kEmpty, kNoEnoughMemory, kIndexOutOfRange, kHostControllerNotHalted,
     kInvalidSlotID, kPortNotConnected, kInvalidEndpointNumber, kTransferRingNotSet, kAlreadyAllocated,
     kNotImplemented, kInvalidDescriptor, kBufferTooSmall, kUnknownDevice, kNoCorrespondingSetupStage,
     kTransferFailed, kInvalidPhase, kUnknownXHCISpeedID, kNoWaiter]"

definition usb_code_names :: "string list" where
  "usb_code_names = [''kSuccess'', ''kFull'', ''kEmpty'', ''kNoEnoughMemory'', ''kIndexOutOfRange'',
     ''kHostControllerNotHalted'', ''kInvalidSlotID'', ''kPortNotConnected'', ''kInvalidEndpointNumber'',
     ''kTransferRingNotSet'', ''kAlreadyAllocated'', ''kNotImplemented'', ''kInvalidDescriptor'', ''kBufferTooSmall'',
     ''kUnknownDevice'', ''kNoCorrespondingSetupStage'', ''kTransferFailed'', ''kInvalidPhase'',
     ''kUnknownXHCISpeedID'', ''kNoWaiter'']"

definition usb_failed :: "usb_error \<Rightarrow> bool" where
  "usb_failed e \<longleftrightarrow> e \<noteq> kSuccess"

text \<open>The table of names has a name for every code (the \<open>static_assert\<close> of \<open>usb/error.hpp\<close>).\<close>

lemma usb_error_has_name: "length usb_code_names = length usb_error_codes" "set usb_error_codes = UNIV"
proof -
  show "length usb_code_names = length usb_error_codes" by (simp add: usb_code_names_def usb_error_codes_def)
  have "e \<in> set usb_error_codes" for e by (cases e) (simp_all add: usb_error_codes_def)
  then show "set usb_error_codes = UNIV" by blast
qed

subsection \<open>Endpoints\<close>

datatype endpoint_type = kControl | kIsochronous | kBulk | kInterrupt

primrec endpoint_type_num :: "endpoint_type \<Rightarrow> u32" where
  "endpoint_type_num kControl = 0"
| "endpoint_type_num kIsochronous = 1"
| "endpoint_type_num kBulk = 2"
| "endpoint_type_num kInterrupt = 3"

text \<open>\<open>EndpointID\<close> holds an \<open>int\<close>, 0 to 31 in use; the two-argument constructor and the accessors.\<close>

datatype endpoint_id = EndpointID (ep_address: int)

definition make_endpoint_id :: "int \<Rightarrow> bool \<Rightarrow> endpoint_id" where
  "make_endpoint_id ep_num dir_in = EndpointID (push_bit 1 ep_num OR of_bool dir_in)"

definition ep_number :: "endpoint_id \<Rightarrow> int" where
  "ep_number e = drop_bit 1 (ep_address e)"

definition ep_is_in :: "endpoint_id \<Rightarrow> bool" where
  "ep_is_in e \<longleftrightarrow> ep_address e AND 1 \<noteq> 0"

definition kDefaultControlPipeID :: endpoint_id where
  "kDefaultControlPipeID = make_endpoint_id 0 True"

record endpoint_config =
  ep_id :: endpoint_id
  ep_type :: endpoint_type
  max_packet_size :: int
  interval :: int

lemma endpoint_address: "ep_address (make_endpoint_id n d) = 2 * n + of_bool d"
proof -
  have "push_bit 1 n OR of_bool d = push_bit 1 n + of_bool d"
    by (rule disjunctive_add[symmetric]) (auto simp: bit_simps bit_of_bool_iff bit_0)
  then show ?thesis by (simp add: make_endpoint_id_def push_bit_eq_mult mult.commute)
qed

lemma endpoint_id_parts:
  "ep_number (make_endpoint_id n d) = n" "ep_is_in (make_endpoint_id n d) = d"
  by (simp_all add: ep_number_def ep_is_in_def endpoint_address drop_bit_Suc and_one_eq mod_2_eq_odd)

subsection \<open>Setup packets\<close>

record setup_data =
  sd_request_type :: u8
  sd_request :: u8
  sd_value :: u16
  sd_index :: u16
  sd_length :: u16

definition setup_data_eq :: "setup_data \<Rightarrow> setup_data \<Rightarrow> bool" where
  "setup_data_eq lhs rhs \<longleftrightarrow> sd_request_type lhs = sd_request_type rhs \<and> sd_request lhs = sd_request rhs \<and>
     sd_value lhs = sd_value rhs \<and> sd_index lhs = sd_index rhs \<and> sd_length lhs = sd_length rhs"

lemma setup_data_eq_iff: "setup_data_eq a b \<longleftrightarrow> a = b" for a b :: setup_data
  by (auto simp: setup_data_eq_def)

definition make_request_type :: "u8 \<Rightarrow> u8 \<Rightarrow> u8 \<Rightarrow> u8" where
  "make_request_type direction type recipient = bits_set 0 5 recipient (bits_set 5 2 type (bits_set 7 1 direction 0))"

end
