(* ===== verification/Trb.thy ===== *)
theory Trb
  imports Usb_Types
begin

text \<open>
  Transfer request blocks: \<open>src/kernel/usb/interface/usb/xhci/trb.hpp\<close>, and the two builders of
  \<open>src/kernel/usb/xhci/device.cpp\<close>.

  Every TRB union shares the storage \<open>std::array<uint32_t, 4>\<close>, so one record of four words is
  the type of them all, and each union's bit fields are reads and writes of these words. The
  64-bit \<open>parameter\<close> is the first two words.
\<close>

record trb =
  trb0 :: u32
  trb1 :: u32
  trb2 :: u32
  trb3 :: u32

definition zero_trb :: trb where
  "zero_trb = \<lparr>trb0 = 0, trb1 = 0, trb2 = 0, trb3 = 0\<rparr>"

definition parameter :: "trb \<Rightarrow> u64" where
  "parameter t = ucast (trb0 t) OR push_bit 32 (ucast (trb1 t))"

definition set_parameter :: "u64 \<Rightarrow> trb \<Rightarrow> trb" where
  "set_parameter p t = t\<lparr>trb0 := ucast p, trb1 := ucast (drop_bit 32 p)\<rparr>"

definition cycle_bit :: "trb \<Rightarrow> bool" where
  "cycle_bit t \<longleftrightarrow> bits_get 0 1 (trb3 t) = 1"

definition trb_type :: "trb \<Rightarrow> u32" where
  "trb_type t = bits_get 10 6 (trb3 t)"

definition set_trb3 :: "nat \<Rightarrow> nat \<Rightarrow> u32 \<Rightarrow> trb \<Rightarrow> trb" where
  "set_trb3 off n v t = t\<lparr>trb3 := bits_set off n v (trb3 t)\<rparr>"

definition new_trb :: "u32 \<Rightarrow> trb" where
  "new_trb type = set_trb3 10 6 type zero_trb"

text \<open>A pointer in the upper 60 bits of the parameter, as in the link and command TRBs.\<close>

definition set_pointer60 :: "u64 \<Rightarrow> trb \<Rightarrow> trb" where
  "set_pointer60 p t = set_parameter (bits_set 4 60 (drop_bit 4 p) (parameter t)) t"

definition pointer60 :: "trb \<Rightarrow> u64" where
  "pointer60 t = push_bit 4 (bits_get 4 60 (parameter t))"

subsection \<open>The kinds of TRBs\<close>

definition normal_trb_type :: u32 where "normal_trb_type = 1"
definition setup_stage_trb_type :: u32 where "setup_stage_trb_type = 2"
definition data_stage_trb_type :: u32 where "data_stage_trb_type = 3"
definition status_stage_trb_type :: u32 where "status_stage_trb_type = 4"
definition link_trb_type :: u32 where "link_trb_type = 6"
definition no_op_trb_type :: u32 where "no_op_trb_type = 8"
definition enable_slot_command_trb_type :: u32 where "enable_slot_command_trb_type = 9"
definition address_device_command_trb_type :: u32 where "address_device_command_trb_type = 11"
definition configure_endpoint_command_trb_type :: u32 where "configure_endpoint_command_trb_type = 12"
definition stop_endpoint_command_trb_type :: u32 where "stop_endpoint_command_trb_type = 15"
definition no_op_command_trb_type :: u32 where "no_op_command_trb_type = 23"
definition transfer_event_trb_type :: u32 where "transfer_event_trb_type = 32"
definition command_completion_event_trb_type :: u32 where "command_completion_event_trb_type = 33"
definition port_status_change_event_trb_type :: u32 where "port_status_change_event_trb_type = 34"

definition normal_trb :: trb where
  "normal_trb = new_trb normal_trb_type"

definition normal_pointer :: "trb \<Rightarrow> u64" where
  "normal_pointer t = parameter t"

definition normal_set_pointer :: "u64 \<Rightarrow> trb \<Rightarrow> trb" where
  "normal_set_pointer p t = set_parameter p t"

definition setup_stage_trb :: trb where
  "setup_stage_trb =
     (let t = new_trb setup_stage_trb_type; t = set_trb3 6 1 1 t
      in t\<lparr>trb2 := bits_set 0 17 8 (trb2 t)\<rparr>)"

definition data_stage_trb :: trb where
  "data_stage_trb = new_trb data_stage_trb_type"

definition data_pointer :: "trb \<Rightarrow> u64" where
  "data_pointer t = parameter t"

definition data_set_pointer :: "u64 \<Rightarrow> trb \<Rightarrow> trb" where
  "data_set_pointer p t = set_parameter p t"

definition status_stage_trb :: trb where
  "status_stage_trb = new_trb status_stage_trb_type"

definition link_trb :: "u64 \<Rightarrow> trb" where
  "link_trb ring_segment_pointer = set_pointer60 ring_segment_pointer (new_trb link_trb_type)"

definition toggle_cycle :: "trb \<Rightarrow> bool" where
  "toggle_cycle t \<longleftrightarrow> bits_get 1 1 (trb3 t) = 1"

definition no_op_trb :: trb where
  "no_op_trb = new_trb no_op_trb_type"

definition enable_slot_command_trb :: trb where
  "enable_slot_command_trb = new_trb enable_slot_command_trb_type"

definition address_device_command_trb :: "u64 \<Rightarrow> u8 \<Rightarrow> trb" where
  "address_device_command_trb input_context slot_id =
     set_pointer60 input_context (set_trb3 24 8 (ucast slot_id) (new_trb address_device_command_trb_type))"

definition configure_endpoint_command_trb :: "u64 \<Rightarrow> u8 \<Rightarrow> trb" where
  "configure_endpoint_command_trb input_context slot_id =
     set_pointer60 input_context (set_trb3 24 8 (ucast slot_id) (new_trb configure_endpoint_command_trb_type))"

definition stop_endpoint_command_trb :: "endpoint_id \<Rightarrow> u8 \<Rightarrow> trb" where
  "stop_endpoint_command_trb endpoint_id slot_id =
     set_trb3 24 8 (ucast slot_id)
       (set_trb3 16 5 (word_of_int (ep_address endpoint_id)) (new_trb stop_endpoint_command_trb_type))"

definition no_op_command_trb :: trb where
  "no_op_command_trb = new_trb no_op_command_trb_type"

definition transfer_event_trb :: trb where
  "transfer_event_trb = new_trb transfer_event_trb_type"

definition command_completion_event_trb :: trb where
  "command_completion_event_trb = new_trb command_completion_event_trb_type"

definition port_status_change_event_trb :: trb where
  "port_status_change_event_trb = new_trb port_status_change_event_trb_type"

text \<open>Fields of the event TRBs and of the transfer TRBs that the driver reads.\<close>

definition completion_code :: "trb \<Rightarrow> u32" where
  "completion_code t = bits_get 24 8 (trb2 t)"

definition event_data :: "trb \<Rightarrow> bool" where
  "event_data t \<longleftrightarrow> bits_get 2 1 (trb3 t) = 1"

definition residual_length :: "trb \<Rightarrow> u32" where
  "residual_length t = bits_get 0 24 (trb2 t)"

definition trb_transfer_length :: "trb \<Rightarrow> u32" where
  "trb_transfer_length t = bits_get 0 17 (trb2 t)"

definition slot_id :: "trb \<Rightarrow> u32" where
  "slot_id t = bits_get 24 8 (trb3 t)"

definition trb_endpoint_id :: "trb \<Rightarrow> endpoint_id" where
  "trb_endpoint_id t = EndpointID (uint (bits_get 16 5 (trb3 t)))"

definition event_pointer :: "trb \<Rightarrow> u64" where
  "event_pointer t = parameter t"

definition port_id :: "trb \<Rightarrow> u32" where
  "port_id t = bits_get 24 8 (trb0 t)"

text \<open>\<open>TRBDynamicCast\<close>: the TRB itself when its type is the one asked for.\<close>

definition trb_dynamic_cast :: "u32 \<Rightarrow> trb \<Rightarrow> trb option" where
  "trb_dynamic_cast type t = (if type = trb_type t then Some t else None)"

subsection \<open>The builders of control transfers\<close>

definition make_setup_stage_trb :: "setup_data \<Rightarrow> u32 \<Rightarrow> trb" where
  "make_setup_stage_trb setup_data transfer_type =
     (let t = setup_stage_trb;
          t = t\<lparr>trb0 := bits_set 0 8 (ucast (sd_request_type setup_data)) (trb0 t)\<rparr>;
          t = t\<lparr>trb0 := bits_set 8 8 (ucast (sd_request setup_data)) (trb0 t)\<rparr>;
          t = t\<lparr>trb0 := bits_set 16 16 (ucast (sd_value setup_data)) (trb0 t)\<rparr>;
          t = t\<lparr>trb1 := bits_set 0 16 (ucast (sd_index setup_data)) (trb1 t)\<rparr>;
          t = t\<lparr>trb1 := bits_set 16 16 (ucast (sd_length setup_data)) (trb1 t)\<rparr>
      in set_trb3 16 2 transfer_type t)"

definition make_data_stage_trb :: "u64 \<Rightarrow> u32 \<Rightarrow> bool \<Rightarrow> trb" where
  "make_data_stage_trb buf len dir_in =
     (let t = data_set_pointer buf data_stage_trb;
          t = t\<lparr>trb2 := bits_set 0 17 len (trb2 t)\<rparr>;
          t = t\<lparr>trb2 := bits_set 17 5 0 (trb2 t)\<rparr>
      in set_trb3 16 1 (of_bool dir_in) t)"

text \<open>The setup packet in a setup stage TRB, as \<open>OnTransferEventReceived\<close> reads it back.\<close>

definition setup_data_of :: "trb \<Rightarrow> setup_data" where
  "setup_data_of t = \<lparr>sd_request_type = ucast (bits_get 0 8 (trb0 t)), sd_request = ucast (bits_get 8 8 (trb0 t)),
     sd_value = ucast (bits_get 16 16 (trb0 t)), sd_index = ucast (bits_get 0 16 (trb1 t)),
     sd_length = ucast (bits_get 16 16 (trb1 t))\<rparr>"

subsection \<open>Round trips\<close>

lemma parameter_set [simp]: "parameter (set_parameter p t) = p"
proof -
  have "(ucast (ucast p :: u32) OR push_bit 32 (ucast (ucast (drop_bit 32 p) :: u32)) :: u64) = p"
  proof (rule bit_word_eqI)
    fix k assume k: "k < LENGTH(64)"
    show "bit (ucast (ucast p :: u32) OR push_bit 32 (ucast (ucast (drop_bit 32 p) :: u32)) :: u64) k = bit p k"
      by (cases "k < 32") (use k in \<open>auto simp: bit_simps\<close>)
  qed
  then show ?thesis by (simp add: parameter_def set_parameter_def)
qed

lemma trb3_set_parameter [simp]: "trb3 (set_parameter p t) = trb3 t" "trb2 (set_parameter p t) = trb2 t"
  by (simp_all add: set_parameter_def)

lemma trb3_set_pointer60 [simp]: "trb3 (set_pointer60 p t) = trb3 t" "trb2 (set_pointer60 p t) = trb2 t"
  by (simp_all add: set_pointer60_def)

lemma pointer60_set: "pointer60 (set_pointer60 p t) = push_bit 4 (drop_bit 4 p)"
proof -
  have "take_bit 60 (drop_bit 4 p) = drop_bit 4 p" for p :: u64
    by (rule bit_word_eqI) (auto simp: bit_simps dest: bit_imp_le_length)
  then show ?thesis by (simp add: pointer60_def set_pointer60_def field_simps_bits del: bits_get_take_bit)
qed

lemma pointer60_aligned:
  assumes "unat p mod 16 = 0"
  shows "pointer60 (set_pointer60 p t) = p"
proof -
  have "take_bit 4 (unat p) = 0" using assms by (simp add: take_bit_eq_mod)
  then have "take_bit 4 p = 0" by (metis unsigned_take_bit_eq unsigned_0 word_unat_eq_iff)
  then have "push_bit 4 (drop_bit 4 p) = p" using bits_ident[of 4 p] by simp
  then show ?thesis by (simp add: pointer60_set)
qed

text \<open>
  What the driver writes into a TRB it reads back: buffer pointers of normal and data stage
  TRBs whatever they are, and ring and context pointers if they are multiples of 16 (the low
  four bits are flags of the hardware); and no pointer write changes the type of the TRB.
\<close>

lemma trb_pointer_roundtrip:
  assumes "unat p mod 16 = 0"
  shows "normal_pointer (normal_set_pointer q normal_trb) = q \<and> data_pointer (data_set_pointer q data_stage_trb) = q \<and>
    pointer60 (link_trb p) = p \<and> pointer60 (address_device_command_trb p s) = p \<and>
    pointer60 (configure_endpoint_command_trb p s) = p \<and>
    trb_type (normal_set_pointer q normal_trb) = normal_trb_type \<and>
    trb_type (data_set_pointer q data_stage_trb) = data_stage_trb_type \<and> trb_type (link_trb p) = link_trb_type \<and>
    trb_type (address_device_command_trb p s) = address_device_command_trb_type \<and> slot_id (address_device_command_trb p s) = ucast s \<and>
    trb_type (configure_endpoint_command_trb p s) = configure_endpoint_command_trb_type \<and>
    slot_id (configure_endpoint_command_trb p s) = ucast s"
proof -
  have s8: "take_bit 8 (ucast s) = (ucast s :: u32)" by (simp add: take_bit_ucast_id)
  note defs = normal_pointer_def normal_set_pointer_def data_pointer_def data_set_pointer_def link_trb_def
    address_device_command_trb_def configure_endpoint_command_trb_def normal_trb_def data_stage_trb_def trb_type_def
    new_trb_def set_trb3_def slot_id_def normal_trb_type_def data_stage_trb_type_def link_trb_type_def
    address_device_command_trb_type_def configure_endpoint_command_trb_type_def
  show ?thesis
    by (simp add: defs pointer60_aligned[OF assms] field_simps_bits s8)
qed

lemma trb_pointer_roundtrip_example:
  "unat (0x123450 :: u64) mod 16 = 0 \<and> pointer60 (link_trb 0x123450) = 0x123450"
  using trb_pointer_roundtrip[of "0x123450"] by simp

lemma setup_stage_fields:
  "let t = make_setup_stage_trb sd tt
   in setup_data_of t = sd \<and> trb_dynamic_cast setup_stage_trb_type t = Some t \<and>
      bits_get 6 1 (trb3 t) = 1 \<and> trb_transfer_length t = 8 \<and> bits_get 16 2 (trb3 t) = take_bit 2 tt"
proof -
  have u: "take_bit 8 (ucast a) = (ucast a :: u32)" "take_bit 16 (ucast b) = (ucast b :: u32)" for a :: u8 and b :: u16
    by (simp_all add: take_bit_ucast_id)
  have v: "ucast (ucast a :: u32) = a" "ucast (ucast b :: u32) = b" for a :: u8 and b :: u16
    by (simp_all add: ucast_ucast_id)
  show ?thesis
    by (simp add: make_setup_stage_trb_def setup_data_of_def setup_stage_trb_def new_trb_def set_trb3_def Let_def
        trb_dynamic_cast_def trb_type_def setup_stage_trb_type_def trb_transfer_length_def field_simps_bits u v)
qed

end
