(* ===== verification/Usb_Memory.thy ===== *)
theory Usb_Memory
  imports Prelude
begin

text \<open>
  The memory pool of the USB driver: \<open>src/kernel/usb/memory.cpp\<close> and \<open>usb/memory.hpp\<close>.

  \<open>alloc_ptr\<close> is the only state. The address of the static array \<open>memory_pool\<close>, which the
  linker chooses with 64-byte alignment, is the argument \<open>pool\<close>. A pointer is its address and
  \<open>nullptr\<close> is 0. \<open>FreeMem\<close> does nothing.
\<close>

definition memory_pool_size :: u64 where
  "memory_pool_size = 4096 * 32"

definition ceil_addr :: "u64 \<Rightarrow> u32 \<Rightarrow> u64" where
  "ceil_addr value alignment = (value + ucast alignment - 1) AND NOT (ucast (alignment - 1))"

definition mask_addr :: "u64 \<Rightarrow> u32 \<Rightarrow> u64" where
  "mask_addr value msk = value AND NOT (ucast (msk - 1))"

definition alloc_mem :: "u64 \<Rightarrow> u64 \<Rightarrow> u32 \<Rightarrow> u32 \<Rightarrow> u64 \<Rightarrow> u64 \<times> u64" where
  "alloc_mem pool bytes alignment boundary alloc_ptr =
     (let alloc_ptr = (if 0 < alignment then ceil_addr alloc_ptr alignment else alloc_ptr);
          alloc_ptr = (if 0 < boundary then
              let next_boundary = ceil_addr alloc_ptr boundary
              in if next_boundary < alloc_ptr + bytes then next_boundary else alloc_ptr
            else alloc_ptr)
      in if pool + memory_pool_size < alloc_ptr + bytes then (0, alloc_ptr)
         else (alloc_ptr, alloc_ptr + bytes))"

definition alloc_array :: "u64 \<Rightarrow> u64 \<Rightarrow> u64 \<Rightarrow> u32 \<Rightarrow> u32 \<Rightarrow> u64 \<Rightarrow> u64 \<times> u64" where
  "alloc_array pool obj_size num_obj alignment boundary = alloc_mem pool (obj_size * num_obj) alignment boundary"

definition free_mem :: "u64 \<Rightarrow> u64 \<Rightarrow> u64" where
  "free_mem p alloc_ptr = alloc_ptr"

subsection \<open>Rounding up\<close>

definition round_up :: "nat \<Rightarrow> nat \<Rightarrow> nat" where
  "round_up a n = (n + a - 1) div a * a"

lemma round_up_bounds: "0 < a \<Longrightarrow> n \<le> round_up a n" "0 < a \<Longrightarrow> round_up a n < n + a" "a dvd round_up a n"
proof -
  assume a: "0 < a"
  have e: "(n + a - 1) div a * a + (n + a - 1) mod a = n + a - 1" by simp
  have "(n + a - 1) mod a < a" using a by simp
  with e a show "n \<le> round_up a n" "round_up a n < n + a" unfolding round_up_def by linarith+
qed (simp add: round_up_def)

lemma round_up_id: "0 < a \<Longrightarrow> a dvd n \<Longrightarrow> round_up a n = n"
proof -
  assume a: "0 < a" "a dvd n"
  then obtain q q' where q: "n = a * q" "round_up a n = a * q'" using round_up_bounds(3)[of a n] by (elim dvdE)
  then have "a * q \<le> a * q'" "a * q' < a * (q + 1)" using round_up_bounds(1,2)[of a n] a by simp_all
  then have "q = q'" using a(1) by (simp del: mult_Suc_right)
  with q show ?thesis by simp
qed

text \<open>The bit trick rounds up to a power of two.\<close>

lemma and_not_mask: "(v :: u64) AND NOT (mask k) = push_bit k (drop_bit k v)"
  by (rule bit_word_eqI) (auto simp: bit_simps)

lemma unat_ceil_addr:
  assumes "unat alignment = 2 ^ k" and "unat v + 2 ^ k \<le> 2 ^ 63"
  shows "unat (ceil_addr v alignment) = round_up (2 ^ k) (unat v)"
proof -
  have "2 ^ k < (2 :: nat) ^ 32" using assms(1) unat_lt2p[of alignment] by simp
  then have k: "k < 32" by (rule power_less_imp_less_exp[rotated]) simp
  have "alignment = 2 ^ k" using assms(1) k unat_exp[of k, where ?'a = 32] by (simp add: word_unat_eq_iff)
  moreover have "ucast (2 ^ k :: u32) = (2 ^ k :: u64)"
    using k by (intro bit_word_eqI) (auto simp: bit_simps)
  ultimately have m: "ucast (alignment - 1) = (mask k :: u64)" "ucast alignment = (2 ^ k :: u64)"
    using k by (auto simp: mask_eq_exp_minus_1[symmetric] ucast_mask_eq)
  have p: "unat (2 ^ k :: u64) = 2 ^ k" using k by (simp add: unat_exp)
  have u: "unat (v + 2 ^ k) = unat v + 2 ^ k" using unat_plus_eq[of v "2 ^ k"] p assms(2) by simp
  then have "v + 2 ^ k \<noteq> 0" by (metis add_is_0 power_not_zero unat_0 zero_neq_numeral)
  then have s: "unat (v + 2 ^ k - 1) = unat v + 2 ^ k - 1" by (simp add: unat_minus_one u)
  have push: "unat (push_bit k (drop_bit k w)) = unat w div 2 ^ k * 2 ^ k" for w :: u64
  proof -
    have "unat (w div 2 ^ k) = unat w div 2 ^ k" by (simp add: unat_div p)
    moreover have "unat w div 2 ^ k * 2 ^ k < 2 ^ LENGTH(64)"
      by (rule le_less_trans[OF div_times_less_eq_dividend unat_lt2p])
    ultimately have "unat (w div 2 ^ k * 2 ^ k) = unat w div 2 ^ k * 2 ^ k"
      using unat_mult_eq[of "w div 2 ^ k" "2 ^ k"] p by simp
    then show ?thesis by (simp add: push_bit_eq_mult drop_bit_eq_div)
  qed
  show ?thesis
    unfolding ceil_addr_def m and_not_mask push s round_up_def by simp
qed

subsection \<open>What one allocation does\<close>

text \<open>
  A request: its size, and alignment and boundary, each zero (no constraint) or a power of two.
  \<open>start\<close> is where the block begins, by plain arithmetic.
\<close>

definition pow2_or_0 :: "u32 \<Rightarrow> bool" where
  "pow2_or_0 a \<longleftrightarrow> a = 0 \<or> (\<exists>k<32. unat a = 2 ^ k)"

definition align_up :: "nat \<Rightarrow> nat \<Rightarrow> nat" where
  "align_up a n = (if a = 0 then n else round_up a n)"

definition start :: "nat \<Rightarrow> nat \<Rightarrow> nat \<Rightarrow> nat \<Rightarrow> nat" where
  "start bytes a b n =
     (let n1 = align_up a n; n2 = align_up b n1 in if b \<noteq> 0 \<and> n2 < n1 + bytes then n2 else n1)"

lemma unat_align:
  assumes "pow2_or_0 a" and "unat v \<le> 2 ^ 62"
  shows "unat (if 0 < a then ceil_addr v a else v) = align_up (unat a) (unat v)" "align_up (unat a) (unat v) \<le> unat v + 2 ^ 32"
proof -
  have "unat (if 0 < a then ceil_addr v a else v) = align_up (unat a) (unat v) \<and> align_up (unat a) (unat v) \<le> unat v + 2 ^ 32"
  proof (cases "a = 0")
    case False
    then obtain k where k: "k < 32" "unat a = 2 ^ k" using assms(1) by (auto simp: pow2_or_0_def)
    have "(2 :: nat) ^ k \<le> 2 ^ 32" using k by (intro power_increasing) auto
    moreover have "round_up (2 ^ k) (unat v) < unat v + 2 ^ k" by (rule round_up_bounds(2)) simp
    moreover have "unat (ceil_addr v a) = round_up (2 ^ k) (unat v)"
      using calculation(1) assms(2) by (intro unat_ceil_addr[OF k(2)]) simp
    ultimately show ?thesis using False k by (simp add: align_up_def word_neq_0_conv)
  qed (simp add: align_up_def)
  then show "unat (if 0 < a then ceil_addr v a else v) = align_up (unat a) (unat v)"
    "align_up (unat a) (unat v) \<le> unat v + 2 ^ 32" by auto
qed

lemma align_up_ge: "n \<le> align_up a n"
  by (simp add: align_up_def round_up_bounds)

lemma start_ge: "n \<le> start bytes a b n"
  using align_up_ge[of n a] align_up_ge[of "align_up a n" b] by (auto simp: start_def Let_def)

lemma alloc_mem_eq:
  assumes "pow2_or_0 a" and "pow2_or_0 b" and "unat ptr \<le> 2 ^ 61" and "unat bytes \<le> 2 ^ 60" and "unat pool \<le> 2 ^ 60"
  defines "q \<equiv> start (unat bytes) (unat a) (unat b) (unat ptr)"
  shows "alloc_mem pool bytes a b ptr =
      (if unat pool + 131072 < q + unat bytes then (0, of_nat q) else (of_nat q, of_nat (q + unat bytes)))"
    and "q \<le> unat ptr + 2 ^ 33"
proof -
  let ?p1 = "if 0 < a then ceil_addr ptr a else ptr"
  let ?p2 = "if 0 < b then ceil_addr ?p1 b else ?p1"
  note u1 = unat_align[OF assms(1), of ptr]
  have l1: "unat ?p1 \<le> 2 ^ 62" using u1 assms(3) by simp
  note u2 = unat_align[OF assms(2) l1]
  show "q \<le> unat ptr + 2 ^ 33"
    using u1 u2 assms(3) by (auto simp: q_def start_def Let_def)
  define P where "P = (if 0 < b \<and> ?p2 < ?p1 + bytes then ?p2 else ?p1)"
  have s1: "unat (?p1 + bytes) = unat ?p1 + unat bytes"
    using unat_plus_eq[of ?p1 bytes] l1 assms(4) by simp
  have P: "unat P = q"
    using u1 u2 assms(3) s1 by (auto simp: P_def q_def start_def Let_def word_less_nat_alt unat_gt_0 split: if_splits)
  have l3: "q \<le> 2 ^ 62" using \<open>q \<le> unat ptr + 2 ^ 33\<close> assms(3) by simp
  have s2: "unat (P + bytes) = q + unat bytes" "unat (pool + memory_pool_size) = unat pool + 131072"
    using unat_plus_eq[of P bytes] unat_plus_eq[of pool memory_pool_size] P l3 assms(4,5)
    by (simp_all add: memory_pool_size_def)
  have w: "P = of_nat q" "P + bytes = of_nat (q + unat bytes)"
    by (subst P[symmetric], simp, subst s2(1)[symmetric], simp)
  have "alloc_mem pool bytes a b ptr =
      (if pool + memory_pool_size < P + bytes then (0, P) else (P, P + bytes))"
    by (simp add: alloc_mem_def Let_def P_def)
  then show "alloc_mem pool bytes a b ptr =
      (if unat pool + 131072 < q + unat bytes then (0, of_nat q) else (of_nat q, of_nat (q + unat bytes)))"
    using s2 w by (simp add: word_less_nat_alt)
qed

subsection \<open>Blocks of a sequence of requests\<close>

text \<open>
  A bump allocator as a client sees it: blocks come from below \<open>top\<close>, never below the mark that
  earlier blocks ended at, and the mark only moves up, also when a request fails.
\<close>

primrec alloc_blocks :: "('r \<Rightarrow> 's \<Rightarrow> (nat \<times> nat) option \<times> 's) \<Rightarrow> 'r list \<Rightarrow> 's \<Rightarrow> nat set list" where
  "alloc_blocks alloc [] s = []"
| "alloc_blocks alloc (r # rs) s =
     (case alloc r s of
        (Some (p, n), s') \<Rightarrow> {p..<p + n} # alloc_blocks alloc rs s'
      | (None, s') \<Rightarrow> alloc_blocks alloc rs s')"

locale bump_allocator =
  fixes alloc :: "'r \<Rightarrow> 's \<Rightarrow> (nat \<times> nat) option \<times> 's"
    and mark :: "'s \<Rightarrow> nat"
    and top :: nat
    and good :: "'r \<Rightarrow> bool"
    and invar :: "'s \<Rightarrow> bool"
  assumes alloc_Some: "invar s \<Longrightarrow> good r \<Longrightarrow> alloc r s = (Some (p, n), s') \<Longrightarrow>
      invar s' \<and> mark s \<le> p \<and> p + n \<le> mark s' \<and> p + n \<le> top"
    and alloc_None: "invar s \<Longrightarrow> good r \<Longrightarrow> alloc r s = (None, s') \<Longrightarrow> invar s' \<and> mark s \<le> mark s'"
begin

lemma blocks_above:
  "invar s \<Longrightarrow> \<forall>r\<in>set rs. good r \<Longrightarrow> b \<in> set (alloc_blocks alloc rs s) \<Longrightarrow> b \<subseteq> {mark s..<top}"
proof (induction rs arbitrary: s)
  case (Cons r rs)
  obtain x s' where a: "alloc r s = (x, s')" by fastforce
  show ?case
  proof (cases x)
    case None
    with alloc_None[OF Cons.prems(1)] Cons a have "b \<subseteq> {mark s'..<top}" "mark s \<le> mark s'" by auto
    then show ?thesis by fastforce
  next
    case (Some pn)
    obtain p n where pn: "pn = (p, n)" by fastforce
    with alloc_Some[OF Cons.prems(1)] Cons.prems(2) a Some
    have 1: "invar s'" "mark s \<le> p" "p + n \<le> mark s'" "p + n \<le> top" by auto
    with Cons a Some pn have "b = {p..<p + n} \<or> b \<subseteq> {mark s'..<top}" by auto
    with 1 show ?thesis by fastforce
  qed
qed simp

lemma blocks_disjoint:
  "invar s \<Longrightarrow> \<forall>r\<in>set rs. good r \<Longrightarrow> i < j \<Longrightarrow> j < length (alloc_blocks alloc rs s) \<Longrightarrow>
   alloc_blocks alloc rs s ! i \<inter> alloc_blocks alloc rs s ! j = {}"
proof (induction rs arbitrary: s i j)
  case (Cons r rs)
  obtain x s' where a: "alloc r s = (x, s')" by fastforce
  show ?case
  proof (cases x)
    case None
    then have "invar s'" using alloc_None[OF Cons.prems(1)] Cons.prems(2) a by auto
    then show ?thesis using Cons.IH[of s' i j] Cons.prems a None by simp
  next
    case (Some pn)
    obtain p n where pn: "pn = (p, n)" by fastforce
    with alloc_Some[OF Cons.prems(1)] Cons.prems(2) a Some
    have 1: "invar s'" "p + n \<le> mark s'" by auto
    show ?thesis
    proof (cases i)
      case 0
      then obtain j' where j: "j = Suc j'" using Cons.prems(3) by (cases j) auto
      then have "alloc_blocks alloc rs s' ! j' \<subseteq> {mark s'..<top}"
        using Cons.prems a Some pn 1 by (intro blocks_above) auto
      with 1 0 j show ?thesis using a Some pn by fastforce
    next
      case (Suc i')
      with Cons.prems(3) obtain j' where "j = Suc j'" by (cases j) auto
      with Suc show ?thesis using Cons.IH[OF 1(1), of i' j'] Cons.prems a Some pn by simp
    qed
  qed
qed simp

end

subsection \<open>The pool is a bump allocator\<close>

record mem_request =
  req_bytes :: u64
  req_alignment :: u32
  req_boundary :: u32

definition good_request :: "mem_request \<Rightarrow> bool" where
  "good_request r \<longleftrightarrow> unat (req_bytes r) \<le> 2 ^ 60 \<and> pow2_or_0 (req_alignment r) \<and> pow2_or_0 (req_boundary r)"

definition pool_alloc :: "u64 \<Rightarrow> mem_request \<Rightarrow> u64 \<Rightarrow> (nat \<times> nat) option \<times> u64" where
  "pool_alloc pool r ptr =
     (let (p, ptr') = alloc_mem pool (req_bytes r) (req_alignment r) (req_boundary r) ptr
      in (if p = 0 then None else Some (unat p, unat (req_bytes r)), ptr'))"

text \<open>
  The pointer never passes the first multiple of 2 GiB behind the pool: every alignment is a
  divisor of it.
\<close>

definition pool_limit :: "u64 \<Rightarrow> nat" where
  "pool_limit pool = round_up (2 ^ 31) (unat pool + 131072)"

definition pool_ok :: "u64 \<Rightarrow> u64 \<Rightarrow> bool" where
  "pool_ok pool ptr \<longleftrightarrow> 0 < pool \<and> unat pool \<le> 2 ^ 60 \<and> pool \<le> ptr \<and> unat ptr \<le> pool_limit pool"

lemma align_up_le:
  assumes "pow2_or_0 a" and "n \<le> pool_limit pool"
  shows "align_up (unat a) n \<le> pool_limit pool"
proof (cases "a = 0")
  case False
  then obtain k where k: "k < 32" "unat a = 2 ^ k" using assms(1) by (auto simp: pow2_or_0_def)
  have "2 ^ k dvd (2 :: nat) ^ 31" using k by (intro le_imp_power_dvd) simp
  then obtain q where q: "pool_limit pool = 2 ^ k * q"
    using round_up_bounds(3)[of "2 ^ 31" "unat pool + 131072"] unfolding pool_limit_def by (metis dvd_def dvd_trans)
  have "n + 2 ^ k - 1 < Suc q * 2 ^ k"
  proof -
    have "0 < (2 :: nat) ^ k" by simp
    then have "n + 2 ^ k - 1 < n + 2 ^ k" by linarith
    also have "\<dots> \<le> Suc q * 2 ^ k" using assms(2) q by (simp add: mult.commute)
    finally show ?thesis .
  qed
  then have "(n + 2 ^ k - 1) div 2 ^ k < Suc q" by (simp add: div_less_iff_less_mult)
  then show ?thesis using k False by (simp add: align_up_def round_up_def q)
qed (use assms in \<open>simp add: align_up_def\<close>)

lemma start_le:
  assumes "pow2_or_0 a" and "pow2_or_0 b" and "n \<le> pool_limit pool"
  shows "start bytes (unat a) (unat b) n \<le> pool_limit pool"
  using align_up_le[OF assms(1,3)] align_up_le[OF assms(2), of "align_up (unat a) n"] by (auto simp: start_def Let_def)

lemma pool_limit_bounds:
  assumes "unat pool \<le> 2 ^ 60"
  shows "unat pool + 131072 \<le> pool_limit pool" "pool_limit pool \<le> 2 ^ 61"
  using assms round_up_bounds(1)[of "2 ^ 31" "unat pool + 131072"] round_up_bounds(2)[of "2 ^ 31" "unat pool + 131072"]
  by (simp_all add: pool_limit_def)

text \<open>One allocation from a well-formed pool.\<close>

lemma pool_alloc_eq:
  assumes ok: "pool_ok pool ptr" and good: "good_request r"
  defines "q \<equiv> start (unat (req_bytes r)) (unat (req_alignment r)) (unat (req_boundary r)) (unat ptr)"
  shows "pool_alloc pool r ptr =
      (if unat pool + 131072 < q + unat (req_bytes r) then (None, of_nat q)
       else (Some (q, unat (req_bytes r)), of_nat (q + unat (req_bytes r))))"
    and "unat ptr \<le> q" and "q \<le> pool_limit pool" and "unat (of_nat q :: u64) = q"
proof -
  have b: "pool_limit pool \<le> 2 ^ 61" using ok pool_limit_bounds by (simp add: pool_ok_def)
  show ge: "unat ptr \<le> q" by (simp add: q_def start_ge)
  show le: "q \<le> pool_limit pool" unfolding q_def
    by (rule start_le) (use ok good in \<open>simp_all add: good_request_def pool_ok_def\<close>)
  then show q: "unat (of_nat q :: u64) = q" using b by (intro unat_of_nat_eq) simp
  have "0 < unat ptr" using ok by (auto simp: pool_ok_def word_less_nat_alt word_le_nat_alt)
  then have "(of_nat q :: u64) \<noteq> 0" using q ge by (metis not_less unat_0)
  moreover have "alloc_mem pool (req_bytes r) (req_alignment r) (req_boundary r) ptr =
      (if unat pool + 131072 < q + unat (req_bytes r) then (0, of_nat q) else (of_nat q, of_nat (q + unat (req_bytes r))))"
    unfolding q_def using ok good b by (intro alloc_mem_eq) (simp_all add: good_request_def pool_ok_def)
  ultimately show "pool_alloc pool r ptr =
      (if unat pool + 131072 < q + unat (req_bytes r) then (None, of_nat q)
       else (Some (q, unat (req_bytes r)), of_nat (q + unat (req_bytes r))))"
    using q by (simp add: pool_alloc_def)
qed

text \<open>
  The interface for a fixed pool: the state carries the pool's address, which stays what it is.
\<close>

definition pool_alloc_at :: "mem_request \<Rightarrow> u64 \<times> u64 \<Rightarrow> (nat \<times> nat) option \<times> (u64 \<times> u64)" where
  "pool_alloc_at r s = (let (x, ptr) = pool_alloc (fst s) r (snd s) in (x, (fst s, ptr)))"

lemma pool_ok_step:
  assumes "pool_ok pool ptr" and "good_request r" and "pool_alloc pool r ptr = (x, ptr')"
  shows "pool_ok pool ptr' \<and> unat ptr \<le> unat ptr' \<and>
    (\<forall>p n. x = Some (p, n) \<longrightarrow> unat ptr \<le> p \<and> p + n = unat ptr' \<and> p + n \<le> unat pool + 131072)"
proof -
  let ?q = "start (unat (req_bytes r)) (unat (req_alignment r)) (unat (req_boundary r)) (unat ptr)"
  note e = pool_alloc_eq[OF assms(1,2)]
  have b: "unat pool + 131072 \<le> pool_limit pool" "pool_limit pool \<le> 2 ^ 61" "unat pool \<le> unat ptr"
    using assms(1) pool_limit_bounds by (simp_all add: pool_ok_def word_le_nat_alt)
  show ?thesis
  proof (cases "unat pool + 131072 < ?q + unat (req_bytes r)")
    case True
    then show ?thesis using assms e b by (simp add: pool_ok_def word_le_nat_alt)
  next
    case False
    then have "unat (of_nat (?q + unat (req_bytes r)) :: u64) = ?q + unat (req_bytes r)"
      using b by (intro unat_of_nat_eq) simp
    with False show ?thesis using assms e b by (auto simp: pool_ok_def word_le_nat_alt)
  qed
qed

interpretation pool: bump_allocator pool_alloc_at "\<lambda>s. unat (snd s)" "unat pool + 131072" good_request
  "\<lambda>s. fst s = pool \<and> pool_ok pool (snd s)" for pool
proof
  fix s r p n s'
  assume "fst s = pool \<and> pool_ok pool (snd s)" "good_request r" "pool_alloc_at r s = (Some (p, n), s')"
  then show "(fst s' = pool \<and> pool_ok pool (snd s')) \<and> unat (snd s) \<le> p \<and> p + n \<le> unat (snd s') \<and> p + n \<le> unat pool + 131072"
    using pool_ok_step[of pool "snd s" r "Some (p, n)" "snd s'"] by (auto simp: pool_alloc_at_def split: prod.splits)
next
  fix s r s'
  assume "fst s = pool \<and> pool_ok pool (snd s)" "good_request r" "pool_alloc_at r s = (None, s')"
  then show "(fst s' = pool \<and> pool_ok pool (snd s')) \<and> unat (snd s) \<le> unat (snd s')"
    using pool_ok_step[of pool "snd s" r None "snd s'"] by (auto simp: pool_alloc_at_def split: prod.splits)
qed

text \<open>Claim C11.
  The blocks that any sequence of \<open>AllocMem\<close> requests is given are pairwise disjoint and lie in
  the pool, whatever requests failed in between.
\<close>

theorem alloc_mem_blocks:
  assumes "pool_ok pool ptr" and "\<forall>r\<in>set rs. good_request r"
  shows "let bs = alloc_blocks pool_alloc_at rs (pool, ptr)
    in (\<forall>j<length bs. bs ! j \<subseteq> {unat pool..<unat pool + 131072} \<and> (\<forall>i<j. bs ! i \<inter> bs ! j = {}))"
proof -
  have s: "fst (pool, ptr) = pool \<and> pool_ok pool (snd (pool, ptr))" using assms(1) by simp
  let ?bs = "alloc_blocks pool_alloc_at rs (pool, ptr)"
  have le: "unat pool \<le> unat ptr" using assms(1) by (simp add: pool_ok_def word_le_nat_alt)
  have "?bs ! j \<subseteq> {unat pool..<unat pool + 131072}" if "j < length ?bs" for j
    using pool.blocks_above[OF s assms(2) nth_mem[OF that]] le by auto
  moreover have "?bs ! i \<inter> ?bs ! j = {}" if "i < j" "j < length ?bs" for i j
    using pool.blocks_disjoint[OF s assms(2) that] .
  ultimately show ?thesis unfolding Let_def by blast
qed

subsection \<open>Alignment and boundaries\<close>

lemma start_aligned:
  assumes "pow2_or_0 a" and "pow2_or_0 b" and "a \<noteq> 0"
  shows "unat a dvd start bytes (unat a) (unat b) n"
proof -
  let ?n1 = "align_up (unat a) n"
  have a: "0 < unat a" using assms(3) by (simp add: unat_gt_0)
  have d: "unat a dvd ?n1" using a round_up_bounds(3) by (simp add: align_up_def)
  have "unat a dvd align_up (unat b) ?n1"
  proof (cases "b = 0")
    case False
    from assms(1,3) obtain k where k: "unat a = 2 ^ k" unfolding pow2_or_0_def by blast
    from assms(2) False obtain l where l: "unat b = 2 ^ l" unfolding pow2_or_0_def by blast
    have b: "0 < unat b" using False by (simp add: unat_gt_0)
    have eq: "align_up (unat b) ?n1 = round_up (unat b) ?n1" using b by (simp add: align_up_def)
    show ?thesis
    proof (cases "k \<le> l")
      case True
      then have "unat a dvd unat b" unfolding k l by (rule le_imp_power_dvd)
      then show ?thesis unfolding eq using round_up_bounds(3) by (rule dvd_trans)
    next
      case le: False
      then have "unat b dvd unat a" unfolding k l by (intro le_imp_power_dvd) simp
      then have "unat b dvd ?n1" using d by (rule dvd_trans)
      then have "round_up (unat b) ?n1 = ?n1" using b by (intro round_up_id)
      then show ?thesis unfolding eq using d by (simp only:)
    qed
  next
    case True
    then have "align_up (unat b) ?n1 = ?n1" by (simp add: align_up_def[of 0])
    then show ?thesis using d by (simp only:)
  qed
  with d show ?thesis by (simp add: start_def Let_def)
qed

lemma alloc_mem_result:
  assumes "pool_ok pool ptr" and "good_request \<lparr>req_bytes = bytes, req_alignment = a, req_boundary = b\<rparr>"
    and "alloc_mem pool bytes a b ptr = (p, ptr')"
  shows "pool_ok pool ptr'" and "p \<noteq> 0 \<Longrightarrow> unat p = start (unat bytes) (unat a) (unat b) (unat ptr)"
    and "p \<noteq> 0 \<Longrightarrow> a \<noteq> 0 \<Longrightarrow> unat a dvd unat p"
proof -
  let ?r = "\<lparr>req_bytes = bytes, req_alignment = a, req_boundary = b\<rparr>"
  have pa: "pool_alloc pool ?r ptr = (if p = 0 then None else Some (unat p, unat bytes), ptr')"
    using assms(3) by (simp add: pool_alloc_def)
  from pool_ok_step[OF assms(1,2) pa] show "pool_ok pool ptr'" by simp
  show st: "p \<noteq> 0 \<Longrightarrow> unat p = start (unat bytes) (unat a) (unat b) (unat ptr)"
    using pool_alloc_eq(1)[OF assms(1,2)] pa by (auto split: if_splits)
  show "p \<noteq> 0 \<Longrightarrow> a \<noteq> 0 \<Longrightarrow> unat a dvd unat p"
    using st start_aligned[of a b] assms(2) by (simp add: good_request_def)
qed

lemma start_boundary:
  assumes "0 < b" and "0 < bytes" and "bytes \<le> b"
  shows "start bytes a b n div b = (start bytes a b n + bytes - 1) div b"
proof -
  define n1 where "n1 = align_up a n"
  define n2 where "n2 = round_up b n1"
  have r: "n1 \<le> n2" "n2 < n1 + b" "b dvd n2" using round_up_bounds[of b n1] assms(1) by (simp_all add: n2_def)
  then obtain q where q: "n2 = b * q" by (elim dvdE)
  have st: "start bytes a b n = (if n2 < n1 + bytes then n2 else n1)"
    using assms(1) by (simp add: start_def Let_def n1_def n2_def align_up_def)
  show ?thesis
  proof (cases "n2 < n1 + bytes")
    case True
    have "(bytes - 1) div b = 0" using assms by (simp add: div_eq_0_iff)
    moreover have "b * q + bytes - 1 = b * q + (bytes - 1)" using assms(2) by simp
    ultimately show ?thesis using True assms(1) by (simp add: st q div_add1_eq)
  next
    case False
    then have "0 < q" using q assms by (cases q) auto
    then obtain q' where q': "q = Suc q'" by (cases q) auto
    have "n1 div b = q'" using r False assms q q' by (intro div_nat_eqI) auto
    moreover have "(n1 + bytes - 1) div b = q'"
      using r False assms q q' by (intro div_nat_eqI) (auto simp: algebra_simps)
    ultimately show ?thesis using False by (simp add: st)
  qed
qed

text \<open>Claim C12.
  Where \<open>AllocMem\<close> puts a block: on success its address is a multiple of the alignment, a block
  no larger than the boundary does not cross a multiple of the boundary, and it begins at or
  after the old pointer; the call fails only if such a block would end behind the pool.
\<close>

theorem alloc_mem_placement:
  assumes "pool_ok pool ptr" and "good_request \<lparr>req_bytes = bytes, req_alignment = a, req_boundary = b\<rparr>"
    and "alloc_mem pool bytes a b ptr = (p, ptr')"
  shows "if p = 0 then unat pool + 131072 < start (unat bytes) (unat a) (unat b) (unat ptr) + unat bytes
    else unat ptr \<le> unat p \<and> unat ptr' = unat p + unat bytes \<and> unat p + unat bytes \<le> unat pool + 131072 \<and>
      (a = 0 \<or> unat a dvd unat p) \<and>
      (b = 0 \<or> bytes = 0 \<or> unat b < unat bytes \<or> unat p div unat b = (unat p + unat bytes - 1) div unat b)"
proof -
  let ?r = "\<lparr>req_bytes = bytes, req_alignment = a, req_boundary = b\<rparr>"
  let ?q = "start (unat bytes) (unat a) (unat b) (unat ptr)"
  have pa: "pool_alloc pool ?r ptr = (if p = 0 then None else Some (unat p, unat bytes), ptr')"
    using assms(3) by (simp add: pool_alloc_def)
  note e = pool_alloc_eq[OF assms(1,2), simplified]
  show ?thesis
  proof (cases "p = 0")
    case True
    then show ?thesis using e(1) pa by (auto split: if_splits)
  next
    case False
    then have p: "unat p = ?q" "\<not> unat pool + 131072 < ?q + unat bytes" using e(1) pa by (auto split: if_splits)
    have s: "unat ptr \<le> unat p \<and> unat ptr' = unat p + unat bytes \<and> unat p + unat bytes \<le> unat pool + 131072"
      using pool_ok_step[OF assms(1,2) pa] False by simp
    have al: "a = 0 \<or> unat a dvd unat p" using alloc_mem_result(3)[OF assms] False by blast
    have bo: "b = 0 \<or> bytes = 0 \<or> unat b < unat bytes \<or> unat p div unat b = (unat p + unat bytes - 1) div unat b"
      unfolding p(1) using start_boundary[of "unat b" "unat bytes" "unat a" "unat ptr"] by (cases "unat b < unat bytes") (auto simp: unat_gt_0)
    show ?thesis using False s al bo by simp
  qed
qed

subsection \<open>Instances\<close>

definition example_requests :: "mem_request list" where
  "example_requests = [\<lparr>req_bytes = 100, req_alignment = 64, req_boundary = 4096\<rparr>,
     \<lparr>req_bytes = 200000, req_alignment = 0, req_boundary = 0\<rparr>,
     \<lparr>req_bytes = 4096, req_alignment = 64, req_boundary = 4096\<rparr>]"

lemma example_requests_good: "\<forall>r\<in>set example_requests. good_request r"
proof -
  have "pow2_or_0 0" by (simp add: pow2_or_0_def)
  moreover have "pow2_or_0 64" unfolding pow2_or_0_def by (rule disjI2, rule exI[of _ 6]) simp
  moreover have "pow2_or_0 4096" unfolding pow2_or_0_def by (rule disjI2, rule exI[of _ 12]) simp
  ultimately show ?thesis by (simp add: example_requests_def good_request_def)
qed

lemma example_pool_ok: "pool_ok 0x10000 0x10000"
  by (simp add: pool_ok_def pool_limit_def round_up_def)

theorem alloc_mem_blocks_witness:
  "let bs = alloc_blocks pool_alloc_at example_requests (0x10000, 0x10000)
   in (\<forall>j<length bs. bs ! j \<subseteq> {65536..<196608} \<and> (\<forall>i<j. bs ! i \<inter> bs ! j = {}))"
  using alloc_mem_blocks[OF example_pool_ok example_requests_good] by simp

theorem alloc_mem_placement_witness:
  "alloc_mem 0x10000 4096 64 4096 0x10064 = (0x11000, 0x12000) \<and> 64 dvd unat (0x11000 :: u64) \<and>
   unat (0x11000 :: u64) div 4096 = (unat (0x11000 :: u64) + 4096 - 1) div 4096"
proof -
  have ok: "pool_ok 0x10000 0x10064" by (simp add: pool_ok_def pool_limit_def round_up_def)
  have good: "good_request \<lparr>req_bytes = 4096, req_alignment = 64, req_boundary = 4096\<rparr>"
    using example_requests_good by (simp add: example_requests_def)
  have run: "alloc_mem 0x10000 4096 64 4096 0x10064 = (0x11000, 0x12000)" by code_simp
  from alloc_mem_placement[OF ok good run] run show ?thesis by simp
qed

end
