(* ===== verification/Registers.thy ===== *)
theory Registers
  imports Prelude
begin

text \<open>
  The registers of the xHCI host controller as far as the driver uses their fields:
  \<open>src/kernel/usb/interface/usb/xhci/registers.hpp\<close>.

  A memory-mapped register is the word that \<open>MemMapRegister\<close> reads and writes as a whole; the
  accessors below are reads and writes of bit fields of such a word.
\<close>

subsection \<open>Capability registers\<close>

definition max_device_slots :: "u32 \<Rightarrow> u32" where "max_device_slots hcsparams1 = bits_get 0 8 hcsparams1"
definition max_ports :: "u32 \<Rightarrow> u32" where "max_ports hcsparams1 = bits_get 24 8 hcsparams1"
definition max_scratchpad_buffers_high :: "u32 \<Rightarrow> u32" where "max_scratchpad_buffers_high hcsparams2 = bits_get 21 5 hcsparams2"
definition max_scratchpad_buffers_low :: "u32 \<Rightarrow> u32" where "max_scratchpad_buffers_low hcsparams2 = bits_get 27 5 hcsparams2"
definition extended_capabilities_pointer :: "u32 \<Rightarrow> u32" where "extended_capabilities_pointer hccparams1 = bits_get 16 16 hccparams1"

definition dboff_offset :: "u32 \<Rightarrow> u32" where
  "dboff_offset w = push_bit 2 (bits_get 2 30 w)"

definition rtsoff_offset :: "u32 \<Rightarrow> u32" where
  "rtsoff_offset w = push_bit 5 (bits_get 5 27 w)"

subsection \<open>Operational and runtime registers\<close>

definition crcr_pointer :: "u64 \<Rightarrow> u64" where
  "crcr_pointer w = push_bit 6 (bits_get 6 58 w)"

definition crcr_set_pointer :: "u64 \<Rightarrow> u64 \<Rightarrow> u64" where
  "crcr_set_pointer v w = bits_set 6 58 (drop_bit 6 v) w"

definition dcbaap_pointer :: "u64 \<Rightarrow> u64" where
  "dcbaap_pointer w = push_bit 6 (bits_get 6 26 w)"

definition dcbaap_set_pointer :: "u64 \<Rightarrow> u64 \<Rightarrow> u64" where
  "dcbaap_set_pointer v w = bits_set 6 26 (drop_bit 6 v) w"

definition erstsz_size :: "u32 \<Rightarrow> u16" where
  "erstsz_size w = ucast (bits_get 0 16 w)"

definition erstsz_set_size :: "u16 \<Rightarrow> u32 \<Rightarrow> u32" where
  "erstsz_set_size v w = bits_set 0 16 (ucast v) w"

definition erstba_pointer :: "u64 \<Rightarrow> u64" where
  "erstba_pointer w = push_bit 6 (bits_get 6 58 w)"

definition erstba_set_pointer :: "u64 \<Rightarrow> u64 \<Rightarrow> u64" where
  "erstba_set_pointer v w = bits_set 6 58 (drop_bit 6 v) w"

definition erdp_pointer :: "u64 \<Rightarrow> u64" where
  "erdp_pointer w = push_bit 4 (bits_get 4 60 w)"

definition erdp_set_pointer :: "u64 \<Rightarrow> u64 \<Rightarrow> u64" where
  "erdp_set_pointer v w = bits_set 4 60 (drop_bit 4 v) w"

definition doorbell_value :: "u8 \<Rightarrow> u16 \<Rightarrow> u32" where
  "doorbell_value target stream_id = bits_set 16 16 (ucast stream_id) (bits_set 0 8 (ucast target) 0)"

subsection \<open>Pointer fields\<close>

text \<open>
  A pointer stored without its low \<open>k\<close> bits in a field of \<open>n\<close> bits reads back as the pointer
  with its low \<open>k\<close> bits cleared and everything from bit \<open>k + n\<close> on cut off.
\<close>

lemma pointer_field:
  fixes p w :: u64
  assumes "k + n \<le> 64"
  shows "push_bit k (bits_get k n (bits_set k n (drop_bit k p) w)) = push_bit k (drop_bit k (take_bit (k + n) p))"
proof -
  have "take_bit n (drop_bit k p) = drop_bit k (take_bit (k + n) p)"
    by (rule bit_word_eqI) (auto simp: bit_simps)
  then show ?thesis using assms by (simp add: field_simps_bits)
qed

lemma aligned_pointer:
  fixes p :: u64
  assumes "unat p mod 2 ^ k = 0"
  shows "push_bit k (drop_bit k (take_bit m p)) = take_bit m p"
proof (rule bit_word_eqI)
  fix i assume i: "i < LENGTH(64)"
  have "take_bit k (unat p) = 0" using assms by (simp add: take_bit_eq_mod)
  then have "\<not> bit (unat p) i" if "i < k" using that by (metis bit_0_eq bit_take_bit_iff bot_apply bot_bool_def)
  then have "\<not> bit p i" if "i < k" using that i by (simp add: bit_unsigned_iff)
  then show "bit (push_bit k (drop_bit k (take_bit m p))) i = bit (take_bit m p) i"
    using i by (cases "i < k") (auto simp: bit_simps)
qed

lemma take_bit_u64_full: "64 \<le> m \<Longrightarrow> take_bit m p = p" for p :: u64
  by (rule bit_word_eqI) (auto simp: bit_simps)

lemma pointer_registers:
  assumes "unat p mod 64 = 0" and "unat q mod 16 = 0"
  shows "crcr_pointer (crcr_set_pointer p w) = p \<and> erstba_pointer (erstba_set_pointer p w) = p \<and>
    erdp_pointer (erdp_set_pointer q w) = q \<and> dcbaap_pointer (dcbaap_set_pointer p w) = take_bit 32 p \<and>
    bits_get 0 6 (crcr_set_pointer p w) = bits_get 0 6 w \<and> bits_get 0 4 (erdp_set_pointer q w) = bits_get 0 4 w"
proof -
  have a: "unat p mod 2 ^ 6 = 0" "unat q mod 2 ^ 4 = 0" using assms by simp_all
  have "bits_get 0 6 (crcr_set_pointer p w) = bits_get 0 6 w" "bits_get 0 4 (erdp_set_pointer q w) = bits_get 0 4 w"
    by (simp_all add: crcr_set_pointer_def erdp_set_pointer_def field_simps_bits)
  moreover note pointer_field[of 6 58 p w] pointer_field[of 4 60 q w] pointer_field[of 6 26 p w]
  ultimately show ?thesis
    unfolding crcr_pointer_def crcr_set_pointer_def erstba_pointer_def erstba_set_pointer_def erdp_pointer_def
      erdp_set_pointer_def dcbaap_pointer_def dcbaap_set_pointer_def
      aligned_pointer[OF a(1)] aligned_pointer[OF a(2)] by (simp add: take_bit_u64_full)
qed

text \<open>
  The pointer registers: command ring, event ring segment table and event ring dequeue pointer
  read back as written for pointers of the alignment the hardware asks for. The device context
  base address array pointer has a field of only 26 bits, so it reads back as written modulo
  4 GiB: a table above 4 GiB would be announced to the controller at a wrong address.
\<close>

lemma register_pointers:
  assumes "unat p mod 64 = 0" and "unat q mod 16 = 0"
  shows "crcr_pointer (crcr_set_pointer p w) = p \<and> erstba_pointer (erstba_set_pointer p w) = p \<and>
    erdp_pointer (erdp_set_pointer q w) = q \<and> dcbaap_pointer (dcbaap_set_pointer p w) = take_bit 32 p \<and>
    bits_get 0 6 (crcr_set_pointer p w) = bits_get 0 6 w \<and> bits_get 0 4 (erdp_set_pointer q w) = bits_get 0 4 w"
  using assms by (rule pointer_registers)

lemma register_pointers_example:
  "unat (0x123440 :: u64) mod 64 = 0 \<and> crcr_pointer (crcr_set_pointer 0x123440 1) = 0x123440 \<and>
   dcbaap_pointer (dcbaap_set_pointer 0x100000040 0) = 0x40"
  using register_pointers[of "0x123440" 0 1] register_pointers[of "0x100000040" 0 0] by simp

end
