(* ===== verification/Ring.thy ===== *)
theory Ring
  imports Trb Usb_Memory Registers
begin

text \<open>
  Command, transfer and event rings: \<open>src/kernel/usb/xhci/ring.cpp\<close> and \<open>usb/xhci/ring.hpp\<close>.

  A ring owns a buffer of TRBs in the memory pool; the record holds its address, its contents
  and the members of the class. The other side of each ring is the host controller: the xHCI
  specification says how it follows a command or transfer ring and how it fills an event ring,
  and the functions \<open>xhc_fetch\<close> and \<open>xhc_post\<close> state that.
\<close>

definition trb_bytes :: u64 where
  "trb_bytes = 16"

subsection \<open>Producer rings\<close>

record ring =
  buf_addr :: u64
  buf :: "trb list"
  buf_size :: nat
  ring_cycle :: bool
  write_index :: nat

definition ring_initialize :: "u64 \<Rightarrow> nat \<Rightarrow> ring \<Rightarrow> u64 \<Rightarrow> usb_error \<times> ring \<times> u64" where
  "ring_initialize pool n r alloc_ptr =
     (let r = r\<lparr>ring_cycle := True, write_index := 0, buf_size := n\<rparr>;
          (p, alloc_ptr) = alloc_array pool trb_bytes (of_nat n) 64 (64 * 1024) alloc_ptr;
          r = r\<lparr>buf_addr := p\<rparr>
      in if p = 0 then (kNoEnoughMemory, r, alloc_ptr)
         else (kSuccess, r\<lparr>buf := replicate n zero_trb\<rparr>, alloc_ptr))"

text \<open>\<open>with_cycle\<close> is what \<open>CopyToLast\<close> stores: the TRB with the ring's cycle bit.\<close>

definition with_cycle :: "bool \<Rightarrow> trb \<Rightarrow> trb" where
  "with_cycle c t = t\<lparr>trb3 := (trb3 t AND 0xfffffffe) OR of_bool c\<rparr>"

definition copy_to_last :: "trb \<Rightarrow> ring \<Rightarrow> ring" where
  "copy_to_last data r = r\<lparr>buf := (buf r)[write_index r := with_cycle (ring_cycle r) data]\<rparr>"

definition push :: "trb \<Rightarrow> ring \<Rightarrow> u64 \<times> ring" where
  "push data r =
     (let trb_ptr = buf_addr r + trb_bytes * of_nat (write_index r);
          r = copy_to_last data r;
          r = r\<lparr>write_index := write_index r + 1\<rparr>
      in if write_index r = buf_size r - 1 then
           let link = set_trb3 1 1 1 (link_trb (buf_addr r));
               r = copy_to_last link r
           in (trb_ptr, r\<lparr>write_index := 0, ring_cycle := \<not> ring_cycle r\<rparr>)
         else (trb_ptr, r))"

subsection \<open>First-in first-out\<close>

text \<open>
  A queue between two parties: \<open>enq\<close> by one, \<open>deq\<close> by the other, with the elements in between
  as a list. A schedule is any interleaving of the two; \<open>room\<close> says when \<open>enq\<close> is allowed.
\<close>

datatype 'a queue_op = Enq 'a | Deq

fun queue_run :: "('a \<Rightarrow> 's \<Rightarrow> 's) \<Rightarrow> ('s \<Rightarrow> ('b \<times> 's) option) \<Rightarrow> 'a queue_op list \<Rightarrow> 's \<Rightarrow> 'b list \<times> 's" where
  "queue_run enq deq [] s = ([], s)"
| "queue_run enq deq (Enq x # ops) s = queue_run enq deq ops (enq x s)"
| "queue_run enq deq (Deq # ops) s =
     (case deq s of
        None \<Rightarrow> queue_run enq deq ops s
      | Some (y, s') \<Rightarrow> let (ys, s'') = queue_run enq deq ops s' in (y # ys, s''))"

fun enqueued :: "'a queue_op list \<Rightarrow> 'a list" where
  "enqueued [] = []"
| "enqueued (Enq x # ops) = x # enqueued ops"
| "enqueued (Deq # ops) = enqueued ops"

text \<open>The schedule never puts more than \<open>cap\<close> elements in the queue, from \<open>n\<close> elements.\<close>

fun fits :: "nat \<Rightarrow> nat \<Rightarrow> 'a queue_op list \<Rightarrow> bool" where
  "fits cap n [] = True"
| "fits cap n (Enq x # ops) = (n < cap \<and> fits cap (n + 1) ops)"
| "fits cap n (Deq # ops) = fits cap (n - 1) ops"

locale fifo =
  fixes enq :: "'a \<Rightarrow> 's \<Rightarrow> 's"
    and deq :: "'s \<Rightarrow> ('b \<times> 's) option"
    and contents :: "'s \<Rightarrow> 'b list"
    and carries :: "'a \<Rightarrow> 'b \<Rightarrow> bool"
    and admissible :: "'a \<Rightarrow> bool"
    and cap :: "'s \<Rightarrow> nat"
    and invar :: "'s \<Rightarrow> bool"
  assumes enq_law: "invar s \<Longrightarrow> admissible x \<Longrightarrow> length (contents s) < cap s \<Longrightarrow>
      invar (enq x s) \<and> cap (enq x s) = cap s \<and> (\<exists>y. contents (enq x s) = contents s @ [y] \<and> carries x y)"
    and deq_empty: "invar s \<Longrightarrow> contents s = [] \<Longrightarrow> deq s = None"
    and deq_first: "invar s \<Longrightarrow> contents s = y # ys \<Longrightarrow>
      \<exists>s'. deq s = Some (y, s') \<and> invar s' \<and> cap s' = cap s \<and> contents s' = ys"
begin

lemma run_fifo:
  "invar s \<Longrightarrow> \<forall>x\<in>set (enqueued ops). admissible x \<Longrightarrow> fits (cap s) (length (contents s)) ops \<Longrightarrow>
   queue_run enq deq ops s = (outs, s') \<Longrightarrow>
   invar s' \<and> (\<exists>ins. list_all2 carries (enqueued ops) ins \<and> contents s @ ins = outs @ contents s')"
proof (induction ops arbitrary: s outs rule: enqueued.induct)
  case (2 x ops)
  from "2.prems" have lt: "length (contents s) < cap s" and adm: "admissible x" by simp_all
  from enq_law[OF "2.prems"(1) adm lt] obtain y where 1: "invar (enq x s)" "cap (enq x s) = cap s"
    "contents (enq x s) = contents s @ [y]" "carries x y" by blast
  from "2.IH"[OF 1(1)] "2.prems" 1 obtain ins where
    "invar s'" "list_all2 carries (enqueued ops) ins" "contents s @ [y] @ ins = outs @ contents s'" by auto
  then show ?case using 1(4) by (intro conjI exI[of _ "y # ins"]) simp_all
next
  case (3 ops)
  show ?case
  proof (cases "contents s")
    case Nil
    with deq_empty[OF "3.prems"(1)] "3.IH"[OF "3.prems"(1)] "3.prems" show ?thesis by simp
  next
    case (Cons y ys)
    from deq_first[OF "3.prems"(1) this] obtain s1 where 1: "deq s = Some (y, s1)" "invar s1" "cap s1 = cap s"
      "contents s1 = ys" by blast
    obtain outs1 where o: "queue_run enq deq ops s1 = (outs1, s')" "outs = y # outs1"
      using "3.prems"(4) 1(1) by (auto split: prod.splits)
    from "3.IH"[OF 1(2) _ _ o(1)] "3.prems" 1 Cons obtain ins where
      "invar s'" "list_all2 carries (enqueued ops) ins" "ys @ ins = outs1 @ contents s'" by auto
    then show ?thesis using o(2) Cons by auto
  qed
qed simp

end

subsection \<open>The controller reads a producer ring\<close>

text \<open>
  The controller keeps a position and a cycle state. A TRB is valid for it if the cycle bit
  equals the cycle state; a valid link TRB sends it to the TRB the link points to and flips the
  cycle state if the link says so.
\<close>

type_synonym ring_reader = "ring \<times> nat \<times> bool"

definition trb_at :: "ring \<Rightarrow> nat \<Rightarrow> bool \<Rightarrow> trb option" where
  "trb_at r i c = (if i < length (buf r) \<and> cycle_bit (buf r ! i) = c then Some (buf r ! i) else None)"

definition xhc_fetch :: "ring_reader \<Rightarrow> (trb \<times> ring_reader) option" where
  "xhc_fetch s =
     (case s of (r, i, c) \<Rightarrow>
        (case trb_at r i c of
           None \<Rightarrow> None
         | Some t \<Rightarrow>
             if trb_type t = link_trb_type then
               let j = unat (pointer60 t - buf_addr r) div 16; c' = (c \<noteq> toggle_cycle t)
               in map_option (\<lambda>t'. (t', (r, j + 1, c'))) (trb_at r j c')
             else Some (t, (r, i + 1, c))))"

definition enq_ring :: "trb \<Rightarrow> ring_reader \<Rightarrow> ring_reader" where
  "enq_ring t s = (case s of (r, i, c) \<Rightarrow> (snd (push t r), i, c))"

definition same_request :: "trb \<Rightarrow> trb \<Rightarrow> bool" where
  "same_request t y \<longleftrightarrow> trb0 y = trb0 t \<and> trb1 y = trb1 t \<and> trb2 y = trb2 t \<and>
     (\<forall>k. 1 \<le> k \<longrightarrow> bit (trb3 y) k = bit (trb3 t) k)"

lemma bit_cycle_mask: "bit (0xfffffffe :: int) k \<longleftrightarrow> 1 \<le> k \<and> k < 32"
proof -
  have eq: "(0xfffffffe :: int) = push_bit 1 (mask 31)" by (simp add: mask_eq_exp_minus_1)
  show ?thesis unfolding eq bit_push_bit_iff bit_mask_iff by auto
qed

lemma bit_with_cycle: "bit (trb3 (with_cycle c t)) k = (if k = 0 then c else bit (trb3 t) k)"
  by (auto simp: with_cycle_def bit_simps bit_cycle_mask bit_of_bool_iff dest: bit_imp_le_length)

lemma cycle_bit_iff: "cycle_bit t \<longleftrightarrow> bit (trb3 t) 0"
  by (simp add: cycle_bit_def bits_get_def bit_0 even_iff_mod_2_eq_zero)

lemma cycle_bit_with_cycle [simp]: "cycle_bit (with_cycle c t) = c"
  by (simp add: cycle_bit_iff bit_with_cycle)

lemma bits_get_with_cycle: "0 < off \<Longrightarrow> bits_get off n (trb3 (with_cycle c t)) = bits_get off n (trb3 t)"
  by (rule bit_word_eqI) (simp add: bit_bits_get bit_with_cycle)

lemma with_cycle_fields [simp]:
  "trb_type (with_cycle c t) = trb_type t" "toggle_cycle (with_cycle c t) = toggle_cycle t"
  "parameter (with_cycle c t) = parameter t" "pointer60 (with_cycle c t) = pointer60 t"
  by (simp_all add: trb_type_def toggle_cycle_def bits_get_with_cycle parameter_def pointer60_def)
     (simp_all add: with_cycle_def)

lemma same_request_with_cycle: "same_request t (with_cycle c t)"
  by (simp add: same_request_def bit_with_cycle) (simp add: with_cycle_def)

definition link_of :: "ring \<Rightarrow> trb" where
  "link_of r = set_trb3 1 1 1 (link_trb (buf_addr r))"

lemma link_of_fields:
  assumes "unat (buf_addr r) mod 16 = 0"
  shows "trb_type (link_of r) = link_trb_type" "toggle_cycle (link_of r)" "pointer60 (link_of r) = buf_addr r"
proof -
  show "trb_type (link_of r) = link_trb_type" "toggle_cycle (link_of r)"
    by (simp_all add: link_of_def link_trb_def trb_type_def toggle_cycle_def set_trb3_def new_trb_def
        field_simps_bits link_trb_type_def)
  have "pointer60 (set_trb3 k n v t) = pointer60 t" for k n v t
    by (simp add: pointer60_def parameter_def set_trb3_def)
  then show "pointer60 (link_of r) = buf_addr r"
    using pointer60_aligned[OF assms] by (simp add: link_of_def link_trb_def)
qed

subsection \<open>The ring is a queue\<close>

text \<open>
  \<open>ring_ok\<close>: the write position is a data slot; the slots written in this lap carry the ring's
  cycle bit and the others the opposite one; the data slots hold no link. A reader is either in
  the same lap, behind the writer, or one lap behind, in front of it; in the second case the
  last slot holds the link back to the beginning.
\<close>

definition ring_ok :: "ring \<Rightarrow> bool" where
  "ring_ok r \<longleftrightarrow> length (buf r) = buf_size r \<and> 2 \<le> buf_size r \<and> write_index r < buf_size r - 1 \<and>
     unat (buf_addr r) mod 16 = 0 \<and>
     (\<forall>k<buf_size r - 1. trb_type (buf r ! k) \<noteq> link_trb_type \<and> cycle_bit (buf r ! k) = (ring_cycle r = (k < write_index r)))"

definition reader_ok :: "ring_reader \<Rightarrow> bool" where
  "reader_ok s \<longleftrightarrow> (case s of (r, i, c) \<Rightarrow> ring_ok r \<and>
     (if c = ring_cycle r then i \<le> write_index r
      else write_index r \<le> i \<and> i \<le> buf_size r - 1 \<and> buf r ! (buf_size r - 1) = with_cycle c (link_of r)))"

definition pending :: "ring_reader \<Rightarrow> trb list" where
  "pending s = (case s of (r, i, c) \<Rightarrow> map ((!) (buf r))
     (if c = ring_cycle r then [i..<write_index r] else [i..<buf_size r - 1] @ [0..<write_index r]))"

text \<open>
  One data slot stays free: with all of them in use, a reader that waits at the link would see
  the link rewritten for the next lap.
\<close>

definition capacity :: "ring_reader \<Rightarrow> nat" where
  "capacity s = buf_size (fst s) - 2"

definition not_link :: "trb \<Rightarrow> bool" where
  "not_link t \<longleftrightarrow> trb_type t \<noteq> link_trb_type"

text \<open>The two ways a push can go.\<close>

lemma push_cases:
  assumes "ring_ok r"
  obtains (within) "write_index r + 1 < buf_size r - 1"
      "snd (push t r) = r\<lparr>buf := (buf r)[write_index r := with_cycle (ring_cycle r) t], write_index := write_index r + 1\<rparr>"
  | (wrap) "write_index r + 1 = buf_size r - 1"
      "snd (push t r) = r\<lparr>buf := (buf r)[write_index r := with_cycle (ring_cycle r) t,
         buf_size r - 1 := with_cycle (ring_cycle r) (link_of r)], write_index := 0, ring_cycle := \<not> ring_cycle r\<rparr>"
proof (cases "write_index r + 1 = buf_size r - 1")
  case True
  then show ?thesis by (intro wrap) (simp_all add: push_def copy_to_last_def Let_def link_of_def)
next
  case False
  then show ?thesis using assms
    by (intro within) (simp_all add: push_def copy_to_last_def Let_def ring_ok_def)
qed

lemma push_ring_ok:
  assumes "ring_ok r" and "not_link t"
  shows "ring_ok (snd (push t r))"
  using assms(1)
proof (cases rule: push_cases[where t = t])
  case within
  then show ?thesis using assms by (auto simp: ring_ok_def not_link_def nth_list_update less_Suc_eq)
next
  case wrap
  then show ?thesis using assms by (auto simp: ring_ok_def not_link_def nth_list_update)
qed

lemma enq_ring_law:
  assumes ok: "reader_ok s" and "not_link t" and room: "length (pending s) < capacity s"
  shows "reader_ok (enq_ring t s) \<and> capacity (enq_ring t s) = capacity s \<and>
    (\<exists>y. pending (enq_ring t s) = pending s @ [y] \<and> same_request t y)"
proof -
  obtain r i c where s: "s = (r, i, c)" by (cases s) auto
  have rok: "ring_ok r" using ok by (simp add: reader_ok_def s)
  let ?y = "with_cycle (ring_cycle r) t" and ?w = "write_index r" and ?n = "buf_size r - 1"
  have len: "length (buf r) = Suc ?n" "?w < ?n" using rok by (auto simp: ring_ok_def)
  have rok': "ring_ok (snd (push t r))" using rok assms(2) by (rule push_ring_ok)
  have "reader_ok (snd (push t r), i, c) \<and> capacity (snd (push t r), i, c) = ?n - 1 \<and>
      pending (snd (push t r), i, c) = pending (r, i, c) @ [?y]"
    using rok
  proof (cases rule: push_cases[where t = t])
    case within
    show ?thesis
    proof (cases "c = ring_cycle r")
      case True
      then show ?thesis using ok rok' within len s
        by (auto simp: reader_ok_def pending_def capacity_def nth_list_update intro!: map_cong)
    next
      case False
      then have "?w < i" "i \<le> ?n" using ok room s len by (auto simp: reader_ok_def pending_def capacity_def)
      then show ?thesis using ok rok' within len s False
        by (auto simp: reader_ok_def pending_def capacity_def nth_list_update link_of_def intro!: map_cong)
    qed
  next
    case wrap
    show ?thesis
    proof (cases "c = ring_cycle r")
      case True
      then have "i \<le> ?w" using ok s by (simp add: reader_ok_def)
      moreover have "[i..<?n] = [i..<?w] @ [?w]" using wrap(1) calculation by (metis Suc_eq_plus1 upt_Suc)
      ultimately show ?thesis using ok rok' wrap len s True
        by (auto simp: reader_ok_def pending_def capacity_def nth_list_update link_of_def intro!: map_cong)
    next
      case False
      then have "?w < i" "i \<le> ?n" using ok room s len by (auto simp: reader_ok_def pending_def capacity_def)
      then have "i = ?n" using wrap(1) by simp
      then show ?thesis using room s False wrap(1) by (simp add: pending_def capacity_def)
    qed
  qed
  then show ?thesis using same_request_with_cycle by (auto simp: s enq_ring_def capacity_def)
qed

lemma xhc_fetch_law:
  assumes ok: "reader_ok s"
  shows "case pending s of
      [] \<Rightarrow> xhc_fetch s = None
    | y # ys \<Rightarrow> \<exists>s'. xhc_fetch s = Some (y, s') \<and> reader_ok s' \<and> capacity s' = capacity s \<and> pending s' = ys"
proof -
  obtain r i c where s: "s = (r, i, c)" by (cases s) auto
  have rok: "ring_ok r" using ok by (simp add: reader_ok_def s)
  let ?w = "write_index r" and ?n = "buf_size r - 1"
  have len: "length (buf r) = Suc ?n" "?w < ?n" and al: "unat (buf_addr r) mod 16 = 0"
    and slot: "\<And>k. k < ?n \<Longrightarrow> trb_type (buf r ! k) \<noteq> link_trb_type \<and> cycle_bit (buf r ! k) = (ring_cycle r = (k < ?w))"
    using rok by (auto simp: ring_ok_def)
  consider (same) "c = ring_cycle r" "i \<le> ?w" | (behind) "c = (\<not> ring_cycle r)" "?w \<le> i" "i < ?n"
    | (link) "c = (\<not> ring_cycle r)" "i = ?n" "buf r ! ?n = with_cycle c (link_of r)"
    using ok by (cases "i < ?n") (auto simp: reader_ok_def s split: if_splits)
  then show ?thesis
  proof cases
    case same
    show ?thesis
    proof (cases "i < ?w")
      case True
      then have "[i..<?w] = i # [Suc i..<?w]" by (simp add: upt_conv_Cons)
      with True same show ?thesis using len slot[of i] rok
        by (auto simp: s pending_def xhc_fetch_def trb_at_def reader_ok_def capacity_def)
    next
      case False
      then show ?thesis using same len slot[of ?w] by (auto simp: s pending_def xhc_fetch_def trb_at_def)
    qed
  next
    case behind
    then have "[i..<?n] = i # [Suc i..<?n]" by (simp add: upt_conv_Cons)
    with behind show ?thesis using len slot[of i] ok rok
      by (auto simp: s pending_def xhc_fetch_def trb_at_def reader_ok_def capacity_def)
  next
    case link
    note lk = link_of_fields[OF al]
    have fetch: "xhc_fetch s = map_option (\<lambda>t'. (t', (r, 1, ring_cycle r))) (trb_at r 0 (ring_cycle r))"
      using link len lk by (auto simp: s xhc_fetch_def trb_at_def Let_def)
    show ?thesis
    proof (cases "?w")
      case 0
      then show ?thesis using link fetch len slot[of 0] by (auto simp: s pending_def trb_at_def)
    next
      case (Suc w')
      then have "[0..<?w] = 0 # [1..<?w]" by (simp add: upt_conv_Cons)
      with Suc show ?thesis using link fetch len slot[of 0] rok
        by (auto simp: s pending_def trb_at_def reader_ok_def capacity_def)
    qed
  qed
qed

interpretation producer: fifo enq_ring xhc_fetch pending same_request not_link capacity reader_ok
proof
  show "reader_ok (enq_ring x s) \<and> capacity (enq_ring x s) = capacity s \<and>
      (\<exists>y. pending (enq_ring x s) = pending s @ [y] \<and> same_request x y)"
    if "reader_ok s" "not_link x" "length (pending s) < capacity s" for s x
    using that by (rule enq_ring_law)
  show "xhc_fetch s = None" if "reader_ok s" "pending s = []" for s
    using xhc_fetch_law[OF that(1)] that(2) by simp
  show "\<exists>s'. xhc_fetch s = Some (y, s') \<and> reader_ok s' \<and> capacity s' = capacity s \<and> pending s' = ys"
    if "reader_ok s" "pending s = y # ys" for s y ys
    using xhc_fetch_law[OF that(1)] that(2) by simp
qed

lemma pow2_or_0_instances: "pow2_or_0 64" "pow2_or_0 65536" "pow2_or_0 4096" "pow2_or_0 0"
  unfolding pow2_or_0_def by (rule disjI2, rule exI[of _ 6], simp, rule disjI2, rule exI[of _ 16], simp,
    rule disjI2, rule exI[of _ 12], simp_all)

lemma ring_initialize_ok:
  assumes "pool_ok pool ptr" and "2 \<le> n" and "n \<le> 2 ^ 32" and "ring_initialize pool n r ptr = (kSuccess, r', ptr')"
  shows "reader_ok (r', 0, True)" and "pending (r', 0, True) = []" and "buf_size r' = n" and "pool_ok pool ptr'"
proof -
  obtain p where p: "alloc_mem pool (16 * of_nat n) 64 65536 ptr = (p, ptr')" "p \<noteq> 0"
    and r': "r' = r\<lparr>ring_cycle := True, write_index := 0, buf_size := n, buf_addr := p, buf := replicate n zero_trb\<rparr>"
    using assms(4) by (auto simp: ring_initialize_def alloc_array_def trb_bytes_def Let_def split: prod.splits if_splits)
  have "unat (16 * of_nat n :: u64) = 16 * n"
    using assms(3) unat_mult_eq[of 16 "of_nat n :: u64"] unat_of_nat_eq[of n, where ?'a = 64] by simp
  then have good: "good_request \<lparr>req_bytes = 16 * of_nat n, req_alignment = 64, req_boundary = 65536\<rparr>"
    using assms(3) by (simp add: good_request_def pow2_or_0_instances)
  have "64 dvd unat p" using alloc_mem_result(3)[OF assms(1) good p(1)] p(2) by simp
  then have "16 dvd unat p" by (rule dvd_trans[rotated]) simp
  moreover have "trb_type zero_trb \<noteq> link_trb_type" "\<not> cycle_bit zero_trb"
    by (simp_all add: trb_type_def zero_trb_def link_trb_type_def cycle_bit_def)
  ultimately show "reader_ok (r', 0, True)" using assms(2) by (simp add: reader_ok_def ring_ok_def r')
  show "pending (r', 0, True) = []" "buf_size r' = n" by (simp_all add: pending_def r')
  show "pool_ok pool ptr'" by (rule alloc_mem_result(1)[OF assms(1) good p(1)])
qed

text \<open>Claim C14.
  From an initialised ring of \<open>n\<close> TRBs, for every interleaving of the driver's \<open>Push\<close> calls and
  the controller's fetches that never has more than \<open>n - 2\<close> TRBs outstanding, the controller
  executes exactly the pushed requests in the order of the pushes; what it has not executed
  yet is still in the ring. (\<open>Push\<close> itself never checks for a full ring.)
\<close>

theorem producer_ring_fifo:
  assumes "pool_ok pool ptr" and "2 \<le> n" and "n \<le> 2 ^ 32" and "ring_initialize pool n r ptr = (kSuccess, r', ptr')"
    and "\<forall>t\<in>set (enqueued ops). not_link t" and "fits (n - 2) 0 ops"
    and "queue_run enq_ring xhc_fetch ops (r', 0, True) = (executed, s')"
  shows "list_all2 same_request (enqueued ops) (executed @ pending s')"
proof -
  note i = ring_initialize_ok[OF assms(1-4)]
  have c: "capacity (r', 0, True) = n - 2" using i(3) by (simp add: capacity_def)
  have "fits (capacity (r', 0, True)) (length (pending (r', 0, True))) ops" using assms(6) c i(2) by simp
  from producer.run_fifo[OF i(1) assms(5) this assms(7)] i(2) show ?thesis by auto
qed

definition example_ring :: ring where
  "example_ring = \<lparr>buf_addr = 0, buf = [], buf_size = 0, ring_cycle = False, write_index = 0\<rparr>"

definition example_ring_ops :: "trb queue_op list" where
  "example_ring_ops = [Enq normal_trb, Enq status_stage_trb, Deq, Enq setup_stage_trb, Deq, Deq, Deq, Enq normal_trb, Deq]"

lemma example_ring_initialize:
  "\<exists>r' ptr'. ring_initialize 0x10000 4 example_ring 0x10000 = (kSuccess, r', ptr')"
proof -
  have "alloc_mem 0x10000 64 64 65536 0x10000 = (0x10000, 0x10040)" by code_simp
  then show ?thesis by (simp add: ring_initialize_def alloc_array_def trb_bytes_def Let_def)
qed

lemma example_ring_ops_ok: "\<forall>t\<in>set (enqueued example_ring_ops). not_link t" "fits 2 0 example_ring_ops"
  by (simp_all add: example_ring_ops_def not_link_def trb_type_def normal_trb_def status_stage_trb_def setup_stage_trb_def
      new_trb_def set_trb3_def field_simps_bits Let_def normal_trb_type_def status_stage_trb_type_def
      setup_stage_trb_type_def link_trb_type_def)

theorem producer_ring_fifo_witness:
  "\<exists>r' ptr'. ring_initialize 0x10000 4 example_ring 0x10000 = (kSuccess, r', ptr') \<and>
     (let (executed, s') = queue_run enq_ring xhc_fetch example_ring_ops (r', 0, True)
      in list_all2 same_request [normal_trb, status_stage_trb, setup_stage_trb, normal_trb] (executed @ pending s'))"
proof -
  obtain r' ptr' where r: "ring_initialize 0x10000 4 example_ring 0x10000 = (kSuccess, r', ptr')"
    using example_ring_initialize by blast
  obtain executed s' where q: "queue_run enq_ring xhc_fetch example_ring_ops (r', 0, True) = (executed, s')"
    by (rule prod.exhaust)
  have n: "2 \<le> (4 :: nat)" "(4 :: nat) \<le> 2 ^ 32" and f: "fits (4 - 2) 0 example_ring_ops"
    using example_ring_ops_ok(2) by simp_all
  have e: "enqueued example_ring_ops = [normal_trb, status_stage_trb, setup_stage_trb, normal_trb]"
    by (simp add: example_ring_ops_def)
  from producer_ring_fifo[OF example_pool_ok n r example_ring_ops_ok(1) f q] r q e show ?thesis by auto
qed

subsection \<open>Event rings\<close>

text \<open>
  The event ring of the driver with its one-entry segment table (\<open>erst_base\<close>, \<open>erst_size\<close>) and
  the three interrupter registers it uses. A \<open>TRB*\<close> is an address.
\<close>

record event_ring =
  er_buf_addr :: u64
  er_buf :: "trb list"
  er_buf_size :: nat
  er_cycle :: bool
  erst_addr :: u64
  erst_base :: u64
  erst_size :: u16
  reg_erstsz :: u32
  reg_erstba :: u64
  reg_erdp :: u64

definition read_dequeue_pointer :: "event_ring \<Rightarrow> u64" where
  "read_dequeue_pointer er = erdp_pointer (reg_erdp er)"

definition write_dequeue_pointer :: "u64 \<Rightarrow> event_ring \<Rightarrow> event_ring" where
  "write_dequeue_pointer p er = er\<lparr>reg_erdp := erdp_set_pointer p (reg_erdp er)\<rparr>"

definition event_ring_initialize :: "u64 \<Rightarrow> nat \<Rightarrow> event_ring \<Rightarrow> u64 \<Rightarrow> usb_error \<times> event_ring \<times> u64" where
  "event_ring_initialize pool n er alloc_ptr =
     (let er = er\<lparr>er_cycle := True, er_buf_size := n\<rparr>;
          (p, alloc_ptr) = alloc_array pool trb_bytes (of_nat n) 64 (64 * 1024) alloc_ptr;
          er = er\<lparr>er_buf_addr := p\<rparr>
      in if p = 0 then (kNoEnoughMemory, er, alloc_ptr)
         else
           let er = er\<lparr>er_buf := replicate n zero_trb\<rparr>;
               (q, alloc_ptr) = alloc_array pool 16 1 64 (64 * 1024) alloc_ptr;
               er = er\<lparr>erst_addr := q\<rparr>
           in if q = 0 then (kNoEnoughMemory, er, alloc_ptr)
              else
                let er = er\<lparr>erst_base := p, erst_size := of_nat n\<rparr>;
                    er = er\<lparr>reg_erstsz := erstsz_set_size 1 (reg_erstsz er)\<rparr>;
                    er = write_dequeue_pointer p er;
                    er = er\<lparr>reg_erstba := erstba_set_pointer q (reg_erstba er)\<rparr>
                in (kSuccess, er, alloc_ptr))"

text \<open>Dereferencing \<open>Front()\<close>: the TRB at the dequeue pointer, undefined outside the buffer.\<close>

definition front :: "event_ring \<Rightarrow> trb option" where
  "front er =
     (let p = read_dequeue_pointer er; i = unat (p - er_buf_addr er) div 16
      in if er_buf_addr er \<le> p \<and> i < length (er_buf er) then Some (er_buf er ! i) else None)"

definition has_front :: "event_ring \<Rightarrow> bool option" where
  "has_front er = map_option (\<lambda>t. cycle_bit t = er_cycle er) (front er)"

definition pop :: "event_ring \<Rightarrow> event_ring" where
  "pop er =
     (let p = read_dequeue_pointer er + 16;
          segment_begin = erst_base er;
          segment_end = segment_begin + 16 * ucast (erst_size er)
      in if p = segment_end then write_dequeue_pointer segment_begin (er\<lparr>er_cycle := \<not> er_cycle er\<rparr>)
         else write_dequeue_pointer p er)"

subsection \<open>The controller writes the event ring\<close>

text \<open>
  The controller posts an event at its enqueue position with its producer cycle state, and
  starts again at the beginning with the opposite state behind the last TRB of the segment.
  The driver takes an event if \<open>HasFront\<close> says so, reads it by \<open>Front\<close> and calls \<open>Pop\<close>.
\<close>

type_synonym event_queue = "event_ring \<times> nat \<times> bool"

definition xhc_post :: "trb \<Rightarrow> event_queue \<Rightarrow> event_queue" where
  "xhc_post t s = (case s of (er, e, pc) \<Rightarrow>
     (let er' = er\<lparr>er_buf := (er_buf er)[e := with_cycle pc t]\<rparr>
      in if e + 1 = unat (erst_size er) then (er', 0, \<not> pc) else (er', e + 1, pc)))"

definition take_event :: "event_queue \<Rightarrow> (trb \<times> event_queue) option" where
  "take_event s = (case s of (er, e, pc) \<Rightarrow> do {
     hf \<leftarrow> has_front er;
     if hf then do { t \<leftarrow> front er; Some (t, (pop er, e, pc)) } else None })"

definition dequeue_index :: "event_ring \<Rightarrow> nat" where
  "dequeue_index er = unat (read_dequeue_pointer er - er_buf_addr er) div 16"

definition event_ring_ok :: "event_ring \<Rightarrow> bool" where
  "event_ring_ok er \<longleftrightarrow> 0 < unat (erst_size er) \<and> length (er_buf er) = unat (erst_size er) \<and>
     erst_base er = er_buf_addr er \<and> unat (er_buf_addr er) mod 16 = 0 \<and> unat (er_buf_addr er) < 2 ^ 63 \<and>
     dequeue_index er < unat (erst_size er) \<and> read_dequeue_pointer er = er_buf_addr er + 16 * of_nat (dequeue_index er)"

definition event_queue_ok :: "event_queue \<Rightarrow> bool" where
  "event_queue_ok s \<longleftrightarrow> (case s of (er, e, pc) \<Rightarrow> event_ring_ok er \<and> e < unat (erst_size er) \<and>
     (\<forall>k<unat (erst_size er). cycle_bit (er_buf er ! k) = (pc = (k < e))) \<and>
     (if pc = er_cycle er then dequeue_index er \<le> e else e \<le> dequeue_index er))"

definition posted :: "event_queue \<Rightarrow> trb list" where
  "posted s = (case s of (er, e, pc) \<Rightarrow> map ((!) (er_buf er))
     (if pc = er_cycle er then [dequeue_index er..<e] else [dequeue_index er..<unat (erst_size er)] @ [0..<e]))"

definition event_capacity :: "event_queue \<Rightarrow> nat" where
  "event_capacity s = unat (erst_size (fst s))"

lemma unat_slot:
  assumes "unat (a :: u64) < 2 ^ 63" and "i \<le> 2 ^ 16"
  shows "unat (a + 16 * of_nat i) = unat a + 16 * i"
proof -
  have "unat (16 * of_nat i :: u64) = 16 * i"
    using assms(2) unat_mult_eq[of 16 "of_nat i :: u64"] unat_of_nat_eq[of i, where ?'a = 64] by simp
  then show ?thesis using unat_plus_eq[of a "16 * of_nat i"] assms by simp
qed

lemma erdp_roundtrip: "unat p mod 16 = 0 \<Longrightarrow> erdp_pointer (erdp_set_pointer p w) = p"
  using pointer_field[of 4 60 p w] aligned_pointer[of p 4 64]
  by (simp add: take_bit_u64_full erdp_pointer_def erdp_set_pointer_def del: bits_get_take_bit)

lemma dequeue_index_write:
  assumes "unat (er_buf_addr er) < 2 ^ 63" and "i \<le> 2 ^ 16" and "unat (er_buf_addr er) mod 16 = 0"
  defines "er' \<equiv> write_dequeue_pointer (er_buf_addr er + 16 * of_nat i) er"
  shows "read_dequeue_pointer er' = er_buf_addr er + 16 * of_nat i" and "dequeue_index er' = i"
proof -
  let ?p = "er_buf_addr er + 16 * of_nat i"
  have "unat ?p mod 16 = 0" using unat_slot[OF assms(1,2)] assms(3) by simp
  then show r: "read_dequeue_pointer er' = ?p"
    by (simp add: er'_def read_dequeue_pointer_def write_dequeue_pointer_def erdp_roundtrip)
  have "unat (16 * of_nat i :: u64) = 16 * i"
    using assms(2) unat_mult_eq[of 16 "of_nat i :: u64"] unat_of_nat_eq[of i, where ?'a = 64] by simp
  then show "dequeue_index er' = i" using r by (simp add: dequeue_index_def) (simp add: er'_def write_dequeue_pointer_def)
qed

lemma erst_size_bound: "unat (erst_size er) < 2 ^ 16"
  using unat_lt2p[of "erst_size er"] by simp

lemma front_eq:
  assumes "event_ring_ok er"
  shows "front er = Some (er_buf er ! dequeue_index er)"
proof -
  let ?d = "dequeue_index er"
  have "?d \<le> 2 ^ 16" using assms erst_size_bound[of er] by (simp add: event_ring_ok_def)
  then have "unat (er_buf_addr er + 16 * of_nat ?d) = unat (er_buf_addr er) + 16 * ?d"
    using assms by (intro unat_slot) (simp_all add: event_ring_ok_def)
  then have "er_buf_addr er \<le> read_dequeue_pointer er" using assms by (simp add: event_ring_ok_def word_le_nat_alt)
  then show ?thesis using assms by (simp add: front_def Let_def dequeue_index_def[symmetric]) (simp add: event_ring_ok_def)
qed

lemma pop_eq:
  assumes "event_ring_ok er"
  defines "n \<equiv> unat (erst_size er)" and "d \<equiv> dequeue_index er"
  shows "event_ring_ok (pop er)" and "er_buf (pop er) = er_buf er" and "erst_size (pop er) = erst_size er"
    and "dequeue_index (pop er) = (if d + 1 = n then 0 else d + 1)"
    and "er_cycle (pop er) = (if d + 1 = n then \<not> er_cycle er else er_cycle er)"
proof -
  have ok: "d < n" "n < 2 ^ 16" "length (er_buf er) = n" "erst_base er = er_buf_addr er" "unat (er_buf_addr er) mod 16 = 0"
    "unat (er_buf_addr er) < 2 ^ 63" "read_dequeue_pointer er = er_buf_addr er + 16 * of_nat d"
    using assms(1) erst_size_bound[of er] by (simp_all add: event_ring_ok_def n_def d_def)
  have nxt: "read_dequeue_pointer er + 16 = er_buf_addr er + 16 * of_nat (d + 1)" by (simp add: ok(7) algebra_simps)
  have segment_end: "erst_base er + 16 * ucast (erst_size er) = er_buf_addr er + 16 * of_nat n"
    by (simp add: ok(4) n_def)
  have at_end: "er_buf_addr er + 16 * of_nat (d + 1) = er_buf_addr er + 16 * of_nat n \<longleftrightarrow> d + 1 = n"
  proof
    assume "er_buf_addr er + 16 * of_nat (d + 1) = er_buf_addr er + 16 * of_nat n"
    then have "unat (er_buf_addr er) + 16 * (d + 1) = unat (er_buf_addr er) + 16 * n"
      using unat_slot[OF ok(6), of "d + 1"] unat_slot[OF ok(6), of n] ok(1,2) by simp
    then show "d + 1 = n" by simp
  qed (simp only:)
  define i where "i = (if d + 1 = n then 0 else d + 1)"
  define er0 where "er0 = (if d + 1 = n then er\<lparr>er_cycle := \<not> er_cycle er\<rparr> else er)"
  have pop: "pop er = write_dequeue_pointer (er_buf_addr er0 + 16 * of_nat i) er0"
    unfolding pop_def Let_def nxt segment_end at_end by (simp add: i_def er0_def ok(4))
  have er0: "unat (er_buf_addr er0) < 2 ^ 63" "i \<le> 2 ^ 16" "unat (er_buf_addr er0) mod 16 = 0"
    using ok by (simp_all add: er0_def i_def)
  note w = dequeue_index_write[OF er0, folded pop]
  have f: "er_buf (pop er) = er_buf er" "erst_size (pop er) = erst_size er" "er_buf_addr (pop er) = er_buf_addr er"
    "erst_base (pop er) = erst_base er" "er_cycle (pop er) = (if d + 1 = n then \<not> er_cycle er else er_cycle er)"
    "er_buf_addr er0 = er_buf_addr er"
    by (simp_all add: pop write_dequeue_pointer_def er0_def)
  show "er_buf (pop er) = er_buf er" "erst_size (pop er) = erst_size er"
    "er_cycle (pop er) = (if d + 1 = n then \<not> er_cycle er else er_cycle er)" by (rule f)+
  show "dequeue_index (pop er) = (if d + 1 = n then 0 else d + 1)" using w(2) by (simp add: i_def)
  have "i < n" using ok(1) by (simp add: i_def)
  then show "event_ring_ok (pop er)" using w f ok n_def by (simp add: event_ring_ok_def)
qed

lemma xhc_post_law:
  assumes ok: "event_queue_ok s" and room: "length (posted s) < event_capacity s"
  shows "event_queue_ok (xhc_post t s) \<and> event_capacity (xhc_post t s) = event_capacity s \<and>
    (\<exists>y. posted (xhc_post t s) = posted s @ [y] \<and> same_request t y)"
proof -
  obtain er e pc where s: "s = (er, e, pc)" by (cases s) auto
  let ?er = "er\<lparr>er_buf := (er_buf er)[e := with_cycle pc t]\<rparr>" and ?n = "unat (erst_size er)" and ?d = "dequeue_index er"
  have d: "dequeue_index ?er = ?d" by (simp add: dequeue_index_def read_dequeue_pointer_def)
  have eok: "event_ring_ok er" "event_ring_ok ?er" and len: "length (er_buf er) = ?n" "e < ?n" "?d < ?n"
    using ok d by (auto simp: s event_queue_ok_def event_ring_ok_def read_dequeue_pointer_def)
  have slots: "\<And>k. k < ?n \<Longrightarrow> cycle_bit (er_buf er ! k) = (pc = (k < e))"
    using ok by (simp add: s event_queue_ok_def)
  have side: "if pc = er_cycle er then ?d \<le> e else e < ?d"
    using ok room by (auto simp: s event_queue_ok_def posted_def event_capacity_def split: if_splits)
  have "event_queue_ok (xhc_post t s) \<and> event_capacity (xhc_post t s) = ?n \<and>
      posted (xhc_post t s) = posted s @ [with_cycle pc t]"
  proof (cases "e + 1 = ?n")
    case True
    then have "pc = er_cycle er" "?d \<le> e" using side len by (auto split: if_splits)
    moreover have "[?d..<?n] = [?d..<e] @ [e]" using True calculation(2) by (metis Suc_eq_plus1 upt_Suc)
    ultimately show ?thesis using True eok len d slots
      by (auto simp: s xhc_post_def Let_def event_queue_ok_def event_capacity_def posted_def nth_list_update intro!: map_cong)
  next
    case False
    then show ?thesis using eok len d slots side
      by (auto simp: s xhc_post_def Let_def event_queue_ok_def event_capacity_def posted_def nth_list_update
          intro!: map_cong split: if_splits)
  qed
  then show ?thesis using same_request_with_cycle by (auto simp: s event_capacity_def)
qed

lemma take_event_law:
  assumes ok: "event_queue_ok s"
  shows "case posted s of
      [] \<Rightarrow> take_event s = None
    | y # ys \<Rightarrow> \<exists>s'. take_event s = Some (y, s') \<and> event_queue_ok s' \<and> event_capacity s' = event_capacity s \<and> posted s' = ys"
proof -
  obtain er e pc where s: "s = (er, e, pc)" by (cases s) auto
  let ?n = "unat (erst_size er)" and ?d = "dequeue_index er"
  have eok: "event_ring_ok er" and e: "e < ?n" and d: "?d < ?n"
    and slots: "\<And>k. k < ?n \<Longrightarrow> cycle_bit (er_buf er ! k) = (pc = (k < e))"
    using ok by (auto simp: s event_queue_ok_def event_ring_ok_def)
  have take: "take_event s = (if cycle_bit (er_buf er ! ?d) = er_cycle er then Some (er_buf er ! ?d, (pop er, e, pc)) else None)"
    by (simp add: take_event_def s has_front_def front_eq[OF eok])
  note p = pop_eq[OF eok]
  consider (empty) "pc = er_cycle er" "?d = e" | (same) "pc = er_cycle er" "?d < e" | (behind) "pc \<noteq> er_cycle er" "e \<le> ?d"
    using ok by (auto simp: s event_queue_ok_def le_less split: if_splits)
  then show ?thesis
  proof cases
    case empty
    then show ?thesis using take slots[of e] e by (auto simp: s posted_def)
  next
    case same
    then have u: "[?d..<e] = ?d # [?d + 1..<e]" by (simp add: upt_conv_Cons)
    have "?d + 1 \<noteq> ?n" using same e by simp
    then have "event_queue_ok (pop er, e, pc)" "posted (pop er, e, pc) = map ((!) (er_buf er)) [?d + 1..<e]"
      using ok same p by (simp_all add: s event_queue_ok_def posted_def)
    then show ?thesis using same take u slots[OF d] p(3) by (simp add: s posted_def event_capacity_def)
  next
    case behind
    then have u: "[?d..<?n] = ?d # [?d + 1..<?n]" using d by (simp add: upt_conv_Cons)
    have "event_queue_ok (pop er, e, pc)"
      using ok behind p d by (simp add: s event_queue_ok_def)
    moreover have "posted (pop er, e, pc) = map ((!) (er_buf er)) ([?d + 1..<?n] @ [0..<e])"
      using behind p d by (auto simp: posted_def)
    ultimately show ?thesis using behind take u slots[OF d] p(3) by (simp add: s posted_def event_capacity_def)
  qed
qed

interpretation events: fifo xhc_post take_event posted same_request "\<lambda>_. True" event_capacity event_queue_ok
proof
  show "event_queue_ok (xhc_post x s) \<and> event_capacity (xhc_post x s) = event_capacity s \<and>
      (\<exists>y. posted (xhc_post x s) = posted s @ [y] \<and> same_request x y)"
    if "event_queue_ok s" "length (posted s) < event_capacity s" for s x
    using that by (rule xhc_post_law)
  show "take_event s = None" if "event_queue_ok s" "posted s = []" for s
    using take_event_law[OF that(1)] that(2) by simp
  show "\<exists>s'. take_event s = Some (y, s') \<and> event_queue_ok s' \<and> event_capacity s' = event_capacity s \<and> posted s' = ys"
    if "event_queue_ok s" "posted s = y # ys" for s y ys
    using take_event_law[OF that(1)] that(2) by simp
qed

lemma event_ring_initialize_ok:
  assumes "pool_ok pool ptr" and "0 < n" and "n < 2 ^ 16" and "event_ring_initialize pool n er ptr = (kSuccess, er', ptr')"
  shows "event_queue_ok (er', 0, True)" and "posted (er', 0, True) = []" and "event_capacity (er', 0, True) = n"
proof -
  have sz: "unat (16 * of_nat n :: u64) = 16 * n"
    using assms(3) unat_mult_eq[of 16 "of_nat n :: u64"] unat_of_nat_eq[of n, where ?'a = 64] by simp
  then have good: "good_request \<lparr>req_bytes = 16 * of_nat n, req_alignment = 64, req_boundary = 65536\<rparr>"
    using assms(3) by (simp add: good_request_def pow2_or_0_instances)
  obtain p ptr1 q where p: "alloc_mem pool (16 * of_nat n) 64 65536 ptr = (p, ptr1)" "p \<noteq> 0"
    and er': "er' = er\<lparr>er_cycle := True, er_buf_size := n, er_buf_addr := p, er_buf := replicate n zero_trb,
        erst_addr := q, erst_base := p, erst_size := of_nat n, reg_erstsz := erstsz_set_size 1 (reg_erstsz er),
        reg_erdp := erdp_set_pointer p (reg_erdp er), reg_erstba := erstba_set_pointer q (reg_erstba er)\<rparr>"
    using assms(4)
    by (auto simp: event_ring_initialize_def alloc_array_def trb_bytes_def Let_def write_dequeue_pointer_def
        split: prod.splits if_splits)
  have "64 dvd unat p" using alloc_mem_result(3)[OF assms(1) good p(1)] p(2) by simp
  then have "16 dvd unat p" by (rule dvd_trans[rotated]) simp
  then have al: "unat p mod 16 = 0" by simp
  have lt: "unat p < 2 ^ 63"
  proof -
    have "unat p \<le> pool_limit pool"
      using alloc_mem_result(2)[OF assms(1) good p(1,2)] start_le[of 64 65536 "unat ptr" pool] assms(1)
      by (simp add: pow2_or_0_instances pool_ok_def)
    then show ?thesis using pool_limit_bounds(2)[of pool] assms(1) by (simp add: pool_ok_def)
  qed
  have n16: "unat (of_nat n :: u16) = n" using assms(3) by (intro unat_of_nat_eq) simp
  have idx: "read_dequeue_pointer er' = p" "dequeue_index er' = 0"
    using erdp_roundtrip[OF al] by (simp_all add: dequeue_index_def read_dequeue_pointer_def er')
  have f: "er_buf er' = replicate n zero_trb" "er_cycle er'" "unat (erst_size er') = n" "er_buf_addr er' = p" "erst_base er' = p"
    by (simp_all add: er' n16)
  have "\<not> cycle_bit zero_trb" by (simp add: zero_trb_def cycle_bit_def)
  then show "event_queue_ok (er', 0, True)" "posted (er', 0, True) = []" "event_capacity (er', 0, True) = n"
    using f idx al lt assms(2) by (simp_all add: event_queue_ok_def event_ring_ok_def posted_def event_capacity_def)
qed

text \<open>Claim C15.
  From an initialised event ring of \<open>n\<close> TRBs, for every interleaving of the controller's posts
  and the driver's \<open>HasFront\<close>, \<open>Front\<close> and \<open>Pop\<close> that never has more than \<open>n\<close> events
  outstanding, the driver sees exactly the posted events in order, and none twice.
\<close>

theorem event_ring_fifo:
  assumes "pool_ok pool ptr" and "0 < n" and "n < 2 ^ 16" and "event_ring_initialize pool n er ptr = (kSuccess, er', ptr')"
    and "fits n 0 ops" and "queue_run xhc_post take_event ops (er', 0, True) = (seen, s')"
  shows "list_all2 same_request (enqueued ops) (seen @ posted s')"
proof -
  note i = event_ring_initialize_ok[OF assms(1-4)]
  have f: "fits (event_capacity (er', 0, True)) (length (posted (er', 0, True))) ops" using assms(5) i(2,3) by simp
  have a: "\<forall>x\<in>set (enqueued ops). True" by simp
  from events.run_fifo[OF i(1) a f assms(6)] i(2) show ?thesis by auto
qed

definition example_event_ring :: event_ring where
  "example_event_ring = \<lparr>er_buf_addr = 0, er_buf = [], er_buf_size = 0, er_cycle = False, erst_addr = 0, erst_base = 0,
     erst_size = 0, reg_erstsz = 0, reg_erstba = 0, reg_erdp = 8\<rparr>"

lemma example_event_ring_initialize:
  "\<exists>er' ptr'. event_ring_initialize 0x10000 2 example_event_ring 0x10000 = (kSuccess, er', ptr')"
proof -
  have "alloc_mem 0x10000 32 64 65536 0x10000 = (0x10000, 0x10020)" "alloc_mem 0x10000 16 64 65536 0x10020 = (0x10040, 0x10050)"
    by code_simp+
  then show ?thesis by (simp add: event_ring_initialize_def alloc_array_def trb_bytes_def Let_def)
qed

theorem event_ring_fifo_witness:
  "\<exists>er' ptr'. event_ring_initialize 0x10000 2 example_event_ring 0x10000 = (kSuccess, er', ptr') \<and>
     (let (seen, s') = queue_run xhc_post take_event
        [Enq transfer_event_trb, Enq port_status_change_event_trb, Deq, Enq transfer_event_trb, Deq, Deq] (er', 0, True)
      in list_all2 same_request [transfer_event_trb, port_status_change_event_trb, transfer_event_trb] (seen @ posted s'))"
proof -
  let ?ops = "[Enq transfer_event_trb, Enq port_status_change_event_trb, Deq, Enq transfer_event_trb, Deq, Deq]"
  obtain er' ptr' where r: "event_ring_initialize 0x10000 2 example_event_ring 0x10000 = (kSuccess, er', ptr')"
    using example_event_ring_initialize by blast
  obtain seen s' where q: "queue_run xhc_post take_event ?ops (er', 0, True) = (seen, s')" by (rule prod.exhaust)
  have n: "0 < (2 :: nat)" "(2 :: nat) < 2 ^ 16" and f: "fits 2 0 ?ops" by simp_all
  have "list_all2 same_request (enqueued ?ops) (seen @ posted s')" by (rule event_ring_fifo[OF example_pool_ok n r f q])
  then have "let (seen, s') = queue_run xhc_post take_event ?ops (er', 0, True)
      in list_all2 same_request [transfer_event_trb, port_status_change_event_trb, transfer_event_trb] (seen @ posted s')"
    unfolding q Let_def prod.case by (simp only: enqueued.simps)
  with r show ?thesis by (intro exI conjI)
qed

end
