(* ===== verification/Usb_Descriptors.thy ===== *)
theory Usb_Descriptors
  imports Usb_Types
begin

text \<open>
  USB descriptors and the reader of a configuration: \<open>src/kernel/usb/descriptor.hpp\<close> and the
  first part of \<open>src/kernel/usb/device.cpp\<close>.

  The descriptors are bytes that the device sent. \<open>desc_buf\<close> is the buffer they were written to,
  a pointer into it is an index, and every access outside it is undefined. A descriptor is
  decoded to the fields that the driver reads. The loops run under \<open>partial_function\<close>: a
  configuration on which they never end has the value \<open>None\<close>.
\<close>

definition byte_at :: "u8 list \<Rightarrow> nat \<Rightarrow> u8 option" where
  "byte_at xs i = (if i < length xs then Some (xs ! i) else None)"

definition set_at :: "'a list \<Rightarrow> nat \<Rightarrow> 'a \<Rightarrow> 'a list option" where
  "set_at xs i v = (if i < length xs then Some (xs[i := v]) else None)"

subsection \<open>The descriptors\<close>

definition device_descriptor_type :: u8 where "device_descriptor_type = 1"
definition configuration_descriptor_type :: u8 where "configuration_descriptor_type = 2"
definition interface_descriptor_type :: u8 where "interface_descriptor_type = 4"
definition endpoint_descriptor_type :: u8 where "endpoint_descriptor_type = 5"

record interface_descriptor =
  interface_number :: u8
  num_endpoints :: u8
  interface_class :: u8
  interface_sub_class :: u8
  interface_protocol :: u8

record endpoint_descriptor =
  endpoint_address :: u8
  attributes :: u8
  ed_max_packet_size :: u16
  ed_interval :: u8

text \<open>\<open>DescriptorDynamicCast<T>\<close>: whether the descriptor at \<open>p\<close> has the type.\<close>

definition descriptor_dynamic_cast :: "u8 \<Rightarrow> u8 list \<Rightarrow> nat \<Rightarrow> bool option" where
  "descriptor_dynamic_cast kType desc_buf p = map_option (\<lambda>t. t = kType) (byte_at desc_buf (p + 1))"

definition interface_at :: "u8 list \<Rightarrow> nat \<Rightarrow> interface_descriptor option" where
  "interface_at b p = do {
     number \<leftarrow> byte_at b (p + 2);
     endpoints \<leftarrow> byte_at b (p + 4);
     cls \<leftarrow> byte_at b (p + 5);
     sub \<leftarrow> byte_at b (p + 6);
     protocol \<leftarrow> byte_at b (p + 7);
     Some \<lparr>interface_number = number, num_endpoints = endpoints, interface_class = cls,
       interface_sub_class = sub, interface_protocol = protocol\<rparr> }"

definition endpoint_at :: "u8 list \<Rightarrow> nat \<Rightarrow> endpoint_descriptor option" where
  "endpoint_at b p = do {
     address \<leftarrow> byte_at b (p + 2);
     attr \<leftarrow> byte_at b (p + 3);
     lo \<leftarrow> byte_at b (p + 4);
     hi \<leftarrow> byte_at b (p + 5);
     ivl \<leftarrow> byte_at b (p + 6);
     Some \<lparr>endpoint_address = address, attributes = attr, ed_max_packet_size = push_bit 8 (ucast hi) OR ucast lo,
       ed_interval = ivl\<rparr> }"

text \<open>Offset 17 of a device descriptor and offset 5 of a configuration descriptor.\<close>

definition num_configurations_at :: "u8 list \<Rightarrow> nat \<Rightarrow> u8 option" where
  "num_configurations_at b p = byte_at b (p + 17)"

definition configuration_value_at :: "u8 list \<Rightarrow> nat \<Rightarrow> u8 option" where
  "configuration_value_at b p = byte_at b (p + 5)"

subsection \<open>The reader\<close>

record config_reader =
  desc_buf :: "u8 list"
  desc_buf_len :: int
  reader_p :: nat

definition new_config_reader :: "u8 list \<Rightarrow> int \<Rightarrow> config_reader" where
  "new_config_reader b len = \<lparr>desc_buf = b, desc_buf_len = len, reader_p = 0\<rparr>"

text \<open>\<open>Next()\<close>: the pointer moves on by the length byte, also when it leaves the descriptors.\<close>

definition next_descriptor :: "config_reader \<Rightarrow> (nat option \<times> config_reader) option" where
  "next_descriptor r = do {
     n \<leftarrow> byte_at (desc_buf r) (reader_p r);
     let p = reader_p r + unat n; r = r\<lparr>reader_p := p\<rparr>
     in Some (if int p < desc_buf_len r then Some p else None, r) }"

text \<open>\<open>Next<T>()\<close>.\<close>

partial_function (option) next_of_type :: "u8 \<Rightarrow> config_reader \<Rightarrow> (nat option \<times> config_reader) option" where
  "next_of_type kType r = do {
     (n, r) \<leftarrow> next_descriptor r;
     case n of
       None \<Rightarrow> Some (None, r)
     | Some p \<Rightarrow> do {
         d \<leftarrow> descriptor_dynamic_cast kType (desc_buf r) p;
         if d then Some (Some p, r) else next_of_type kType r } }"

definition endpoint_type_of :: "u8 \<Rightarrow> endpoint_type" where
  "endpoint_type_of n = (if n = 0 then kControl else if n = 1 then kIsochronous else if n = 2 then kBulk else kInterrupt)"

definition make_ep_config :: "endpoint_descriptor \<Rightarrow> endpoint_config" where
  "make_ep_config d =
     \<lparr>ep_id = make_endpoint_id (uint (bits_get 0 4 (endpoint_address d))) (bits_get 7 1 (endpoint_address d) = 1),
      ep_type = endpoint_type_of (bits_get 0 2 (attributes d)),
      max_packet_size = uint (ed_max_packet_size d),
      interval = uint (ed_interval d)\<rparr>"

subsection \<open>The interface and its endpoints\<close>

text \<open>The decision of \<open>NewClassDriver\<close>: which driver an interface gets, if any.\<close>

datatype hid_kind = Keyboard | Mouse

definition driver_kind :: "interface_descriptor \<Rightarrow> hid_kind option" where
  "driver_kind d =
     (if interface_class d = 3 \<and> interface_sub_class d = 1 then
        if interface_protocol d = 1 then Some Keyboard
        else if interface_protocol d = 2 then Some Mouse
        else None
      else None)"

text \<open>The outer loop of \<open>InitializePhase2\<close>: the first interface that has a driver.\<close>

partial_function (option) find_interface ::
    "config_reader \<Rightarrow> ((interface_descriptor \<times> hid_kind) option \<times> config_reader) option" where
  "find_interface r = do {
     (n, r) \<leftarrow> next_of_type interface_descriptor_type r;
     case n of
       None \<Rightarrow> Some (None, r)
     | Some p \<Rightarrow> do {
         if_desc \<leftarrow> interface_at (desc_buf r) p;
         case driver_kind if_desc of
           None \<Rightarrow> find_interface r
         | Some k \<Rightarrow> Some (Some (if_desc, k), r) } }"

text \<open>
  The inner loop. A null pointer from \<open>Next()\<close> is dereferenced by the cast, and more than 16
  endpoints leave \<open>ep_configs_\<close>. The messages about a HID descriptor are left out.
\<close>

record endpoint_table =
  et_configs :: "endpoint_config list"
  et_num :: nat
  et_drivers :: "u64 option list"

definition add_endpoint :: "u64 \<Rightarrow> endpoint_config \<Rightarrow> endpoint_table \<Rightarrow> endpoint_table option" where
  "add_endpoint driver conf t = do {
     configs \<leftarrow> set_at (et_configs t) (et_num t) conf;
     drivers \<leftarrow> set_at (et_drivers t) (nat (ep_number (ep_id conf))) (Some driver);
     Some \<lparr>et_configs = configs, et_num = et_num t + 1, et_drivers = drivers\<rparr> }"

partial_function (option) read_endpoints ::
    "u8 \<Rightarrow> u64 \<Rightarrow> config_reader \<Rightarrow> endpoint_table \<Rightarrow> (config_reader \<times> endpoint_table) option" where
  "read_endpoints num driver r t =
     (if et_num t < unat num then do {
        (n, r) \<leftarrow> next_descriptor r;
        p \<leftarrow> n;
        d \<leftarrow> descriptor_dynamic_cast endpoint_descriptor_type (desc_buf r) p;
        if d then do {
          ep_desc \<leftarrow> endpoint_at (desc_buf r) p;
          t \<leftarrow> add_endpoint driver (make_ep_config ep_desc) t;
          read_endpoints num driver r t }
        else read_endpoints num driver r t }
      else Some (r, t))"

subsection \<open>Well-formed descriptors\<close>

text \<open>
  A configuration as the USB specification describes it: descriptors one after the other, each
  starting with its own length and its type, and as long as its type asks for.
\<close>

definition wf_descriptor :: "u8 list \<Rightarrow> bool" where
  "wf_descriptor d \<longleftrightarrow> 2 \<le> length d \<and> unat (d ! 0) = length d \<and>
     (d ! 1 = interface_descriptor_type \<longrightarrow> 8 \<le> length d) \<and> (d ! 1 = endpoint_descriptor_type \<longrightarrow> 7 \<le> length d)"

text \<open>The reader stands at the descriptor \<open>d\<close>, and \<open>ds\<close> follow.\<close>

definition reads :: "config_reader \<Rightarrow> u8 list \<Rightarrow> u8 list list \<Rightarrow> bool" where
  "reads r d ds \<longleftrightarrow> (\<exists>pre pad. desc_buf r = pre @ d @ concat ds @ pad \<and> reader_p r = length pre \<and>
     desc_buf_len r = int (length pre + length d + length (concat ds)))"

lemma reads_byte: "reads r d ds \<Longrightarrow> i < length d \<Longrightarrow> byte_at (desc_buf r) (reader_p r + i) = byte_at d i"
  by (auto simp: reads_def byte_at_def nth_append)

lemma reads_first:
  assumes "reads r d ds" and "wf_descriptor d"
  shows "byte_at (desc_buf r) (reader_p r) = Some (d ! 0)" and "byte_at (desc_buf r) (reader_p r + 1) = Some (d ! 1)"
proof -
  have "0 < length d" "1 < length d" using assms(2) by (auto simp: wf_descriptor_def)
  from reads_byte[OF assms(1) this(1)] reads_byte[OF assms(1) this(2)] this
  show "byte_at (desc_buf r) (reader_p r) = Some (d ! 0)" and "byte_at (desc_buf r) (reader_p r + 1) = Some (d ! 1)"
    by (simp_all add: byte_at_def[of d])
qed

lemma interface_at_shift: "(\<And>i. i < 8 \<Longrightarrow> byte_at b (p + i) = byte_at d i) \<Longrightarrow> interface_at b p = interface_at d 0"
  unfolding interface_at_def by (simp del: add_2_eq_Suc')

lemma endpoint_at_shift: "(\<And>i. i < 7 \<Longrightarrow> byte_at b (p + i) = byte_at d i) \<Longrightarrow> endpoint_at b p = endpoint_at d 0"
  unfolding endpoint_at_def by (simp del: add_2_eq_Suc')

lemma reads_fields:
  assumes "reads r d ds" and "wf_descriptor d"
  shows "descriptor_dynamic_cast k (desc_buf r) (reader_p r) = Some (d ! 1 = k)"
    and "d ! 1 = interface_descriptor_type \<Longrightarrow> interface_at (desc_buf r) (reader_p r) = interface_at d 0"
    and "d ! 1 = endpoint_descriptor_type \<Longrightarrow> endpoint_at (desc_buf r) (reader_p r) = endpoint_at d 0"
proof -
  show "descriptor_dynamic_cast k (desc_buf r) (reader_p r) = Some (d ! 1 = k)"
    unfolding descriptor_dynamic_cast_def reads_first(2)[OF assms] by simp
  show "d ! 1 = interface_descriptor_type \<Longrightarrow> interface_at (desc_buf r) (reader_p r) = interface_at d 0"
    using assms(2) by (intro interface_at_shift reads_byte[OF assms(1)]) (auto simp: wf_descriptor_def)
  show "d ! 1 = endpoint_descriptor_type \<Longrightarrow> endpoint_at (desc_buf r) (reader_p r) = endpoint_at d 0"
    using assms(2) by (intro endpoint_at_shift reads_byte[OF assms(1)]) (auto simp: wf_descriptor_def)
qed

lemma decoded:
  "wf_descriptor d \<Longrightarrow> d ! 1 = interface_descriptor_type \<Longrightarrow> \<exists>x. interface_at d 0 = Some x"
  "wf_descriptor d \<Longrightarrow> d ! 1 = endpoint_descriptor_type \<Longrightarrow> \<exists>x. endpoint_at d 0 = Some x"
  by (simp_all add: wf_descriptor_def interface_at_def endpoint_at_def byte_at_def)

lemma next_descriptor_reads:
  assumes "reads r d ds" and "wf_descriptor d"
  shows "next_descriptor r = Some (if concat ds = [] then None else Some (reader_p r + length d), r\<lparr>reader_p := reader_p r + length d\<rparr>)"
proof -
  have "int (reader_p r + length d) < desc_buf_len r \<longleftrightarrow> 0 < length (concat ds)"
    using assms(1) by (force simp: reads_def simp del: length_greater_0_conv)
  moreover have "unat (d ! 0) = length d" using assms(2) by (simp add: wf_descriptor_def)
  ultimately show ?thesis
    unfolding next_descriptor_def reads_first(1)[OF assms] by (simp del: of_nat_add uint_nat of_nat_unat add: Let_def)
qed

lemma next_at_end:
  assumes "reads r d []" and "wf_descriptor d"
  shows "\<exists>r'. next_descriptor r = Some (None, r')"
  unfolding next_descriptor_reads[OF assms] by simp

lemma next_moves:
  assumes "reads r d (e # ds)" and "wf_descriptor d" "wf_descriptor e"
  shows "\<exists>r'. next_descriptor r = Some (Some (reader_p r'), r') \<and> reads r' e ds"
proof -
  define r' where "r' = r\<lparr>reader_p := reader_p r + length d\<rparr>"
  obtain pre pad where pre: "desc_buf r = pre @ d @ concat (e # ds) @ pad" "reader_p r = length pre"
      "desc_buf_len r = int (length pre + length d + length (concat (e # ds)))"
    using assms(1) unfolding reads_def by blast
  have "e \<noteq> []" using assms(3) by (auto simp: wf_descriptor_def)
  then have "next_descriptor r = Some (Some (reader_p r'), r')"
    unfolding next_descriptor_reads[OF assms(1,2)] by (simp add: r'_def)
  moreover have "reads r' e ds"
    unfolding reads_def r'_def using pre by (intro exI[of _ "pre @ d"] exI[of _ pad]) simp
  ultimately show ?thesis by blast
qed

text \<open>\<open>Next<T>\<close> skips the descriptors of other types.\<close>

lemma next_of_type_law:
  assumes "reads r d ds" and "\<forall>e\<in>set (d # ds). wf_descriptor e"
  shows "case dropWhile (\<lambda>e. e ! 1 \<noteq> k) ds of
      [] \<Rightarrow> \<exists>r'. next_of_type k r = Some (None, r')
    | e # rest \<Rightarrow> \<exists>r'. next_of_type k r = Some (Some (reader_p r'), r') \<and> reads r' e rest"
  using assms
proof (induction ds arbitrary: r d)
  case Nil
  then obtain r' where "next_descriptor r = Some (None, r')" using next_at_end by fastforce
  then show ?case by (simp add: next_of_type.simps[of k r])
next
  case (Cons e ds)
  then obtain r' where n: "next_descriptor r = Some (Some (reader_p r'), r')" and r': "reads r' e ds"
    using next_moves[of r d e ds] by auto
  have d: "descriptor_dynamic_cast k (desc_buf r') (reader_p r') = Some (e ! 1 = k)"
    using reads_fields(1)[OF r'] Cons.prems by simp
  show ?case
  proof (cases "e ! 1 = k")
    case True
    then show ?thesis using n d r' by (simp add: next_of_type.simps[of k r])
  next
    case False
    then have eq: "next_of_type k r = next_of_type k r'" using n d by (subst next_of_type.simps) simp
    have dw: "dropWhile (\<lambda>e. e ! 1 \<noteq> k) (e # ds) = dropWhile (\<lambda>e. e ! 1 \<noteq> k) ds" using False by simp
    show ?thesis unfolding eq dw using Cons.prems by (intro Cons.IH[OF r']) simp
  qed
qed

subsection \<open>What is found\<close>

definition supported :: "u8 list \<Rightarrow> bool" where
  "supported d \<longleftrightarrow> d ! 1 = interface_descriptor_type \<and> driver_kind (the (interface_at d 0)) \<noteq> None"

definition is_endpoint :: "u8 list \<Rightarrow> bool" where
  "is_endpoint d \<longleftrightarrow> d ! 1 = endpoint_descriptor_type"

definition config_of :: "u8 list \<Rightarrow> endpoint_config" where
  "config_of d = make_ep_config (the (endpoint_at d 0))"

lemma dropWhile_supported:
  "dropWhile (\<lambda>e. \<not> supported e) ds =
     (case dropWhile (\<lambda>e. e ! 1 \<noteq> interface_descriptor_type) ds of
        [] \<Rightarrow> []
      | e # rest \<Rightarrow> if supported e then e # rest else dropWhile (\<lambda>e. \<not> supported e) rest)"
  by (induction ds) (auto simp: supported_def split: list.splits)

lemma find_interface_law:
  assumes "reads r d ds" and "\<forall>e\<in>set (d # ds). wf_descriptor e"
  shows "case dropWhile (\<lambda>e. \<not> supported e) ds of
      [] \<Rightarrow> \<exists>r'. find_interface r = Some (None, r')
    | e # rest \<Rightarrow> \<exists>r' i k. find_interface r = Some (Some (i, k), r') \<and> interface_at e 0 = Some i \<and>
        driver_kind i = Some k \<and> reads r' e rest"
  using assms
proof (induction "length ds" arbitrary: ds r d rule: less_induct)
  case less
  note law = next_of_type_law[OF less.prems, of interface_descriptor_type]
  show ?case
  proof (cases "dropWhile (\<lambda>e. e ! 1 \<noteq> interface_descriptor_type) ds")
    case Nil
    from law obtain r' where "next_of_type interface_descriptor_type r = Some (None, r')" unfolding Nil by auto
    then have "\<exists>r'. find_interface r = Some (None, r')" by (simp add: find_interface.simps[of r])
    then show ?thesis unfolding dropWhile_supported[of ds] Nil by simp
  next
    case (Cons e rest)
    with law obtain r' where n: "next_of_type interface_descriptor_type r = Some (Some (reader_p r'), r')"
        and r': "reads r' e rest" by auto
    obtain pre where ds: "ds = pre @ e # rest"
      by (metis Cons takeWhile_dropWhile_id)
    have e: "e ! 1 = interface_descriptor_type"
      using hd_dropWhile[of "\<lambda>e. e ! 1 \<noteq> interface_descriptor_type" ds] unfolding Cons by simp
    have wf: "\<forall>x\<in>set (e # rest). wf_descriptor x" using less.prems(2) ds by auto
    then obtain i where i: "interface_at e 0 = Some i" using decoded(1) e by auto
    have at: "interface_at (desc_buf r') (reader_p r') = Some i"
      using reads_fields(2)[OF r'] wf e i by simp
    show ?thesis
    proof (cases "driver_kind i")
      case (Some k)
      then have "find_interface r = Some (Some (i, k), r')" using n at by (simp add: find_interface.simps[of r])
      moreover have "supported e" using Some i e by (simp add: supported_def)
      ultimately show ?thesis unfolding dropWhile_supported[of ds] Cons using Some i r' by simp
    next
      case None
      then have eq: "find_interface r = find_interface r'" using n at by (subst find_interface.simps) simp
      have "length rest < length ds" by (simp add: ds)
      moreover have "\<not> supported e" using None i by (simp add: supported_def)
      ultimately show ?thesis
        unfolding eq dropWhile_supported[of ds] Cons using less.hyps[OF _ r' wf] by simp
    qed
  qed
qed

text \<open>The endpoints that the inner loop records, for an interface with enough of them.\<close>

definition table_ok :: "endpoint_table \<Rightarrow> bool" where
  "table_ok t \<longleftrightarrow> length (et_configs t) = 16 \<and> length (et_drivers t) = 16"

lemma config_of_number: "0 \<le> ep_number (ep_id (config_of d))" "nat (ep_number (ep_id (config_of d))) < 16"
proof -
  let ?w = "bits_get 0 4 (endpoint_address (the (endpoint_at d 0)))"
  have "unat ?w < 2 ^ 4" by (rule bits_get_bound) simp
  then have bound: "unat ?w < 16" by simp
  have eq: "ep_number (ep_id (config_of d)) = uint ?w"
    by (simp add: config_of_def make_ep_config_def endpoint_id_parts)
  show "0 \<le> ep_number (ep_id (config_of d))" unfolding eq by simp
  show "nat (ep_number (ep_id (config_of d))) < 16" unfolding eq nat_uint_eq by (rule bound)
qed

lemma add_endpoint_ok:
  assumes "table_ok t" and "et_num t < 16"
  shows "add_endpoint driver (config_of d) t = Some \<lparr>et_configs = (et_configs t)[et_num t := config_of d], et_num = et_num t + 1,
     et_drivers = (et_drivers t)[nat (ep_number (ep_id (config_of d))) := Some driver]\<rparr>"
  using assms config_of_number[of d] by (simp add: add_endpoint_def set_at_def table_ok_def)

text \<open>One turn of the loop.\<close>

lemma read_endpoints_turn:
  assumes r: "reads r d (e # ds)" and wf: "\<forall>x\<in>set (d # e # ds). wf_descriptor x" and more: "et_num t < unat num"
  obtains r' where "reads r' e ds" and "read_endpoints num driver r t =
     (if is_endpoint e then do { t \<leftarrow> add_endpoint driver (config_of e) t; read_endpoints num driver r' t }
      else read_endpoints num driver r' t)"
proof -
  obtain r' where n: "next_descriptor r = Some (Some (reader_p r'), r')" and r': "reads r' e ds"
    using next_moves[OF r] wf by auto
  have f: "descriptor_dynamic_cast endpoint_descriptor_type (desc_buf r') (reader_p r') = Some (is_endpoint e)"
    using reads_fields(1)[OF r'] wf by (simp add: is_endpoint_def)
  have g: "endpoint_at (desc_buf r') (reader_p r') = Some (the (endpoint_at e 0))" if "is_endpoint e"
    using that reads_fields(3)[OF r'] decoded(2)[of e] wf by (auto simp: is_endpoint_def)
  show thesis
    by (rule that[OF r'], subst read_endpoints.simps) (simp add: more n f g config_of_def)
qed

lemma read_endpoints_law:
  assumes "reads r d ds" and "\<forall>e\<in>set (d # ds). wf_descriptor e" and "table_ok t" and "unat num \<le> 16"
    and "et_num t \<le> unat num" and "unat num - et_num t \<le> length (filter is_endpoint ds)"
  shows "\<exists>r' t'. read_endpoints num driver r t = Some (r', t') \<and> et_num t' = unat num \<and> table_ok t' \<and>
     take (unat num) (et_configs t') = take (et_num t) (et_configs t) @ map config_of (take (unat num - et_num t) (filter is_endpoint ds)) \<and>
     (\<forall>k<16. et_drivers t' ! k =
        (if \<exists>e\<in>set (take (unat num - et_num t) (filter is_endpoint ds)). nat (ep_number (ep_id (config_of e))) = k
         then Some driver else et_drivers t ! k))"
  using assms
proof (induction ds arbitrary: r d t)
  case Nil
  then have "et_num t = unat num" by simp
  then have "read_endpoints num driver r t = Some (r, t)" by (subst read_endpoints.simps) simp
  with Nil \<open>et_num t = unat num\<close> show ?case by simp
next
  case (Cons e ds)
  show ?case
  proof (cases "et_num t = unat num")
    case True
    then have "read_endpoints num driver r t = Some (r, t)" by (subst read_endpoints.simps) simp
    with Cons.prems(3) True show ?thesis by simp
  next
    case False
    then have more: "et_num t < unat num" using Cons.prems by simp
    obtain r' where r': "reads r' e ds" and turn: "read_endpoints num driver r t =
       (if is_endpoint e then do { t \<leftarrow> add_endpoint driver (config_of e) t; read_endpoints num driver r' t }
        else read_endpoints num driver r' t)"
      using read_endpoints_turn[OF Cons.prems(1,2) more] by blast
    have wf: "\<forall>x\<in>set (e # ds). wf_descriptor x" using Cons.prems(2) by simp
    show ?thesis
    proof (cases "is_endpoint e")
      case False
      then show ?thesis using Cons.IH[OF r' wf Cons.prems(3-5)] Cons.prems(6) turn by simp
    next
      case True
      define u where "u = \<lparr>et_configs = (et_configs t)[et_num t := config_of e], et_num = et_num t + 1,
        et_drivers = (et_drivers t)[nat (ep_number (ep_id (config_of e))) := Some driver]\<rparr>"
      have u: "table_ok u" "et_num u = Suc (et_num t)" using Cons.prems(3) by (simp_all add: u_def table_ok_def)
      have step: "read_endpoints num driver r t = read_endpoints num driver r' u"
        using turn True add_endpoint_ok[OF Cons.prems(3)] more Cons.prems(4) by (simp add: u_def)
      have diff: "unat num - et_num t = Suc (unat num - et_num u)" using more u(2) by simp
      have tk: "take (et_num u) (et_configs u) = take (et_num t) (et_configs t) @ [config_of e]"
        using more Cons.prems(3,4) by (simp add: u_def table_ok_def take_Suc_conv_app_nth)
      have dr: "et_drivers u ! k = (if nat (ep_number (ep_id (config_of e))) = k then Some driver else et_drivers t ! k)"
        if "k < 16" for k using that Cons.prems(3) config_of_number[of e] by (simp add: u_def table_ok_def nth_list_update)
      have "et_num u \<le> unat num" "unat num - et_num u \<le> length (filter is_endpoint ds)"
        using more Cons.prems(6) True u(2) by simp_all
      from Cons.IH[OF r' wf u(1) Cons.prems(4) this] obtain r2 t2 where t2:
          "read_endpoints num driver r' u = Some (r2, t2)" "et_num t2 = unat num" "table_ok t2"
          "take (unat num) (et_configs t2) = take (et_num u) (et_configs u) @ map config_of (take (unat num - et_num u) (filter is_endpoint ds))"
          "\<forall>k<16. et_drivers t2 ! k =
            (if \<exists>e\<in>set (take (unat num - et_num u) (filter is_endpoint ds)). nat (ep_number (ep_id (config_of e))) = k
             then Some driver else et_drivers u ! k)"
        by blast
      have "take (unat num - et_num t) (filter is_endpoint (e # ds)) = e # take (unat num - et_num u) (filter is_endpoint ds)"
        using True by (simp add: diff)
      then show ?thesis unfolding step t2(1) using t2(2-5) dr by (simp add: tk)
    qed
  qed
qed

subsection \<open>Configurations the reader cannot handle\<close>

text \<open>
  With fewer endpoint descriptors than the interface announces, the loop runs into the end of the
  configuration and dereferences the null pointer.
\<close>

lemma read_endpoints_too_few:
  assumes "reads r d ds" and "\<forall>e\<in>set (d # ds). wf_descriptor e" and "et_num t + length (filter is_endpoint ds) < unat num"
  shows "read_endpoints num driver r t = None"
  using assms
proof (induction ds arbitrary: r d t)
  case Nil
  then obtain r' where "next_descriptor r = Some (None, r')" using next_at_end[of r d] by auto
  then show ?case using Nil.prems(3) by (simp add: read_endpoints.simps[of num driver r t])
next
  case (Cons e ds)
  have more: "et_num t < unat num" using Cons.prems(3) by simp
  obtain r' where r': "reads r' e ds" and turn: "read_endpoints num driver r t =
     (if is_endpoint e then do { t \<leftarrow> add_endpoint driver (config_of e) t; read_endpoints num driver r' t }
      else read_endpoints num driver r' t)"
    using read_endpoints_turn[OF Cons.prems(1,2) more] by blast
  have IH: "et_num u + length (filter is_endpoint ds) < unat num \<Longrightarrow> read_endpoints num driver r' u = None" for u
    using Cons.IH[OF r'] Cons.prems(2) by simp
  show ?case
  proof (cases "is_endpoint e")
    case True
    have "et_num u = Suc (et_num t)" if "add_endpoint driver (config_of e) t = Some u" for u
      using that by (auto simp: add_endpoint_def bind_eq_Some_conv)
    then show ?thesis using turn True IH Cons.prems(3) by (cases "add_endpoint driver (config_of e) t") auto
  qed (use turn IH Cons.prems(3) in simp)
qed

text \<open>A descriptor with length 0 that is not an interface stops the reader from moving: it never returns.\<close>

lemma next_of_type_stuck:
  assumes zero: "byte_at (desc_buf r) (reader_p r) = Some 0" and inside: "int (reader_p r) < desc_buf_len r"
    and other: "descriptor_dynamic_cast k (desc_buf r) (reader_p r) = Some False"
  shows "next_of_type k r = None"
proof -
  have n: "next_descriptor r = Some (Some (reader_p r), r)"
    using zero inside by (simp add: next_descriptor_def)
  have "\<not> (k' = k \<and> r' = r)" if "next_of_type k' r' = Some y" for k' r' y
  proof (rule next_of_type.raw_induct[of "\<lambda>k' r' y. \<not> (k' = k \<and> r' = r)", OF _ that], goal_cases)
    case (1 f k' r' y)
    show ?case
    proof
      assume "k' = k \<and> r' = r"
      then have "f k r = Some y" using 1(2) n other by simp
      from 1(1)[OF this] show False by simp
    qed
  qed
  then show ?thesis by (cases "next_of_type k r") auto
qed

end
