(* ===== verification/Usb_Hid.thy ===== *)
theory Usb_Hid
  imports Usb_Descriptors
begin

text \<open>
  The HID class drivers: \<open>src/kernel/usb/classdriver/hid.cpp\<close>, \<open>keyboard.cpp\<close> and \<open>mouse.cpp\<close>.

  The receive buffer \<open>buf_\<close> of a driver is memory that the host controller writes, so the driver
  holds its address and the operations take its contents. An observer is a function the driver
  calls; the model numbers the observers and returns the calls in order. The operations that
  call the parent device are in \<open>Xhci_Device\<close>.
\<close>

definition kBufferSize :: nat where
  "kBufferSize = 1024"

record hid_driver =
  hid_kind :: hid_kind
  ep_interrupt_in :: endpoint_id
  ep_interrupt_out :: endpoint_id
  interface_index :: int
  in_packet_size :: int
  hid_phase :: int
  hid_buf :: u64
  previous_buf :: "u8 list"
  observers :: "nat list"

datatype hid_event = KeyPush u8 | MouseMove u8 u8 u8

type_synonym notification = "nat \<times> hid_event"

definition new_hid_driver :: "hid_kind \<Rightarrow> u8 \<Rightarrow> u64 \<Rightarrow> hid_driver" where
  "new_hid_driver k ifc addr =
     \<lparr>hid_kind = k, ep_interrupt_in = EndpointID 0, ep_interrupt_out = EndpointID 0, interface_index = uint ifc,
      in_packet_size = (case k of Keyboard \<Rightarrow> 8 | Mouse \<Rightarrow> 3), hid_phase = 0, hid_buf = addr,
      previous_buf = replicate kBufferSize 0, observers = []\<rparr>"

text \<open>\<open>SubscribeKeyPush\<close> and \<open>SubscribeMouseMove\<close>: the array holds four observers.\<close>

definition subscribe :: "nat \<Rightarrow> hid_driver \<Rightarrow> hid_driver option" where
  "subscribe ob d = (if length (observers d) < 4 then Some (d\<lparr>observers := observers d @ [ob]\<rparr>) else None)"

definition set_endpoint :: "endpoint_config \<Rightarrow> hid_driver \<Rightarrow> hid_driver" where
  "set_endpoint config d =
     (if ep_type config = kInterrupt \<and> ep_is_in (ep_id config) then d\<lparr>ep_interrupt_in := ep_id config\<rparr>
      else if ep_type config = kInterrupt \<and> \<not> ep_is_in (ep_id config) then d\<lparr>ep_interrupt_out := ep_id config\<rparr>
      else d)"

definition notify :: "hid_event \<Rightarrow> hid_driver \<Rightarrow> notification list" where
  "notify e d = map (\<lambda>ob. (ob, e)) (observers d)"

text \<open>The loop of the keyboard over the indices 2 to 7 of the report.\<close>

primrec keyboard_loop :: "u8 list \<Rightarrow> hid_driver \<Rightarrow> nat list \<Rightarrow> notification list" where
  "keyboard_loop buffer d [] = []"
| "keyboard_loop buffer d (i # is) =
     (let key = buffer ! i
      in if key = 0 then keyboard_loop buffer d is
         else if key \<in> set (previous_buf d) then keyboard_loop buffer d is
         else notify (KeyPush key) d @ keyboard_loop buffer d is)"

definition keyboard_on_data_received :: "u8 list \<Rightarrow> hid_driver \<Rightarrow> notification list" where
  "keyboard_on_data_received buffer d = keyboard_loop buffer d [2..<8]"

definition mouse_on_data_received :: "u8 list \<Rightarrow> hid_driver \<Rightarrow> notification list" where
  "mouse_on_data_received buffer d = notify (MouseMove (buffer ! 0) (buffer ! 1) (buffer ! 2)) d"

definition on_data_received :: "u8 list \<Rightarrow> hid_driver \<Rightarrow> notification list" where
  "on_data_received buffer d =
     (case hid_kind d of Keyboard \<Rightarrow> keyboard_on_data_received buffer d | Mouse \<Rightarrow> mouse_on_data_received buffer d)"

text \<open>\<open>std::copy_n\<close> between two arrays of the same size; a count below 1 copies nothing.\<close>

definition copy_n :: "u8 list \<Rightarrow> int \<Rightarrow> u8 list \<Rightarrow> u8 list option" where
  "copy_n src len dst =
     (if len \<le> 0 then Some dst
      else if nat len \<le> length src \<and> nat len \<le> length dst then Some (take (nat len) src @ drop (nat len) dst)
      else None)"

text \<open>The first two lines of \<open>OnInterruptCompleted\<close>: deliver the report and keep it.\<close>

definition receive_report :: "u8 list \<Rightarrow> int \<Rightarrow> hid_driver \<Rightarrow> (notification list \<times> hid_driver) option" where
  "receive_report buffer len d = do {
     prev \<leftarrow> copy_n buffer len (previous_buf d);
     Some (on_data_received buffer d, d\<lparr>previous_buf := prev\<rparr>) }"

subsection \<open>Runs of reports\<close>

text \<open>
  The controller writes a report of \<open>in_packet_size\<close> bytes to the start of the buffer; the rest of
  the buffer stays 0.
\<close>

definition report_size :: "hid_kind \<Rightarrow> nat" where
  "report_size k = (case k of Keyboard \<Rightarrow> 8 | Mouse \<Rightarrow> 3)"

definition buffer_with :: "u8 list \<Rightarrow> u8 list" where
  "buffer_with report = report @ replicate (kBufferSize - length report) 0"

fun report_run :: "u8 list list \<Rightarrow> hid_driver \<Rightarrow> (notification list \<times> hid_driver) option" where
  "report_run [] d = Some ([], d)"
| "report_run (r # rs) d = do {
     (out, d) \<leftarrow> receive_report (buffer_with r) (int (length r)) d;
     (outs, d) \<leftarrow> report_run rs d;
     Some (out @ outs, d) }"

text \<open>What a report says, given the one before it.\<close>

definition report_events :: "hid_kind \<Rightarrow> u8 list \<Rightarrow> u8 list \<Rightarrow> hid_event list" where
  "report_events k prev cur =
     (case k of
        Keyboard \<Rightarrow> map KeyPush (filter (\<lambda>key. key \<noteq> 0 \<and> key \<notin> set prev) (drop 2 cur))
      | Mouse \<Rightarrow> [MouseMove (cur ! 0) (cur ! 1) (cur ! 2)])"

fun all_events :: "hid_kind \<Rightarrow> u8 list \<Rightarrow> u8 list list \<Rightarrow> hid_event list" where
  "all_events k prev [] = []"
| "all_events k prev (r # rs) = report_events k prev r @ all_events k r rs"

lemma keyboard_loop_filter:
  "keyboard_loop b d is = concat (map (\<lambda>key. notify (KeyPush key) d) (filter (\<lambda>key. key \<noteq> 0 \<and> key \<notin> set (previous_buf d)) (map ((!) b) is)))"
  by (induction "is") (auto simp: Let_def)

definition deliver :: "hid_driver \<Rightarrow> hid_event list \<Rightarrow> notification list" where
  "deliver d es = concat (map (\<lambda>e. notify e d) es)"

lemma deliver_append [simp]: "deliver d (xs @ ys) = deliver d xs @ deliver d ys"
  by (simp add: deliver_def)

lemma deliver_previous [simp]: "deliver (d\<lparr>previous_buf := b\<rparr>) = deliver d"
  by (rule ext) (simp add: deliver_def notify_def)

lemma zero_or_in_previous: "key \<noteq> 0 \<Longrightarrow> key \<in> set (buffer_with r) \<longleftrightarrow> key \<in> set r"
  by (simp add: buffer_with_def)

lemma map_nth_range: "n \<le> length xs \<Longrightarrow> map ((!) xs) [m..<n] = drop m (take n xs)"
  by (rule nth_equalityI) auto

lemma drop_2_buffer: "length r = 8 \<Longrightarrow> map ((!) (buffer_with r)) [2..<8] = drop 2 r"
  by (subst map_nth_range) (simp_all add: buffer_with_def)

lemma receive_report_eq:
  assumes "length r = report_size (hid_kind d)" and "previous_buf d = buffer_with prev" and "length prev = report_size (hid_kind d)"
  shows "receive_report (buffer_with r) (int (length r)) d =
     Some (deliver d (report_events (hid_kind d) prev r), d\<lparr>previous_buf := buffer_with r\<rparr>)"
proof -
  have "length r \<le> kBufferSize" "0 < length r" using assms(1) by (auto simp: report_size_def kBufferSize_def split: hid_kind.splits)
  then have copy: "copy_n (buffer_with r) (int (length r)) (buffer_with prev) = Some (buffer_with r)"
    using assms(1,3) by (simp add: copy_n_def buffer_with_def)
  have "on_data_received (buffer_with r) d = deliver d (report_events (hid_kind d) prev r)"
  proof (cases "hid_kind d")
    case Keyboard
    then have "length r = 8" using assms(1) by (simp add: report_size_def)
    moreover have "filter (\<lambda>key. key \<noteq> 0 \<and> key \<notin> set (buffer_with prev)) xs = filter (\<lambda>key. key \<noteq> 0 \<and> key \<notin> set prev) xs" for xs
      using zero_or_in_previous by (intro filter_cong) auto
    ultimately show ?thesis
      unfolding on_data_received_def keyboard_on_data_received_def keyboard_loop_filter assms(2) report_events_def deliver_def
      by (simp add: Keyboard drop_2_buffer o_def del: upt_rec_numeral)
  next
    case Mouse
    then have "length r = 3" using assms(1) by (simp add: report_size_def)
    then show ?thesis
      by (simp add: on_data_received_def Mouse mouse_on_data_received_def report_events_def deliver_def buffer_with_def nth_append)
  qed
  with copy show ?thesis by (simp add: receive_report_def assms(2))
qed

lemma report_run_eq:
  assumes "\<forall>r\<in>set rs. length r = report_size (hid_kind d)" and "previous_buf d = buffer_with prev"
    and "length prev = report_size (hid_kind d)"
  shows "\<exists>d'. report_run rs d = Some (deliver d (all_events (hid_kind d) prev rs), d') \<and>
    previous_buf d' = buffer_with (last (prev # rs))"
  using assms
proof (induction rs arbitrary: d prev)
  case Nil
  then show ?case by (simp add: deliver_def)
next
  case (Cons r rs)
  let ?d = "d\<lparr>previous_buf := buffer_with r\<rparr>"
  have "\<exists>d'. report_run rs ?d = Some (deliver ?d (all_events (hid_kind ?d) r rs), d') \<and>
      previous_buf d' = buffer_with (last (r # rs))"
    using Cons.prems by (intro Cons.IH) simp_all
  then show ?case using receive_report_eq[of r d prev] Cons.prems by auto
qed

lemma reports_delivered:
  assumes "subscribe ob (new_hid_driver k ifc addr) = Some d" and "\<forall>r\<in>set rs. length r = report_size k"
  shows "\<exists>d'. report_run rs d = Some (map (Pair ob) (all_events k (replicate (report_size k) 0) rs), d') \<and>
    previous_buf d' = buffer_with (last (replicate (report_size k) 0 # rs))"
proof -
  have d: "d = (new_hid_driver k ifc addr)\<lparr>observers := [ob]\<rparr>"
    using assms(1) by (simp add: subscribe_def new_hid_driver_def)
  have kind: "hid_kind d = k" by (simp add: d new_hid_driver_def)
  have prev: "previous_buf d = buffer_with (replicate (report_size k) 0)"
    by (cases k) (simp_all add: d new_hid_driver_def buffer_with_def kBufferSize_def report_size_def replicate_add[symmetric])
  have "deliver d es = map (Pair ob) es" for es
    by (induction es) (simp_all add: deliver_def notify_def d)
  with report_run_eq[of rs d "replicate (report_size k) 0"] assms(2) prev show ?thesis by (simp add: kind)
qed



text \<open>
  The search for a key in the previous report covers the whole report, also its first byte, which
  holds the modifiers. With left Alt (modifier byte 4) held down, pressing A (key code 4) is not
  reported.
\<close>

lemma keyboard_modifier_hides_key:
  assumes "subscribe ob (new_hid_driver Keyboard ifc addr) = Some d"
  shows "\<exists>d'. report_run [[4, 0, 0, 0, 0, 0, 0, 0], [4, 0, 4, 0, 0, 0, 0, 0]] d = Some ([], d')"
proof -
  have none: "all_events Keyboard (replicate 8 0) [[4, 0, 0, 0, 0, 0, 0, 0], [4, 0, 4, 0, 0, 0, 0, 0]] = []"
    by (simp add: report_events_def)
  have len: "\<forall>r\<in>set [[4, 0, 0, 0, 0, 0, 0, 0], [4, 0, 4, 0, 0, 0, 0, 0 :: u8]]. length r = report_size Keyboard"
    by (simp add: report_size_def)
  have size: "report_size Keyboard = 8" by (simp add: report_size_def)
  from reports_delivered[OF assms len] show ?thesis unfolding size none by auto
qed

end
