(* ===== verification/Trb_Names.thy ===== *)
theory Trb_Names
  imports Trb
begin

text \<open>
  The names of completion codes and of types of transfer request blocks (\<open>src/kernel/usb/xhci/trb.cpp\<close>). The driver looks
  names up for its messages, with \<open>operator[]\<close> of \<open>std::array\<close>, which does not check the index: \<open>None\<close> is an access outside the
  array. The arguments of a message are evaluated also when its level is not logged.
\<close>

definition completion_code_names :: "string list" where
  "completion_code_names =
    [''Invalid'', ''Success'', ''Data Buffer Error'', ''Babble Detected Error'', ''USB Transaction Error'',
     ''TRB Error'', ''Stall Error'', ''Resource Error'', ''Bandwidth Error'', ''No Slots Available Error'',
     ''Invalid Stream Type Error'', ''Slot Not Enabled Error'', ''Endpoint Not Enabled Error'', ''Short Packet'',
     ''Ring Underrun'', ''Ring Overrun'', ''VF Event Ring Full Error'', ''Parameter Error'',
     ''Bandwidth Overrun Error'', ''Context State Error'', ''No ping Response Error'', ''Event Ring Full Error'',
     ''Incompatible Device Error'', ''Missed Service Error'', ''Command Ring Stopped'', ''Command Aborted'',
     ''Stopped'', ''Stopped - Length Invalid'', ''Stopped - Short Packet'', ''Max Exit Latency Too Large Error'',
     ''Reserved'', ''Isoch Buffer Overrun'', ''Event Lost Error'', ''Undefined Error'', ''Invalid Stream ID Error'',
     ''Secondary Bandwidth Error'', ''Split Transaction Error'']"

definition trb_type_names :: "string list" where
  "trb_type_names =
    [''Reserved'', ''Normal'', ''Setup Stage'', ''Data Stage'', ''Status Stage'', ''Isoch'', ''Link'', ''EventData'',
     ''No-Op'', ''Enable Slot Command'', ''Disable Slot Command'', ''Address Device Command'',
     ''Configure Endpoint Command'', ''Evaluate Context Command'', ''Reset Endpoint Command'',
     ''Stop Endpoint Command'', ''Set TR Dequeue Pointer Command'', ''Reset Device Command'', ''Force Event Command'',
     ''Negotiate Bandwidth Command'', ''Set Latency Tolerance Value Command'', ''Get Port Bandwidth Command'',
     ''Force Header Command'', ''No Op Command'', ''Reserved'', ''Reserved'', ''Reserved'', ''Reserved'',
     ''Reserved'', ''Reserved'', ''Reserved'', ''Reserved'', ''Transfer Event'', ''Command Completion Event'',
     ''Port Status Change Event'', ''Bandwidth Request Event'', ''Doorbell Event'', ''Host Controller Event'',
     ''Device Notification Event'', ''MFINDEX Wrap Event'', ''Reserved'', ''Reserved'', ''Reserved'', ''Reserved'',
     ''Reserved'', ''Reserved'', ''Reserved'', ''Reserved'', ''Vendor Defined'', ''Vendor Defined'',
     ''Vendor Defined'', ''Vendor Defined'', ''Vendor Defined'', ''Vendor Defined'', ''Vendor Defined'',
     ''Vendor Defined'', ''Vendor Defined'', ''Vendor Defined'', ''Vendor Defined'', ''Vendor Defined'',
     ''Vendor Defined'', ''Vendor Defined'', ''Vendor Defined'', ''Vendor Defined'']"

definition name_at :: "string list \<Rightarrow> nat \<Rightarrow> string option" where
  "name_at names i = (if i < length names then Some (names ! i) else None)"

lemma completion_code_name: "name_at completion_code_names i \<noteq> None \<longleftrightarrow> i < 37"
  by (simp add: name_at_def completion_code_names_def)

text \<open>A type has six bits, and the table has a name for each: messages about a TRB always find one.\<close>

lemma trb_type_less: "unat (trb_type t) < 64"
  using unat_lt2p[of "take_bit 6 (drop_bit 10 (trb3 t))"]
  by (simp add: trb_type_def bits_get_def unsigned_take_bit_eq take_bit_nat_less_exp[of 6, simplified])

lemma trb_type_name: "name_at trb_type_names (unat (trb_type t)) = Some (trb_type_names ! unat (trb_type t))"
  using trb_type_less[of t] by (simp add: name_at_def trb_type_names_def)

text \<open>The names stand where the constants of the TRB unions expect them.\<close>

lemma trb_type_names_agree:
  "map (\<lambda>t. trb_type_names ! unat t)
     [normal_trb_type, setup_stage_trb_type, data_stage_trb_type, status_stage_trb_type, link_trb_type, no_op_trb_type,
      enable_slot_command_trb_type, address_device_command_trb_type, configure_endpoint_command_trb_type,
      stop_endpoint_command_trb_type, no_op_command_trb_type, transfer_event_trb_type, command_completion_event_trb_type,
      port_status_change_event_trb_type] =
   [''Normal'', ''Setup Stage'', ''Data Stage'', ''Status Stage'', ''Link'', ''No-Op'', ''Enable Slot Command'', ''Address Device Command'',
    ''Configure Endpoint Command'', ''Stop Endpoint Command'', ''No Op Command'', ''Transfer Event'', ''Command Completion Event'',
    ''Port Status Change Event'']"
  by code_simp

text \<open>The codes the driver treats as a success.\<close>

lemma success_names: "name_at completion_code_names 1 = Some ''Success''" "name_at completion_code_names 13 = Some ''Short Packet''"
  by code_simp+

end
