(* ===== verification/Xhci_Device.thy ===== *)
theory Xhci_Device
  imports Usb_Hid Array_Map Ring Trb_Names
begin

text \<open>
  A USB device on an xHCI controller: the class \<open>usb::Device\<close> (\<open>src/kernel/usb/device.cpp\<close>), its
  subclass \<open>usb::xhci::Device\<close> (\<open>src/kernel/usb/xhci/device.cpp\<close>), and the operations of the HID
  drivers that call it (\<open>src/kernel/usb/classdriver/hid.cpp\<close>).

  One record holds the members of both classes and the driver objects, found by their address.
  \<open>dev.ControlIn\<close> and the like are virtual and always go to the subclass. \<open>mem\<close> is the contents of
  the memory that the controller writes, when an event is handled. The sizes of objects are set
  by the compiler and are parameters.
\<close>

subsection \<open>Contexts\<close>

text \<open>The dwords of the contexts that the driver uses (\<open>usb/xhci/context.hpp\<close>).\<close>

record slot_context =
  sc0 :: u32
  sc1 :: u32

record endpoint_context =
  ec0 :: u32
  ec1 :: u32
  ec_dequeue :: u64
  ec4 :: u32

record input_context =
  drop_context_flags :: u32
  add_context_flags :: u32
  ic_slot_context :: slot_context
  ic_ep_contexts :: "endpoint_context list"

definition root_hub_port_num :: "slot_context \<Rightarrow> u32" where
  "root_hub_port_num c = bits_get 16 8 (sc1 c)"

definition slot_speed :: "slot_context \<Rightarrow> u32" where
  "slot_speed c = bits_get 20 4 (sc0 c)"

definition transfer_ring_buffer :: "endpoint_context \<Rightarrow> u64" where
  "transfer_ring_buffer c = push_bit 4 (bits_get 4 60 (ec_dequeue c))"

definition set_transfer_ring_buffer :: "u64 \<Rightarrow> endpoint_context \<Rightarrow> endpoint_context" where
  "set_transfer_ring_buffer p c = c\<lparr>ec_dequeue := bits_set 4 60 (drop_bit 4 p) (ec_dequeue c)\<rparr>"

text \<open>A device context index; the constructor with two arguments.\<close>

definition device_context_index :: "int \<Rightarrow> bool \<Rightarrow> int" where
  "device_context_index ep_num dir_in = 2 * ep_num + (if ep_num = 0 then 1 else of_bool dir_in)"

definition enable_slot_context :: "input_context \<Rightarrow> input_context" where
  "enable_slot_context c = c\<lparr>add_context_flags := add_context_flags c OR 1\<rparr>"

definition enable_endpoint :: "int \<Rightarrow> input_context \<Rightarrow> input_context" where
  "enable_endpoint dci c = c\<lparr>add_context_flags := add_context_flags c OR push_bit (nat dci) 1\<rparr>"

subsection \<open>The device\<close>

datatype device_state = kInvalid | kBlank | kSlotAssigning | kSlotAssigned

record xhci_device =
  dev_addr :: u64
  dev_slot_id :: u8
  dev_state :: device_state
  dev_context :: slot_context
  dev_input_context :: input_context
  transfer_rings :: "ring option list"
  setup_stage_map :: "(u64, u64) array_map"
  doorbells :: "u32 list"
  class_drivers :: "u64 option list"
  drivers :: "u64 \<rightharpoonup> hid_driver"
  num_configurations :: u8
  config_index :: u8
  is_initialized :: bool
  initialize_phase :: int
  ep_configs :: "endpoint_config list"
  num_ep_configs :: int
  event_waiters :: "(setup_data, u64) array_map"
  notified :: "notification list"

record usb_env =
  usb_pool :: u64
  sizeof_keyboard :: u64
  sizeof_mouse :: u64
  sizeof_ring :: u64
  sizeof_device :: u64
  hid_buf_offset :: u64
  dev_buf_offset :: u64
  dev_ctx_offset :: u64
  input_ctx_offset :: u64
  keyboard_default_observer :: "nat option"
  mouse_default_observer :: "nat option"

text \<open>The address of \<open>buf_\<close>, the 256 bytes that descriptors are received in.\<close>

definition dev_buf :: "usb_env \<Rightarrow> xhci_device \<Rightarrow> u64" where
  "dev_buf env dev = dev_addr dev + dev_buf_offset env"

definition dev_buf_size :: nat where
  "dev_buf_size = 256"

definition read_bytes :: "(u64 \<Rightarrow> u8) \<Rightarrow> u64 \<Rightarrow> nat \<Rightarrow> u8 list" where
  "read_bytes mem p n = map (\<lambda>i. mem (p + of_nat i)) [0..<n]"

text \<open>
  The bytes a data buffer pointer gives access to: only the device's own buffer is ever handed
  out for control transfers, and any other pointer gives none.
\<close>

definition data_bytes :: "usb_env \<Rightarrow> (u64 \<Rightarrow> u8) \<Rightarrow> xhci_device \<Rightarrow> u64 \<Rightarrow> u8 list" where
  "data_bytes env mem dev p = (if p = dev_buf env dev then read_bytes mem p dev_buf_size else [])"

definition select_for_slot_assignment :: "xhci_device \<Rightarrow> xhci_device" where
  "select_for_slot_assignment dev = dev\<lparr>dev_state := kSlotAssigning\<rparr>"

definition device_initialize :: "xhci_device \<Rightarrow> usb_error \<times> xhci_device" where
  "device_initialize dev = (kSuccess, dev\<lparr>dev_state := kBlank\<rparr>)"

text \<open>
  \<open>AllocTransferRing\<close>: the ring object and its buffer come from the pool. The result of
  \<open>Initialize\<close> is not looked at.
\<close>

definition blank_ring :: ring where
  "blank_ring = \<lparr>buf_addr = 0, buf = [], buf_size = 0, ring_cycle = False, write_index = 0\<rparr>"

definition alloc_transfer_ring ::
    "usb_env \<Rightarrow> int \<Rightarrow> nat \<Rightarrow> xhci_device \<Rightarrow> u64 \<Rightarrow> (ring option \<times> xhci_device \<times> u64) option" where
  "alloc_transfer_ring env dci n dev ap =
     (let i = dci - 1; (p, ap) = alloc_array (usb_pool env) (sizeof_ring env) 1 64 4096 ap;
          (tr, ap) = (if p \<noteq> 0 then let (e, r, ap) = ring_initialize (usb_pool env) n blank_ring ap in (Some r, ap) else (None, ap))
      in if 0 \<le> i \<and> nat i < length (transfer_rings dev)
         then Some (tr, dev\<lparr>transfer_rings := (transfer_rings dev)[nat i := tr]\<rparr>, ap) else None)"

definition ring_doorbell :: "int \<Rightarrow> xhci_device \<Rightarrow> xhci_device" where
  "ring_doorbell dci dev = dev\<lparr>doorbells := doorbells dev @ [doorbell_value (word_of_int dci) 0]\<rparr>"

subsection \<open>Transfers\<close>

text \<open>The entry of \<open>transfer_rings_\<close> for an index, undefined outside the array.\<close>

definition transfer_ring_at :: "xhci_device \<Rightarrow> int \<Rightarrow> ring option option" where
  "transfer_ring_at dev dci =
     (if 1 \<le> dci \<and> nat (dci - 1) < length (transfer_rings dev) then Some (transfer_rings dev ! nat (dci - 1)) else None)"

definition set_transfer_ring :: "int \<Rightarrow> ring \<Rightarrow> xhci_device \<Rightarrow> xhci_device" where
  "set_transfer_ring dci tr dev = dev\<lparr>transfer_rings := (transfer_rings dev)[nat (dci - 1) := Some tr]\<rparr>"

text \<open>\<open>usb::Device::ControlIn\<close> and \<open>ControlOut\<close>: remember who asked.\<close>

definition register_waiter :: "setup_data \<Rightarrow> u64 option \<Rightarrow> xhci_device \<Rightarrow> xhci_device" where
  "register_waiter setup issuer dev =
     (case issuer of None \<Rightarrow> dev | Some w \<Rightarrow> dev\<lparr>event_waiters := put (event_waiters dev) setup w\<rparr>)"

text \<open>\<open>interrupt_on_completion\<close> and \<open>direction\<close> are bit 5 and bit 16 of the last dword.\<close>

definition set_ioc :: "trb \<Rightarrow> trb" where
  "set_ioc t = set_trb3 5 1 1 t"

definition status_stage :: "bool \<Rightarrow> bool \<Rightarrow> trb" where
  "status_stage direction ioc =
     (let t = set_trb3 16 1 (of_bool direction) status_stage_trb in if ioc then set_ioc t else t)"

definition control_in ::
    "endpoint_id \<Rightarrow> setup_data \<Rightarrow> u64 \<Rightarrow> int \<Rightarrow> u64 option \<Rightarrow> xhci_device \<Rightarrow> (usb_error \<times> xhci_device) option" where
  "control_in ep setup buffer len issuer dev =
     (let dev = register_waiter setup issuer dev; dci = ep_address ep
      in if ep_number ep < 0 \<or> 15 < ep_number ep then Some (kInvalidEndpointNumber, dev)
         else do {
           tr \<leftarrow> transfer_ring_at dev dci;
           case tr of
             None \<Rightarrow> Some (kTransferRingNotSet, dev)
           | Some tr \<Rightarrow>
               let (position, setup_position, tr) =
                 (if buffer \<noteq> 0 then
                    let (sp, tr) = push (make_setup_stage_trb setup 3) tr;
                        (dp, tr) = push (set_ioc (make_data_stage_trb buffer (word_of_int len) True)) tr;
                        (_, tr) = push (status_stage False False) tr
                    in (dp, sp, tr)
                  else
                    let (sp, tr) = push (make_setup_stage_trb setup 0) tr;
                        (tp, tr) = push (status_stage True True) tr
                    in (tp, sp, tr));
                   dev = set_transfer_ring dci tr dev;
                   dev = dev\<lparr>setup_stage_map := put (setup_stage_map dev) position setup_position\<rparr>
               in Some (kSuccess, ring_doorbell dci dev) })"

definition control_out ::
    "endpoint_id \<Rightarrow> setup_data \<Rightarrow> u64 \<Rightarrow> int \<Rightarrow> u64 option \<Rightarrow> xhci_device \<Rightarrow> (usb_error \<times> xhci_device) option" where
  "control_out ep setup buffer len issuer dev =
     (let dev = register_waiter setup issuer dev; dci = ep_address ep
      in if ep_number ep < 0 \<or> 15 < ep_number ep then Some (kInvalidEndpointNumber, dev)
         else do {
           tr \<leftarrow> transfer_ring_at dev dci;
           case tr of
             None \<Rightarrow> Some (kTransferRingNotSet, dev)
           | Some tr \<Rightarrow>
               let (position, setup_position, tr) =
                 (if buffer \<noteq> 0 then
                    let (sp, tr) = push (make_setup_stage_trb setup 2) tr;
                        (dp, tr) = push (set_ioc (make_data_stage_trb buffer (word_of_int len) False)) tr;
                        (_, tr) = push (status_stage True False) tr
                    in (dp, sp, tr)
                  else
                    let (sp, tr) = push (make_setup_stage_trb setup 0) tr;
                        (tp, tr) = push (status_stage True True) tr
                    in (tp, sp, tr));
                   dev = set_transfer_ring dci tr dev;
                   dev = dev\<lparr>setup_stage_map := put (setup_stage_map dev) position setup_position\<rparr>
               in Some (kSuccess, ring_doorbell dci dev) })"

definition make_normal_trb :: "u64 \<Rightarrow> int \<Rightarrow> trb" where
  "make_normal_trb buffer len =
     (let t = normal_set_pointer buffer normal_trb;
          t = t\<lparr>trb2 := bits_set 0 17 (word_of_int len) (trb2 t)\<rparr>;
          t = set_trb3 2 1 1 t
      in set_ioc t)"

definition interrupt_in :: "endpoint_id \<Rightarrow> u64 \<Rightarrow> int \<Rightarrow> xhci_device \<Rightarrow> (usb_error \<times> xhci_device) option" where
  "interrupt_in ep buffer len dev =
     (let dci = ep_address ep
      in do {
        tr \<leftarrow> transfer_ring_at dev dci;
        case tr of
          None \<Rightarrow> Some (kTransferRingNotSet, dev)
        | Some tr \<Rightarrow>
            let (_, tr) = push (make_normal_trb buffer len) tr
            in Some (kSuccess, ring_doorbell dci (set_transfer_ring dci tr dev)) })"

definition interrupt_out :: "endpoint_id \<Rightarrow> u64 \<Rightarrow> int \<Rightarrow> xhci_device \<Rightarrow> usb_error \<times> xhci_device" where
  "interrupt_out ep buffer len dev = (kNotImplemented, dev)"

subsection \<open>Standard requests\<close>

definition get_descriptor ::
    "endpoint_id \<Rightarrow> u8 \<Rightarrow> u8 \<Rightarrow> u64 \<Rightarrow> int \<Rightarrow> xhci_device \<Rightarrow> (usb_error \<times> xhci_device) option" where
  "get_descriptor ep desc_type desc_index buffer len dev =
     (let setup = \<lparr>sd_request_type = make_request_type 1 0 0, sd_request = 6,
            sd_value = push_bit 8 (ucast desc_type) OR ucast desc_index, sd_index = 0, sd_length = word_of_int len\<rparr>
      in control_in ep setup buffer len None dev)"

definition set_configuration :: "endpoint_id \<Rightarrow> u8 \<Rightarrow> xhci_device \<Rightarrow> (usb_error \<times> xhci_device) option" where
  "set_configuration ep config_value dev =
     (let setup = \<lparr>sd_request_type = make_request_type 0 0 0, sd_request = 9, sd_value = ucast config_value,
            sd_index = 0, sd_length = 0\<rparr>
      in control_out ep setup 0 0 None dev)"

subsection \<open>HID drivers and their device\<close>

definition hid_on_endpoints_configured :: "u64 \<Rightarrow> xhci_device \<Rightarrow> (usb_error \<times> xhci_device) option" where
  "hid_on_endpoints_configured w dev = do {
     d \<leftarrow> drivers dev w;
     let setup = \<lparr>sd_request_type = make_request_type 0 1 1, sd_request = 11, sd_value = 0,
           sd_index = word_of_int (interface_index d), sd_length = 0\<rparr>;
         dev = dev\<lparr>drivers := (drivers dev)(w \<mapsto> d\<lparr>hid_phase := 1\<rparr>)\<rparr>
     in control_out kDefaultControlPipeID setup 0 0 (Some w) dev }"

definition hid_on_control_completed :: "u64 \<Rightarrow> xhci_device \<Rightarrow> (usb_error \<times> xhci_device) option" where
  "hid_on_control_completed w dev = do {
     d \<leftarrow> drivers dev w;
     if hid_phase d = 1 then
       interrupt_in (ep_interrupt_in d) (hid_buf d) (in_packet_size d) (dev\<lparr>drivers := (drivers dev)(w \<mapsto> d\<lparr>hid_phase := 2\<rparr>)\<rparr>)
     else Some (kNotImplemented, dev) }"

definition hid_on_interrupt_completed ::
    "(u64 \<Rightarrow> u8) \<Rightarrow> u64 \<Rightarrow> endpoint_id \<Rightarrow> int \<Rightarrow> xhci_device \<Rightarrow> (usb_error \<times> xhci_device) option" where
  "hid_on_interrupt_completed mem w ep len dev = do {
     d \<leftarrow> drivers dev w;
     if ep_is_in ep then do {
       (calls, d') \<leftarrow> receive_report (read_bytes mem (hid_buf d) kBufferSize) len d;
       interrupt_in (ep_interrupt_in d) (hid_buf d) (in_packet_size d)
         (dev\<lparr>drivers := (drivers dev)(w \<mapsto> d'), notified := notified dev @ calls\<rparr>) }
     else Some (kNotImplemented, dev) }"

subsection \<open>Initialisation of a device\<close>

definition start_initialize :: "usb_env \<Rightarrow> xhci_device \<Rightarrow> (usb_error \<times> xhci_device) option" where
  "start_initialize env dev =
     get_descriptor kDefaultControlPipeID device_descriptor_type 0 (dev_buf env dev) (int dev_buf_size)
       (dev\<lparr>is_initialized := False, initialize_phase := 1\<rparr>)"

text \<open>
  \<open>NewClassDriver\<close> for an interface that has a driver. \<open>operator new\<close> takes the object from the
  pool; the constructor has no defined effect when there is no room.
\<close>

definition default_observer :: "usb_env \<Rightarrow> hid_kind \<Rightarrow> nat option" where
  "default_observer env k = (case k of Keyboard \<Rightarrow> keyboard_default_observer env | Mouse \<Rightarrow> mouse_default_observer env)"

definition sizeof_driver :: "usb_env \<Rightarrow> hid_kind \<Rightarrow> u64" where
  "sizeof_driver env k = (case k of Keyboard \<Rightarrow> sizeof_keyboard env | Mouse \<Rightarrow> sizeof_mouse env)"

definition new_class_driver :: "usb_env \<Rightarrow> hid_kind \<Rightarrow> u8 \<Rightarrow> u64 \<Rightarrow> (u64 \<times> hid_driver \<times> u64) option" where
  "new_class_driver env k ifc ap =
     (let (p, ap) = alloc_mem (usb_pool env) (sizeof_driver env k) 0 0 ap;
          d = new_hid_driver k ifc (p + hid_buf_offset env)
      in if p = 0 then None
         else case default_observer env k of
           None \<Rightarrow> Some (p, d, ap)
         | Some ob \<Rightarrow> do { d \<leftarrow> subscribe ob d; Some (p, d, ap) })"

definition initialize_phase1 :: "usb_env \<Rightarrow> u8 list \<Rightarrow> xhci_device \<Rightarrow> (usb_error \<times> xhci_device) option" where
  "initialize_phase1 env buf8 dev = do {
     n \<leftarrow> num_configurations_at buf8 0;
     get_descriptor kDefaultControlPipeID configuration_descriptor_type 0 (dev_buf env dev) (int dev_buf_size)
       (dev\<lparr>num_configurations := n, config_index := 0, initialize_phase := 2\<rparr>) }"

definition initialize_phase2 ::
    "usb_env \<Rightarrow> u8 list \<Rightarrow> int \<Rightarrow> xhci_device \<Rightarrow> u64 \<Rightarrow> (usb_error \<times> xhci_device \<times> u64) option" where
  "initialize_phase2 env buf8 len dev ap = do {
     conf_desc \<leftarrow> descriptor_dynamic_cast configuration_descriptor_type buf8 0;
     if \<not> conf_desc then Some (kInvalidDescriptor, dev, ap)
     else do {
       (found, r) \<leftarrow> find_interface (new_config_reader buf8 len);
       case found of
         None \<Rightarrow> Some (kSuccess, dev, ap)
       | Some (if_desc, k) \<Rightarrow> do {
           (w, d, ap) \<leftarrow> new_class_driver env k (interface_number if_desc) ap;
           (_, t) \<leftarrow> read_endpoints (num_endpoints if_desc) w r
             \<lparr>et_configs = ep_configs dev, et_num = 0, et_drivers = class_drivers dev\<rparr>;
           config_value \<leftarrow> configuration_value_at buf8 0;
           (e, dev) \<leftarrow> set_configuration kDefaultControlPipeID config_value
             (dev\<lparr>drivers := (drivers dev)(w \<mapsto> d), ep_configs := et_configs t, num_ep_configs := int (et_num t),
                class_drivers := et_drivers t, initialize_phase := 3\<rparr>);
           Some (e, dev, ap) } } }"

text \<open>The loop of \<open>InitializePhase3\<close> over the endpoints.\<close>

primrec set_endpoints :: "endpoint_config list \<Rightarrow> xhci_device \<Rightarrow> xhci_device option" where
  "set_endpoints [] dev = Some dev"
| "set_endpoints (c # cs) dev =
     (let i = nat (ep_number (ep_id c))
      in if i < length (class_drivers dev) then do {
           w \<leftarrow> class_drivers dev ! i;
           d \<leftarrow> drivers dev w;
           set_endpoints cs (dev\<lparr>drivers := (drivers dev)(w \<mapsto> set_endpoint c d)\<rparr>) }
         else None)"

definition initialize_phase3 :: "u8 \<Rightarrow> xhci_device \<Rightarrow> (usb_error \<times> xhci_device) option" where
  "initialize_phase3 config_value dev = do {
     dev \<leftarrow> set_endpoints (take (nat (num_ep_configs dev)) (ep_configs dev)) dev;
     Some (kSuccess, dev\<lparr>initialize_phase := 4, is_initialized := True\<rparr>) }"

text \<open>An operation that leaves the allocator alone.\<close>

definition keep_alloc :: "u64 \<Rightarrow> (usb_error \<times> xhci_device) option \<Rightarrow> (usb_error \<times> xhci_device \<times> u64) option" where
  "keep_alloc ap res = map_option (\<lambda>(e, dev). (e, dev, ap)) res"

definition on_control_completed ::
    "usb_env \<Rightarrow> (u64 \<Rightarrow> u8) \<Rightarrow> endpoint_id \<Rightarrow> setup_data \<Rightarrow> u64 \<Rightarrow> int \<Rightarrow> xhci_device \<Rightarrow> u64
       \<Rightarrow> (usb_error \<times> xhci_device \<times> u64) option" where
  "on_control_completed env mem ep setup buffer len dev ap =
     (let buf8 = data_bytes env mem dev buffer
      in if is_initialized dev then
           case get (event_waiters dev) setup of
             Some w \<Rightarrow> keep_alloc ap (hid_on_control_completed w dev)
           | None \<Rightarrow> Some (kNoWaiter, dev, ap)
         else if initialize_phase dev = 1 then
           if sd_request setup = 6 then do {
             d \<leftarrow> descriptor_dynamic_cast device_descriptor_type buf8 0;
             if d then keep_alloc ap (initialize_phase1 env buf8 dev) else Some (kInvalidPhase, dev, ap) }
           else Some (kInvalidPhase, dev, ap)
         else if initialize_phase dev = 2 then
           if sd_request setup = 6 then do {
             d \<leftarrow> descriptor_dynamic_cast configuration_descriptor_type buf8 0;
             if d then initialize_phase2 env buf8 len dev ap else Some (kInvalidPhase, dev, ap) }
           else Some (kInvalidPhase, dev, ap)
         else if initialize_phase dev = 3 then
           if sd_request setup = 9 then keep_alloc ap (initialize_phase3 (ucast (sd_value setup)) dev)
           else Some (kInvalidPhase, dev, ap)
         else Some (kNotImplemented, dev, ap))"

definition on_interrupt_completed ::
    "(u64 \<Rightarrow> u8) \<Rightarrow> endpoint_id \<Rightarrow> int \<Rightarrow> xhci_device \<Rightarrow> (usb_error \<times> xhci_device) option" where
  "on_interrupt_completed mem ep len dev =
     (let i = ep_number ep
      in if 0 \<le> i \<and> nat i < length (class_drivers dev) then
           case class_drivers dev ! nat i of
             Some w \<Rightarrow> hid_on_interrupt_completed mem w ep len dev
           | None \<Rightarrow> Some (kNoWaiter, dev)
         else None)"

text \<open>\<open>usb::Device::OnEndpointsConfigured\<close>: every entry of \<open>class_drivers_\<close>, until one reports an error.\<close>

primrec configured_loop :: "u64 option list \<Rightarrow> xhci_device \<Rightarrow> (usb_error \<times> xhci_device) option" where
  "configured_loop [] dev = Some (kSuccess, dev)"
| "configured_loop (w # ws) dev =
     (case w of
        None \<Rightarrow> configured_loop ws dev
      | Some w \<Rightarrow> do {
          (e, dev) \<leftarrow> hid_on_endpoints_configured w dev;
          if usb_failed e then Some (e, dev) else configured_loop ws dev })"

definition on_endpoints_configured :: "xhci_device \<Rightarrow> (usb_error \<times> xhci_device) option" where
  "on_endpoints_configured dev = configured_loop (class_drivers dev) dev"

subsection \<open>Transfer events\<close>

text \<open>Reading a TRB through a pointer: it has to be in the buffer of one of the transfer rings.\<close>

definition ring_trb :: "ring \<Rightarrow> u64 \<Rightarrow> trb option" where
  "ring_trb r p =
     (if buf_addr r \<le> p \<and> unat (p - buf_addr r) mod 16 = 0 \<and> unat (p - buf_addr r) div 16 < length (buf r)
      then Some (buf r ! (unat (p - buf_addr r) div 16)) else None)"

fun trb_deref :: "ring option list \<Rightarrow> u64 \<Rightarrow> trb option" where
  "trb_deref [] p = None"
| "trb_deref (None # rs) p = trb_deref rs p"
| "trb_deref (Some r # rs) p = (case ring_trb r p of None \<Rightarrow> trb_deref rs p | Some t \<Rightarrow> Some t)"

text \<open>The length that was transferred: unsigned 32-bit subtraction, passed on as an \<open>int\<close>.\<close>

definition transferred :: "trb \<Rightarrow> trb \<Rightarrow> int" where
  "transferred issuer event = sint (trb_transfer_length issuer - residual_length event)"

text \<open>
  \<open>Log(kDebug, trb)\<close> for a transfer event: the names it looks up, of the TRB the event points to and of the completion
  code.
\<close>

definition log_transfer_event :: "trb \<Rightarrow> xhci_device \<Rightarrow> (string option \<times> string) option" where
  "log_transfer_event event dev =
     (if event_data event then do {
        code \<leftarrow> name_at completion_code_names (unat (completion_code event));
        Some (None, code) }
      else do {
        issuer \<leftarrow> trb_deref (transfer_rings dev) (event_pointer event);
        name \<leftarrow> name_at trb_type_names (unat (trb_type issuer));
        code \<leftarrow> name_at completion_code_names (unat (completion_code event));
        Some (Some name, code) })"

definition on_transfer_event_received ::
    "usb_env \<Rightarrow> (u64 \<Rightarrow> u8) \<Rightarrow> trb \<Rightarrow> xhci_device \<Rightarrow> u64 \<Rightarrow> (usb_error \<times> xhci_device \<times> u64) option" where
  "on_transfer_event_received env mem event dev ap =
     (if completion_code event \<noteq> 1 \<and> completion_code event \<noteq> 13 then do {
        _ \<leftarrow> log_transfer_event event dev;
        Some (kTransferFailed, dev, ap) }
      else
        let issuer_ptr = event_pointer event
        in do {
          _ \<leftarrow> log_transfer_event event dev;
          issuer \<leftarrow> trb_deref (transfer_rings dev) issuer_ptr;
          if trb_type issuer = normal_trb_type then
            keep_alloc ap (on_interrupt_completed mem (trb_endpoint_id event) (transferred issuer event) dev)
          else
            case get (setup_stage_map dev) issuer_ptr of
              None \<Rightarrow> Some (kNoCorrespondingSetupStage, dev, ap)
            | Some setup_ptr \<Rightarrow>
                let dev = dev\<lparr>setup_stage_map := delete (setup_stage_map dev) issuer_ptr\<rparr>
                in do {
                  setup_trb \<leftarrow> trb_deref (transfer_rings dev) setup_ptr;
                  let setup = setup_data_of setup_trb
                  in if trb_type issuer = data_stage_trb_type then
                       on_control_completed env mem (trb_endpoint_id event) setup (data_pointer issuer) (transferred issuer event) dev ap
                     else if trb_type issuer = status_stage_trb_type then
                       on_control_completed env mem (trb_endpoint_id event) setup 0 0 dev ap
                     else Some (kNotImplemented, dev, ap) } })"

text \<open>
  The message finds its names exactly for completion codes up to 36 and, unless the event carries data, for pointers to TRBs of
  the device: an event of a failed transfer with one of the codes 192 to 255, which vendors may define, makes the driver read outside the
  table.
\<close>

lemma log_transfer_event_defined:
  "log_transfer_event event dev \<noteq> None \<longleftrightarrow>
     unat (completion_code event) < 37 \<and> (event_data event \<or> trb_deref (transfer_rings dev) (event_pointer event) \<noteq> None)"
  by (auto simp: log_transfer_event_def bind_eq_Some_conv trb_type_name completion_code_name[symmetric])

lemma failed_transfer_event:
  assumes "completion_code event \<noteq> 1" and "completion_code event \<noteq> 13"
  shows "on_transfer_event_received env mem event dev ap =
    (if unat (completion_code event) < 37 \<and> (event_data event \<or> trb_deref (transfer_rings dev) (event_pointer event) \<noteq> None)
     then Some (kTransferFailed, dev, ap) else None)"
  using assms log_transfer_event_defined[of event dev]
  by (cases "log_transfer_event event dev") (simp_all add: on_transfer_event_received_def)

lemma succeeded_transfer_logged:
  assumes "completion_code event = 1 \<or> completion_code event = 13" and "trb_deref (transfer_rings dev) (event_pointer event) = Some t"
  shows "\<exists>r. log_transfer_event event dev = Some r"
proof -
  have "log_transfer_event event dev \<noteq> None" unfolding log_transfer_event_defined using assms by auto
  then show ?thesis by blast
qed

end
