(* ===== verification/Control_Transfers.thy ===== *)
theory Control_Transfers
  imports Xhci_Device
begin

text \<open>
  Control transfers end to end: a request that the driver puts on a transfer ring, and the event
  by which the controller reports its completion. The event names only the TRB that completed;
  the driver has to find the request it belongs to.
\<close>

subsection \<open>The memory of a ring\<close>

definition ring_slot :: "ring \<Rightarrow> nat \<Rightarrow> u64" where
  "ring_slot r i = buf_addr r + trb_bytes * of_nat i"

definition ring_placed :: "ring \<Rightarrow> bool" where
  "ring_placed r \<longleftrightarrow> unat (buf_addr r) + 16 * buf_size r < 2 ^ 64"

definition next_slot :: "ring \<Rightarrow> nat" where
  "next_slot r = (if write_index r + 1 = buf_size r - 1 then 0 else write_index r + 1)"

lemma ring_trb_slot:
  assumes "ring_placed r" and "length (buf r) = buf_size r" and "i < buf_size r"
  shows "ring_trb r (ring_slot r i) = Some (buf r ! i)"
proof -
  have "16 * i < 2 ^ 64" using assms by (simp add: ring_placed_def)
  then have m: "unat (16 * of_nat i :: u64) = 16 * i"
    using unat_of_nat_eq[of "16 * i", where ?'a = 64] by simp
  have "unat (buf_addr r) + 16 * i < 2 ^ 64" using assms by (simp add: ring_placed_def)
  then have "buf_addr r \<le> ring_slot r i"
    using m unat_plus_eq[of "buf_addr r" "16 * of_nat i"] by (simp add: ring_slot_def trb_bytes_def word_le_nat_alt)
  with m show ?thesis using assms by (simp add: ring_trb_def ring_slot_def trb_bytes_def)
qed

lemma push_facts:
  assumes "ring_ok r" and "not_link t" and "push t r = (p, r')"
  shows "p = ring_slot r (write_index r)" and "ring_ok r'" and "buf_addr r' = buf_addr r" and "buf_size r' = buf_size r"
    and "write_index r' = next_slot r" and "buf r' ! write_index r = with_cycle (ring_cycle r) t"
    and "\<And>j. j < buf_size r - 1 \<Longrightarrow> j \<noteq> write_index r \<Longrightarrow> buf r' ! j = buf r ! j"
proof -
  show "p = ring_slot r (write_index r)"
    using assms(3) by (auto simp: push_def ring_slot_def copy_to_last_def Let_def split: if_splits)
  have r': "r' = snd (push t r)" using assms(3) by simp
  show "ring_ok r'" unfolding r' by (rule push_ring_ok[OF assms(1,2)])
  have w: "write_index r < length (buf r)" "write_index r \<noteq> buf_size r - 1" using assms(1) by (auto simp: ring_ok_def)
  show "buf_addr r' = buf_addr r" "buf_size r' = buf_size r" "write_index r' = next_slot r"
      "buf r' ! write_index r = with_cycle (ring_cycle r) t"
      "\<And>j. j < buf_size r - 1 \<Longrightarrow> j \<noteq> write_index r \<Longrightarrow> buf r' ! j = buf r ! j"
    unfolding r' by (cases rule: push_cases[OF assms(1), of t]; simp add: next_slot_def w nth_list_update)+
qed

subsection \<open>Requests\<close>

text \<open>\<open>ControlIn\<close> and \<open>ControlOut\<close> differ in the direction of the data and status stages only.\<close>

definition control :: "bool \<Rightarrow> endpoint_id \<Rightarrow> setup_data \<Rightarrow> u64 \<Rightarrow> int \<Rightarrow> u64 option \<Rightarrow> xhci_device \<Rightarrow> (usb_error \<times> xhci_device) option" where
  "control dir_in = (if dir_in then control_in else control_out)"

definition data_trb :: "bool \<Rightarrow> u64 \<Rightarrow> int \<Rightarrow> trb" where
  "data_trb dir_in buffer len = set_ioc (make_data_stage_trb buffer (word_of_int len) dir_in)"

definition setup_trb :: "bool \<Rightarrow> setup_data \<Rightarrow> u64 \<Rightarrow> trb" where
  "setup_trb dir_in setup buffer = make_setup_stage_trb setup (if buffer = 0 then 0 else if dir_in then 3 else 2)"

text \<open>The TRB whose completion is reported.\<close>

definition last_trb :: "bool \<Rightarrow> u64 \<Rightarrow> int \<Rightarrow> trb" where
  "last_trb dir_in buffer len = (if buffer = 0 then status_stage True True else data_trb dir_in buffer len)"

definition push_request :: "bool \<Rightarrow> setup_data \<Rightarrow> u64 \<Rightarrow> int \<Rightarrow> ring \<Rightarrow> u64 \<times> u64 \<times> ring" where
  "push_request dir_in setup buffer len tr =
     (let (sp, tr) = push (setup_trb dir_in setup buffer) tr;
          (p, tr) = push (last_trb dir_in buffer len) tr
      in (p, sp, if buffer = 0 then tr else snd (push (status_stage (\<not> dir_in) False) tr)))"

lemma control_default_pipe:
  assumes "transfer_rings dev = Some tr # rs" and "push_request dir_in setup buffer len tr = (p, sp, tr')"
  shows "control dir_in kDefaultControlPipeID setup buffer len issuer dev =
    Some (kSuccess, ring_doorbell 1 ((register_waiter setup issuer dev)
      \<lparr>transfer_rings := Some tr' # rs, setup_stage_map := put (setup_stage_map dev) p sp\<rparr>))"
proof -
  have "ep_address kDefaultControlPipeID = 1" "ep_number kDefaultControlPipeID = 0"
    by (simp_all add: kDefaultControlPipeID_def endpoint_address endpoint_id_parts)
  moreover have "transfer_rings (register_waiter setup issuer dev) = Some tr # rs"
      "setup_stage_map (register_waiter setup issuer dev) = setup_stage_map dev"
    using assms(1) by (simp_all add: register_waiter_def split: option.splits)
  ultimately show ?thesis using assms(2)
    by (auto simp: control_def control_in_def control_out_def push_request_def transfer_ring_at_def set_transfer_ring_def
        setup_trb_def last_trb_def data_trb_def Let_def split: prod.splits if_splits)
qed

lemma set_ioc_fields [simp]:
  "trb_type (set_ioc t) = trb_type t" "parameter (set_ioc t) = parameter t" "trb_transfer_length (set_ioc t) = trb_transfer_length t"
  by (simp_all add: set_ioc_def set_trb3_def trb_type_def parameter_def trb_transfer_length_def field_simps_bits)

lemma trb_types:
  "trb_type (setup_trb d s b) = setup_stage_trb_type" "trb_type (data_trb d b l) = data_stage_trb_type"
  "trb_type (status_stage d i) = status_stage_trb_type"
  by (simp_all add: setup_trb_def data_trb_def make_setup_stage_trb_def make_data_stage_trb_def setup_stage_trb_def data_stage_trb_def
      status_stage_def status_stage_trb_def set_trb3_def new_trb_def trb_type_def data_set_pointer_def set_parameter_def Let_def
      field_simps_bits setup_stage_trb_type_def data_stage_trb_type_def status_stage_trb_type_def set_ioc_def)

lemmas stage_type_defs = setup_stage_trb_type_def data_stage_trb_type_def status_stage_trb_type_def link_trb_type_def normal_trb_type_def

lemma request_not_link: "not_link (setup_trb d s b)" "not_link (last_trb d b l)" "not_link (status_stage d i)"
  by (simp_all add: not_link_def last_trb_def trb_types stage_type_defs)

lemma setup_trb_data: "setup_data_of (with_cycle c (setup_trb d s b)) = s"
proof -
  have "setup_data_of (with_cycle c t) = setup_data_of t" for t by (simp add: setup_data_of_def with_cycle_def)
  then show ?thesis using setup_stage_fields[of s] by (simp add: setup_trb_def Let_def)
qed

lemma data_trb_fields:
  assumes "0 \<le> len" and "len < 2 ^ 17"
  shows "data_pointer (data_trb d b len) = b" and "trb_transfer_length (data_trb d b len) = word_of_int len"
proof -
  have "parameter (set_trb3 k n v t) = parameter t" "trb_transfer_length (set_trb3 k n v t) = trb_transfer_length t" for k n v t
    by (simp_all add: set_trb3_def parameter_def trb_transfer_length_def)
  moreover have "parameter (t\<lparr>trb2 := x\<rparr>) = parameter t" for t x by (simp add: parameter_def)
  ultimately show "data_pointer (data_trb d b len) = b"
    by (simp add: data_trb_def data_pointer_def make_data_stage_trb_def data_set_pointer_def Let_def)
  have "take_bit 17 (word_of_int len :: u32) = word_of_int len"
    using assms by (simp add: take_bit_of_int take_bit_int_eq_self)
  then show "trb_transfer_length (data_trb d b len) = word_of_int len"
    by (simp add: data_trb_def make_data_stage_trb_def Let_def trb_transfer_length_def set_trb3_def field_simps_bits)
       (simp add: set_ioc_def set_trb3_def field_simps_bits)
qed

text \<open>Where the request is on the ring.\<close>

lemma push_request_placed:
  assumes ok: "ring_ok tr" "ring_placed tr" "4 \<le> buf_size tr" and req: "push_request dir_in setup buffer len tr = (p, sp, tr')"
  shows "p = ring_slot tr (next_slot tr)" and "ring_ok tr'" and "ring_placed tr'"
    and "\<exists>c. ring_trb tr' sp = Some (with_cycle c (setup_trb dir_in setup buffer))"
    and "\<exists>c. ring_trb tr' p = Some (with_cycle c (last_trb dir_in buffer len))"
proof -
  obtain tr1 where s1: "push (setup_trb dir_in setup buffer) tr = (sp, tr1)"
    using req by (auto simp: push_request_def split: prod.splits)
  obtain tr2 where s2: "push (last_trb dir_in buffer len) tr1 = (p, tr2)"
    using req s1 by (auto simp: push_request_def split: prod.splits)
  obtain q tr3 where s3: "push (status_stage (\<not> dir_in) False) tr2 = (q, tr3)" by force
  have tr': "tr' = (if buffer = 0 then tr2 else tr3)" using req s1 s2 s3 by (auto simp: push_request_def)
  note f1 = push_facts[OF ok(1) request_not_link(1) s1]
  note f2 = push_facts[OF f1(2) request_not_link(2) s2]
  note f3 = push_facts[OF f2(2) request_not_link(3) s3]
  let ?i = "write_index tr" and ?j = "next_slot tr" and ?n = "buf_size tr"
  have ix: "?i < ?n - 1" "?j < ?n - 1" "?i \<noteq> ?j" "next_slot tr1 \<noteq> ?i" "next_slot tr1 \<noteq> ?j"
    using ok f1(4,5) by (auto simp: ring_ok_def next_slot_def)
  have wi: "write_index tr1 = ?j" "write_index tr2 = next_slot tr1" using f1(5) f2(5) by simp_all
  have sizes: "buf_size tr1 = ?n" "buf_size tr2 = ?n" "buf_size tr3 = ?n" using f1(4) f2(4) f3(4) by simp_all
  have addr: "buf_addr tr' = buf_addr tr" "buf_size tr' = ?n" using f1(3,4) f2(3,4) f3(3,4) by (simp_all add: tr')
  show slot: "p = ring_slot tr ?j" using f2(1) f1(3) wi by (simp add: ring_slot_def)
  show ok': "ring_ok tr'" using f2(2) f3(2) by (simp add: tr')
  show placed': "ring_placed tr'" using ok(2) addr by (simp add: ring_placed_def)
  have len': "length (buf tr') = ?n" using ok' addr by (simp add: ring_ok_def)
  have read: "ring_trb tr' (ring_slot tr k) = Some (buf tr' ! k)" if "k < ?n - 1" for k
    using ring_trb_slot[OF placed', of k] len' addr that by (simp add: ring_slot_def)
  have "buf tr2 ! ?i = with_cycle (ring_cycle tr) (setup_trb dir_in setup buffer)"
    using f1(6) f2(7)[of ?i] ix wi sizes by simp
  moreover have "buf tr2 ! ?j = with_cycle (ring_cycle tr1) (last_trb dir_in buffer len)" using f2(6) wi by simp
  moreover have "buf tr3 ! ?i = buf tr2 ! ?i" "buf tr3 ! ?j = buf tr2 ! ?j"
    using f3(7)[of ?i] f3(7)[of ?j] ix wi sizes by simp_all
  ultimately have "buf tr' ! ?i = with_cycle (ring_cycle tr) (setup_trb dir_in setup buffer)"
      "buf tr' ! ?j = with_cycle (ring_cycle tr1) (last_trb dir_in buffer len)" by (simp_all add: tr')
  with read[of ?i] read[of ?j] ix f1(1) slot
  show "\<exists>c. ring_trb tr' sp = Some (with_cycle c (setup_trb dir_in setup buffer))"
    and "\<exists>c. ring_trb tr' p = Some (with_cycle c (last_trb dir_in buffer len))" by auto
qed

subsection \<open>Completion\<close>

lemma event_finds_request:
  assumes rings: "transfer_rings dev = Some tr # rs" and event: "completion_code event = 1 \<or> completion_code event = 13" "event_pointer event = p"
    and issuer: "ring_trb tr p = Some (with_cycle c (last_trb dir_in buffer len))"
    and first: "ring_trb tr sp = Some (with_cycle c' (setup_trb dir_in setup buffer))"
    and map: "get (setup_stage_map dev) p = Some sp" and len: "0 \<le> len" "len < 2 ^ 17"
  shows "on_transfer_event_received env mem event dev ap =
    on_control_completed env mem (trb_endpoint_id event) setup buffer
      (if buffer = 0 then 0 else sint (word_of_int len - residual_length event))
      (dev\<lparr>setup_stage_map := delete (setup_stage_map dev) p\<rparr>) ap"
proof -
  have cycle: "trb_transfer_length (with_cycle c t) = trb_transfer_length t" "data_pointer (with_cycle c t) = data_pointer t" for t
    by (simp_all add: trb_transfer_length_def with_cycle_def data_pointer_def parameter_def)
  have guard: "\<not> (completion_code event \<noteq> 1 \<and> completion_code event \<noteq> 13)" using event(1) by simp
  have "trb_deref (transfer_rings dev) (event_pointer event) = Some (with_cycle c (last_trb dir_in buffer len))"
    using rings event(2) issuer by simp
  then obtain r where log: "log_transfer_event event dev = Some r" using succeeded_transfer_logged[OF event(1)] by blast
  show ?thesis
  proof (cases "buffer = 0")
    case True
    then show ?thesis unfolding on_transfer_event_received_def if_not_P[OF guard] using log rings event(2) issuer first map
      by (simp add: last_trb_def trb_types stage_type_defs setup_trb_data)
  next
    case False
    then show ?thesis unfolding on_transfer_event_received_def if_not_P[OF guard] using log rings event(2) issuer first map
      by (simp add: last_trb_def trb_types stage_type_defs setup_trb_data transferred_def cycle
          data_trb_fields[OF len])
  qed
qed

text \<open>Claim C28.
  A control transfer on the default pipe completes as the request it was. The request goes onto the ring, with or
  without data and in either direction; when the controller then reports success or a short packet for the TRB that
  ends it, the driver handles the completion of exactly this request: its setup packet, its buffer, and the
  length without the residual length of the event. The entry of the setup stage map is gone afterwards, and all
  others are as before. The ring needs room for the three TRBs, also when they wrap around its end.
\<close>

theorem control_transfer_completes:
  assumes ring: "transfer_rings dev = Some tr # rs" "ring_ok tr" "ring_placed tr" "4 \<le> buf_size tr"
    and map: "map_ok (setup_stage_map dev)" "0 < free_slots (setup_stage_map dev)"
      "get (setup_stage_map dev) (ring_slot tr (next_slot tr)) = None"
    and len: "0 \<le> len" "len < 2 ^ 17"
  shows "\<exists>dev1. control dir_in kDefaultControlPipeID setup buffer len issuer dev = Some (kSuccess, dev1) \<and>
    (\<forall>event env mem ap. (completion_code event = 1 \<or> completion_code event = 13) \<and> event_pointer event = ring_slot tr (next_slot tr) \<longrightarrow>
      (\<exists>stages. get stages = get (setup_stage_map dev) \<and> free_slots stages = free_slots (setup_stage_map dev) \<and>
        on_transfer_event_received env mem event dev1 ap =
        on_control_completed env mem (trb_endpoint_id event) setup buffer
          (if buffer = 0 then 0 else sint (word_of_int len - residual_length event)) (dev1\<lparr>setup_stage_map := stages\<rparr>) ap))"
proof -
  obtain p sp tr' where req: "push_request dir_in setup buffer len tr = (p, sp, tr')" by (metis prod_cases3)
  note placed = push_request_placed[OF ring(2-4) req]
  define dev1 where "dev1 = ring_doorbell 1 ((register_waiter setup issuer dev)
      \<lparr>transfer_rings := Some tr' # rs, setup_stage_map := put (setup_stage_map dev) p sp\<rparr>)"
  have dev1: "transfer_rings dev1 = Some tr' # rs" "setup_stage_map dev1 = put (setup_stage_map dev) p sp"
    by (simp_all add: dev1_def ring_doorbell_def)
  have free: "get (setup_stage_map dev) p = None" using map(3) placed(1) by simp
  have found: "get (setup_stage_map dev1) p = Some sp"
    using array_map.lookup_insert[OF map(1) free map(2)] dev1(2) by simp
  have restored: "get (delete (setup_stage_map dev1) p) = get (setup_stage_map dev)"
      "free_slots (delete (setup_stage_map dev1) p) = free_slots (setup_stage_map dev)"
    using array_map.insert_remove[OF map(1) free map(2)] dev1(2) by simp_all
  obtain c c' where t: "ring_trb tr' sp = Some (with_cycle c' (setup_trb dir_in setup buffer))"
      "ring_trb tr' p = Some (with_cycle c (last_trb dir_in buffer len))" using placed(4,5) by blast
  have "control dir_in kDefaultControlPipeID setup buffer len issuer dev = Some (kSuccess, dev1)"
    unfolding dev1_def by (rule control_default_pipe[OF ring(1) req])
  moreover note event_finds_request[OF dev1(1) _ _ t(2,1) found len]
  ultimately show ?thesis using restored placed(1) by blast
qed

definition demo_ring :: ring where
  "demo_ring = \<lparr>buf_addr = 4096, buf = replicate 32 zero_trb, buf_size = 32, ring_cycle = True, write_index = 0\<rparr>"

definition demo_device :: xhci_device where
  "demo_device = \<lparr>dev_addr = 0x10000, dev_slot_id = 1, dev_state = kBlank, dev_context = \<lparr>sc0 = 0, sc1 = 0\<rparr>,
     dev_input_context = \<lparr>drop_context_flags = 0, add_context_flags = 0, ic_slot_context = \<lparr>sc0 = 0, sc1 = 0\<rparr>,
       ic_ep_contexts = replicate 31 \<lparr>ec0 = 0, ec1 = 0, ec_dequeue = 0, ec4 = 0\<rparr>\<rparr>,
     transfer_rings = Some demo_ring # replicate 30 None, setup_stage_map = new_array_map 16 0, doorbells = [],
     class_drivers = replicate 16 None, drivers = Map.empty, num_configurations = 0, config_index = 0, is_initialized = False,
     initialize_phase = 0, ep_configs = replicate 16 \<lparr>ep_id = EndpointID 0, ep_type = kControl, max_packet_size = 0, interval = 0\<rparr>,
     num_ep_configs = 0, event_waiters = new_array_map 4 0, notified = []\<rparr>"

lemma demo_device_ok:
  "transfer_rings demo_device = Some demo_ring # replicate 30 None" "ring_ok demo_ring" "ring_placed demo_ring" "4 \<le> buf_size demo_ring"
  "map_ok (setup_stage_map demo_device)" "0 < free_slots (setup_stage_map demo_device)" "get (setup_stage_map demo_device) p = None"
proof -
  have zero: "trb_type zero_trb \<noteq> link_trb_type" "\<not> cycle_bit zero_trb"
    by (simp_all add: trb_type_def zero_trb_def link_trb_type_def cycle_bit_def)
  show "ring_ok demo_ring" using zero by (simp add: ring_ok_def demo_ring_def)
  have keys: "keys_of (new_array_map n v) = []" "free_slots (new_array_map n v) = n" for n and v :: u64
    by (simp_all add: keys_of_def free_slots_def new_array_map_def map_replicate_const)
  show "map_ok (setup_stage_map demo_device)" "0 < free_slots (setup_stage_map demo_device)" "get (setup_stage_map demo_device) p = None"
    by (simp_all add: demo_device_def map_ok_def keys get_None_iff)
qed (simp_all add: demo_device_def demo_ring_def ring_placed_def)

text \<open>A device asks for 18 bytes; the controller reports success with nothing left over.\<close>

definition demo_setup :: setup_data where
  "demo_setup = \<lparr>sd_request_type = 0x80, sd_request = 6, sd_value = 0x100, sd_index = 0, sd_length = 18\<rparr>"

definition demo_event :: trb where
  "demo_event = \<lparr>trb0 = 4112, trb1 = 0, trb2 = 0x1000000, trb3 = 0x1018000\<rparr>"

theorem control_transfer_completes_witness:
  "\<forall>env mem. \<exists>dev1 stages. control True kDefaultControlPipeID demo_setup 0x20000 18 None demo_device = Some (kSuccess, dev1) \<and>
     on_transfer_event_received env mem demo_event dev1 0 =
     on_control_completed env mem (EndpointID 1) demo_setup 0x20000 18 (dev1\<lparr>setup_stage_map := stages\<rparr>) 0"
proof (intro allI)
  fix env mem
  have slot: "ring_slot demo_ring (next_slot demo_ring) = 4112" by (simp add: ring_slot_def next_slot_def demo_ring_def trb_bytes_def)
  have event: "completion_code demo_event = 1" "event_pointer demo_event = 4112" "trb_endpoint_id demo_event = EndpointID 1"
      "residual_length demo_event = 0"
    by (simp_all add: demo_event_def completion_code_def event_pointer_def parameter_def trb_endpoint_id_def residual_length_def bits_get_def)
  from control_transfer_completes[OF demo_device_ok, of 18 True demo_setup "0x20000" None]
  obtain dev1 where "control True kDefaultControlPipeID demo_setup 0x20000 18 None demo_device = Some (kSuccess, dev1)"
    and done1: "\<forall>event env mem ap. (completion_code event = 1 \<or> completion_code event = 13) \<and>
        event_pointer event = ring_slot demo_ring (next_slot demo_ring) \<longrightarrow>
      (\<exists>stages. get stages = get (setup_stage_map demo_device) \<and> free_slots stages = free_slots (setup_stage_map demo_device) \<and>
        on_transfer_event_received env mem event dev1 ap =
        on_control_completed env mem (trb_endpoint_id event) demo_setup 0x20000
          (if (0x20000 :: u64) = 0 then 0 else sint (word_of_int 18 - residual_length event)) (dev1\<lparr>setup_stage_map := stages\<rparr>) ap)"
    by auto
  then show "\<exists>dev1 stages. control True kDefaultControlPipeID demo_setup 0x20000 18 None demo_device = Some (kSuccess, dev1) \<and>
     on_transfer_event_received env mem demo_event dev1 0 =
     on_control_completed env mem (EndpointID 1) demo_setup 0x20000 18 (dev1\<lparr>setup_stage_map := stages\<rparr>) 0"
    using done1[rule_format, of demo_event env mem 0] event slot by auto
qed

end
