(* ===== verification/Device_Setup.thy ===== *)
theory Device_Setup
  imports Control_Transfers
begin

text \<open>
  Initialisation of a device from its descriptors: what the phases of \<open>usb::Device\<close> make of a
  well-formed configuration, and the configurations they cannot handle.
\<close>

text \<open>A device whose control pipe works.\<close>

definition device_ready :: "xhci_device \<Rightarrow> bool" where
  "device_ready dev \<longleftrightarrow> length (class_drivers dev) = 16 \<and> length (ep_configs dev) = 16 \<and>
     (\<exists>tr rs. transfer_rings dev = Some tr # rs)"

text \<open>The bytes of a configuration in the buffer: the configuration descriptor and the others after it.\<close>

definition configuration_in :: "u8 list \<Rightarrow> int \<Rightarrow> u8 list \<Rightarrow> u8 list list \<Rightarrow> bool" where
  "configuration_in buf8 len c ds \<longleftrightarrow> (\<exists>pad. buf8 = concat (c # ds) @ pad) \<and> len = int (length (concat (c # ds))) \<and>
     c ! 1 = configuration_descriptor_type \<and> 6 \<le> length c \<and> (\<forall>d\<in>set (c # ds). wf_descriptor d)"

lemma configuration_reads:
  assumes "configuration_in buf8 len c ds"
  shows "reads (new_config_reader buf8 len) c ds" and "descriptor_dynamic_cast configuration_descriptor_type buf8 0 = Some True"
    and "configuration_value_at buf8 0 = Some (c ! 5)"
proof -
  obtain pad where b: "buf8 = concat (c # ds) @ pad" "len = int (length (concat (c # ds)))" and c: "6 \<le> length c"
      "c ! 1 = configuration_descriptor_type"
    using assms unfolding configuration_in_def by blast
  show "reads (new_config_reader buf8 len) c ds"
    unfolding reads_def new_config_reader_def using b by (intro exI[of _ "[]"] exI[of _ pad]) simp
  show "descriptor_dynamic_cast configuration_descriptor_type buf8 0 = Some True" "configuration_value_at buf8 0 = Some (c ! 5)"
    using b c by (simp_all add: descriptor_dynamic_cast_def configuration_value_at_def byte_at_def nth_append)
qed

lemma set_configuration_succeeds:
  assumes "device_ready dev"
  shows "\<exists>dev'. set_configuration kDefaultControlPipeID v dev = Some (kSuccess, dev') \<and> class_drivers dev' = class_drivers dev \<and>
    drivers dev' = drivers dev \<and> ep_configs dev' = ep_configs dev \<and> num_ep_configs dev' = num_ep_configs dev \<and>
    initialize_phase dev' = initialize_phase dev \<and> is_initialized dev' = is_initialized dev"
proof -
  obtain tr rs where rings: "transfer_rings dev = Some tr # rs" using assms by (auto simp: device_ready_def)
  define sd where "sd = \<lparr>sd_request_type = make_request_type 0 0 0, sd_request = 9, sd_value = ucast v, sd_index = 0, sd_length = 0\<rparr>"
  obtain p sp tr' where req: "push_request False sd 0 0 tr = (p, sp, tr')" by (metis prod_cases3)
  from control_default_pipe[OF rings req, of None]
  have "set_configuration kDefaultControlPipeID v dev =
      Some (kSuccess, ring_doorbell 1 ((register_waiter sd None dev)\<lparr>transfer_rings := Some tr' # rs, setup_stage_map := put (setup_stage_map dev) p sp\<rparr>))"
    by (simp add: set_configuration_def control_def sd_def)
  then show ?thesis by (simp add: ring_doorbell_def register_waiter_def)
qed

text \<open>Phase 3 hands the endpoints to their driver.\<close>

lemma set_endpoints_fold:
  assumes "\<forall>c\<in>set cs. nat (ep_number (ep_id c)) < length (class_drivers dev) \<and> class_drivers dev ! nat (ep_number (ep_id c)) = Some w"
    and "drivers dev w = Some d"
  shows "set_endpoints cs dev = Some (dev\<lparr>drivers := (drivers dev)(w \<mapsto> fold set_endpoint cs d)\<rparr>)"
  using assms
proof (induction cs arbitrary: dev d)
  case Nil
  then show ?case by (simp add: fun_upd_idem)
next
  case (Cons c cs)
  from Cons.prems Cons.IH[of "dev\<lparr>drivers := (drivers dev)(w \<mapsto> set_endpoint c d)\<rparr>" "set_endpoint c d"]
  show ?case by (simp cong: if_cong)
qed

text \<open>The device after phase 2, for an interface with a driver and as many endpoints as it announces.\<close>

lemma phase2_configured:
  assumes conf: "configuration_in buf8 len c ds" and ready: "device_ready dev"
    and found: "dropWhile (\<lambda>e. \<not> supported e) ds = e # rest" "interface_at e 0 = Some i" "driver_kind i = Some k"
    and enough: "unat (num_endpoints i) \<le> 16" "unat (num_endpoints i) \<le> length (filter is_endpoint rest)"
    and driver: "new_class_driver env k (interface_number i) ap = Some (w, d, ap')"
  obtains dev' where "initialize_phase2 env buf8 len dev ap = Some (kSuccess, dev', ap')" and "initialize_phase dev' = 3"
    and "is_initialized dev' = is_initialized dev"
    and "num_ep_configs dev' = uint (num_endpoints i)" and "drivers dev' = (drivers dev)(w \<mapsto> d)"
    and "take (unat (num_endpoints i)) (ep_configs dev') = map config_of (take (unat (num_endpoints i)) (filter is_endpoint rest))"
    and "length (class_drivers dev') = 16"
    and "\<forall>x\<in>set (take (unat (num_endpoints i)) (filter is_endpoint rest)). class_drivers dev' ! nat (ep_number (ep_id (config_of x))) = Some w"
proof -
  let ?n = "unat (num_endpoints i)" and ?r = "new_config_reader buf8 len"
  let ?t = "\<lparr>et_configs = ep_configs dev, et_num = 0, et_drivers = class_drivers dev\<rparr>"
  note reads = configuration_reads[OF conf]
  have wf: "\<forall>x\<in>set (c # ds). wf_descriptor x" using conf by (auto simp: configuration_in_def)
  from find_interface_law[OF reads(1) wf] found obtain r' where f: "find_interface ?r = Some (Some (i, k), r')" and r': "reads r' e rest"
    by auto
  obtain pre where "ds = pre @ e # rest" using found(1) by (metis takeWhile_dropWhile_id)
  then have wf': "\<forall>x\<in>set (e # rest). wf_descriptor x" using wf by auto
  have ok: "table_ok ?t" using ready by (simp add: table_ok_def device_ready_def)
  have pre: "et_num ?t \<le> ?n" "?n - et_num ?t \<le> length (filter is_endpoint rest)" using enough by simp_all
  from read_endpoints_law[OF r' wf' ok enough(1) pre, of w]
  obtain r2 t where t: "read_endpoints (num_endpoints i) w r' ?t = Some (r2, t)" "et_num t = ?n" "table_ok t"
      "take ?n (et_configs t) = map config_of (take ?n (filter is_endpoint rest))"
      and drv: "\<forall>j<16. et_drivers t ! j =
        (if \<exists>x\<in>set (take ?n (filter is_endpoint rest)). nat (ep_number (ep_id (config_of x))) = j then Some w else class_drivers dev ! j)"
    by auto
  have bound: "nat (ep_number (ep_id (config_of x))) < 16" for x by (rule config_of_number)
  define dev2 where "dev2 = dev\<lparr>drivers := (drivers dev)(w \<mapsto> d), ep_configs := et_configs t, num_ep_configs := int (et_num t),
                class_drivers := et_drivers t, initialize_phase := 3\<rparr>"
  have "device_ready dev2" using ready t(3) by (simp add: device_ready_def dev2_def table_ok_def)
  from set_configuration_succeeds[OF this, of "c ! 5"] obtain dev3 where s: "set_configuration kDefaultControlPipeID (c ! 5) dev2 = Some (kSuccess, dev3)"
    and keep: "class_drivers dev3 = class_drivers dev2" "drivers dev3 = drivers dev2" "ep_configs dev3 = ep_configs dev2"
      "num_ep_configs dev3 = num_ep_configs dev2" "initialize_phase dev3 = initialize_phase dev2" "is_initialized dev3 = is_initialized dev2"
    by blast
  have "initialize_phase2 env buf8 len dev ap = Some (kSuccess, dev3, ap')"
    using reads f driver t(1) s by (simp add: initialize_phase2_def dev2_def)
  then show thesis
    by (rule that) (use keep t drv bound in \<open>auto simp: dev2_def table_ok_def unat_eq_nat_uint simp del: nat_uint_eq\<close>)
qed


subsection \<open>A mouse\<close>

text \<open>
  The configuration of a boot mouse behind an interface of another class: a configuration
  descriptor, a vendor interface, the mouse interface, its HID descriptor and its endpoint 1 IN.
\<close>

definition demo_configuration :: "u8 list" where
  "demo_configuration = [9, 2, 43, 0, 2, 1, 0, 0xa0, 50]"

definition demo_mouse_interface :: "u8 list" where
  "demo_mouse_interface = [9, 4, 1, 0, 1, 3, 1, 2, 0]"

definition demo_hid_descriptor :: "u8 list" where
  "demo_hid_descriptor = [9, 33, 0x11, 1, 0, 1, 34, 52, 0]"

definition demo_endpoint :: "u8 list" where
  "demo_endpoint = [7, 5, 0x81, 3, 4, 0, 10]"

definition demo_descriptors :: "u8 list list" where
  "demo_descriptors = [[9, 4, 0, 0, 0, 255, 0, 0, 0], demo_mouse_interface, demo_hid_descriptor, demo_endpoint]"

definition demo_env :: usb_env where
  "demo_env = \<lparr>usb_pool = 0x100000, sizeof_keyboard = 4096, sizeof_mouse = 4096, sizeof_ring = 40, sizeof_device = 4096,
     hid_buf_offset = 64, dev_buf_offset = 256, dev_ctx_offset = 1024, input_ctx_offset = 2048,
     keyboard_default_observer = None, mouse_default_observer = Some 7\<rparr>"

lemma demo_configuration_in:
  "configuration_in (concat (demo_configuration # demo_descriptors)) 43 demo_configuration demo_descriptors"
  by (simp add: configuration_in_def demo_configuration_def demo_descriptors_def demo_mouse_interface_def demo_hid_descriptor_def
      demo_endpoint_def wf_descriptor_def configuration_descriptor_type_def interface_descriptor_type_def endpoint_descriptor_type_def)

lemma demo_first_supported:
  "dropWhile (\<lambda>e. \<not> supported e) demo_descriptors = [demo_mouse_interface, demo_hid_descriptor, demo_endpoint]"
  by (simp add: demo_descriptors_def supported_def interface_at_def byte_at_def driver_kind_def interface_descriptor_type_def
      demo_mouse_interface_def)

definition demo_mouse_descriptor :: interface_descriptor where
  "demo_mouse_descriptor = \<lparr>interface_number = 1, num_endpoints = 1, interface_class = 3, interface_sub_class = 1, interface_protocol = 2\<rparr>"

lemma demo_mouse: "interface_at demo_mouse_interface 0 = Some demo_mouse_descriptor" "driver_kind demo_mouse_descriptor = Some Mouse"
  by (simp_all add: demo_mouse_interface_def demo_mouse_descriptor_def interface_at_def byte_at_def driver_kind_def)

lemma demo_endpoints: "filter is_endpoint [demo_hid_descriptor, demo_endpoint] = [demo_endpoint]"
  by (simp add: demo_hid_descriptor_def demo_endpoint_def is_endpoint_def endpoint_descriptor_type_def)

lemma demo_driver: "\<exists>d. new_class_driver demo_env Mouse 1 0x100000 = Some (0x100000, d, 0x101000)"
  by (simp add: new_class_driver_def demo_env_def sizeof_driver_def alloc_mem_def memory_pool_size_def default_observer_def
      subscribe_def new_hid_driver_def Let_def)

lemma demo_device_ready: "device_ready demo_device"
  by (simp add: device_ready_def demo_device_def)


subsection \<open>Configurations that break the driver\<close>

lemma phase2_too_few_endpoints:
  assumes conf: "configuration_in buf8 len c ds"
    and found: "dropWhile (\<lambda>e. \<not> supported e) ds = e # rest" "interface_at e 0 = Some i" "driver_kind i = Some k"
    and few: "length (filter is_endpoint rest) < unat (num_endpoints i)"
  shows "initialize_phase2 env buf8 len dev ap = None"
proof -
  note reads = configuration_reads[OF conf]
  have wf: "\<forall>x\<in>set (c # ds). wf_descriptor x" using conf by (auto simp: configuration_in_def)
  from find_interface_law[OF reads(1) wf] found obtain r' where f: "find_interface (new_config_reader buf8 len) = Some (Some (i, k), r')"
      and r': "reads r' e rest" by auto
  obtain pre where "ds = pre @ e # rest" using found(1) by (metis takeWhile_dropWhile_id)
  then have wf': "\<forall>x\<in>set (e # rest). wf_descriptor x" using wf by auto
  have "read_endpoints (num_endpoints i) w r' \<lparr>et_configs = cs, et_num = 0, et_drivers = ws\<rparr> = None" for w cs ws
    using few by (intro read_endpoints_too_few[OF r' wf']) simp
  then show ?thesis using reads f
    by (cases "new_class_driver env k (interface_number i) ap") (auto simp: initialize_phase2_def)
qed

lemma phase2_zero_length:
  assumes c: "wf_descriptor c" "c ! 1 = configuration_descriptor_type" and t: "t \<noteq> interface_descriptor_type" and len: "int (length c) < len"
  shows "initialize_phase2 env (c @ 0 # t # pad) len dev ap = None"
proof -
  let ?b = "c @ 0 # t # pad"
  let ?r = "new_config_reader ?b len" and ?s = "(new_config_reader ?b len)\<lparr>reader_p := length c\<rparr>"
  have l: "0 < length c" "1 < length c" "unat (c ! 0) = length c" using c(1) by (auto simp: wf_descriptor_def)
  have "next_descriptor ?r = Some (Some (length c), ?s)"
    using l len by (simp add: next_descriptor_def new_config_reader_def byte_at_def nth_append Let_def del: of_nat_unat uint_nat)
  moreover have other: "descriptor_dynamic_cast interface_descriptor_type ?b (length c) = Some False"
    using t by (simp add: descriptor_dynamic_cast_def byte_at_def nth_append)
  moreover have "next_of_type interface_descriptor_type ?s = None"
    using len other by (intro next_of_type_stuck) (simp_all add: new_config_reader_def byte_at_def nth_append)
  ultimately have "next_of_type interface_descriptor_type ?r = None"
    by (subst next_of_type.simps) (simp add: new_config_reader_def)
  then have "find_interface ?r = None" by (subst find_interface.simps) simp
  moreover have "descriptor_dynamic_cast configuration_descriptor_type ?b 0 = Some True"
    using l c(2) by (simp add: descriptor_dynamic_cast_def byte_at_def nth_append)
  ultimately show ?thesis by (simp add: initialize_phase2_def)
qed

text \<open>Claim C30.
  Configurations that a device may send and the driver does not survive. If the interface announces more
  endpoints than endpoint descriptors follow it, the reader runs off the end of the configuration and the null
  pointer it returns is dereferenced. If the configuration descriptor is followed by a descriptor with length 0
  that is not an interface, the reader stays there for ever. In neither case does \<open>InitializePhase2\<close> return.
\<close>

theorem malformed_configuration_undefined:
  "(configuration_in buf8 len c ds \<and> dropWhile (\<lambda>e. \<not> supported e) ds = e # rest \<and> interface_at e 0 = Some i \<and> driver_kind i = Some k \<and>
      length (filter is_endpoint rest) < unat (num_endpoints i) \<longrightarrow> initialize_phase2 env buf8 len dev ap = None) \<and>
   (wf_descriptor c' \<and> c' ! 1 = configuration_descriptor_type \<and> t \<noteq> interface_descriptor_type \<and> int (length c') < len' \<longrightarrow>
      initialize_phase2 env (c' @ 0 # t # pad) len' dev ap = None)"
  using phase2_too_few_endpoints phase2_zero_length by blast

text \<open>The mouse again, but its endpoint descriptor is missing; and a configuration descriptor followed by zeros.\<close>

theorem malformed_configuration_undefined_witness:
  "initialize_phase2 demo_env (concat [demo_configuration, demo_mouse_interface]) 18 demo_device 0x100000 = None \<and>
   initialize_phase2 demo_env (demo_configuration @ 0 # 0 # replicate 245 0) 256 demo_device 0x100000 = None"
proof -
  have "configuration_in (concat [demo_configuration, demo_mouse_interface]) 18 demo_configuration [demo_mouse_interface]"
    by (simp add: configuration_in_def demo_configuration_def demo_mouse_interface_def wf_descriptor_def configuration_descriptor_type_def
        interface_descriptor_type_def endpoint_descriptor_type_def)
  moreover have "dropWhile (\<lambda>e. \<not> supported e) [demo_mouse_interface] = demo_mouse_interface # []"
    using demo_mouse by (simp add: supported_def) (simp add: demo_mouse_interface_def interface_descriptor_type_def)
  moreover have "length (filter is_endpoint []) < unat (num_endpoints demo_mouse_descriptor)" by (simp add: demo_mouse_descriptor_def)
  moreover have "wf_descriptor demo_configuration" "demo_configuration ! 1 = configuration_descriptor_type"
      "int (length demo_configuration) < 256" "0 \<noteq> interface_descriptor_type"
    by (simp_all add: demo_configuration_def wf_descriptor_def configuration_descriptor_type_def
        interface_descriptor_type_def endpoint_descriptor_type_def)
  ultimately show ?thesis using demo_mouse malformed_configuration_undefined by blast
qed

end
