(* ===== verification/Xhci_Controller.thy ===== *)
theory Xhci_Controller
  imports Device_Setup
begin

text \<open>
  The xHCI driver: ports (\<open>src/kernel/usb/xhci/port.cpp\<close>), the device manager
  (\<open>src/kernel/usb/xhci/devmgr.cpp\<close>) and the handling of events that takes a port from connection
  to a configured device (\<open>src/kernel/usb/xhci/xhci.cpp\<close>).

  One record holds the members of \<open>Controller\<close> and \<open>DeviceManager\<close> and the two globals
  \<open>port_config_phase\<close> and \<open>addressing_port\<close>. A device is known by its slot. The port status registers
  are part of the state; \<open>port_hw\<close> says how the hardware reacts to writes to them.
\<close>

subsection \<open>Ports\<close>

definition is_connected :: "u32 \<Rightarrow> bool" where "is_connected portsc = (bits_get 0 1 portsc = 1)"
definition is_enabled :: "u32 \<Rightarrow> bool" where "is_enabled portsc = (bits_get 1 1 portsc = 1)"
definition port_reset :: "u32 \<Rightarrow> bool" where "port_reset portsc = (bits_get 4 1 portsc = 1)"
definition port_speed :: "u32 \<Rightarrow> int" where "port_speed portsc = uint (bits_get 10 4 portsc)"
definition is_connect_status_changed :: "u32 \<Rightarrow> bool" where "is_connect_status_changed portsc = (bits_get 17 1 portsc = 1)"
definition is_port_reset_changed :: "u32 \<Rightarrow> bool" where "is_port_reset_changed portsc = (bits_get 21 1 portsc = 1)"

definition reset_value :: "u32 \<Rightarrow> u32" where
  "reset_value portsc = (portsc AND 0x0e00c3e0) OR 0x00020010"

text \<open>\<open>CLEAR_STATUS_BIT\<close> for the status bit at position \<open>k\<close>.\<close>

definition clear_status_bit :: "nat \<Rightarrow> u32 \<Rightarrow> u32" where
  "clear_status_bit k portsc = bits_set k 1 1 (portsc AND 0x0e01c3e0)"

text \<open>
  The hardware: \<open>reset_reads port n\<close> is what the driver reads from the register the \<open>n\<close>th time after it
  started a reset, and \<open>write_portsc old new\<close> is the register after any other write.
\<close>

record port_hw =
  reset_reads :: "u8 \<Rightarrow> nat \<Rightarrow> u32"
  write_portsc :: "u32 \<Rightarrow> u32 \<Rightarrow> u32"

text \<open>The loop that waits for the end of the reset, by the number of reads.\<close>

partial_function (option) wait_reset :: "(nat \<Rightarrow> u32) \<Rightarrow> nat \<Rightarrow> nat option" where
  "wait_reset reg n = (if port_reset (reg n) then wait_reset reg (Suc n) else Some n)"

subsection \<open>The state of the driver\<close>

datatype config_phase =
  kNotConnected | kWaitingAddressed | kResettingPort | kEnablingSlot | kAddressingDevice
| kInitializingDevice | kConfiguringEndpoints | kConfigured

record controller =
  port_config_phase :: "config_phase list"
  addressing_port :: u8
  portsc :: "u8 \<Rightarrow> u32"
  portsc_writes :: "(u8 \<times> u32) list"
  command_ring :: ring
  primary_event_ring :: event_ring
  command_doorbells :: "u32 list"
  max_slots :: nat
  devices :: "xhci_device option list"
  device_context_pointers :: "u64 list"
  alloc_ptr :: u64

definition phase_of :: "controller \<Rightarrow> u8 \<Rightarrow> config_phase" where
  "phase_of c p = port_config_phase c ! unat p"

definition set_phase :: "u8 \<Rightarrow> config_phase \<Rightarrow> controller \<Rightarrow> controller" where
  "set_phase p ph c = c\<lparr>port_config_phase := (port_config_phase c)[unat p := ph]\<rparr>"

definition write_port :: "u8 \<Rightarrow> u32 \<Rightarrow> u32 \<Rightarrow> controller \<Rightarrow> controller" where
  "write_port p v new c = c\<lparr>portsc := (portsc c)(p := new), portsc_writes := portsc_writes c @ [(p, v)]\<rparr>"

definition port_reset_operation :: "port_hw \<Rightarrow> u8 \<Rightarrow> controller \<Rightarrow> (usb_error \<times> controller) option" where
  "port_reset_operation hw p c = do {
     n \<leftarrow> wait_reset (reset_reads hw p) 0;
     Some (kSuccess, write_port p (reset_value (portsc c p)) (reset_reads hw p n) c) }"

definition clear_connect_status_changed :: "port_hw \<Rightarrow> u8 \<Rightarrow> controller \<Rightarrow> controller" where
  "clear_connect_status_changed hw p c =
     (let v = clear_status_bit 17 (portsc c p) in write_port p v (write_portsc hw (portsc c p) v) c)"

definition clear_port_reset_change :: "port_hw \<Rightarrow> u8 \<Rightarrow> controller \<Rightarrow> controller" where
  "clear_port_reset_change hw p c =
     (let v = clear_status_bit 21 (portsc c p) in write_port p v (write_portsc hw (portsc c p) v) c)"

definition push_command :: "trb \<Rightarrow> controller \<Rightarrow> controller" where
  "push_command t c = c\<lparr>command_ring := snd (push t (command_ring c)),
     command_doorbells := command_doorbells c @ [doorbell_value 0 0]\<rparr>"

subsection \<open>The device manager\<close>

text \<open>
  \<open>Initialize\<close>; the arrays hold pointers of 8 bytes. The result says where the array of contexts is.
\<close>

definition devmgr_initialize :: "usb_env \<Rightarrow> nat \<Rightarrow> controller \<Rightarrow> usb_error \<times> u64 \<times> controller" where
  "devmgr_initialize env n c =
     (let c = c\<lparr>max_slots := n\<rparr>; (p, ap) = alloc_array (usb_pool env) 8 (of_nat (n + 1)) 0 0 (alloc_ptr c)
      in if p = 0 then (kNoEnoughMemory, 0, c\<lparr>alloc_ptr := ap\<rparr>)
         else let (q, ap) = alloc_array (usb_pool env) 8 (of_nat (n + 1)) 64 4096 ap
              in if q = 0 then (kNoEnoughMemory, 0, c\<lparr>alloc_ptr := ap\<rparr>)
                 else (kSuccess, q, c\<lparr>alloc_ptr := ap, devices := replicate (n + 1) None,
                         device_context_pointers := replicate (n + 1) 0\<rparr>))"

definition find_by_slot :: "controller \<Rightarrow> u8 \<Rightarrow> xhci_device option" where
  "find_by_slot c slot = (if max_slots c < unat slot then None else devices c ! unat slot)"

definition find_device :: "(xhci_device \<Rightarrow> bool) \<Rightarrow> controller \<Rightarrow> xhci_device option" where
  "find_device P c = (case find (\<lambda>d. case d of None \<Rightarrow> False | Some dev \<Rightarrow> P dev) (drop 1 (take (max_slots c + 1) (devices c))) of
     None \<Rightarrow> None | Some d \<Rightarrow> d)"

definition find_by_port :: "controller \<Rightarrow> u8 \<Rightarrow> xhci_device option" where
  "find_by_port c port_num = find_device (\<lambda>dev. root_hub_port_num (dev_context dev) = ucast port_num) c"

definition find_by_state :: "controller \<Rightarrow> device_state \<Rightarrow> xhci_device option" where
  "find_by_state c st = find_device (\<lambda>dev. dev_state dev = st) c"

definition set_device :: "u8 \<Rightarrow> xhci_device \<Rightarrow> controller \<Rightarrow> controller" where
  "set_device slot dev c = c\<lparr>devices := (devices c)[unat slot := Some dev]\<rparr>"

text \<open>
  A new \<open>Device\<close> object. The members without an initialiser have the value of the memory, which
  is 0: the pool is a static array, and no part of it is handed out twice.
\<close>

definition new_device :: "u64 \<Rightarrow> u8 \<Rightarrow> xhci_device" where
  "new_device addr slot = \<lparr>dev_addr = addr, dev_slot_id = slot, dev_state = kInvalid, dev_context = \<lparr>sc0 = 0, sc1 = 0\<rparr>,
     dev_input_context = \<lparr>drop_context_flags = 0, add_context_flags = 0, ic_slot_context = \<lparr>sc0 = 0, sc1 = 0\<rparr>,
       ic_ep_contexts = replicate 31 \<lparr>ec0 = 0, ec1 = 0, ec_dequeue = 0, ec4 = 0\<rparr>\<rparr>,
     transfer_rings = replicate 31 None, setup_stage_map = new_array_map 16 0, doorbells = [],
     class_drivers = replicate 16 None, drivers = Map.empty, num_configurations = 0, config_index = 0, is_initialized = False,
     initialize_phase = 0, ep_configs = replicate 16 \<lparr>ep_id = EndpointID 0, ep_type = kControl, max_packet_size = 0, interval = 0\<rparr>,
     num_ep_configs = 0, event_waiters = new_array_map 4 0, notified = []\<rparr>"

definition alloc_device :: "usb_env \<Rightarrow> u8 \<Rightarrow> controller \<Rightarrow> (usb_error \<times> controller) option" where
  "alloc_device env slot c =
     (if max_slots c < unat slot then Some (kInvalidSlotID, c)
      else if devices c ! unat slot \<noteq> None then Some (kAlreadyAllocated, c)
      else
        let (p, ap) = alloc_array (usb_pool env) (sizeof_device env) 1 64 4096 (alloc_ptr c)
        in if p = 0 then None
           else Some (kSuccess, set_device slot (new_device p slot) (c\<lparr>alloc_ptr := ap\<rparr>)))"

definition load_dcbaa :: "usb_env \<Rightarrow> u8 \<Rightarrow> controller \<Rightarrow> (usb_error \<times> controller) option" where
  "load_dcbaa env slot c =
     (if max_slots c < unat slot then Some (kInvalidSlotID, c)
      else do {
        dev \<leftarrow> devices c ! unat slot;
        Some (kSuccess, c\<lparr>device_context_pointers :=
          (device_context_pointers c)[unat slot := dev_addr dev + dev_ctx_offset env]\<rparr>) })"

text \<open>\<open>Remove\<close> has no check of the slot.\<close>

definition devmgr_remove :: "u8 \<Rightarrow> controller \<Rightarrow> (usb_error \<times> controller) option" where
  "devmgr_remove slot c =
     (if unat slot < length (devices c) then
        Some (kSuccess, c\<lparr>device_context_pointers := (device_context_pointers c)[unat slot := 0], devices := (devices c)[unat slot := None]\<rparr>)
      else None)"

subsection \<open>Contexts of a device\<close>

definition initialize_slot_context :: "u8 \<Rightarrow> u32 \<Rightarrow> slot_context \<Rightarrow> slot_context" where
  "initialize_slot_context port_num sc ctx =
     (let ctx = ctx\<lparr>sc0 := bits_set 0 20 0 (sc0 ctx)\<rparr>;
          ctx = ctx\<lparr>sc1 := bits_set 16 8 (ucast port_num) (sc1 ctx)\<rparr>;
          ctx = ctx\<lparr>sc0 := bits_set 27 5 1 (sc0 ctx)\<rparr>
      in ctx\<lparr>sc0 := bits_set 20 4 (word_of_int (port_speed sc)) (sc0 ctx)\<rparr>)"

definition determine_max_packet_size :: "u32 \<Rightarrow> u32" where
  "determine_max_packet_size speed = (if speed = 4 then 512 else if speed = 3 then 64 else 8)"

fun bsr :: "nat \<Rightarrow> int" where
  "bsr n = (if n \<le> 1 then 0 else 1 + bsr (n div 2))"

definition most_significant_bit :: "u32 \<Rightarrow> int" where
  "most_significant_bit v = (if v = 0 then - 1 else bsr (unat v))"

definition initialize_ep0_context :: "u64 \<Rightarrow> u32 \<Rightarrow> endpoint_context \<Rightarrow> endpoint_context" where
  "initialize_ep0_context ring_buffer max_packet ctx =
     (let ctx = ctx\<lparr>ec1 := bits_set 3 3 4 (ec1 ctx)\<rparr>;
          ctx = ctx\<lparr>ec1 := bits_set 16 16 max_packet (ec1 ctx)\<rparr>;
          ctx = ctx\<lparr>ec1 := bits_set 8 8 0 (ec1 ctx)\<rparr>;
          ctx = set_transfer_ring_buffer ring_buffer ctx;
          ctx = ctx\<lparr>ec_dequeue := bits_set 0 1 1 (ec_dequeue ctx)\<rparr>;
          ctx = ctx\<lparr>ec0 := bits_set 16 8 0 (ec0 ctx)\<rparr>;
          ctx = ctx\<lparr>ec0 := bits_set 10 5 0 (ec0 ctx)\<rparr>;
          ctx = ctx\<lparr>ec0 := bits_set 8 2 0 (ec0 ctx)\<rparr>
      in ctx\<lparr>ec1 := bits_set 1 2 3 (ec1 ctx)\<rparr>)"

definition convert_interval :: "int \<Rightarrow> endpoint_type \<Rightarrow> int \<Rightarrow> int" where
  "convert_interval speed type ivl =
     (if speed = 1 \<or> speed = 2 then if type = kIsochronous then ivl + 2 else most_significant_bit (word_of_int ivl) + 3
      else ivl - 1)"

definition ep_type_code :: "endpoint_config \<Rightarrow> u32" where
  "ep_type_code conf =
     (case ep_type conf of
        kControl \<Rightarrow> 4
      | kIsochronous \<Rightarrow> if ep_is_in (ep_id conf) then 5 else 1
      | kBulk \<Rightarrow> if ep_is_in (ep_id conf) then 6 else 2
      | kInterrupt \<Rightarrow> if ep_is_in (ep_id conf) then 7 else 3)"

definition initialize_ep_context :: "int \<Rightarrow> endpoint_config \<Rightarrow> u64 \<Rightarrow> endpoint_context \<Rightarrow> endpoint_context" where
  "initialize_ep_context speed conf ring_buffer ctx =
     (let ctx = ctx\<lparr>ec1 := bits_set 3 3 (ep_type_code conf) (ec1 ctx)\<rparr>;
          ctx = ctx\<lparr>ec1 := bits_set 16 16 (word_of_int (max_packet_size conf)) (ec1 ctx)\<rparr>;
          ctx = ctx\<lparr>ec0 := bits_set 16 8 (word_of_int (convert_interval speed (ep_type conf) (interval conf))) (ec0 ctx)\<rparr>;
          ctx = ctx\<lparr>ec4 := bits_set 0 16 1 (ec4 ctx)\<rparr>;
          ctx = set_transfer_ring_buffer ring_buffer ctx;
          ctx = ctx\<lparr>ec_dequeue := bits_set 0 1 1 (ec_dequeue ctx)\<rparr>;
          ctx = ctx\<lparr>ec0 := bits_set 10 5 0 (ec0 ctx)\<rparr>;
          ctx = ctx\<lparr>ec0 := bits_set 8 2 0 (ec0 ctx)\<rparr>
      in ctx\<lparr>ec1 := bits_set 1 2 3 (ec1 ctx)\<rparr>)"

text \<open>A change of one endpoint context of the input context.\<close>

definition update_ep_context :: "int \<Rightarrow> (endpoint_context \<Rightarrow> endpoint_context) \<Rightarrow> input_context \<Rightarrow> input_context option" where
  "update_ep_context dci f ic =
     (if 1 \<le> dci \<and> nat (dci - 1) < length (ic_ep_contexts ic)
      then Some (ic\<lparr>ic_ep_contexts := (ic_ep_contexts ic)[nat (dci - 1) := f (ic_ep_contexts ic ! nat (dci - 1))]\<rparr>) else None)"

definition clear_control_context :: "input_context \<Rightarrow> input_context" where
  "clear_control_context ic = ic\<lparr>drop_context_flags := 0, add_context_flags := 0\<rparr>"

definition input_context_addr :: "usb_env \<Rightarrow> xhci_device \<Rightarrow> u64" where
  "input_context_addr env dev = dev_addr dev + input_ctx_offset env"

subsection \<open>The steps of a port\<close>

definition reset_port :: "port_hw \<Rightarrow> u8 \<Rightarrow> controller \<Rightarrow> (usb_error \<times> controller) option" where
  "reset_port hw p c =
     (if \<not> is_connected (portsc c p) then Some (kSuccess, c)
      else if addressing_port c \<noteq> 0 then Some (kSuccess, set_phase p kWaitingAddressed c)
      else
        let port_phase = phase_of c p
        in if port_phase \<noteq> kNotConnected \<and> port_phase \<noteq> kWaitingAddressed then Some (kInvalidPhase, c)
           else do {
             (_, c) \<leftarrow> port_reset_operation hw p (set_phase p kResettingPort (c\<lparr>addressing_port := p\<rparr>));
             Some (kSuccess, c) })"

definition enable_slot :: "port_hw \<Rightarrow> u8 \<Rightarrow> controller \<Rightarrow> usb_error \<times> controller" where
  "enable_slot hw p c =
     (if is_enabled (portsc c p) \<and> is_port_reset_changed (portsc c p) then
        let c = clear_port_reset_change hw p c;
            c = set_phase p kEnablingSlot c
        in (kSuccess, push_command enable_slot_command_trb c)
      else (kSuccess, c))"

definition address_device :: "usb_env \<Rightarrow> u8 \<Rightarrow> u8 \<Rightarrow> controller \<Rightarrow> (usb_error \<times> controller) option" where
  "address_device env port slot c = do {
     (_, c) \<leftarrow> alloc_device env slot c;
     case find_by_slot c slot of
       None \<Rightarrow> Some (kInvalidSlotID, c)
     | Some dev \<Rightarrow>
         let ep0_dci = device_context_index 0 False;
             ic = enable_endpoint ep0_dci (enable_slot_context (clear_control_context (dev_input_context dev)));
             slot_ctx = initialize_slot_context port (portsc c port) (ic_slot_context ic);
             ic = ic\<lparr>ic_slot_context := slot_ctx\<rparr>
         in do {
           (tr, dev, ap) \<leftarrow> alloc_transfer_ring env ep0_dci 32 dev (alloc_ptr c);
           tr \<leftarrow> tr;
           ic \<leftarrow> update_ep_context ep0_dci
             (initialize_ep0_context (buf_addr tr) (determine_max_packet_size (slot_speed slot_ctx))) ic;
           let dev = dev\<lparr>dev_input_context := ic\<rparr>; c = set_device slot dev (c\<lparr>alloc_ptr := ap\<rparr>)
           in do {
             (_, c) \<leftarrow> load_dcbaa env slot c;
             let c = set_phase port kAddressingDevice c
             in Some (kSuccess, push_command (address_device_command_trb (input_context_addr env dev) slot) c) } } }"

definition initialize_device :: "usb_env \<Rightarrow> u8 \<Rightarrow> u8 \<Rightarrow> controller \<Rightarrow> (usb_error \<times> controller) option" where
  "initialize_device env port slot c =
     (case find_by_slot c slot of
        None \<Rightarrow> Some (kInvalidSlotID, c)
      | Some dev \<Rightarrow> do {
          (_, dev) \<leftarrow> start_initialize env dev;
          Some (kSuccess, set_device slot dev (set_phase port kInitializingDevice c)) })"

definition complete_configuration :: "u8 \<Rightarrow> u8 \<Rightarrow> controller \<Rightarrow> (usb_error \<times> controller) option" where
  "complete_configuration port slot c =
     (case find_by_slot c slot of
        None \<Rightarrow> Some (kInvalidSlotID, c)
      | Some dev \<Rightarrow> do {
          (_, dev) \<leftarrow> on_endpoints_configured dev;
          Some (kSuccess, set_phase port kConfigured (set_device slot dev c)) })"

text \<open>The loop of \<open>ConfigureEndpoints\<close>.\<close>

primrec configure_loop ::
    "usb_env \<Rightarrow> int \<Rightarrow> endpoint_config list \<Rightarrow> xhci_device \<Rightarrow> u64 \<Rightarrow> (xhci_device \<times> u64) option" where
  "configure_loop env speed [] dev ap = Some (dev, ap)"
| "configure_loop env speed (conf # confs) dev ap =
     (let dci = ep_address (ep_id conf); ic = enable_endpoint dci (dev_input_context dev)
      in do {
        (tr, dev, ap) \<leftarrow> alloc_transfer_ring env dci 32 dev ap;
        tr \<leftarrow> tr;
        ic \<leftarrow> update_ep_context dci (initialize_ep_context speed conf (buf_addr tr)) ic;
        configure_loop env speed confs (dev\<lparr>dev_input_context := ic\<rparr>) ap })"

definition configure_endpoints :: "usb_env \<Rightarrow> u8 \<Rightarrow> controller \<Rightarrow> (usb_error \<times> controller) option" where
  "configure_endpoints env slot c = do {
     dev \<leftarrow> find_by_slot c slot;
     let confs = take (nat (num_ep_configs dev)) (ep_configs dev);
         ic = clear_control_context (dev_input_context dev);
         ic = enable_slot_context (ic\<lparr>ic_slot_context := dev_context dev\<rparr>);
         ic = ic\<lparr>ic_slot_context := (ic_slot_context ic)\<lparr>sc0 := bits_set 27 5 31 (sc0 (ic_slot_context ic))\<rparr>\<rparr>;
         dev = dev\<lparr>dev_input_context := ic\<rparr>;
         port = ucast (root_hub_port_num (dev_context dev));
         speed = port_speed (portsc c port)
     in if speed = 0 \<or> speed > 5 then Some (kUnknownXHCISpeedID, set_device slot dev c)
        else do {
          (dev, ap) \<leftarrow> configure_loop env speed confs dev (alloc_ptr c);
          let c = set_phase port kConfiguringEndpoints (set_device slot dev (c\<lparr>alloc_ptr := ap\<rparr>))
          in Some (kSuccess, push_command (configure_endpoint_command_trb (input_context_addr env dev) (dev_slot_id dev)) c) } }"

subsection \<open>Events\<close>

definition on_port_status_change :: "port_hw \<Rightarrow> trb \<Rightarrow> controller \<Rightarrow> (usb_error \<times> controller) option" where
  "on_port_status_change hw event c =
     (let p = ucast (port_id event)
      in case phase_of c p of
           kNotConnected \<Rightarrow> reset_port hw p c
         | kResettingPort \<Rightarrow> Some (enable_slot hw p c)
         | _ \<Rightarrow> Some (kInvalidPhase, c))"

definition on_transfer_event :: "usb_env \<Rightarrow> (u64 \<Rightarrow> u8) \<Rightarrow> trb \<Rightarrow> controller \<Rightarrow> (usb_error \<times> controller) option" where
  "on_transfer_event env mem event c =
     (let slot = ucast (slot_id event)
      in case find_by_slot c slot of
           None \<Rightarrow> Some (kInvalidSlotID, c)
         | Some dev \<Rightarrow> do {
             (e, dev, ap) \<leftarrow> on_transfer_event_received env mem event dev (alloc_ptr c);
             let c = set_device slot dev (c\<lparr>alloc_ptr := ap\<rparr>);
                 port = ucast (root_hub_port_num (dev_context dev))
             in if usb_failed e then Some (e, c)
                else if is_initialized dev \<and> phase_of c port = kInitializingDevice then configure_endpoints env slot c
                else Some (kSuccess, c) })"

text \<open>The loop over the ports: the first that waits is reset, and the loop stops there.\<close>

definition first_waiting :: "controller \<Rightarrow> nat option" where
  "first_waiting c = find (\<lambda>i. port_config_phase c ! i = kWaitingAddressed) [0..<length (port_config_phase c)]"

definition reset_next :: "port_hw \<Rightarrow> controller \<Rightarrow> (usb_error \<times> controller) option" where
  "reset_next hw c =
     (case first_waiting c of
        None \<Rightarrow> Some (kSuccess, c)
      | Some i \<Rightarrow> reset_port hw (of_nat i) c)"

definition on_command_completion ::
    "port_hw \<Rightarrow> usb_env \<Rightarrow> trb \<Rightarrow> controller \<Rightarrow> (usb_error \<times> controller) option" where
  "on_command_completion hw env event c = do {
     issuer \<leftarrow> ring_trb (command_ring c) (event_pointer event);
     let issuer_type = trb_type issuer; slot = ucast (slot_id event)
     in if issuer_type = enable_slot_command_trb_type then
          if phase_of c (addressing_port c) \<noteq> kEnablingSlot then Some (kInvalidPhase, c)
          else address_device env (addressing_port c) slot c
        else if issuer_type = address_device_command_trb_type then
          case find_by_slot c slot of
            None \<Rightarrow> Some (kInvalidSlotID, c)
          | Some dev \<Rightarrow>
              let port = ucast (root_hub_port_num (dev_context dev))
              in if port \<noteq> addressing_port c then Some (kInvalidPhase, c)
                 else if phase_of c port \<noteq> kAddressingDevice then Some (kInvalidPhase, c)
                 else do {
                   (e, c) \<leftarrow> reset_next hw (c\<lparr>addressing_port := 0\<rparr>);
                   if usb_failed e then Some (e, c) else initialize_device env port slot c }
        else if issuer_type = configure_endpoint_command_trb_type then
          case find_by_slot c slot of
            None \<Rightarrow> Some (kInvalidSlotID, c)
          | Some dev \<Rightarrow>
              let port = ucast (root_hub_port_num (dev_context dev))
              in if phase_of c port \<noteq> kConfiguringEndpoints then Some (kInvalidPhase, c)
                 else complete_configuration port slot c
        else Some (kInvalidPhase, c) }"

definition configure_port :: "port_hw \<Rightarrow> u8 \<Rightarrow> controller \<Rightarrow> (usb_error \<times> controller) option" where
  "configure_port hw p c = (if phase_of c p = kNotConnected then reset_port hw p c else Some (kSuccess, c))"

definition handle_event :: "port_hw \<Rightarrow> usb_env \<Rightarrow> (u64 \<Rightarrow> u8) \<Rightarrow> trb \<Rightarrow> controller \<Rightarrow> (usb_error \<times> controller) option" where
  "handle_event hw env mem event c =
     (if trb_type event = transfer_event_trb_type then on_transfer_event env mem event c
      else if trb_type event = port_status_change_event_trb_type then on_port_status_change hw event c
      else if trb_type event = command_completion_event_trb_type then on_command_completion hw env event c
      else Some (kNotImplemented, c))"

definition process_event :: "port_hw \<Rightarrow> usb_env \<Rightarrow> (u64 \<Rightarrow> u8) \<Rightarrow> controller \<Rightarrow> (usb_error \<times> controller) option" where
  "process_event hw env mem c = do {
     waiting \<leftarrow> has_front (primary_event_ring c);
     if \<not> waiting then Some (kSuccess, c)
     else do {
       event \<leftarrow> front (primary_event_ring c);
       (e, c) \<leftarrow> handle_event hw env mem event c;
       Some (e, c\<lparr>primary_event_ring := pop (primary_event_ring c)\<rparr>) } }"

end
