(* ===== verification/Xhci_Protocol.thy ===== *)
theory Xhci_Protocol
  imports Xhci_Controller
begin

text \<open>
  The order in which the ports are handled. The comment in \<open>xhci.cpp\<close> asks that, from the reset of
  a port until its device has an address, no other port is handled: a device answers on the default
  address in this time. \<open>addressing_port\<close> and the phases have to enforce this, whatever the
  order of events and whatever the hardware does in between.
\<close>

subsection \<open>The table of phases\<close>

definition active :: "config_phase \<Rightarrow> bool" where
  "active ph \<longleftrightarrow> ph = kResettingPort \<or> ph = kEnablingSlot \<or> ph = kAddressingDevice"

definition protocol_ok :: "config_phase list \<Rightarrow> u8 \<Rightarrow> bool" where
  "protocol_ok ps a \<longleftrightarrow> length ps = 256 \<and> ps ! 0 = kNotConnected \<and> (\<forall>p :: u8. active (ps ! unat p) \<longleftrightarrow> p = a \<and> a \<noteq> 0)"

lemma active_simps [simp]:
  "active kResettingPort" "active kEnablingSlot" "active kAddressingDevice" "\<not> active kNotConnected" "\<not> active kWaitingAddressed"
  "\<not> active kInitializingDevice" "\<not> active kConfiguringEndpoints" "\<not> active kConfigured"
  by (simp_all add: active_def)

lemma port_in_table: "unat p < 256" for p :: u8
  using unat_lt2p[of p] by simp

lemma take_bit_ucast_u8: "ucast (ucast w :: u8) = take_bit 8 w" for w :: u32
  by (rule bit_word_eqI) (auto simp: bit_simps)

lemma nth_table_update:
  "length ps = 256 \<Longrightarrow> ps[unat p := ph] ! unat q = (if p = q then ph else ps ! unat q)" for p q :: u8
  using port_in_table[of p] by (auto simp: nth_list_update word_unat_eq_iff)

lemma nth_table_0: "p \<noteq> 0 \<Longrightarrow> ps[unat p := ph] ! 0 = ps ! 0" for p :: u8
  by (rule nth_list_update_neq) (simp add: unat_eq_zero)

lemma protocol_ok_update:
  assumes "protocol_ok ps a" and "p \<noteq> 0" and "\<And>q :: u8. active (if p = q then ph else ps ! unat q) \<longleftrightarrow> q = a' \<and> a' \<noteq> 0"
  shows "protocol_ok (ps[unat p := ph]) a'"
proof -
  have len: "length ps = 256" and "ps ! 0 = kNotConnected" using assms(1) by (simp_all add: protocol_ok_def)
  then show ?thesis
    unfolding protocol_ok_def nth_table_update[OF len] nth_table_0[OF assms(2)] using assms(3) by simp
qed

lemma protocol_ok_phase: "protocol_ok ps a \<Longrightarrow> active (ps ! unat q) \<longleftrightarrow> q = a \<and> a \<noteq> 0"
  by (simp add: protocol_ok_def)

lemma protocol_ok_idle:
  fixes p :: u8
  assumes "protocol_ok ps a" and "\<not> active (ps ! unat p)" and "\<not> active ph" and "p \<noteq> 0"
  shows "protocol_ok (ps[unat p := ph]) a"
  by (rule protocol_ok_update[OF assms(1,4)]) (use assms protocol_ok_phase[OF assms(1)] in auto)

lemma protocol_ok_start:
  assumes "protocol_ok ps 0" and "p \<noteq> 0" and "active ph"
  shows "protocol_ok (ps[unat p := ph]) p"
  by (rule protocol_ok_update[OF assms(1,2)]) (use assms protocol_ok_phase[OF assms(1)] in auto)

lemma protocol_ok_continue:
  assumes "protocol_ok ps a" and "a \<noteq> 0" and "active ph"
  shows "protocol_ok (ps[unat a := ph]) a"
  by (rule protocol_ok_update[OF assms(1,2)]) (use assms protocol_ok_phase[OF assms(1)] in auto)

lemma protocol_ok_finish:
  assumes "protocol_ok ps a" and "a \<noteq> 0" and "\<not> active ph"
  shows "protocol_ok (ps[unat a := ph]) 0"
  by (rule protocol_ok_update[OF assms(1,2)]) (use assms protocol_ok_phase[OF assms(1)] in auto)

lemma protocol_ok_active: "protocol_ok ps a \<Longrightarrow> active (ps ! unat p) \<Longrightarrow> p = a \<and> a \<noteq> 0"
  by (simp add: protocol_ok_def)

subsection \<open>What the operations do to it\<close>

definition table :: "controller \<Rightarrow> config_phase list \<times> u8" where
  "table c = (port_config_phase c, addressing_port c)"

definition ok :: "controller \<Rightarrow> bool" where
  "ok c \<longleftrightarrow> (case table c of (ps, a) \<Rightarrow> protocol_ok ps a)"

lemma table_frame [simp]:
  "table (set_device s d c) = table c" "table (push_command t c) = table c" "table (write_port p v n c) = table c"
  "table (c\<lparr>alloc_ptr := ap\<rparr>) = table c" "table (c\<lparr>device_context_pointers := ds\<rparr>) = table c"
  "table (c\<lparr>primary_event_ring := er\<rparr>) = table c" "table (c\<lparr>portsc := sc\<rparr>) = table c" "table (c\<lparr>devices := devs\<rparr>) = table c"
  by (simp_all add: table_def set_device_def push_command_def write_port_def)

lemma table_set_phase [simp]: "table (set_phase p ph c) = ((fst (table c))[unat p := ph], snd (table c))"
  by (simp add: table_def set_phase_def)

lemma phase_of_table: "phase_of c p = fst (table c) ! unat p" and addressing_of_table: "addressing_port c = snd (table c)"
  by (simp_all add: phase_of_def table_def)

lemma alloc_device_table: "alloc_device env slot c = Some (e, c') \<Longrightarrow> table c' = table c"
  by (auto simp: alloc_device_def Let_def split: if_splits prod.splits)

lemma load_dcbaa_table: "load_dcbaa env slot c = Some (e, c') \<Longrightarrow> table c' = table c"
  by (auto simp: load_dcbaa_def bind_eq_Some_conv split: if_splits)

lemma port_reset_operation_table: "port_reset_operation hw p c = Some (e, c') \<Longrightarrow> table c' = table c"
  by (auto simp: port_reset_operation_def bind_eq_Some_conv)

text \<open>A reset either changes nothing, or the port has to wait, or it becomes the port that is being addressed.\<close>

lemma reset_port_table:
  assumes "reset_port hw p c = Some (e, c')"
  shows "(table c' = table c) \<or>
    (is_connected (portsc c p) \<and> addressing_port c \<noteq> 0 \<and> table c' = ((fst (table c))[unat p := kWaitingAddressed], snd (table c)) \<and> e = kSuccess) \<or>
    (is_connected (portsc c p) \<and> addressing_port c = 0 \<and> table c' = ((fst (table c))[unat p := kResettingPort], p) \<and> e = kSuccess)"
proof -
  have "table (set_phase p kResettingPort (c\<lparr>addressing_port := p\<rparr>)) = ((fst (table c))[unat p := kResettingPort], p)"
    by (simp add: table_def set_phase_def)
  with assms show ?thesis
    by (auto simp: reset_port_def bind_eq_Some_conv Let_def dest!: port_reset_operation_table split: if_splits)
qed

lemma reset_port_ok:
  assumes "ok c" and "reset_port hw p c = Some (e, c')" and "p \<noteq> 0" and "phase_of c p = kNotConnected \<or> phase_of c p = kWaitingAddressed"
  shows "ok c'"
proof -
  obtain ps a where t: "table c = (ps, a)" by force
  have inv: "protocol_ok ps a" using assms(1) t by (simp add: ok_def)
  have idle: "\<not> active (ps ! unat p)" using assms(4) t by (auto simp: phase_of_table)
  have "addressing_port c = a" using t by (simp add: addressing_of_table)
  with reset_port_table[OF assms(2)] inv idle assms(3) t show ?thesis
    by (auto simp: ok_def protocol_ok_idle protocol_ok_start)
qed

lemma enable_slot_ok:
  assumes "ok c" and "phase_of c p = kResettingPort" and "enable_slot hw p c = (e, c')"
  shows "ok c'"
proof -
  obtain ps a where t: "table c = (ps, a)" by force
  have inv: "protocol_ok ps a" using assms(1) t by (simp add: ok_def)
  have "p = a" "a \<noteq> 0" using protocol_ok_active[OF inv, of p] assms(2) t by (simp_all add: phase_of_table)
  with assms(3) inv t protocol_ok_continue[OF inv] show ?thesis
    by (auto simp: enable_slot_def clear_port_reset_change_def Let_def ok_def split: if_splits)
qed

lemma address_device_ok:
  assumes "ok c" and "phase_of c (addressing_port c) = kEnablingSlot" and "address_device env (addressing_port c) slot c = Some (e, c')"
  shows "ok c'"
proof -
  obtain ps a where t: "table c = (ps, a)" by force
  have inv: "protocol_ok ps a" using assms(1) t by (simp add: ok_def)
  have a: "addressing_port c = a" using t by (simp add: addressing_of_table)
  have nz: "a \<noteq> 0" using protocol_ok_active[OF inv, of a] assms(2) t a by (simp add: phase_of_table)
  have "table c' = (ps, a) \<or> table c' = (ps[unat a := kAddressingDevice], a)"
    using assms(3) t unfolding address_device_def a
    by (auto simp: bind_eq_Some_conv Let_def dest!: alloc_device_table load_dcbaa_table split: option.splits prod.splits)
  with inv nz show ?thesis by (auto simp: ok_def protocol_ok_continue)
qed

text \<open>The phases outside of addressing.\<close>

lemma initialize_device_table:
  assumes "initialize_device env port slot c = Some (e, c')" and "find_by_slot c slot \<noteq> None"
  shows "table c' = ((fst (table c))[unat port := kInitializingDevice], snd (table c))"
  using assms by (auto simp: initialize_device_def bind_eq_Some_conv split: option.splits)

lemma complete_configuration_ok:
  assumes "ok c" and "phase_of c port = kConfiguringEndpoints" and "complete_configuration port slot c = Some (e, c')"
  shows "ok c'"
proof -
  obtain ps a where t: "table c = (ps, a)" by force
  have inv: "protocol_ok ps a" using assms(1) t by (simp add: ok_def)
  have ph: "ps ! unat port = kConfiguringEndpoints" using assms(2) t by (simp add: phase_of_table)
  then have "port \<noteq> 0" using inv by (auto simp: protocol_ok_def)
  then have "protocol_ok (ps[unat port := kConfigured]) a" using inv ph by (intro protocol_ok_idle) simp_all
  with assms(3) inv t show ?thesis
    by (auto simp: complete_configuration_def bind_eq_Some_conv ok_def split: option.splits)
qed

lemma configure_endpoints_ok:
  assumes "ok c" and dev: "find_by_slot c slot = Some dev"
    and ph: "phase_of c (ucast (root_hub_port_num (dev_context dev))) = kInitializingDevice"
    and "configure_endpoints env slot c = Some (e, c')"
  shows "ok c'"
proof -
  obtain ps a where t: "table c = (ps, a)" by force
  have inv: "protocol_ok ps a" using assms(1) t by (simp add: ok_def)
  let ?p = "ucast (root_hub_port_num (dev_context dev)) :: u8"
  have ph: "ps ! unat ?p = kInitializingDevice" using ph t by (simp add: phase_of_table)
  then have "?p \<noteq> 0" using inv by (auto simp: protocol_ok_def)
  then have fine: "protocol_ok (ps[unat ?p := kConfiguringEndpoints]) a" using inv ph by (intro protocol_ok_idle) simp_all
  have "table c' = (ps, a) \<or> table c' = (ps[unat ?p := kConfiguringEndpoints], a)"
    using assms(4) t unfolding configure_endpoints_def dev
    by (auto simp: bind_eq_Some_conv Let_def split: if_splits prod.splits)
  with fine inv show ?thesis by (auto simp: ok_def)
qed

subsection \<open>The table of devices keeps its size\<close>

definition shape :: "controller \<Rightarrow> nat \<times> nat" where
  "shape c = (length (devices c), max_slots c)"

lemma shape_frame [simp]:
  "shape (set_device s d c) = shape c" "shape (push_command t c) = shape c" "shape (write_port p v n c) = shape c"
  "shape (set_phase p ph c) = shape c" "shape (c\<lparr>alloc_ptr := ap\<rparr>) = shape c" "shape (c\<lparr>device_context_pointers := ds\<rparr>) = shape c"
  "shape (c\<lparr>primary_event_ring := er\<rparr>) = shape c" "shape (c\<lparr>portsc := sc\<rparr>) = shape c" "shape (c\<lparr>addressing_port := a\<rparr>) = shape c"
  by (simp_all add: shape_def set_device_def push_command_def write_port_def set_phase_def)

lemma alloc_device_shape: "alloc_device env slot c = Some (e, c') \<Longrightarrow> shape c' = shape c"
  by (auto simp: alloc_device_def Let_def split: if_splits prod.splits)

lemma load_dcbaa_shape: "load_dcbaa env slot c = Some (e, c') \<Longrightarrow> shape c' = shape c"
  by (auto simp: load_dcbaa_def bind_eq_Some_conv split: if_splits)

lemma reset_port_shape: "reset_port hw p c = Some (e, c') \<Longrightarrow> shape c' = shape c"
  by (auto simp: reset_port_def port_reset_operation_def bind_eq_Some_conv Let_def split: if_splits)

lemma reset_next_shape: "reset_next hw c = Some (e, c') \<Longrightarrow> shape c' = shape c"
  by (auto simp: reset_next_def dest: reset_port_shape split: option.splits)

lemma enable_slot_shape: "enable_slot hw p c = (e, c') \<Longrightarrow> shape c' = shape c"
  by (auto simp: enable_slot_def clear_port_reset_change_def Let_def split: if_splits)

lemma address_device_shape: "address_device env port slot c = Some (e, c') \<Longrightarrow> shape c' = shape c"
  by (auto simp: address_device_def bind_eq_Some_conv Let_def dest!: alloc_device_shape load_dcbaa_shape split: option.splits prod.splits)

lemma initialize_device_shape: "initialize_device env port slot c = Some (e, c') \<Longrightarrow> shape c' = shape c"
  by (auto simp: initialize_device_def bind_eq_Some_conv split: option.splits)

lemma complete_configuration_shape: "complete_configuration port slot c = Some (e, c') \<Longrightarrow> shape c' = shape c"
  by (auto simp: complete_configuration_def bind_eq_Some_conv split: option.splits)

lemma configure_endpoints_shape: "configure_endpoints env slot c = Some (e, c') \<Longrightarrow> shape c' = shape c"
  by (auto simp: configure_endpoints_def bind_eq_Some_conv Let_def split: if_splits prod.splits)

lemmas operation_shapes = reset_port_shape reset_next_shape enable_slot_shape address_device_shape initialize_device_shape
  complete_configuration_shape configure_endpoints_shape

lemma find_set_device:
  assumes "find_by_slot c slot = Some dev" and "length (devices c) = Suc (max_slots c)"
  shows "find_by_slot (set_device slot dev' (c\<lparr>alloc_ptr := ap\<rparr>)) slot = Some dev'"
  using assms by (auto simp: find_by_slot_def set_device_def split: if_splits)

subsection \<open>Events\<close>

lemma on_port_status_change_ok:
  assumes "ok c" and "port_id event \<noteq> 0" and "on_port_status_change hw event c = Some (e, c')"
  shows "ok c'" and "shape c' = shape c"
proof -
  let ?p = "ucast (port_id event) :: u8"
  have "port_id event = take_bit 8 (port_id event)" by (simp add: port_id_def)
  then have "port_id event = ucast ?p" by (metis take_bit_ucast_u8)
  then have p: "?p \<noteq> 0" using assms(2) by auto
  show "ok c'"
    using assms(3) reset_port_ok[OF assms(1) _ p] enable_slot_ok[OF assms(1)] assms(1)
    by (auto simp: on_port_status_change_def Let_def split: config_phase.splits)
  show "shape c' = shape c"
    using assms(3) by (auto simp: on_port_status_change_def Let_def dest: operation_shapes split: config_phase.splits)
qed

lemma on_transfer_event_ok:
  assumes "ok c" and "length (devices c) = Suc (max_slots c)" and "on_transfer_event env mem event c = Some (e, c')"
  shows "ok c'" and "shape c' = shape c"
proof -
  let ?slot = "ucast (slot_id event) :: u8"
  have "ok c' \<and> shape c' = shape c"
  proof (cases "find_by_slot c ?slot")
    case None
    then show ?thesis using assms by (simp add: on_transfer_event_def)
  next
    case (Some dev)
    then obtain e1 dev1 ap where r: "on_transfer_event_received env mem event dev (alloc_ptr c) = Some (e1, dev1, ap)"
      using assms(3) by (auto simp: on_transfer_event_def bind_eq_Some_conv Let_def)
    define c1 where "c1 = set_device ?slot dev1 (c\<lparr>alloc_ptr := ap\<rparr>)"
    let ?port = "ucast (root_hub_port_num (dev_context dev1)) :: u8"
    have res: "(if usb_failed e1 then Some (e1, c1)
        else if is_initialized dev1 \<and> phase_of c1 ?port = kInitializingDevice then configure_endpoints env ?slot c1
        else Some (kSuccess, c1)) = Some (e, c')"
      using assms(3) unfolding on_transfer_event_def Let_def Some c1_def option.case r by simp
    have ok1: "ok c1" "shape c1 = shape c" using assms(1) by (simp_all add: c1_def ok_def)
    have "find_by_slot c1 ?slot = Some dev1" unfolding c1_def by (rule find_set_device[OF Some assms(2)])
    from configure_endpoints_ok[OF ok1(1) this] res ok1 configure_endpoints_shape show ?thesis
      by (auto split: if_splits)
  qed
  then show "ok c'" "shape c' = shape c" by simp_all
qed

lemma first_waiting_Some:
  assumes "first_waiting c = Some i"
  shows "i < length (port_config_phase c)" and "port_config_phase c ! i = kWaitingAddressed"
    and "\<forall>j<i. port_config_phase c ! j \<noteq> kWaitingAddressed"
  using assms by (auto simp: first_waiting_def find_Some_iff)

lemma first_waiting_None: "first_waiting c = None \<Longrightarrow> i < length (port_config_phase c) \<Longrightarrow> port_config_phase c ! i \<noteq> kWaitingAddressed"
  by (auto simp: first_waiting_def find_None_iff)

text \<open>When the address of a device is set: nothing else happens, or the first waiting port is reset.\<close>

lemma reset_next_table:
  assumes "reset_next hw (c\<lparr>addressing_port := 0\<rparr>) = Some (e, c')" and "length (port_config_phase c) = 256"
  shows "table c' = (port_config_phase c, 0) \<or>
    (\<exists>p :: u8. first_waiting c = Some (unat p) \<and> is_connected (portsc c p) \<and> phase_of c p = kWaitingAddressed \<and>
       table c' = ((port_config_phase c)[unat p := kResettingPort], p) \<and> e = kSuccess)"
proof -
  let ?c = "c\<lparr>addressing_port := 0\<rparr>"
  have fw: "first_waiting ?c = first_waiting c" and tab: "table ?c = (port_config_phase c, 0)"
    by (simp_all add: first_waiting_def table_def)
  show ?thesis
  proof (cases "first_waiting c")
    case None
    then show ?thesis using assms(1) tab by (auto simp: reset_next_def fw)
  next
    case (Some i)
    note f = first_waiting_Some[OF Some]
    have i: "unat (of_nat i :: u8) = i" using f(1) assms(2) by (simp add: unat_of_nat_eq)
    have "reset_port hw (of_nat i) ?c = Some (e, c')" using assms(1) Some by (simp add: reset_next_def fw)
    from reset_port_table[OF this] f i Some tab show ?thesis by (auto simp: phase_of_def)
  qed
qed

lemma finish_addressing_ok:
  assumes "ok c" and "phase_of c (addressing_port c) = kAddressingDevice"
    and "reset_next hw (c\<lparr>addressing_port := 0\<rparr>) = Some (e1, c1)"
    and "find_by_slot c1 slot \<noteq> None" and "initialize_device env (addressing_port c) slot c1 = Some (e, c')"
  shows "ok c'"
proof -
  obtain ps a where t: "table c = (ps, a)" by force
  have parts: "port_config_phase c = ps" "addressing_port c = a" using t by (simp_all add: table_def)
  have inv: "protocol_ok ps a" using assms(1) t by (simp add: ok_def)
  have act: "active (ps ! unat a)" using assms(2) by (simp add: phase_of_def parts)
  then have nz: "a \<noteq> 0" using protocol_ok_active[OF inv] by blast
  have len: "length ps = 256" and zero: "ps ! 0 = kNotConnected" using inv by (simp_all add: protocol_ok_def)
  have fin: "protocol_ok (ps[unat a := kInitializingDevice]) 0" by (rule protocol_ok_finish[OF inv nz]) simp
  have c': "table c' = ((fst (table c1))[unat a := kInitializingDevice], snd (table c1))"
    using initialize_device_table[OF assms(5,4)] parts by simp
  have "table c1 = (ps, 0) \<or> (\<exists>p :: u8. ps ! unat p = kWaitingAddressed \<and> table c1 = (ps[unat p := kResettingPort], p))"
    using reset_next_table[OF assms(3)] len parts by (auto simp: phase_of_def)
  then show ?thesis
  proof (elim disjE exE conjE)
    assume "table c1 = (ps, 0)"
    then show ?thesis using c' fin by (simp add: ok_def)
  next
    fix p :: u8
    assume p: "ps ! unat p = kWaitingAddressed" and c1: "table c1 = (ps[unat p := kResettingPort], p)"
    have "p \<noteq> 0" "p \<noteq> a" using p zero act by auto
    then have "unat p \<noteq> unat a" by (simp add: word_unat_eq_iff)
    then have "(ps[unat p := kResettingPort])[unat a := kInitializingDevice] = (ps[unat a := kInitializingDevice])[unat p := kResettingPort]"
      by (rule list_update_swap)
    then show ?thesis using c' c1 protocol_ok_start[OF fin \<open>p \<noteq> 0\<close>, of kResettingPort] by (simp add: ok_def)
  qed
qed

lemma find_by_slot_table: "shape c' = shape c \<Longrightarrow> devices c' = devices c \<Longrightarrow> find_by_slot c' slot = find_by_slot c slot"
  by (simp add: find_by_slot_def shape_def)

lemma reset_next_devices: "reset_next hw (c\<lparr>addressing_port := a\<rparr>) = Some (e, c') \<Longrightarrow> devices c' = devices c"
  by (auto simp: reset_next_def reset_port_def port_reset_operation_def write_port_def set_phase_def bind_eq_Some_conv Let_def
      split: option.splits if_splits)

lemma reset_next_succeeds:
  assumes "reset_next hw (c\<lparr>addressing_port := 0\<rparr>) = Some (e, c')" and "length (port_config_phase c) = 256"
  shows "e = kSuccess"
proof (cases "first_waiting c")
  case None
  then have "first_waiting (c\<lparr>addressing_port := 0\<rparr>) = None" by (simp add: first_waiting_def)
  with assms(1) show ?thesis by (simp add: reset_next_def)
next
  case (Some i)
  then have fw: "first_waiting (c\<lparr>addressing_port := 0\<rparr>) = Some i" by (simp add: first_waiting_def)
  have "unat (of_nat i :: u8) = i" using first_waiting_Some(1)[OF Some] assms(2) by (simp add: unat_of_nat_eq)
  then have "phase_of (c\<lparr>addressing_port := 0\<rparr>) (of_nat i) = kWaitingAddressed"
    using first_waiting_Some(2)[OF Some] by (simp add: phase_of_def)
  with assms(1) fw show ?thesis
    by (auto simp: reset_next_def reset_port_def bind_eq_Some_conv Let_def split: if_splits)
qed

lemma on_command_completion_ok:
  assumes "ok c" and "on_command_completion hw env event c = Some (e, c')"
  shows "ok c'" and "shape c' = shape c"
proof -
  let ?slot = "ucast (slot_id event) :: u8"
  obtain issuer where issuer: "ring_trb (command_ring c) (event_pointer event) = Some issuer"
    using assms(2) by (auto simp: on_command_completion_def bind_eq_Some_conv)
  note body = assms(2)[unfolded on_command_completion_def issuer Let_def, simplified]
  have len: "length (port_config_phase c) = 256" using assms(1) by (simp add: ok_def table_def protocol_ok_def)
  have addressed: "ok c' \<and> shape c' = shape c"
    if dev: "find_by_slot c ?slot = Some dev" and ph: "phase_of c (addressing_port c) = kAddressingDevice"
      and r: "reset_next hw (c\<lparr>addressing_port := 0\<rparr>) = Some (e1, c1)" and i: "initialize_device env (addressing_port c) ?slot c1 = Some (e, c')"
    for dev e1 c1
  proof -
    have "shape c1 = shape c" using reset_next_shape[OF r] by simp
    moreover have "find_by_slot c1 ?slot = find_by_slot c ?slot"
      by (rule find_by_slot_table) (simp_all add: calculation reset_next_devices[OF r])
    ultimately show ?thesis
      using finish_addressing_ok[OF assms(1) ph r _ i] initialize_device_shape[OF i] dev by simp
  qed
  have "ok c' \<and> shape c' = shape c"
    using body addressed address_device_ok[OF assms(1)] complete_configuration_ok[OF assms(1)] assms(1) reset_next_succeeds[OF _ len]
    by (auto simp: bind_eq_Some_conv usb_failed_def dest: operation_shapes split: if_splits option.splits)
  then show "ok c'" "shape c' = shape c" by simp_all
qed

lemma handle_event_ok:
  assumes "ok c" and "length (devices c) = Suc (max_slots c)"
    and "trb_type event = port_status_change_event_trb_type \<Longrightarrow> port_id event \<noteq> 0"
    and "handle_event hw env mem event c = Some (e, c')"
  shows "ok c'" and "shape c' = shape c"
proof -
  note laws = on_port_status_change_ok[OF assms(1,3)] on_transfer_event_ok[OF assms(1,2)] on_command_completion_ok[OF assms(1)]
  show "ok c'" "shape c' = shape c"
    using assms(1,4) unfolding handle_event_def by (auto split: if_splits dest: laws)
qed

subsection \<open>Runs\<close>

text \<open>
  The hardware may change the port registers, post events and write the device contexts at any
  time. The port numbers of its events start at 1.
\<close>

definition same_driver_part :: "xhci_device option \<Rightarrow> xhci_device option \<Rightarrow> bool" where
  "same_driver_part d d' \<longleftrightarrow> (case d of None \<Rightarrow> d' = None | Some dev \<Rightarrow> \<exists>ctx. d' = Some (dev\<lparr>dev_context := ctx\<rparr>))"

definition good_events :: "controller \<Rightarrow> bool" where
  "good_events c \<longleftrightarrow> (\<forall>event. front (primary_event_ring c) = Some event \<and>
     trb_type event = port_status_change_event_trb_type \<longrightarrow> port_id event \<noteq> 0)"

inductive xhc_step :: "port_hw \<Rightarrow> usb_env \<Rightarrow> controller \<Rightarrow> controller \<Rightarrow> bool" for hw env where
  Event: "process_event hw env mem c = Some (e, c') \<Longrightarrow> good_events c \<Longrightarrow> xhc_step hw env c c'"
| Port: "configure_port hw p c = Some (e, c') \<Longrightarrow> p \<noteq> 0 \<Longrightarrow> xhc_step hw env c c'"
| Hardware: "list_all2 same_driver_part (devices c) devs \<Longrightarrow>
    xhc_step hw env c (c\<lparr>portsc := sc, primary_event_ring := (primary_event_ring c)\<lparr>er_buf := bs\<rparr>, devices := devs\<rparr>)"

inductive_cases xhc_stepE: "xhc_step hw env c c'"

inductive xhc_reachable :: "port_hw \<Rightarrow> usb_env \<Rightarrow> controller \<Rightarrow> controller \<Rightarrow> bool" for hw env c0 where
  start: "xhc_reachable hw env c0 c0"
| step: "xhc_reachable hw env c0 c \<Longrightarrow> xhc_step hw env c c' \<Longrightarrow> xhc_reachable hw env c0 c'"

definition initial_controller :: "controller \<Rightarrow> bool" where
  "initial_controller c \<longleftrightarrow> port_config_phase c = replicate 256 kNotConnected \<and> addressing_port c = 0 \<and>
     length (devices c) = Suc (max_slots c)"

definition controller_ok :: "controller \<Rightarrow> bool" where
  "controller_ok c \<longleftrightarrow> ok c \<and> length (devices c) = Suc (max_slots c)"

lemma controller_ok_shape: "ok c' \<Longrightarrow> shape c' = shape c \<Longrightarrow> controller_ok c \<Longrightarrow> controller_ok c'"
  by (simp add: controller_ok_def shape_def)

lemma initial_controller_ok: "initial_controller c \<Longrightarrow> controller_ok c"
  using port_in_table by (simp add: initial_controller_def controller_ok_def ok_def table_def protocol_ok_def)

lemma process_event_ok:
  assumes "controller_ok c" and "good_events c" and "process_event hw env mem c = Some (e, c')"
  shows "controller_ok c'"
proof -
  obtain waiting where w: "has_front (primary_event_ring c) = Some waiting"
    using assms(3) by (auto simp: process_event_def bind_eq_Some_conv)
  show ?thesis
  proof (cases waiting)
    case False
    then show ?thesis using assms w by (simp add: process_event_def)
  next
    case True
    then obtain event c1 where ev: "front (primary_event_ring c) = Some event" "handle_event hw env mem event c = Some (e, c1)"
        and c': "c' = c1\<lparr>primary_event_ring := pop (primary_event_ring c1)\<rparr>"
      using assms(3) w by (auto simp: process_event_def bind_eq_Some_conv)
    have "trb_type event = port_status_change_event_trb_type \<Longrightarrow> port_id event \<noteq> 0"
      using assms(2) ev(1) by (simp add: good_events_def)
    from handle_event_ok[OF _ _ this ev(2)] assms(1) have "ok c1" "shape c1 = shape c"
      by (simp_all add: controller_ok_def)
    then show ?thesis unfolding c' by (intro controller_ok_shape[OF _ _ assms(1)]) (simp_all add: ok_def)
  qed
qed

lemma configure_port_ok:
  assumes "controller_ok c" and "configure_port hw p c = Some (e, c')" and "p \<noteq> 0"
  shows "controller_ok c'"
proof (cases "phase_of c p = kNotConnected")
  case True
  then have r: "reset_port hw p c = Some (e, c')" using assms(2) by (simp add: configure_port_def)
  have "ok c" using assms(1) by (simp add: controller_ok_def)
  from reset_port_ok[OF this r assms(3)] True reset_port_shape[OF r] show ?thesis
    by (blast intro: controller_ok_shape[OF _ _ assms(1)])
qed (use assms in \<open>simp add: configure_port_def\<close>)

lemma xhc_step_ok: "xhc_step hw env c c' \<Longrightarrow> controller_ok c \<Longrightarrow> controller_ok c'"
proof (induction rule: xhc_step.induct)
  case (Hardware c devs sc bs)
  then show ?case by (auto simp: controller_ok_def ok_def table_def dest: list_all2_lengthD)
qed (blast intro: process_event_ok configure_port_ok)+

lemma xhc_reachable_ok: "xhc_reachable hw env c0 c \<Longrightarrow> controller_ok c0 \<Longrightarrow> controller_ok c"
  by (induction rule: xhc_reachable.induct) (auto dest: xhc_step_ok)

text \<open>Claim C32.
  At most one port is between its reset and the address of its device, and it is the one that
  \<open>addressing_port\<close> names, in every state that the driver can reach by handling events and configuring ports in any
  order, while the hardware changes port registers, posts events and writes device contexts as it likes. If
  \<open>addressing_port\<close> is 0, no port is there.
\<close>

theorem one_port_addressed_at_a_time:
  assumes "initial_controller c0" and "xhc_reachable hw env c0 c"
  shows "(phase_of c p = kResettingPort \<or> phase_of c p = kEnablingSlot \<or> phase_of c p = kAddressingDevice) \<longleftrightarrow>
    addressing_port c = p \<and> p \<noteq> 0"
proof -
  have "controller_ok c" using xhc_reachable_ok[OF assms(2)] initial_controller_ok[OF assms(1)] by blast
  then have "protocol_ok (port_config_phase c) (addressing_port c)" by (simp add: controller_ok_def ok_def table_def)
  then show ?thesis by (auto simp: protocol_ok_def phase_of_def active_def)
qed

subsection \<open>An example\<close>

text \<open>A controller with a device on every port; a reset takes two reads.\<close>

definition demo_controller :: controller where
  "demo_controller = \<lparr>port_config_phase = replicate 256 kNotConnected, addressing_port = 0, portsc = (\<lambda>_. 0xe03), portsc_writes = [],
     command_ring = demo_ring, primary_event_ring = \<lparr>er_buf_addr = 0, er_buf = [], er_buf_size = 0, er_cycle = True, erst_addr = 0,
       erst_base = 0, erst_size = 0, reg_erstsz = 0, reg_erstba = 0, reg_erdp = 0\<rparr>,
     command_doorbells = [], max_slots = 8, devices = replicate 9 None, device_context_pointers = replicate 9 0, alloc_ptr = 0x100000\<rparr>"

definition demo_hw :: port_hw where
  "demo_hw = \<lparr>reset_reads = (\<lambda>p n. if n = 0 then 0xe11 else 0x200e03), write_portsc = (\<lambda>old new. old)\<rparr>"

lemma demo_wait: "wait_reset (reset_reads demo_hw p) 0 = Some 1"
  by (simp add: wait_reset.simps[of _ 0] wait_reset.simps[of _ "Suc 0"] demo_hw_def port_reset_def bits_get_def)

lemma demo_reset:
  assumes "p \<noteq> 0"
  shows "\<exists>c. configure_port demo_hw p demo_controller = Some (kSuccess, c) \<and> phase_of c p = kResettingPort \<and> addressing_port c = p"
proof -
  have "is_connected (portsc demo_controller p)" "phase_of demo_controller p = kNotConnected" "addressing_port demo_controller = 0"
    using port_in_table[of p] by (simp_all add: demo_controller_def is_connected_def bits_get_def phase_of_def)
  then show ?thesis
    using port_in_table[of p] demo_wait[of p]
    by (simp add: configure_port_def reset_port_def port_reset_operation_def write_port_def set_phase_def phase_of_def)
       (simp add: demo_controller_def)
qed

lemma demo_initial: "initial_controller demo_controller"
  by (simp add: initial_controller_def demo_controller_def)

theorem one_port_addressed_at_a_time_witness:
  "\<exists>c. xhc_reachable demo_hw demo_env demo_controller c \<and> addressing_port c = 3 \<and> phase_of c 3 = kResettingPort \<and>
     phase_of c 4 \<noteq> kResettingPort"
proof -
  obtain c where c: "configure_port demo_hw 3 demo_controller = Some (kSuccess, c)" "phase_of c 3 = kResettingPort" "addressing_port c = 3"
    using demo_reset[of 3] by auto
  have "xhc_step demo_hw demo_env demo_controller c" by (rule xhc_step.Port[OF c(1)]) simp
  then have r: "xhc_reachable demo_hw demo_env demo_controller c" by (rule xhc_reachable.step[OF xhc_reachable.start])
  from one_port_addressed_at_a_time[OF demo_initial r, of 4] c show ?thesis using r by auto
qed

subsection \<open>Which port comes next\<close>

lemma initialize_device_other:
  assumes "initialize_device env port slot c = Some (e, c')"
  shows "addressing_port c' = addressing_port c" and "q \<noteq> port \<Longrightarrow> length (port_config_phase c) = 256 \<Longrightarrow> phase_of c' q = phase_of c q"
    and "portsc_writes c' = portsc_writes c"
  using assms by (auto simp: initialize_device_def bind_eq_Some_conv set_device_def set_phase_def phase_of_def nth_table_update
      split: option.splits)


text \<open>Port 5 is being addressed, port 6 waits but has been disconnected.\<close>

definition demo_phases :: "config_phase list" where
  "demo_phases = ((replicate 256 kNotConnected)[5 := kAddressingDevice])[6 := kWaitingAddressed]"

definition demo_addressing :: controller where
  "demo_addressing = demo_controller\<lparr>port_config_phase := demo_phases, addressing_port := 5, portsc := (\<lambda>_. 0),
     command_ring := demo_ring\<lparr>buf := (replicate 32 zero_trb)[0 := new_trb address_device_command_trb_type]\<rparr>,
     devices := (replicate 9 None)[1 := Some (demo_device\<lparr>dev_context := \<lparr>sc0 = 0, sc1 = 0x50000\<rparr>\<rparr>)]\<rparr>"

definition demo_completion :: trb where
  "demo_completion = \<lparr>trb0 = 4096, trb1 = 0, trb2 = 0x1000000, trb3 = 0x1008400\<rparr>"

lemma demo_phases_at: "demo_phases ! i = (if i = 6 then kWaitingAddressed else if i = 5 then kAddressingDevice else kNotConnected)" if "i < 256"
  using that by (simp add: demo_phases_def nth_list_update)

lemma demo_addressing_ok: "controller_ok demo_addressing"
proof -
  have "protocol_ok demo_phases 5"
    unfolding protocol_ok_def
  proof (intro conjI allI)
    fix p :: u8
    show "active (demo_phases ! unat p) \<longleftrightarrow> p = 5 \<and> (5 :: u8) \<noteq> 0"
      using port_in_table[of p] by (simp add: demo_phases_at word_unat_eq_iff)
  qed (simp_all add: demo_phases_at, simp add: demo_phases_def)
  then show ?thesis by (simp add: controller_ok_def ok_def table_def demo_addressing_def demo_controller_def)
qed

lemma demo_first_waiting: "first_waiting demo_addressing = Some 6" "first_waiting (demo_addressing\<lparr>addressing_port := 0\<rparr>) = Some 6"
proof -
  have "length demo_phases = 256" by (simp add: demo_phases_def)
  then show "first_waiting demo_addressing = Some 6" "first_waiting (demo_addressing\<lparr>addressing_port := 0\<rparr>) = Some 6"
    by (simp_all add: first_waiting_def demo_addressing_def find_Some_iff demo_phases_at) (intro exI[of _ 6], simp add: demo_phases_at)+
qed

lemma start_initialize_succeeds:
  assumes "device_ready dev"
  shows "\<exists>dev'. start_initialize env dev = Some (kSuccess, dev')"
proof -
  obtain tr rs where rings: "transfer_rings dev = Some tr # rs" using assms by (auto simp: device_ready_def)
  define d where "d = dev\<lparr>is_initialized := False, initialize_phase := 1\<rparr>"
  define sd where "sd = \<lparr>sd_request_type = make_request_type 1 0 0, sd_request = 6,
            sd_value = push_bit 8 (ucast device_descriptor_type) OR ucast (0 :: u8), sd_index = 0, sd_length = word_of_int (int dev_buf_size)\<rparr>"
  have "transfer_rings d = Some tr # rs" using rings by (simp add: d_def)
  moreover obtain p sp tr' where "push_request True sd (dev_buf env dev) (int dev_buf_size) tr = (p, sp, tr')" by (metis prod_cases3)
  ultimately show ?thesis
    using control_default_pipe[of d tr rs True sd "dev_buf env dev" "int dev_buf_size" p sp tr' None]
    by (simp add: start_initialize_def get_descriptor_def control_def d_def sd_def)
qed

lemma demo_completed:
  "\<exists>c'. on_command_completion demo_hw demo_env demo_completion demo_addressing = Some (kSuccess, c')"
proof -
  let ?dev = "demo_device\<lparr>dev_context := \<lparr>sc0 = 0, sc1 = 0x50000\<rparr>\<rparr>" and ?c = "demo_addressing\<lparr>addressing_port := 0\<rparr>"
  have ptr: "event_pointer demo_completion = 4096" "(ucast (slot_id demo_completion) :: u8) = 1"
    by (simp_all add: demo_completion_def event_pointer_def parameter_def slot_id_def bits_get_def)
  have issuer: "ring_trb (command_ring demo_addressing) 4096 = Some (new_trb address_device_command_trb_type)"
    by (simp add: demo_addressing_def demo_ring_def ring_trb_def)
  have type: "trb_type (new_trb address_device_command_trb_type) = address_device_command_trb_type"
    "address_device_command_trb_type \<noteq> enable_slot_command_trb_type"
    by (simp_all add: new_trb_def trb_type_def set_trb3_def field_simps_bits address_device_command_trb_type_def enable_slot_command_trb_type_def)
  have dev: "find_by_slot demo_addressing 1 = Some ?dev" "find_by_slot ?c 1 = Some ?dev"
    by (simp_all add: find_by_slot_def demo_addressing_def demo_controller_def)
  have port: "(ucast (root_hub_port_num \<lparr>sc0 = 0, sc1 = 0x50000\<rparr>) :: u8) = 5" by (simp add: root_hub_port_num_def bits_get_def)
  have ph: "addressing_port demo_addressing = 5" "phase_of demo_addressing 5 = kAddressingDevice"
    by (simp_all add: demo_addressing_def phase_of_def demo_phases_at)
  have "\<not> is_connected (portsc ?c 6)" by (simp add: demo_addressing_def is_connected_def)
  then have next0: "reset_next demo_hw ?c = Some (kSuccess, ?c)"
    by (simp add: reset_next_def demo_first_waiting reset_port_def)
  have "device_ready ?dev" using demo_device_ready by (simp add: device_ready_def)
  then obtain dev' where "start_initialize demo_env ?dev = Some (kSuccess, dev')" using start_initialize_succeeds by blast
  then have "\<exists>c'. initialize_device demo_env 5 1 ?c = Some (kSuccess, c')" by (simp add: initialize_device_def dev)
  then show ?thesis unfolding on_command_completion_def ptr by (simp add: issuer type dev port ph next0 usb_failed_def Let_def)
qed


end
