(* ===== verification/Xhci_Startup.thy ===== *)
theory Xhci_Startup
  imports Xhci_Protocol
begin

text \<open>
  The start of the host controller: the constructor, \<open>Initialize\<close> and \<open>Run\<close> of \<open>Controller\<close> and what they call
  (\<open>src/kernel/usb/xhci/xhci.cpp\<close>), the list of extended capabilities (\<open>registers.cpp\<close>) and the layout of the
  register structures (\<open>registers.hpp\<close>, \<open>register.hpp\<close>).

  Registers are memory locations whose reads are answered by hardware. The model keeps the history of all
  accesses, newest first; \<open>hw h a\<close> is what the hardware answers to a read of address \<open>a\<close> after the history \<open>h\<close>. A
  register of 32 bits is the low half of the answer.
\<close>

datatype io = Rd u64 u64 | Wr u64 u64

type_synonym hardware = "io list \<Rightarrow> u64 \<Rightarrow> u64"

definition io_read :: "hardware \<Rightarrow> u64 \<Rightarrow> io list \<Rightarrow> u64 \<times> io list" where
  "io_read hw a h = (hw h a, Rd a (hw h a) # h)"

definition io_write :: "u64 \<Rightarrow> u64 \<Rightarrow> io list \<Rightarrow> io list" where
  "io_write a v h = Wr a v # h"

text \<open>What has been written, oldest first.\<close>

fun writes :: "io list \<Rightarrow> (u64 \<times> u64) list" where
  "writes [] = []"
| "writes (Rd a v # h) = writes h"
| "writes (Wr a v # h) = writes h @ [(a, v)]"

subsection \<open>Where the registers are\<close>

text \<open>\<open>ArrayWrapper\<close>: the address of element \<open>i\<close> of an array of registers.\<close>

definition array_element :: "u64 \<Rightarrow> u64 \<Rightarrow> u64 \<Rightarrow> u64" where
  "array_element array_base element_bytes i = array_base + element_bytes * i"

text \<open>\<open>CapabilityRegisters\<close>.\<close>

definition reg_caplength :: "u64 \<Rightarrow> u64" where "reg_caplength cap = cap"
definition reg_hciversion :: "u64 \<Rightarrow> u64" where "reg_hciversion cap = cap + 2"
definition reg_hcsparams1 :: "u64 \<Rightarrow> u64" where "reg_hcsparams1 cap = cap + 4"
definition reg_hcsparams2 :: "u64 \<Rightarrow> u64" where "reg_hcsparams2 cap = cap + 8"
definition reg_hccparams1 :: "u64 \<Rightarrow> u64" where "reg_hccparams1 cap = cap + 16"
definition reg_dboff :: "u64 \<Rightarrow> u64" where "reg_dboff cap = cap + 20"
definition reg_rtsoff :: "u64 \<Rightarrow> u64" where "reg_rtsoff cap = cap + 24"

text \<open>\<open>OperationalRegisters\<close>.\<close>

definition reg_usbcmd :: "u64 \<Rightarrow> u64" where "reg_usbcmd op = op"
definition reg_usbsts :: "u64 \<Rightarrow> u64" where "reg_usbsts op = op + 4"
definition reg_crcr :: "u64 \<Rightarrow> u64" where "reg_crcr op = op + 24"
definition reg_dcbaap :: "u64 \<Rightarrow> u64" where "reg_dcbaap op = op + 48"
definition reg_config :: "u64 \<Rightarrow> u64" where "reg_config op = op + 56"

text \<open>\<open>InterrupterRegisterSet\<close>, of 32 bytes.\<close>

definition reg_iman :: "u64 \<Rightarrow> u64" where "reg_iman irs = irs"
definition reg_erstsz_addr :: "u64 \<Rightarrow> u64" where "reg_erstsz_addr irs = irs + 8"
definition reg_erstba_addr :: "u64 \<Rightarrow> u64" where "reg_erstba_addr irs = irs + 16"
definition reg_erdp_addr :: "u64 \<Rightarrow> u64" where "reg_erdp_addr irs = irs + 24"

text \<open>\<open>InterrupterRegisterSets\<close>, \<open>PortRegisterSets\<close> and \<open>DoorbellRegisters\<close> of \<open>Controller\<close>.\<close>

definition interrupter_base :: "u64 \<Rightarrow> u32 \<Rightarrow> u64 \<Rightarrow> u64" where
  "interrupter_base mmio rtsoff i = array_element (mmio + ucast (rtsoff_offset rtsoff) + 0x20) 32 i"

definition port_register_base :: "u64 \<Rightarrow> u8 \<Rightarrow> u64" where
  "port_register_base op port_num = array_element (op + 0x400) 16 (ucast port_num - 1)"

definition doorbell_address :: "u64 \<Rightarrow> u32 \<Rightarrow> u8 \<Rightarrow> u64" where
  "doorbell_address mmio dboff i = array_element (mmio + ucast (dboff_offset dboff)) 4 (ucast i)"

subsection \<open>Bits of the registers\<close>

definition host_controller_halted :: "u64 \<Rightarrow> bool" where "host_controller_halted v = (bits_get 0 1 (ucast v :: u32) = 1)"
definition controller_not_ready :: "u64 \<Rightarrow> bool" where "controller_not_ready v = (bits_get 11 1 (ucast v :: u32) = 1)"
definition host_controller_reset :: "u64 \<Rightarrow> bool" where "host_controller_reset v = (bits_get 1 1 (ucast v :: u32) = 1)"
definition hc_bios_owned :: "u64 \<Rightarrow> bool" where "hc_bios_owned v = (bits_get 16 1 (ucast v :: u32) = 1)"
definition hc_os_owned :: "u64 \<Rightarrow> bool" where "hc_os_owned v = (bits_get 24 1 (ucast v :: u32) = 1)"

text \<open>The value of a 32-bit register with one bit set to \<open>b\<close>.\<close>

definition set_flag :: "nat \<Rightarrow> bool \<Rightarrow> u32 \<Rightarrow> u32" where
  "set_flag k b w = bits_set k 1 (of_bool b) w"

text \<open>A loop that reads a register until the value is \<open>good\<close>.\<close>

partial_function (option) poll :: "hardware \<Rightarrow> u64 \<Rightarrow> (u64 \<Rightarrow> bool) \<Rightarrow> io list \<Rightarrow> io list option" where
  "poll hw a good h = (if good (hw h a) then Some (Rd a (hw h a) # h) else poll hw a good (Rd a (hw h a) # h))"

subsection \<open>The extended capabilities\<close>

definition add_or_null :: "u64 \<Rightarrow> u64 \<Rightarrow> u64" where
  "add_or_null p d = (if d = 0 then 0 else p + 4 * d)"

definition first_extended_register :: "u64 \<Rightarrow> u32 \<Rightarrow> u64" where
  "first_extended_register mmio hccparams1 = add_or_null mmio (ucast (extended_capabilities_pointer hccparams1))"

definition extended_capability_id :: "u64 \<Rightarrow> u32" where "extended_capability_id v = bits_get 0 8 (ucast v)"
definition extended_next_pointer :: "u64 \<Rightarrow> u32" where "extended_next_pointer v = bits_get 8 8 (ucast v)"

text \<open>\<open>find_if\<close> over the list: the register with capability 1, or the null pointer at the end. \<open>++\<close> reads it again.\<close>

partial_function (option) find_legsup :: "hardware \<Rightarrow> u64 \<Rightarrow> io list \<Rightarrow> (u64 \<times> io list) option" where
  "find_legsup hw reg h =
     (if reg = 0 then Some (0, h)
      else
        let (v, h) = io_read hw reg h
        in if extended_capability_id v = 1 then Some (reg, h)
           else let (v, h) = io_read hw reg h
                in find_legsup hw (add_or_null reg (ucast (extended_next_pointer v))) h)"

definition request_hc_ownership :: "hardware \<Rightarrow> u64 \<Rightarrow> u32 \<Rightarrow> io list \<Rightarrow> io list option" where
  "request_hc_ownership hw mmio hccparams1 h = do {
     (reg, h) \<leftarrow> find_legsup hw (first_extended_register mmio hccparams1) h;
     if reg = 0 then Some h
     else
       let (r, h) = io_read hw reg h
       in if hc_os_owned r then Some h
          else poll hw reg (\<lambda>r. \<not> hc_bios_owned r \<and> hc_os_owned r) (io_write reg (ucast (set_flag 24 True (ucast r))) h) }"

subsection \<open>The steps of Initialize\<close>

text \<open>The members the constructor sets.\<close>

record xhc_base =
  mmio_base :: u64
  op_base :: u64
  xhc_max_ports :: u8

definition new_controller :: "hardware \<Rightarrow> u64 \<Rightarrow> io list \<Rightarrow> xhc_base \<times> io list" where
  "new_controller hw mmio h =
     (let (caplength, h) = io_read hw (reg_caplength mmio) h;
          (hcsparams1, h) = io_read hw (reg_hcsparams1 mmio) h
      in (\<lparr>mmio_base = mmio, op_base = mmio + ucast (ucast caplength :: u8), xhc_max_ports = ucast (max_ports (ucast hcsparams1))\<rparr>, h))"

definition halt_controller :: "hardware \<Rightarrow> u64 \<Rightarrow> io list \<Rightarrow> io list option" where
  "halt_controller hw op h =
     (let (usbcmd, h) = io_read hw (reg_usbcmd op) h;
          v = set_flag 10 False (set_flag 3 False (set_flag 2 False (ucast usbcmd)));
          (usbsts, h) = io_read hw (reg_usbsts op) h;
          v = (if \<not> host_controller_halted usbsts then set_flag 0 False v else v)
      in poll hw (reg_usbsts op) host_controller_halted (io_write (reg_usbcmd op) (ucast v) h))"

definition reset_controller :: "hardware \<Rightarrow> u64 \<Rightarrow> io list \<Rightarrow> io list option" where
  "reset_controller hw op h =
     (let (usbcmd, h) = io_read hw (reg_usbcmd op) h;
          h = io_write (reg_usbcmd op) (ucast (set_flag 1 True (ucast usbcmd))) h
      in do {
        h \<leftarrow> poll hw (reg_usbcmd op) (\<lambda>v. \<not> host_controller_reset v) h;
        poll hw (reg_usbsts op) (\<lambda>v. \<not> controller_not_ready v) h })"

definition kDeviceSize :: nat where
  "kDeviceSize = 8"

definition set_max_slots :: "hardware \<Rightarrow> u64 \<Rightarrow> io list \<Rightarrow> io list" where
  "set_max_slots hw op h =
     (let (config, h) = io_read hw (reg_config op) h
      in io_write (reg_config op) (ucast (bits_set 0 8 (of_nat kDeviceSize) (ucast config :: u32))) h)"

text \<open>The number of scratchpad buffers as the code reads it, a 16-bit number.\<close>

definition max_scratchpad_buffers :: "u32 \<Rightarrow> u16" where
  "max_scratchpad_buffers hcsparams2 =
     ucast (max_scratchpad_buffers_low hcsparams2 OR push_bit 5 (max_scratchpad_buffers_high hcsparams2))"

text \<open>The loop that fills the array of scratchpad buffers. A failed allocation leaves a null pointer in it.\<close>

primrec alloc_scratchpads :: "u64 \<Rightarrow> nat \<Rightarrow> u64 \<Rightarrow> u64 list \<times> u64" where
  "alloc_scratchpads pool 0 ap = ([], ap)"
| "alloc_scratchpads pool (Suc n) ap =
     (let (p, ap) = alloc_mem pool 4096 4096 4096 ap;
          (ps, ap) = alloc_scratchpads pool n ap
      in (p # ps, ap))"

text \<open>The result has the array of buffers. \<open>None\<close> is a write through the null pointer when the array itself does not fit.\<close>

definition setup_scratchpads :: "usb_env \<Rightarrow> u32 \<Rightarrow> controller \<Rightarrow> (u64 list \<times> controller) option" where
  "setup_scratchpads env hcsparams2 c =
     (let n = unat (max_scratchpad_buffers hcsparams2)
      in if 0 < n then
           let (arr, ap) = alloc_array (usb_pool env) 8 (of_nat n) 64 4096 (alloc_ptr c)
           in if arr = 0 then None
              else let (bufs, ap) = alloc_scratchpads (usb_pool env) n ap
                   in Some (bufs, c\<lparr>alloc_ptr := ap, device_context_pointers := (device_context_pointers c)[0 := arr]\<rparr>)
         else Some ([], c))"

definition set_dcbaap :: "u64 \<Rightarrow> u64 \<Rightarrow> io list \<Rightarrow> io list" where
  "set_dcbaap op contexts = io_write (reg_dcbaap op) (dcbaap_set_pointer contexts 0)"

definition crcr_value :: "u64 \<Rightarrow> u64 \<Rightarrow> u64" where
  "crcr_value ring_buffer w =
     crcr_set_pointer ring_buffer (bits_set 2 1 0 (bits_set 1 1 0 (bits_set 0 1 1 w)))"

definition register_command_ring :: "hardware \<Rightarrow> u64 \<Rightarrow> ring \<Rightarrow> io list \<Rightarrow> io list" where
  "register_command_ring hw op r h =
     (let (value, h) = io_read hw (reg_crcr op) h in io_write (reg_crcr op) (crcr_value (buf_addr r) value) h)"

text \<open>
  \<open>EventRing::Initialize\<close> with its accesses to the interrupter's registers: what the three reads give goes into the
  ring's copies of the registers, and after a success the three writes are in the history.
\<close>

definition start_event_ring ::
    "hardware \<Rightarrow> u64 \<Rightarrow> u64 \<Rightarrow> nat \<Rightarrow> event_ring \<Rightarrow> u64 \<Rightarrow> io list \<Rightarrow> usb_error \<times> event_ring \<times> u64 \<times> io list" where
  "start_event_ring hw irs pool n er ap0 h0 =
     (let (erstsz, h) = io_read hw (reg_erstsz_addr irs) h0;
          h = io_write (reg_erstsz_addr irs) (ucast (erstsz_set_size 1 (ucast erstsz))) h;
          (erdp, h) = io_read hw (reg_erdp_addr irs) h;
          buf = fst (alloc_array pool trb_bytes (of_nat n) 64 (64 * 1024) ap0);
          h = io_write (reg_erdp_addr irs) (erdp_set_pointer buf erdp) h;
          (erstba, h) = io_read hw (reg_erstba_addr irs) h;
          (err, er, ap) = event_ring_initialize pool n (er\<lparr>reg_erstsz := ucast erstsz, reg_erdp := erdp, reg_erstba := erstba\<rparr>) ap0
      in if err = kSuccess then (err, er, ap, io_write (reg_erstba_addr irs) (reg_erstba er) h) else (err, er, ap, h0))"

definition enable_interrupts :: "hardware \<Rightarrow> u64 \<Rightarrow> u64 \<Rightarrow> io list \<Rightarrow> io list" where
  "enable_interrupts hw irs op h =
     (let (iman, h) = io_read hw (reg_iman irs) h;
          h = io_write (reg_iman irs) (ucast (set_flag 1 True (set_flag 0 True (ucast iman)))) h;
          (usbcmd, h) = io_read hw (reg_usbcmd op) h
      in io_write (reg_usbcmd op) (ucast (set_flag 2 True (ucast usbcmd))) h)"

text \<open>The part after the reset: tables, rings and interrupts.\<close>

definition start_rings ::
    "hardware \<Rightarrow> xhc_base \<Rightarrow> usb_env \<Rightarrow> u64 \<Rightarrow> u64 list \<Rightarrow> controller \<Rightarrow> io list \<Rightarrow> usb_error \<times> u64 list \<times> controller \<times> io list" where
  "start_rings hw b env contexts bufs c h =
     (let h = set_dcbaap (op_base b) contexts h;
          (rtsoff, h) = io_read hw (reg_rtsoff (mmio_base b)) h;
          irs = interrupter_base (mmio_base b) (ucast rtsoff) 0;
          (err, r, ap) = ring_initialize (usb_pool env) 32 (command_ring c) (alloc_ptr c);
          c = c\<lparr>command_ring := r, alloc_ptr := ap\<rparr>
      in if err \<noteq> kSuccess then (err, bufs, c, h)
         else
           let h = register_command_ring hw (op_base b) r h;
               (err, er, ap, h) = start_event_ring hw irs (usb_pool env) 32 (primary_event_ring c) (alloc_ptr c) h;
               c = c\<lparr>primary_event_ring := er, alloc_ptr := ap\<rparr>
           in if err \<noteq> kSuccess then (err, bufs, c, h)
              else (kSuccess, bufs, c, enable_interrupts hw irs (op_base b) h))"

definition initialize ::
    "hardware \<Rightarrow> xhc_base \<Rightarrow> usb_env \<Rightarrow> controller \<Rightarrow> io list \<Rightarrow> (usb_error \<times> u64 list \<times> controller \<times> io list) option" where
  "initialize hw b env c h =
     (case devmgr_initialize env kDeviceSize c of (err, contexts, c) \<Rightarrow>
        if err \<noteq> kSuccess then Some (err, [], c, h)
        else
          let (hccparams1, h) = io_read hw (reg_hccparams1 (mmio_base b)) h
          in do {
            h \<leftarrow> request_hc_ownership hw (mmio_base b) (ucast hccparams1) h;
            h \<leftarrow> halt_controller hw (op_base b) h;
            h \<leftarrow> reset_controller hw (op_base b) h;
            let (hcsparams1, h) = io_read hw (reg_hcsparams1 (mmio_base b)) h;
                h = set_max_slots hw (op_base b) h;
                (hcsparams2, h) = io_read hw (reg_hcsparams2 (mmio_base b)) h
            in do {
              (bufs, c) \<leftarrow> setup_scratchpads env (ucast hcsparams2) c;
              Some (start_rings hw b env contexts bufs c h) } })"

definition run :: "hardware \<Rightarrow> xhc_base \<Rightarrow> io list \<Rightarrow> (usb_error \<times> io list) option" where
  "run hw b h =
     (let (usbcmd, h) = io_read hw (reg_usbcmd (op_base b)) h;
          h = io_write (reg_usbcmd (op_base b)) (ucast (set_flag 0 True (ucast usbcmd))) h;
          (usbcmd, h) = io_read hw (reg_usbcmd (op_base b)) h
      in do {
        h \<leftarrow> poll hw (reg_usbsts (op_base b)) (\<lambda>v. \<not> host_controller_halted v) h;
        Some (kSuccess, h) })"

subsection \<open>Histories\<close>

lemma writes_append [simp]: "writes (x @ h) = writes h @ writes x"
  by (induction x rule: writes.induct) simp_all

text \<open>A poll only reads, and its last read was good.\<close>

lemma poll_Some:
  assumes "poll hw a good h = Some h'"
  shows "\<exists>v mid. h' = Rd a v # mid \<and> good v \<and> writes mid = writes h"
proof (rule poll.raw_induct[of "\<lambda>hw a good h h'. \<exists>v mid. h' = Rd a v # mid \<and> good v \<and> writes mid = writes h", OF _ assms], goal_cases)
  case (1 rec hw a good h h')
  show ?case
  proof (cases "good (hw h a)")
    case True
    with 1(2) show ?thesis by auto
  next
    case False
    with 1(2) have "rec hw a good (Rd a (hw h a) # h) = Some h'" by simp
    from 1(1)[OF this] show ?thesis by simp
  qed
qed

lemma find_legsup_Some:
  assumes "find_legsup hw reg h = Some (reg', h')"
  shows "writes h' = writes h"
proof -
  have "writes (snd r) = writes h" if "find_legsup hw reg h = Some r" for hw reg h r
  proof (rule find_legsup.raw_induct[of "\<lambda>hw reg h r. writes (snd r) = writes h", OF _ that], goal_cases)
    case (1 rec hw reg h r)
    show ?case
    proof (cases "reg = 0 \<or> extended_capability_id (hw h reg) = 1")
      case True
      with 1(2) show ?thesis by (auto simp: io_read_def split: if_split_asm)
    next
      case False
      let ?h = "Rd reg (hw h reg) # h"
      from False 1(2) have "rec hw (add_or_null reg (ucast (extended_next_pointer (hw ?h reg)))) (Rd reg (hw ?h reg) # ?h) = Some r"
        by (simp add: io_read_def)
      from 1(1)[OF this] show ?thesis by simp
    qed
  qed
  from this[OF assms] show ?thesis by simp
qed

lemma request_hc_ownership_writes:
  assumes "request_hc_ownership hw mmio hccp h = Some h'"
  shows "\<exists>own. writes h' = writes h @ own \<and> length own \<le> 1 \<and> (\<forall>(a, v)\<in>set own. hc_os_owned v)"
proof -
  from assms obtain reg h1 where find: "find_legsup hw (first_extended_register mmio hccp) h = Some (reg, h1)"
    by (auto simp: request_hc_ownership_def bind_eq_Some_conv)
  have w: "writes h1 = writes h" by (rule find_legsup_Some[OF find])
  let ?r = "hw h1 reg"
  let ?w = "ucast (set_flag 24 True (ucast ?r)) :: u64"
  show ?thesis
  proof (cases "reg = 0 \<or> hc_os_owned ?r")
    case True
    then have "writes h' = writes h" using assms w by (auto simp: request_hc_ownership_def find io_read_def split: if_split_asm)
    then show ?thesis by (intro exI[of _ "[]"]) simp
  next
    case False
    then have "poll hw reg (\<lambda>r. \<not> hc_bios_owned r \<and> hc_os_owned r) (Wr reg ?w # Rd reg ?r # h1) = Some h'"
      using assms by (simp add: request_hc_ownership_def find io_read_def io_write_def)
    from poll_Some[OF this] have "writes h' = writes h @ [(reg, ?w)]" using w by auto
    moreover have "hc_os_owned ?w"
      by (simp add: hc_os_owned_def set_flag_def field_simps_bits ucast_ucast_id)
    ultimately show ?thesis by (intro exI[of _ "[(reg, ?w)]"]) simp
  qed
qed

lemma halt_controller_writes:
  assumes "halt_controller hw op h = Some h'"
  shows "\<exists>v. writes h' = writes h @ [(reg_usbcmd op, v)] \<and>
    bits_get 2 1 (ucast v :: u32) = 0 \<and> bits_get 3 1 (ucast v :: u32) = 0 \<and> bits_get 10 1 (ucast v :: u32) = 0"
proof -
  let ?c = "hw h (reg_usbcmd op)" and ?h = "Rd (reg_usbcmd op) (hw h (reg_usbcmd op)) # h"
  let ?s = "hw ?h (reg_usbsts op)"
  let ?v0 = "set_flag 10 False (set_flag 3 False (set_flag 2 False (ucast ?c)))"
  let ?v = "if \<not> host_controller_halted ?s then set_flag 0 False ?v0 else ?v0"
  from assms have "poll hw (reg_usbsts op) host_controller_halted (Wr (reg_usbcmd op) (ucast ?v) # Rd (reg_usbsts op) ?s # ?h) = Some h'"
    by (simp add: halt_controller_def io_read_def io_write_def Let_def)
  from poll_Some[OF this] have "writes h' = writes h @ [(reg_usbcmd op, ucast ?v)]" by auto
  moreover have "bits_get 2 1 ?v = 0 \<and> bits_get 3 1 ?v = 0 \<and> bits_get 10 1 ?v = 0"
    by (simp add: set_flag_def field_simps_bits)
  ultimately show ?thesis by (intro exI[of _ "ucast ?v"]) (simp add: ucast_ucast_id)
qed

lemma reset_controller_history:
  assumes "reset_controller hw op h = Some h'"
  shows "\<exists>s mid v. h' = Rd (reg_usbsts op) s # mid \<and> \<not> controller_not_ready s \<and> host_controller_reset v \<and>
    writes mid = writes h @ [(reg_usbcmd op, v)]"
proof -
  let ?c = "hw h (reg_usbcmd op)"
  let ?v = "ucast (set_flag 1 True (ucast ?c)) :: u64"
  from assms obtain h1 where 1: "poll hw (reg_usbcmd op) (\<lambda>v. \<not> host_controller_reset v) (Wr (reg_usbcmd op) ?v # Rd (reg_usbcmd op) ?c # h) = Some h1"
    and 2: "poll hw (reg_usbsts op) (\<lambda>v. \<not> controller_not_ready v) h1 = Some h'"
    by (auto simp: reset_controller_def io_read_def io_write_def Let_def bind_eq_Some_conv)
  have "writes h1 = writes h @ [(reg_usbcmd op, ?v)]" using poll_Some[OF 1] by auto
  moreover have "host_controller_reset ?v" by (simp add: host_controller_reset_def set_flag_def field_simps_bits ucast_ucast_id)
  ultimately show ?thesis using poll_Some[OF 2] by auto
qed

subsection \<open>Memory for the tables\<close>

lemma alloc_array_facts:
  assumes "pool_ok pool ptr" and "alloc_array pool sz k a b ptr = (p, ptr')"
    and "unat (sz * k) \<le> 2 ^ 60" and "pow2_or_0 a" and "pow2_or_0 b"
  shows "pool_ok pool ptr'" and "p \<noteq> 0 \<Longrightarrow> a \<noteq> 0 \<Longrightarrow> unat a dvd unat p"
proof -
  have "good_request \<lparr>req_bytes = sz * k, req_alignment = a, req_boundary = b\<rparr>"
    using assms by (simp add: good_request_def)
  from alloc_mem_result[OF assms(1) this assms(2)[unfolded alloc_array_def]]
  show "pool_ok pool ptr'" and "p \<noteq> 0 \<Longrightarrow> a \<noteq> 0 \<Longrightarrow> unat a dvd unat p" by blast+
qed

lemma devmgr_initialize_success:
  assumes "devmgr_initialize env kDeviceSize c = (kSuccess, contexts, c')" and "pool_ok (usb_pool env) (alloc_ptr c)"
  shows "pool_ok (usb_pool env) (alloc_ptr c')" and "unat contexts mod 64 = 0" and "max_slots c' = 8"
    and "devices c' = replicate 9 None" and "length (device_context_pointers c') = 9" and "table c' = table c"
    and "contexts \<noteq> 0"
proof -
  obtain p ap1 q ap2 where p: "alloc_array (usb_pool env) 8 9 0 0 (alloc_ptr c) = (p, ap1)"
    and q: "alloc_array (usb_pool env) 8 9 64 4096 ap1 = (q, ap2)" by (metis surj_pair)
  have ok: "pool_ok (usb_pool env) ap1" by (rule alloc_array_facts(1)[OF assms(2) p]) (simp_all add: pow2_or_0_instances)
  have r: "q \<noteq> 0" "contexts = q" "c' = c\<lparr>max_slots := 8, alloc_ptr := ap2, devices := replicate 9 None, device_context_pointers := replicate 9 0\<rparr>"
    using assms(1) by (auto simp: devmgr_initialize_def kDeviceSize_def Let_def p q split: if_split_asm)
  have "64 dvd unat q" using alloc_array_facts(2)[OF ok q] r(1) by (simp add: pow2_or_0_instances)
  then show "unat contexts mod 64 = 0" using r(2) by simp
  show "pool_ok (usb_pool env) (alloc_ptr c')"
    using alloc_array_facts(1)[OF ok q] r(3) by (simp add: pow2_or_0_instances)
  show "max_slots c' = 8" "devices c' = replicate 9 None" "length (device_context_pointers c') = 9" "table c' = table c" "contexts \<noteq> 0"
    using r by (simp_all add: table_def)
qed

lemma alloc_scratchpads_ok:
  "pool_ok pool ap \<Longrightarrow> alloc_scratchpads pool n ap = (ps, ap') \<Longrightarrow> pool_ok pool ap' \<and> length ps = n \<and>
    (0 \<notin> set ps \<longrightarrow> unat ap + 4096 * n \<le> unat ap' \<and> (0 < n \<longrightarrow> unat ap' \<le> unat pool + 131072))"
proof (induction n arbitrary: ap ps)
  case (Suc n)
  let ?r = "\<lparr>req_bytes = 4096, req_alignment = 4096, req_boundary = 4096\<rparr>"
  obtain p ap1 where p: "alloc_mem pool 4096 4096 4096 ap = (p, ap1)" by fastforce
  obtain qs where qs: "alloc_scratchpads pool n ap1 = (qs, ap')" "ps = p # qs"
    using Suc.prems(2) p by (auto split: prod.splits)
  have good: "good_request ?r" by (simp add: good_request_def pow2_or_0_instances)
  have "pool_alloc pool ?r ap = (if p = 0 then None else Some (unat p, 4096), ap1)" by (simp add: pool_alloc_def p)
  from pool_ok_step[OF Suc.prems(1) good this] have step: "pool_ok pool ap1"
    "p \<noteq> 0 \<Longrightarrow> unat ap + 4096 \<le> unat ap1 \<and> unat ap1 \<le> unat pool + 131072" by auto
  from Suc.IH[OF step(1) qs(1)] step(2) qs show ?case by (cases n) auto
qed auto

text \<open>
  The pool has room for at most 32 scratchpad buffers. If the controller asks for more, null pointers are left in the
  array that it is given, and nothing reports that.
\<close>

lemma scratchpads_exhausted:
  assumes "pool_ok pool ap" and "32 < n"
  shows "0 \<in> set (fst (alloc_scratchpads pool n ap))"
proof (rule ccontr)
  assume no: "0 \<notin> set (fst (alloc_scratchpads pool n ap))"
  obtain ps ap' where run: "alloc_scratchpads pool n ap = (ps, ap')" by fastforce
  from alloc_scratchpads_ok[OF assms(1) run] no run have "unat ap + 4096 * n \<le> unat ap'" "unat ap' \<le> unat pool + 131072"
    using assms(2) by auto
  moreover have "unat pool \<le> unat ap" using assms(1) by (simp add: pool_ok_def word_le_nat_alt)
  ultimately show False using assms(2) by simp
qed

lemma setup_scratchpads_Some:
  assumes "setup_scratchpads env hcsp2 c = Some (bufs, c')" and "pool_ok (usb_pool env) (alloc_ptr c)"
  shows "pool_ok (usb_pool env) (alloc_ptr c')" and "length bufs = unat (max_scratchpad_buffers hcsp2)"
    and "max_slots c' = max_slots c" and "devices c' = devices c" and "table c' = table c"
    and "length (device_context_pointers c') = length (device_context_pointers c)"
    and "command_ring c' = command_ring c" and "primary_event_ring c' = primary_event_ring c"
proof -
  let ?n = "max_scratchpad_buffers hcsp2"
  obtain arr ap bufs' ap' where a: "alloc_array (usb_pool env) 8 (of_nat (unat ?n)) 64 4096 (alloc_ptr c) = (arr, ap)"
    and b: "alloc_scratchpads (usb_pool env) (unat ?n) ap = (bufs', ap')" by (metis surj_pair)
  have n: "unat ?n < 65536" using unat_lt2p[of ?n] by simp
  then have "unat (of_nat (unat ?n) :: u64) = unat ?n" by (intro unat_of_nat_eq) simp
  then have "unat (8 * of_nat (unat ?n) :: u64) = 8 * unat ?n"
    using n unat_mult_eq[of 8 "of_nat (unat ?n) :: u64"] by simp
  with n have ok: "pool_ok (usb_pool env) ap"
    by (intro alloc_array_facts(1)[OF assms(2) a]) (simp_all add: pow2_or_0_instances)
  have "(if 0 < unat ?n then arr \<noteq> 0 \<and> bufs = bufs' \<and>
      c' = c\<lparr>alloc_ptr := ap', device_context_pointers := (device_context_pointers c)[0 := arr]\<rparr> else bufs = [] \<and> c' = c)"
    using assms(1)[unfolded setup_scratchpads_def Let_def a prod.case b] by (auto split: if_split_asm)
  then show "pool_ok (usb_pool env) (alloc_ptr c')" "length bufs = unat (max_scratchpad_buffers hcsp2)"
    "max_slots c' = max_slots c" "devices c' = devices c" "table c' = table c"
    "length (device_context_pointers c') = length (device_context_pointers c)"
    "command_ring c' = command_ring c" "primary_event_ring c' = primary_event_ring c"
    using alloc_scratchpads_ok[OF ok b] assms(2) by (auto simp: table_def split: if_split_asm)
qed

lemma ring_initialize_buffer:
  assumes "pool_ok pool ptr" and "ring_initialize pool 32 r ptr = (kSuccess, r', ptr')"
  shows "unat (buf_addr r') mod 64 = 0"
proof -
  obtain p ap where p: "alloc_array pool 16 32 64 65536 ptr = (p, ap)" by fastforce
  then have "p \<noteq> 0" "buf_addr r' = p" using assms(2) by (auto simp: ring_initialize_def trb_bytes_def Let_def split: if_split_asm)
  with alloc_array_facts(2)[OF assms(1) p] show ?thesis by (simp add: pow2_or_0_instances)
qed

lemma event_ring_initialize_buffers:
  assumes "pool_ok pool ptr" and "event_ring_initialize pool 32 er ptr = (kSuccess, er', ptr')"
  shows "unat (er_buf_addr er') mod 16 = 0" and "unat (erst_addr er') mod 64 = 0"
    and "reg_erstsz er' = erstsz_set_size 1 (reg_erstsz er)" and "reg_erdp er' = erdp_set_pointer (er_buf_addr er') (reg_erdp er)"
    and "reg_erstba er' = erstba_set_pointer (erst_addr er') (reg_erstba er)"
    and "er_buf_addr er' = fst (alloc_array pool 16 32 64 65536 ptr)"
proof -
  obtain p ap where p: "alloc_array pool 16 32 64 65536 ptr = (p, ap)" by fastforce
  obtain q ap' where q: "alloc_array pool 16 1 64 65536 ap = (q, ap')" by fastforce
  from assms(2) have r: "p \<noteq> 0" "q \<noteq> 0" "er_buf_addr er' = p" "erst_addr er' = q"
    "reg_erstsz er' = erstsz_set_size 1 (reg_erstsz er)" "reg_erdp er' = erdp_set_pointer p (reg_erdp er)"
    "reg_erstba er' = erstba_set_pointer q (reg_erstba er)"
    by (auto simp: event_ring_initialize_def trb_bytes_def Let_def write_dequeue_pointer_def p q split: if_split_asm)
  have ok: "pool_ok pool ap" by (rule alloc_array_facts(1)[OF assms(1) p]) (simp_all add: pow2_or_0_instances)
  have d: "64 dvd unat p" "64 dvd unat q"
    using alloc_array_facts(2)[OF assms(1) p] alloc_array_facts(2)[OF ok q] r(1,2) by (simp_all add: pow2_or_0_instances)
  from d(1) have "16 dvd unat p" by (rule dvd_trans[rotated]) simp
  with d r show "unat (er_buf_addr er') mod 16 = 0" "unat (erst_addr er') mod 64 = 0" by simp_all
  show "reg_erstsz er' = erstsz_set_size 1 (reg_erstsz er)" "reg_erdp er' = erdp_set_pointer (er_buf_addr er') (reg_erdp er)"
    "reg_erstba er' = erstba_set_pointer (erst_addr er') (reg_erstba er)" "er_buf_addr er' = fst (alloc_array pool 16 32 64 65536 ptr)"
    using r p by simp_all
qed

subsection \<open>What Initialize does\<close>

text \<open>
  The writes to the registers after the reset, in their order, for the rings and tables of \<open>c\<close>: the number of slots, the array
  of device contexts, the command ring with its cycle state, the event ring, and the interrupts.
\<close>

definition setup_writes :: "xhc_base \<Rightarrow> u64 \<Rightarrow> u64 \<Rightarrow> controller \<Rightarrow> (u64 \<times> u64) list \<Rightarrow> bool" where
  "setup_writes b irs contexts c ws \<longleftrightarrow>
     (\<exists>config dcbaap crcr erstsz erdp erstba iman usbcmd.
        ws = [(reg_config (op_base b), config), (reg_dcbaap (op_base b), dcbaap), (reg_crcr (op_base b), crcr),
              (reg_erstsz_addr irs, erstsz), (reg_erdp_addr irs, erdp), (reg_erstba_addr irs, erstba),
              (reg_iman irs, iman), (reg_usbcmd (op_base b), usbcmd)] \<and>
        bits_get 0 8 (ucast config :: u32) = 8 \<and> dcbaap_pointer dcbaap = take_bit 32 contexts \<and>
        crcr_pointer crcr = buf_addr (command_ring c) \<and> bits_get 0 1 crcr = 1 \<and> bits_get 1 1 crcr = 0 \<and> bits_get 2 1 crcr = 0 \<and>
        erstsz_size (ucast erstsz) = 1 \<and> erdp_pointer erdp = er_buf_addr (primary_event_ring c) \<and>
        erstba_pointer erstba = erst_addr (primary_event_ring c) \<and>
        bits_get 0 1 (ucast iman :: u32) = 1 \<and> bits_get 1 1 (ucast iman :: u32) = 1 \<and> bits_get 2 1 (ucast usbcmd :: u32) = 1)"

lemma register_values:
  assumes "unat p mod 64 = 0"
  shows "crcr_pointer (crcr_value p w) = p" and "bits_get 0 1 (crcr_value p w) = 1" and "bits_get 1 1 (crcr_value p w) = 0"
    and "bits_get 2 1 (crcr_value p w) = 0" and "dcbaap_pointer (dcbaap_set_pointer p w) = take_bit 32 p"
    and "erstba_pointer (erstba_set_pointer p w) = p"
  using assms pointer_registers[of p 0]
  by (simp_all add: crcr_value_def crcr_set_pointer_def field_simps_bits)

lemma start_event_ring_success:
  assumes "start_event_ring hw irs pool 32 er ap h = (kSuccess, er', ap', h')" and "pool_ok pool ap"
  shows "event_queue_ok (er', 0, True)" and "posted (er', 0, True) = []"
    and "\<exists>late erstsz. h' = late @ h \<and> writes late = [(reg_erstsz_addr irs, erstsz), (reg_erdp_addr irs, reg_erdp er'),
      (reg_erstba_addr irs, reg_erstba er')] \<and> erstsz_size (ucast erstsz) = 1"
    and "erdp_pointer (reg_erdp er') = er_buf_addr er'" and "erstba_pointer (reg_erstba er') = erst_addr er'"
proof -
  let ?sz = "hw h (reg_erstsz_addr irs)"
  let ?sz' = "ucast (erstsz_set_size 1 (ucast ?sz)) :: u64"
  let ?h1 = "Wr (reg_erstsz_addr irs) ?sz' # Rd (reg_erstsz_addr irs) ?sz # h"
  let ?dp = "hw ?h1 (reg_erdp_addr irs)"
  let ?buf = "fst (alloc_array pool 16 32 64 65536 ap)"
  let ?h2 = "Wr (reg_erdp_addr irs) (erdp_set_pointer ?buf ?dp) # Rd (reg_erdp_addr irs) ?dp # ?h1"
  let ?ba = "hw ?h2 (reg_erstba_addr irs)"
  let ?er = "er\<lparr>reg_erstsz := ucast ?sz, reg_erdp := ?dp, reg_erstba := ?ba\<rparr>"
  from assms(1) have init: "event_ring_initialize pool 32 ?er ap = (kSuccess, er', ap')"
    and h': "h' = Wr (reg_erstba_addr irs) (reg_erstba er') # Rd (reg_erstba_addr irs) ?ba # ?h2"
    by (auto simp: start_event_ring_def io_read_def io_write_def Let_def trb_bytes_def split: prod.split_asm if_split_asm)
  show "event_queue_ok (er', 0, True)" "posted (er', 0, True) = []"
    by (rule event_ring_initialize_ok[OF assms(2) _ _ init]; simp)+
  note bufs = event_ring_initialize_buffers[OF assms(2) init]
  have "erstsz_size (ucast ?sz') = 1"
    by (simp add: erstsz_size_def erstsz_set_size_def field_simps_bits ucast_ucast_id)
  then show "\<exists>late erstsz. h' = late @ h \<and> writes late = [(reg_erstsz_addr irs, erstsz), (reg_erdp_addr irs, reg_erdp er'),
      (reg_erstba_addr irs, reg_erstba er')] \<and> erstsz_size (ucast erstsz) = 1"
    using bufs(4,6) h'
    by (intro exI[of _ "Wr (reg_erstba_addr irs) (reg_erstba er') # Rd (reg_erstba_addr irs) ?ba #
        Wr (reg_erdp_addr irs) (erdp_set_pointer ?buf ?dp) # Rd (reg_erdp_addr irs) ?dp #
        Wr (reg_erstsz_addr irs) ?sz' # Rd (reg_erstsz_addr irs) ?sz # []"] exI[of _ ?sz']) simp
  show "erdp_pointer (reg_erdp er') = er_buf_addr er'"
    unfolding bufs(4) using bufs(1) by (rule erdp_roundtrip)
  show "erstba_pointer (reg_erstba er') = erst_addr er'" unfolding bufs(5) using bufs(2) by (rule register_values(6))
qed

lemma enable_interrupts_writes:
  "\<exists>late iman usbcmd. enable_interrupts hw irs op h = late @ h \<and> writes late = [(reg_iman irs, iman), (reg_usbcmd op, usbcmd)] \<and>
    bits_get 0 1 (ucast iman :: u32) = 1 \<and> bits_get 1 1 (ucast iman :: u32) = 1 \<and> bits_get 2 1 (ucast usbcmd :: u32) = 1"
proof -
  let ?im = "hw h (reg_iman irs)"
  let ?im' = "ucast (set_flag 1 True (set_flag 0 True (ucast ?im))) :: u64"
  let ?h = "Wr (reg_iman irs) ?im' # Rd (reg_iman irs) ?im # h"
  let ?cm = "hw ?h (reg_usbcmd op)"
  let ?cm' = "ucast (set_flag 2 True (ucast ?cm)) :: u64"
  have "bits_get 0 1 (ucast ?im' :: u32) = 1" "bits_get 1 1 (ucast ?im' :: u32) = 1" "bits_get 2 1 (ucast ?cm' :: u32) = 1"
    by (simp_all add: set_flag_def field_simps_bits ucast_ucast_id)
  then show ?thesis
    by (intro exI[of _ "[Wr (reg_usbcmd op) ?cm', Rd (reg_usbcmd op) ?cm, Wr (reg_iman irs) ?im', Rd (reg_iman irs) ?im]"]
        exI[of _ ?im'] exI[of _ ?cm']) (simp add: enable_interrupts_def io_read_def io_write_def Let_def)
qed

lemma start_rings_success:
  assumes "start_rings hw b env contexts bufs c h = (kSuccess, bufs', c', h')" and pool: "pool_ok (usb_pool env) (alloc_ptr c)"
    and "unat contexts mod 64 = 0" and config: "bits_get 0 8 (ucast config :: u32) = 8"
  shows "reader_ok (command_ring c', 0, True)" and "pending (command_ring c', 0, True) = []"
    and "event_queue_ok (primary_event_ring c', 0, True)" and "posted (primary_event_ring c', 0, True) = []"
    and "table c' = table c" and "max_slots c' = max_slots c" and "devices c' = devices c"
    and "device_context_pointers c' = device_context_pointers c" and "bufs' = bufs"
    and "\<exists>late irs. h' = late @ h \<and> setup_writes b irs contexts c' ((reg_config (op_base b), config) # writes late)"
proof -
  let ?h1 = "Wr (reg_dcbaap (op_base b)) (dcbaap_set_pointer contexts 0) # h"
  let ?rts = "hw ?h1 (reg_rtsoff (mmio_base b))"
  let ?irs = "interrupter_base (mmio_base b) (ucast ?rts) 0"
  let ?h2 = "Rd (reg_rtsoff (mmio_base b)) ?rts # ?h1"
  let ?crcr = "hw ?h2 (reg_crcr (op_base b))"
  obtain e r ap where ring: "ring_initialize (usb_pool env) 32 (command_ring c) (alloc_ptr c) = (e, r, ap)" by (metis surj_pair)
  then have e: "e = kSuccess"
    using assms(1) by (auto simp: start_rings_def set_dcbaap_def io_read_def io_write_def Let_def split: if_split_asm prod.split_asm)
  let ?h3 = "Wr (reg_crcr (op_base b)) (crcr_value (buf_addr r) ?crcr) # Rd (reg_crcr (op_base b)) ?crcr # ?h2"
  obtain e' er ap' h4 where er: "start_event_ring hw ?irs (usb_pool env) 32 (primary_event_ring c) ap ?h3 = (e', er, ap', h4)"
    by (metis surj_pair)
  from assms(1) have e': "e' = kSuccess" and bufs: "bufs' = bufs"
    and c': "c' = c\<lparr>command_ring := r, primary_event_ring := er, alloc_ptr := ap'\<rparr>"
    and h': "h' = enable_interrupts hw ?irs (op_base b) h4"
    using er by (auto simp: start_rings_def set_dcbaap_def register_command_ring_def io_read_def io_write_def Let_def ring e
        split: if_split_asm)
  have ri: "reader_ok (r, 0, True)" "pending (r, 0, True) = []" "pool_ok (usb_pool env) ap"
    using ring_initialize_ok[OF pool _ _ ring[unfolded e]] by simp_all
  note ev = start_event_ring_success[OF er[unfolded e'] ri(3)]
  from ev(3) obtain late erstsz where late: "h4 = late @ ?h3" "writes late = [(reg_erstsz_addr ?irs, erstsz),
      (reg_erdp_addr ?irs, reg_erdp er), (reg_erstba_addr ?irs, reg_erstba er)]" "erstsz_size (ucast erstsz) = 1" by blast
  obtain late' iman usbcmd where late': "h' = late' @ h4" "writes late' = [(reg_iman ?irs, iman), (reg_usbcmd (op_base b), usbcmd)]"
    "bits_get 0 1 (ucast iman :: u32) = 1" "bits_get 1 1 (ucast iman :: u32) = 1" "bits_get 2 1 (ucast usbcmd :: u32) = 1"
    using enable_interrupts_writes[of hw ?irs "op_base b" h4] h' by blast
  have al: "unat (buf_addr r) mod 64 = 0" by (rule ring_initialize_buffer[OF pool ring[unfolded e]])
  show "\<exists>late irs. h' = late @ h \<and> setup_writes b irs contexts c' ((reg_config (op_base b), config) # writes late)"
    unfolding setup_writes_def
    by (rule exI[of _ "late' @ late @ [Wr (reg_crcr (op_base b)) (crcr_value (buf_addr r) ?crcr), Rd (reg_crcr (op_base b)) ?crcr,
          Rd (reg_rtsoff (mmio_base b)) ?rts, Wr (reg_dcbaap (op_base b)) (dcbaap_set_pointer contexts 0)]"], rule exI[of _ ?irs])
      (simp add: late' late config register_values[OF assms(3)] register_values[OF al] ev(4,5) c' del: One_nat_def)
  show "reader_ok (command_ring c', 0, True)" "pending (command_ring c', 0, True) = []"
    "event_queue_ok (primary_event_ring c', 0, True)" "posted (primary_event_ring c', 0, True) = []"
    "table c' = table c" "max_slots c' = max_slots c" "devices c' = devices c"
    "device_context_pointers c' = device_context_pointers c" "bufs' = bufs"
    using ri ev(1,2) bufs by (simp_all add: c' table_def)
qed

text \<open>
  The state after a successful \<open>Initialize\<close>: both rings are empty and well-formed, all slots are free, and
  the history ends with the setup of the registers (\<open>late\<close>), all of it after a read of the status that said that
  the controller is ready, which itself came after the writes that stopped and reset the controller.
\<close>

definition controller_started :: "xhc_base \<Rightarrow> io list \<Rightarrow> controller \<Rightarrow> io list \<Rightarrow> bool" where
  "controller_started b h c h' \<longleftrightarrow>
     reader_ok (command_ring c, 0, True) \<and> pending (command_ring c, 0, True) = [] \<and>
     event_queue_ok (primary_event_ring c, 0, True) \<and> posted (primary_event_ring c, 0, True) = [] \<and>
     max_slots c = 8 \<and> devices c = replicate 9 None \<and> length (device_context_pointers c) = 9 \<and>
     (\<exists>late s early own stop reset irs contexts. h' = late @ Rd (reg_usbsts (op_base b)) s # early \<and> \<not> controller_not_ready s \<and>
        writes early = writes h @ own @ [(reg_usbcmd (op_base b), stop), (reg_usbcmd (op_base b), reset)] \<and> length own \<le> 1 \<and>
        host_controller_reset reset \<and> bits_get 2 1 (ucast stop :: u32) = 0 \<and> contexts \<noteq> 0 \<and>
        setup_writes b irs contexts c (writes late))"

text \<open>The parts of a successful run.\<close>

lemma initialize_parts:
  assumes init: "initialize hw b env c h = Some (kSuccess, bufs, c', h')"
  obtains contexts c1 h0 h1 h2 h3 hc1 hc2 cf config bufs1 c2 where
    "devmgr_initialize env kDeviceSize c = (kSuccess, contexts, c1)" and "writes h0 = writes h"
    and "request_hc_ownership hw (mmio_base b) (ucast (hw h (reg_hccparams1 (mmio_base b)))) h0 = Some h1"
    and "halt_controller hw (op_base b) h1 = Some h2" and "reset_controller hw (op_base b) h2 = Some h3"
    and "setup_scratchpads env (ucast hc2) c1 = Some (bufs1, c2)"
    and "start_rings hw b env contexts bufs1 c2 ([Rd (reg_hcsparams2 (mmio_base b)) hc2, Wr (reg_config (op_base b)) config,
      Rd (reg_config (op_base b)) cf, Rd (reg_hcsparams1 (mmio_base b)) hc1] @ h3) = (kSuccess, bufs, c', h')"
    and "bits_get 0 8 (ucast config :: u32) = 8"
proof -
  obtain e contexts c1 where dm: "devmgr_initialize env kDeviceSize c = (e, contexts, c1)" by (metis surj_pair)
  with init have e: "e = kSuccess" by (auto simp: initialize_def split: if_split_asm)
  let ?h0 = "Rd (reg_hccparams1 (mmio_base b)) (hw h (reg_hccparams1 (mmio_base b))) # h"
  from init obtain h1 h2 h3 where
    1: "request_hc_ownership hw (mmio_base b) (ucast (hw h (reg_hccparams1 (mmio_base b)))) ?h0 = Some h1"
    and 2: "halt_controller hw (op_base b) h1 = Some h2" and 3: "reset_controller hw (op_base b) h2 = Some h3"
    by (auto simp: initialize_def dm e io_read_def bind_eq_Some_conv)
  let ?hc1 = "hw h3 (reg_hcsparams1 (mmio_base b))"
  let ?h4 = "Rd (reg_hcsparams1 (mmio_base b)) ?hc1 # h3"
  let ?cf = "hw ?h4 (reg_config (op_base b))"
  let ?cf' = "ucast (bits_set 0 8 (of_nat kDeviceSize) (ucast ?cf :: u32)) :: u64"
  let ?h5 = "Wr (reg_config (op_base b)) ?cf' # Rd (reg_config (op_base b)) ?cf # ?h4"
  let ?hc2 = "hw ?h5 (reg_hcsparams2 (mmio_base b))"
  from init obtain bufs1 c2 where sp: "setup_scratchpads env (ucast ?hc2) c1 = Some (bufs1, c2)"
    and rings: "start_rings hw b env contexts bufs1 c2 (Rd (reg_hcsparams2 (mmio_base b)) ?hc2 # ?h5) = (kSuccess, bufs, c', h')"
    by (auto simp: initialize_def dm e io_read_def io_write_def set_max_slots_def Let_def 1 2 3 bind_eq_Some_conv)
  have "bits_get 0 8 (ucast ?cf' :: u32) = 8"
    by (simp add: field_simps_bits ucast_ucast_id kDeviceSize_def)
  with that[OF dm[unfolded e] _ 1 2 3 sp] rings show thesis by simp
qed

lemma initialize_success:
  assumes init: "initialize hw b env c h = Some (kSuccess, bufs, c', h')" and pool: "pool_ok (usb_pool env) (alloc_ptr c)"
  shows "controller_started b h c' h'" and "table c' = table c"
proof -
  from init obtain contexts c1 h0 h1 h2 h3 hc1 hc2 cf config bufs1 c2 where
    dm: "devmgr_initialize env kDeviceSize c = (kSuccess, contexts, c1)" and 0: "writes h0 = writes h"
    and 1: "request_hc_ownership hw (mmio_base b) (ucast (hw h (reg_hccparams1 (mmio_base b)))) h0 = Some h1"
    and 2: "halt_controller hw (op_base b) h1 = Some h2" and 3: "reset_controller hw (op_base b) h2 = Some h3"
    and sp: "setup_scratchpads env (ucast hc2) c1 = Some (bufs1, c2)"
    and rings: "start_rings hw b env contexts bufs1 c2 ([Rd (reg_hcsparams2 (mmio_base b)) hc2, Wr (reg_config (op_base b)) config,
      Rd (reg_config (op_base b)) cf, Rd (reg_hcsparams1 (mmio_base b)) hc1] @ h3) = (kSuccess, bufs, c', h')"
    and cf: "bits_get 0 8 (ucast config :: u32) = 8"
    by (rule initialize_parts)
  note d = devmgr_initialize_success[OF dm pool]
  note sps = setup_scratchpads_Some[OF sp d(1)]
  note r = start_rings_success[OF rings sps(1) d(2) cf]
  from r(10) obtain late irs where late: "h' = late @ [Rd (reg_hcsparams2 (mmio_base b)) hc2, Wr (reg_config (op_base b)) config,
      Rd (reg_config (op_base b)) cf, Rd (reg_hcsparams1 (mmio_base b)) hc1] @ h3"
    "setup_writes b irs contexts c' ((reg_config (op_base b), config) # writes late)" by blast
  from reset_controller_history[OF 3] obtain s mid v where h3: "h3 = Rd (reg_usbsts (op_base b)) s # mid" "\<not> controller_not_ready s"
    "host_controller_reset v" "writes mid = writes h2 @ [(reg_usbcmd (op_base b), v)]" by blast
  from halt_controller_writes[OF 2] obtain w where w: "writes h2 = writes h1 @ [(reg_usbcmd (op_base b), w)]"
    "bits_get 2 1 (ucast w :: u32) = 0" by blast
  from request_hc_ownership_writes[OF 1] obtain own where own: "writes h1 = writes h @ own" "length own \<le> 1" using 0 by auto
  let ?late = "late @ [Rd (reg_hcsparams2 (mmio_base b)) hc2, Wr (reg_config (op_base b)) config,
      Rd (reg_config (op_base b)) cf, Rd (reg_hcsparams1 (mmio_base b)) hc1]"
  have "h' = ?late @ Rd (reg_usbsts (op_base b)) s # mid" using late(1) h3(1) by simp
  moreover have "writes mid = writes h @ own @ [(reg_usbcmd (op_base b), w), (reg_usbcmd (op_base b), v)]"
    using h3(4) w(1) own(1) by simp
  moreover have "setup_writes b irs contexts c' (writes ?late)" using late(2) by simp
  ultimately have "\<exists>late s early own stop reset irs contexts. h' = late @ Rd (reg_usbsts (op_base b)) s # early \<and> \<not> controller_not_ready s \<and>
        writes early = writes h @ own @ [(reg_usbcmd (op_base b), stop), (reg_usbcmd (op_base b), reset)] \<and> length own \<le> 1 \<and>
        host_controller_reset reset \<and> bits_get 2 1 (ucast stop :: u32) = 0 \<and> contexts \<noteq> 0 \<and>
        setup_writes b irs contexts c' (writes late)"
    using h3(2,3) w(2) own(2) d(7) by blast
  then show "controller_started b h c' h'"
    unfolding controller_started_def using r(1-4,6-8) sps(3,4,6) d(3-5) by simp
  show "table c' = table c" using r(5) sps(5) d(6) by simp
qed

subsection \<open>Initialize and Run return\<close>

text \<open>
  What the driver relies on from the hardware, so that its loops end: the list of extended capabilities ends, the firmware
  gives the controller up when it is asked to, a controller that is told to stop stops and one that is halted stays halted as long
  as the run bit is not changed, a reset ends and the controller gets ready after it, and a controller that is told to run
  leaves the halted state. Only histories that can happen matter.
\<close>

definition ownership_ends :: "hardware \<Rightarrow> xhc_base \<Rightarrow> bool" where
  "ownership_ends hw b \<longleftrightarrow>
     (\<forall>h0 h. \<exists>reg h1. find_legsup hw (first_extended_register (mmio_base b) (ucast (hw h0 (reg_hccparams1 (mmio_base b))))) h = Some (reg, h1) \<and>
        (\<forall>v h. reg \<noteq> 0 \<and> hc_os_owned v \<longrightarrow> poll hw reg (\<lambda>r. \<not> hc_bios_owned r \<and> hc_os_owned r) (Wr reg v # h) \<noteq> None))"

definition stop_ends :: "hardware \<Rightarrow> u64 \<Rightarrow> bool" where
  "stop_ends hw op \<longleftrightarrow>
     (\<forall>v h. bits_get 0 1 (ucast v :: u32) = 0 \<longrightarrow>
        poll hw (reg_usbsts op) host_controller_halted (Wr (reg_usbcmd op) v # h) \<noteq> None) \<and>
     (\<forall>v v0 s h. host_controller_halted s \<and> bits_get 0 1 (ucast v :: u32) = bits_get 0 1 (ucast v0) \<longrightarrow>
        poll hw (reg_usbsts op) host_controller_halted (Wr (reg_usbcmd op) v # Rd (reg_usbsts op) s # Rd (reg_usbcmd op) v0 # h) \<noteq> None)"

definition reset_ends :: "hardware \<Rightarrow> u64 \<Rightarrow> bool" where
  "reset_ends hw op \<longleftrightarrow>
     (\<forall>v h. host_controller_reset v \<longrightarrow>
        poll hw (reg_usbcmd op) (\<lambda>v. \<not> host_controller_reset v) (Wr (reg_usbcmd op) v # h) \<noteq> None) \<and>
     (\<forall>v h. \<not> host_controller_reset v \<longrightarrow>
        poll hw (reg_usbsts op) (\<lambda>v. \<not> controller_not_ready v) (Rd (reg_usbcmd op) v # h) \<noteq> None)"

definition run_starts :: "hardware \<Rightarrow> u64 \<Rightarrow> bool" where
  "run_starts hw op \<longleftrightarrow>
     (\<forall>v u h. bits_get 0 1 (ucast v :: u32) = 1 \<longrightarrow>
        poll hw (reg_usbsts op) (\<lambda>v. \<not> host_controller_halted v) (Rd (reg_usbcmd op) u # Wr (reg_usbcmd op) v # h) \<noteq> None)"

definition hw_responds :: "hardware \<Rightarrow> xhc_base \<Rightarrow> bool" where
  "hw_responds hw b \<longleftrightarrow> ownership_ends hw b \<and> stop_ends hw (op_base b) \<and> reset_ends hw (op_base b) \<and> run_starts hw (op_base b)"

lemma request_hc_ownership_returns:
  assumes "ownership_ends hw b"
  shows "request_hc_ownership hw (mmio_base b) (ucast (hw h0 (reg_hccparams1 (mmio_base b)))) h \<noteq> None"
proof -
  from assms obtain reg h1
    where find: "find_legsup hw (first_extended_register (mmio_base b) (ucast (hw h0 (reg_hccparams1 (mmio_base b))))) h = Some (reg, h1)"
      and poll: "\<And>v h. reg \<noteq> 0 \<Longrightarrow> hc_os_owned v \<Longrightarrow> poll hw reg (\<lambda>r. \<not> hc_bios_owned r \<and> hc_os_owned r) (Wr reg v # h) \<noteq> None"
    unfolding ownership_ends_def by blast
  have "hc_os_owned (ucast (set_flag 24 True (ucast (hw h1 reg))))"
    by (simp add: hc_os_owned_def set_flag_def field_simps_bits ucast_ucast_id)
  from poll[OF _ this] show ?thesis
    unfolding request_hc_ownership_def find by (simp add: io_read_def io_write_def)
qed

lemma halt_controller_returns:
  assumes "stop_ends hw op"
  shows "halt_controller hw op h \<noteq> None"
proof -
  let ?c = "hw h (reg_usbcmd op)" and ?h = "Rd (reg_usbcmd op) (hw h (reg_usbcmd op)) # h"
  let ?s = "hw ?h (reg_usbsts op)"
  let ?v0 = "set_flag 10 False (set_flag 3 False (set_flag 2 False (ucast ?c)))"
  have bits: "bits_get 0 1 (ucast (ucast (set_flag 0 False ?v0) :: u64) :: u32) = 0"
    "bits_get 0 1 (ucast (ucast ?v0 :: u64) :: u32) = bits_get 0 1 (ucast ?c)"
    by (simp_all add: set_flag_def field_simps_bits ucast_ucast_id)
  show ?thesis
  proof (cases "host_controller_halted ?s")
    case True
    with assms bits(2) have "poll hw (reg_usbsts op) host_controller_halted
        (Wr (reg_usbcmd op) (ucast ?v0) # Rd (reg_usbsts op) ?s # ?h) \<noteq> None"
      unfolding stop_ends_def by blast
    with True show ?thesis by (simp add: halt_controller_def io_read_def io_write_def Let_def)
  next
    case False
    from assms bits(1) have "poll hw (reg_usbsts op) host_controller_halted
        (Wr (reg_usbcmd op) (ucast (set_flag 0 False ?v0)) # Rd (reg_usbsts op) ?s # ?h) \<noteq> None"
      unfolding stop_ends_def by blast
    with False show ?thesis by (simp add: halt_controller_def io_read_def io_write_def Let_def)
  qed
qed

lemma reset_controller_returns:
  assumes "reset_ends hw op"
  shows "reset_controller hw op h \<noteq> None"
proof -
  let ?c = "hw h (reg_usbcmd op)"
  let ?v = "ucast (set_flag 1 True (ucast ?c)) :: u64"
  have v: "host_controller_reset ?v" by (simp add: host_controller_reset_def set_flag_def field_simps_bits ucast_ucast_id)
  obtain h1 where 1: "poll hw (reg_usbcmd op) (\<lambda>v. \<not> host_controller_reset v) (Wr (reg_usbcmd op) ?v # Rd (reg_usbcmd op) ?c # h) = Some h1"
    using assms v unfolding reset_ends_def by blast
  from poll_Some[OF 1] assms have "poll hw (reg_usbsts op) (\<lambda>v. \<not> controller_not_ready v) h1 \<noteq> None"
    unfolding reset_ends_def by blast
  with 1 show ?thesis by (simp add: reset_controller_def io_read_def io_write_def Let_def)
qed

lemma run_returns:
  assumes "run_starts hw (op_base b)"
  shows "\<exists>h' v s. run hw b h = Some (kSuccess, h') \<and> writes h' = writes h @ [(reg_usbcmd (op_base b), v)] \<and>
    bits_get 0 1 (ucast v :: u32) = 1 \<and> hd h' = Rd (reg_usbsts (op_base b)) s \<and> \<not> host_controller_halted s"
proof -
  let ?op = "op_base b"
  let ?c = "hw h (reg_usbcmd ?op)"
  let ?v = "ucast (set_flag 0 True (ucast ?c)) :: u64"
  let ?h = "Wr (reg_usbcmd ?op) ?v # Rd (reg_usbcmd ?op) ?c # h"
  have v: "bits_get 0 1 (ucast ?v :: u32) = 1" by (simp add: set_flag_def field_simps_bits ucast_ucast_id)
  with assms obtain h' where p: "poll hw (reg_usbsts ?op) (\<lambda>v. \<not> host_controller_halted v) (Rd (reg_usbcmd ?op) (hw ?h (reg_usbcmd ?op)) # ?h) = Some h'"
    unfolding run_starts_def by blast
  then have "run hw b h = Some (kSuccess, h')" by (simp add: run_def io_read_def io_write_def Let_def)
  moreover from poll_Some[OF p] obtain s mid where "h' = Rd (reg_usbsts ?op) s # mid" "\<not> host_controller_halted s"
    "writes mid = writes h @ [(reg_usbcmd ?op, ?v)]" by auto
  ultimately show ?thesis using v by (intro exI[of _ h'] exI[of _ ?v] exI[of _ s]) simp
qed

text \<open>The memory for the array of scratchpad buffers is not checked: without it \<open>Initialize\<close> writes through a null pointer.\<close>

definition scratchpad_array_fits :: "hardware \<Rightarrow> xhc_base \<Rightarrow> usb_env \<Rightarrow> controller \<Rightarrow> bool" where
  "scratchpad_array_fits hw b env c \<longleftrightarrow>
     (\<forall>h. let n = unat (max_scratchpad_buffers (ucast (hw h (reg_hcsparams2 (mmio_base b)))))
          in n = 0 \<or> fst (alloc_array (usb_pool env) 8 (of_nat n) 64 4096
               (alloc_ptr (snd (snd (devmgr_initialize env kDeviceSize c))))) \<noteq> 0)"

lemma start_rings_error:
  "start_rings hw b env contexts bufs c h = (e, r) \<Longrightarrow> e = kSuccess \<or> e = kNoEnoughMemory"
  by (auto simp: start_rings_def ring_initialize_def start_event_ring_def event_ring_initialize_def Let_def
      split: prod.split_asm if_split_asm)

lemma devmgr_initialize_error:
  "devmgr_initialize env n c = (e, r) \<Longrightarrow> e = kSuccess \<or> e = kNoEnoughMemory"
  by (auto simp: devmgr_initialize_def Let_def split: prod.split_asm if_split_asm)

lemma setup_scratchpads_returns:
  assumes "scratchpad_array_fits hw b env c" and "devmgr_initialize env kDeviceSize c = (e, contexts, c1)"
  shows "setup_scratchpads env (ucast (hw h (reg_hcsparams2 (mmio_base b)))) c1 \<noteq> None"
  using assms(1)[unfolded scratchpad_array_fits_def Let_def assms(2) snd_conv, rule_format, of h]
  unfolding setup_scratchpads_def Let_def by (auto split: prod.split)

lemma initialize_returns:
  assumes "hw_responds hw b" and fits: "scratchpad_array_fits hw b env c"
  shows "\<exists>e bufs c' h'. initialize hw b env c h = Some (e, bufs, c', h') \<and> (e = kSuccess \<or> e = kNoEnoughMemory)"
proof -
  obtain e contexts c1 where dm: "devmgr_initialize env kDeviceSize c = (e, contexts, c1)" by (metis surj_pair)
  note err = devmgr_initialize_error[OF dm]
  show ?thesis
  proof (cases "e = kSuccess")
    case False
    with err dm show ?thesis by (simp add: initialize_def)
  next
    case True
    let ?h0 = "Rd (reg_hccparams1 (mmio_base b)) (hw h (reg_hccparams1 (mmio_base b))) # h"
    obtain h1 where 1: "request_hc_ownership hw (mmio_base b) (ucast (hw h (reg_hccparams1 (mmio_base b)))) ?h0 = Some h1"
      using request_hc_ownership_returns[of hw b h ?h0] assms(1) by (auto simp: hw_responds_def)
    obtain h2 where 2: "halt_controller hw (op_base b) h1 = Some h2"
      using halt_controller_returns[of hw "op_base b" h1] assms(1) by (auto simp: hw_responds_def)
    obtain h3 where 3: "reset_controller hw (op_base b) h2 = Some h3"
      using reset_controller_returns[of hw "op_base b" h2] assms(1) by (auto simp: hw_responds_def)
    let ?h5 = "set_max_slots hw (op_base b) (Rd (reg_hcsparams1 (mmio_base b)) (hw h3 (reg_hcsparams1 (mmio_base b))) # h3)"
    obtain bufs c2 where sp: "setup_scratchpads env (ucast (hw ?h5 (reg_hcsparams2 (mmio_base b)))) c1 = Some (bufs, c2)"
      using setup_scratchpads_returns[OF fits dm, of ?h5] by auto
    obtain e' r where r: "start_rings hw b env contexts bufs c2 (Rd (reg_hcsparams2 (mmio_base b)) (hw ?h5 (reg_hcsparams2 (mmio_base b))) # ?h5) = (e', r)"
      by (metis surj_pair)
    have "initialize hw b env c h = Some (e', r)"
      by (simp add: initialize_def dm True io_read_def 1 2 3 sp r)
    with start_rings_error[OF r] show ?thesis by (metis surj_pair)
  qed
qed

lemma initialize_and_run:
  assumes "hw_responds hw b" and "scratchpad_array_fits hw b env c" and "pool_ok (usb_pool env) (alloc_ptr c)"
    and "port_config_phase c = replicate 256 kNotConnected" and "addressing_port c = 0"
  shows "\<exists>e bufs c' h'. initialize hw b env c h = Some (e, bufs, c', h') \<and> (e = kSuccess \<or> e = kNoEnoughMemory) \<and>
    (e = kSuccess \<longrightarrow> controller_started b h c' h' \<and> initial_controller c' \<and>
      (\<exists>h'' v s. run hw b h' = Some (kSuccess, h'') \<and> writes h'' = writes h' @ [(reg_usbcmd (op_base b), v)] \<and>
         bits_get 0 1 (ucast v :: u32) = 1 \<and> hd h'' = Rd (reg_usbsts (op_base b)) s \<and> \<not> host_controller_halted s))"
proof -
  from initialize_returns[OF assms(1,2)] obtain e bufs c' h' where
    init: "initialize hw b env c h = Some (e, bufs, c', h')" "e = kSuccess \<or> e = kNoEnoughMemory" by blast
  have "controller_started b h c' h' \<and> initial_controller c'" if "e = kSuccess"
    using initialize_success[OF init(1)[unfolded that] assms(3)] assms(4,5)
    by (simp add: initial_controller_def table_def controller_started_def)
  with init run_returns[of hw b h'] assms(1) show ?thesis by (simp add: hw_responds_def)
qed


subsection \<open>An example\<close>

text \<open>A controller without extended capabilities and scratchpad buffers that reacts at once.\<close>

fun demo_running :: "io list \<Rightarrow> bool" where
  "demo_running [] = False"
| "demo_running (Wr a v # h) = (a \<noteq> 0xc0000020 \<and> demo_running h)"
| "demo_running (Rd a u # Wr a' v # h) =
     (if a = 0xc0000020 \<and> a' = a then bits_get 0 1 (ucast v :: u32) = 1 else a' \<noteq> 0xc0000020 \<and> demo_running h)"
| "demo_running (Rd a u # h) = demo_running h"

definition demo_xhc :: hardware where
  "demo_xhc h a = (if a = 0xc0000000 then 0x20 else if a = 0xc0000004 then 0x04000008 else if a = 0xc0000024 then of_bool (\<not> demo_running h) else if a = 0xc0000018 then 0x1000 else 0)"

definition demo_base :: xhc_base where
  "demo_base = \<lparr>mmio_base = 0xc0000000, op_base = 0xc0000020, xhc_max_ports = 4\<rparr>"

lemma poll_at_once: "good (hw h a) \<Longrightarrow> poll hw a good h \<noteq> None"
  by (subst poll.simps) simp

lemma demo_xhc_responds: "hw_responds demo_xhc demo_base"
proof -
  have "find_legsup demo_xhc 0 h = Some (0, h)" for h by (subst find_legsup.simps) simp
  then have "ownership_ends demo_xhc demo_base"
    by (simp add: ownership_ends_def demo_base_def first_extended_register_def add_or_null_def extended_capabilities_pointer_def
        demo_xhc_def reg_hccparams1_def)
  moreover have "stop_ends demo_xhc (op_base demo_base)"
    unfolding stop_ends_def
    by (auto intro!: poll_at_once[THEN not_None_eq[THEN iffD1]]
        simp: demo_base_def demo_xhc_def reg_usbsts_def reg_usbcmd_def host_controller_halted_def bits_get_def)
  moreover have "reset_ends demo_xhc (op_base demo_base)"
    unfolding reset_ends_def
    by (auto intro!: poll_at_once[THEN not_None_eq[THEN iffD1]]
        simp: demo_base_def demo_xhc_def reg_usbsts_def reg_usbcmd_def host_controller_reset_def controller_not_ready_def bits_get_def)
  moreover have "run_starts demo_xhc (op_base demo_base)"
    unfolding run_starts_def
    by (auto intro!: poll_at_once[THEN not_None_eq[THEN iffD1]]
        simp: demo_base_def demo_xhc_def reg_usbsts_def reg_usbcmd_def host_controller_halted_def)
  ultimately show ?thesis by (simp add: hw_responds_def)
qed

lemma demo_allocations:
  "alloc_mem 0x100000 72 0 0 0x100000 = (0x100000, 0x100048)" "alloc_mem 0x100000 72 64 4096 0x100048 = (0x100080, 0x1000c8)"
  "alloc_mem 0x100000 512 64 65536 0x1000c8 = (0x100100, 0x100300)" "alloc_mem 0x100000 512 64 65536 0x100300 = (0x100300, 0x100500)"
  "alloc_mem 0x100000 16 64 65536 0x100500 = (0x100500, 0x100510)"
  by code_simp+

lemma demo_no_scratchpads: "max_scratchpad_buffers 0 = 0"
  by (simp add: max_scratchpad_buffers_def max_scratchpad_buffers_low_def max_scratchpad_buffers_high_def)

lemma demo_array_fits: "scratchpad_array_fits demo_xhc demo_base demo_env demo_controller"
  by (simp add: scratchpad_array_fits_def demo_xhc_def demo_base_def reg_hcsparams2_def demo_no_scratchpads)

lemma demo_rings:
  assumes "usb_pool env = 0x100000" and "alloc_ptr c = 0x1000c8"
  shows "fst (start_rings hw b env contexts bufs c h) = kSuccess"
  using assms by (simp add: start_rings_def ring_initialize_def start_event_ring_def event_ring_initialize_def alloc_array_def trb_bytes_def
      Let_def demo_allocations case_prod_beta io_read_def)

lemma demo_initialize_success:
  assumes "initialize demo_xhc demo_base demo_env demo_controller h = Some (e, r)"
  shows "e = kSuccess"
proof -
  obtain c1 where dm: "devmgr_initialize demo_env kDeviceSize demo_controller = (kSuccess, 0x100080, c1)" "alloc_ptr c1 = 0x1000c8"
    by (simp add: devmgr_initialize_def demo_env_def demo_controller_def alloc_array_def kDeviceSize_def Let_def demo_allocations)
  have sp: "setup_scratchpads demo_env (ucast (demo_xhc h (reg_hcsparams2 (mmio_base demo_base)))) c1 = Some ([], c1)" for h
    by (simp add: setup_scratchpads_def demo_xhc_def demo_base_def reg_hcsparams2_def demo_no_scratchpads)
  from assms obtain h' where "start_rings demo_xhc demo_base demo_env 0x100080 [] c1 h' = (e, r)"
    by (auto simp: initialize_def dm io_read_def set_max_slots_def Let_def bind_eq_Some_conv sp)
  with demo_rings[of demo_env c1 demo_xhc demo_base "0x100080" "[]" h'] dm(2) show ?thesis by (simp add: demo_env_def)
qed


end
