(* ===== verification/Register_Layout.thy ===== *)
theory Register_Layout
  imports Xhci_Startup
begin

text \<open>
  The layout of the xHCI registers and contexts as the sources declare them: \<open>src/kernel/usb/interface/usb/xhci/registers.hpp\<close> and
  \<open>context.hpp\<close>. A union has its words and a packed structure of bit fields; a structure of registers has members
  of whole bytes. Both are lists of members with their widths, in order of declaration, where a field without a name is reserved.

  From these lists the positions of all fields and registers are computed, and they are what the accessors and addresses of the other
  theories use.
\<close>

subsection \<open>Layouts\<close>

type_synonym layout = "(string \<times> nat) list"

text \<open>The position of a member, counted from the first member's position \<open>k\<close>, and its width.\<close>

fun field_at :: "nat \<Rightarrow> layout \<Rightarrow> string \<Rightarrow> (nat \<times> nat) option" where
  "field_at k [] f = None"
| "field_at k ((g, n) # L) f = (if g = f then Some (k, n) else field_at (k + n) L f)"

definition layout_size :: "layout \<Rightarrow> nat" where
  "layout_size L = sum_list (map snd L)"

definition get_field :: "layout \<Rightarrow> string \<Rightarrow> 'a::len word \<Rightarrow> 'a word option" where
  "get_field L f w = map_option (\<lambda>(k, n). bits_get k n w) (field_at 0 L f)"

definition set_field :: "layout \<Rightarrow> string \<Rightarrow> 'a::len word \<Rightarrow> 'a word \<Rightarrow> 'a word option" where
  "set_field L f v w = map_option (\<lambda>(k, n). bits_set k n v w) (field_at 0 L f)"

subsection \<open>Registers\<close>

definition hcsparams1_bits :: layout where
  "hcsparams1_bits =
    [(''max_device_slots'', 8), (''max_interrupters'', 11), ('''', 5), (''max_ports'', 8)]"

definition hcsparams2_bits :: layout where
  "hcsparams2_bits =
    [(''isochronous_scheduling_threshold'', 4), (''event_ring_segment_table_max'', 4), ('''', 13),
     (''max_scratchpad_buffers_high'', 5), (''scratchpad_restore'', 1), (''max_scratchpad_buffers_low'', 5)]"

definition hcsparams3_bits :: layout where
  "hcsparams3_bits =
    [(''u1_device_eixt_latency'', 8), ('''', 8), (''u2_device_eixt_latency'', 16)]"

definition hccparams1_bits :: layout where
  "hccparams1_bits =
    [(''addressing_capability_64'', 1), (''bw_negotiation_capability'', 1), (''context_size'', 1),
     (''port_power_control'', 1), (''port_indicators'', 1), (''light_hc_reset_capability'', 1),
     (''latency_tolerance_messaging_capability'', 1), (''no_secondary_sid_support'', 1),
     (''parse_all_event_data'', 1), (''stopped_short_packet_capability'', 1), (''stopped_edtla_capability'', 1),
     (''contiguous_frame_id_capability'', 1), (''maximum_primary_stream_array_size'', 4),
     (''xhci_extended_capabilities_pointer'', 16)]"

definition dboff_bits :: layout where
  "dboff_bits =
    [('''', 2), (''doorbell_array_offset'', 30)]"

definition rtsoff_bits :: layout where
  "rtsoff_bits =
    [('''', 5), (''runtime_register_space_offset'', 27)]"

definition hccparams2_bits :: layout where
  "hccparams2_bits =
    [(''u3_entry_capability'', 1), (''configure_endpoint_command_max_exit_latency_too_large_capability'', 1),
     (''force_save_context_capability'', 1), (''compliance_transition_capability'', 1),
     (''large_esit_payload_capability'', 1), (''configuration_information_capability'', 1), ('''', 26)]"

definition usbcmd_bits :: layout where
  "usbcmd_bits =
    [(''run_stop'', 1), (''host_controller_reset'', 1), (''interrupter_enable'', 1),
     (''host_system_error_enable'', 1), ('''', 3), (''lignt_host_controller_reset'', 1),
     (''controller_save_state'', 1), (''controller_restore_state'', 1), (''enable_wrap_event'', 1),
     (''enable_u3_mfindex_stop'', 1), (''stopped_short_packet_enable'', 1), (''cem_enable'', 1), ('''', 18)]"

definition usbsts_bits :: layout where
  "usbsts_bits =
    [(''host_controller_halted'', 1), ('''', 1), (''host_system_error'', 1), (''event_interrupt'', 1),
     (''port_change_detect'', 1), ('''', 3), (''save_state_status'', 1), (''restore_state_status'', 1),
     (''save_restore_error'', 1), (''controller_not_ready'', 1), (''host_controller_error'', 1), ('''', 19)]"

definition crcr_bits :: layout where
  "crcr_bits =
    [(''ring_cycle_state'', 1), (''command_stop'', 1), (''command_abort'', 1), (''command_ring_running'', 1),
     ('''', 2), (''command_ring_pointer'', 58)]"

definition dcbaap_bits :: layout where
  "dcbaap_bits =
    [('''', 6), (''device_context_base_address_array_pointer'', 26)]"

definition config_bits :: layout where
  "config_bits =
    [(''max_device_slots_enabled'', 8), (''u3_entry_enable'', 1), (''configuration_information_enable'', 1),
     ('''', 22)]"

definition portsc_bits :: layout where
  "portsc_bits =
    [(''current_connect_status'', 1), (''port_enabled_disabled'', 1), ('''', 1), (''over_current_active'', 1),
     (''port_reset'', 1), (''port_link_state'', 4), (''port_power'', 1), (''port_speed'', 4),
     (''port_indicator_control'', 2), (''port_link_state_write_strobe'', 1), (''connect_status_change'', 1),
     (''port_enabled_disabled_change'', 1), (''warm_port_reset_change'', 1), (''over_current_change'', 1),
     (''port_reset_change'', 1), (''port_link_state_change'', 1), (''port_config_error_change'', 1),
     (''cold_attach_status'', 1), (''wake_on_connect_enable'', 1), (''wake_on_disconnect_enable'', 1),
     (''wake_on_over_current_enable'', 1), ('''', 2), (''device_removable'', 1), (''warm_port_reset'', 1)]"

definition portpmsc_bits :: layout where
  "portpmsc_bits =
    [(''u1_timeout'', 8), (''u2_timeout'', 8), (''force_link_pm_accept'', 1), ('''', 15)]"

definition portli_bits :: layout where
  "portli_bits =
    [(''link_error_count'', 16), (''rx_lane_count'', 4), (''tx_lane_count'', 4), ('''', 8)]"

definition porthlpmc_bits :: layout where
  "porthlpmc_bits =
    [(''host_initiated_resume_duration_mode'', 2), (''l1_timeout'', 8), (''best_effort_service_latency_deep'', 4),
     ('''', 18)]"

definition iman_bits :: layout where
  "iman_bits =
    [(''interrupt_pending'', 1), (''interrupt_enable'', 1), ('''', 30)]"

definition imod_bits :: layout where
  "imod_bits =
    [(''interrupt_moderation_interval'', 16), (''interrupt_moderation_counter'', 16)]"

definition erstsz_bits :: layout where
  "erstsz_bits =
    [(''event_ring_segment_table_size'', 16), ('''', 16)]"

definition erstba_bits :: layout where
  "erstba_bits =
    [('''', 6), (''event_ring_segment_table_base_address'', 58)]"

definition erdp_bits :: layout where
  "erdp_bits =
    [(''dequeue_erst_segment_index'', 3), (''event_handler_busy'', 1), (''event_ring_dequeue_pointer'', 60)]"

definition doorbell_bits :: layout where
  "doorbell_bits =
    [(''db_target'', 8), ('''', 8), (''db_stream_id'', 16)]"

definition extended_register_bits :: layout where
  "extended_register_bits =
    [(''capability_id'', 8), (''next_pointer'', 8), (''value'', 16)]"

definition usblegsup_bits :: layout where
  "usblegsup_bits =
    [(''capability_id'', 8), (''next_pointer'', 8), (''hc_bios_owned_semaphore'', 1), ('''', 7),
     (''hc_os_owned_semaphore'', 1), ('''', 7)]"

subsection \<open>Contexts\<close>

definition slot_context_bits :: layout where
  "slot_context_bits =
    [(''route_string'', 20), (''speed'', 4), ('''', 1), (''mtt'', 1), (''hub'', 1), (''context_entries'', 5),
     (''max_exit_latency'', 16), (''root_hub_port_num'', 8), (''num_ports'', 8), (''tt_hub_slot_id'', 8),
     (''tt_port_num'', 8), (''ttt'', 2), ('''', 4), (''interrupter_target'', 10), (''usb_device_address'', 8),
     ('''', 19), (''slot_state'', 5)]"

definition endpoint_context_bits :: layout where
  "endpoint_context_bits =
    [(''ep_state'', 3), ('''', 5), (''mult'', 2), (''max_primary_streams'', 5), (''linear_stream_array'', 1),
     (''interval'', 8), (''max_esit_payload_hi'', 8), ('''', 1), (''error_count'', 2), (''ep_type'', 3), ('''', 1),
     (''host_initiate_disable'', 1), (''max_burst_size'', 8), (''max_packet_size'', 16),
     (''dequeue_cycle_state'', 1), ('''', 3), (''tr_dequeue_pointer'', 60), (''average_trb_length'', 16),
     (''max_esit_payload_lo'', 16)]"

subsection \<open>Structures of registers\<close>

definition capability_registers :: layout where
  "capability_registers =
    [(''CAPLENGTH'', 1), (''reserved1'', 1), (''HCIVERSION'', 2), (''HCSPARAMS1'', 4), (''HCSPARAMS2'', 4), (''HCSPARAMS3'', 4),
     (''HCCPARAMS1'', 4), (''DBOFF'', 4), (''RTSOFF'', 4), (''HCCPARAMS2'', 4)]"

definition operational_registers :: layout where
  "operational_registers =
    [(''USBCMD'', 4), (''USBSTS'', 4), (''PAGESIZE'', 4), (''reserved1'', 4 * 2), (''DNCTRL'', 4), (''CRCR'', 8), (''reserved2'', 4 * 4),
     (''DCBAAP'', 8), (''CONFIG'', 4)]"

definition port_register_set :: layout where
  "port_register_set = [(''PORTSC'', 4), (''PORTPMSC'', 4), (''PORTLI'', 4), (''PORTHLPMC'', 4)]"

definition interrupter_register_set :: layout where
  "interrupter_register_set = [(''IMAN'', 4), (''IMOD'', 4), (''ERSTSZ'', 4), (''reserved'', 4), (''ERSTBA'', 8), (''ERDP'', 8)]"

text \<open>The address of a register of a structure that starts at \<open>base\<close>.\<close>

definition register_address :: "u64 \<Rightarrow> layout \<Rightarrow> string \<Rightarrow> u64 option" where
  "register_address base S r = map_option (\<lambda>(k, n). base + of_nat k) (field_at 0 S r)"

lemmas layout_defs = hcsparams1_bits_def hcsparams2_bits_def hcsparams3_bits_def hccparams1_bits_def dboff_bits_def
  rtsoff_bits_def hccparams2_bits_def usbcmd_bits_def usbsts_bits_def crcr_bits_def dcbaap_bits_def config_bits_def
  portsc_bits_def portpmsc_bits_def portli_bits_def porthlpmc_bits_def iman_bits_def imod_bits_def erstsz_bits_def
  erstba_bits_def erdp_bits_def doorbell_bits_def extended_register_bits_def usblegsup_bits_def slot_context_bits_def
  endpoint_context_bits_def

lemmas structure_defs = capability_registers_def operational_registers_def port_register_set_def interrupter_register_set_def

subsection \<open>Fields\<close>

lemma field_at_inside: "field_at k L f = Some (i, n) \<Longrightarrow> k \<le> i \<and> i + n \<le> k + layout_size L"
  by (induction k L f rule: field_at.induct) (auto simp: layout_size_def split: if_split_asm)

lemma fields_disjoint:
  "field_at k L f = Some (i, n) \<Longrightarrow> field_at k L g = Some (j, m) \<Longrightarrow> f \<noteq> g \<Longrightarrow> i + n \<le> j \<or> j + m \<le> i"
proof (induction k L f rule: field_at.induct)
  case (2 k h l L f)
  show ?case
  proof (cases "h = f")
    case True
    with 2(2-4) show ?thesis by (auto dest: field_at_inside)
  next
    case False
    with 2 show ?thesis by (cases "h = g") (auto dest: field_at_inside)
  qed
qed simp

text \<open>Two different fields of a layout that fits the word do not touch each other, and a field keeps the low bits of what is stored.\<close>

lemma get_set_field:
  fixes w :: "'a::len word"
  assumes "layout_size L \<le> LENGTH('a)" and "set_field L f v w = Some w'"
  shows "f \<noteq> g \<Longrightarrow> get_field L g w' = get_field L g w"
    and "field_at 0 L f = Some (k, n) \<Longrightarrow> get_field L f w' = Some (take_bit n v)"
proof -
  obtain i l where f: "field_at 0 L f = Some (i, l)" "w' = bits_set i l v w" "i + l \<le> LENGTH('a)"
    using assms field_at_inside[of 0 L f] by (auto simp: set_field_def)
  show "get_field L g w' = get_field L g w" if "f \<noteq> g"
  proof (cases "field_at 0 L g")
    case (Some p)
    then obtain j m where g: "field_at 0 L g = Some (j, m)" by (cases p) simp
    from fields_disjoint[OF f(1) this that] have "bits_get j m w' = bits_get j m w"
      unfolding f(2) by (auto simp: field_simps_bits)
    then show ?thesis by (simp add: get_field_def g)
  qed (simp add: get_field_def)
  show "field_at 0 L f = Some (k, n) \<Longrightarrow> get_field L f w' = Some (take_bit n v)"
    using f by (simp add: get_field_def field_simps_bits)
qed

text \<open>
  The bit fields of every register of 32 or 64 bits fill its words, with one exception: the fields of \<open>DCBAAP_Bitmap\<close> have 32 bits in a word of
  64, so the upper half of the pointer has no field. The two contexts end in reserved words.
\<close>

lemma registers_filled:
  "map layout_size [hcsparams1_bits, hcsparams2_bits, hcsparams3_bits, hccparams1_bits, dboff_bits, rtsoff_bits, hccparams2_bits,
     usbcmd_bits, usbsts_bits, config_bits, portsc_bits, portpmsc_bits, portli_bits, porthlpmc_bits, iman_bits, imod_bits,
     erstsz_bits, doorbell_bits, extended_register_bits, usblegsup_bits] = replicate 20 32"
  "map layout_size [crcr_bits, erstba_bits, erdp_bits] = replicate 3 64" "layout_size dcbaap_bits = 32"
  "layout_size slot_context_bits = 4 * 32" "layout_size endpoint_context_bits = 5 * 32"
  by code_simp+

text \<open>The structures of registers have the sizes their arrays step by, and the addresses used by the driver are those of the declared members.\<close>

lemma register_addresses:
  "register_address b capability_registers ''CAPLENGTH'' = Some (reg_caplength b)"
  "register_address b capability_registers ''HCIVERSION'' = Some (reg_hciversion b)"
  "register_address b capability_registers ''HCSPARAMS1'' = Some (reg_hcsparams1 b)"
  "register_address b capability_registers ''HCSPARAMS2'' = Some (reg_hcsparams2 b)"
  "register_address b capability_registers ''HCCPARAMS1'' = Some (reg_hccparams1 b)"
  "register_address b capability_registers ''DBOFF'' = Some (reg_dboff b)"
  "register_address b capability_registers ''RTSOFF'' = Some (reg_rtsoff b)"
  "register_address b operational_registers ''USBCMD'' = Some (reg_usbcmd b)"
  "register_address b operational_registers ''USBSTS'' = Some (reg_usbsts b)"
  "register_address b operational_registers ''CRCR'' = Some (reg_crcr b)"
  "register_address b operational_registers ''DCBAAP'' = Some (reg_dcbaap b)"
  "register_address b operational_registers ''CONFIG'' = Some (reg_config b)"
  "register_address b interrupter_register_set ''IMAN'' = Some (reg_iman b)"
  "register_address b interrupter_register_set ''ERSTSZ'' = Some (reg_erstsz_addr b)"
  "register_address b interrupter_register_set ''ERSTBA'' = Some (reg_erstba_addr b)"
  "register_address b interrupter_register_set ''ERDP'' = Some (reg_erdp_addr b)"
  "interrupter_base m r i = array_element (m + ucast (rtsoff_offset r) + 0x20) (of_nat (layout_size interrupter_register_set)) i"
  "port_register_base b p = array_element (b + 0x400) (of_nat (layout_size port_register_set)) (ucast p - 1)"
  by (simp_all add: register_address_def structure_defs reg_caplength_def reg_hciversion_def reg_hcsparams1_def reg_hcsparams2_def
      reg_hccparams1_def reg_dboff_def reg_rtsoff_def reg_usbcmd_def reg_usbsts_def reg_crcr_def reg_dcbaap_def reg_config_def
      reg_iman_def reg_erstsz_addr_def reg_erstba_addr_def reg_erdp_addr_def interrupter_base_def port_register_base_def layout_size_def)

subsection \<open>The accessors\<close>

text \<open>Every accessor of the driver's model reads or writes the field it is named after, where the sources declare it.\<close>

lemma capability_fields:
  "get_field hcsparams1_bits ''max_device_slots'' w = Some (max_device_slots w)"
  "get_field hcsparams1_bits ''max_ports'' w = Some (max_ports w)"
  "get_field hcsparams2_bits ''max_scratchpad_buffers_high'' w = Some (max_scratchpad_buffers_high w)"
  "get_field hcsparams2_bits ''max_scratchpad_buffers_low'' w = Some (max_scratchpad_buffers_low w)"
  "get_field hccparams1_bits ''xhci_extended_capabilities_pointer'' w = Some (extended_capabilities_pointer w)"
  "map_option (push_bit 2) (get_field dboff_bits ''doorbell_array_offset'' w) = Some (dboff_offset w)"
  "map_option (push_bit 5) (get_field rtsoff_bits ''runtime_register_space_offset'' w) = Some (rtsoff_offset w)"
  "get_field extended_register_bits ''capability_id'' (ucast v) = Some (extended_capability_id v)"
  "get_field extended_register_bits ''next_pointer'' (ucast v) = Some (extended_next_pointer v)"
  "get_field usblegsup_bits ''hc_bios_owned_semaphore'' (ucast v :: u32) = Some 1 \<longleftrightarrow> hc_bios_owned v"
  "get_field usblegsup_bits ''hc_os_owned_semaphore'' (ucast v :: u32) = Some 1 \<longleftrightarrow> hc_os_owned v"
  "set_field usblegsup_bits ''hc_os_owned_semaphore'' (of_bool b) w = Some (set_flag 24 b w)"
  by (simp_all add: get_field_def set_field_def layout_defs max_device_slots_def max_ports_def max_scratchpad_buffers_high_def
      max_scratchpad_buffers_low_def extended_capabilities_pointer_def dboff_offset_def rtsoff_offset_def extended_capability_id_def
      extended_next_pointer_def hc_bios_owned_def hc_os_owned_def set_flag_def del: One_nat_def flip: numeral_2_eq_2)

lemma operational_fields:
  "get_field usbsts_bits ''host_controller_halted'' (ucast v :: u32) = Some 1 \<longleftrightarrow> host_controller_halted v"
  "get_field usbsts_bits ''controller_not_ready'' (ucast v :: u32) = Some 1 \<longleftrightarrow> controller_not_ready v"
  "get_field usbcmd_bits ''host_controller_reset'' (ucast v :: u32) = Some 1 \<longleftrightarrow> host_controller_reset v"
  "set_field usbcmd_bits ''run_stop'' (of_bool b) w = Some (set_flag 0 b w)"
  "set_field usbcmd_bits ''host_controller_reset'' (of_bool b) w = Some (set_flag 1 b w)"
  "set_field usbcmd_bits ''interrupter_enable'' (of_bool b) w = Some (set_flag 2 b w)"
  "set_field usbcmd_bits ''host_system_error_enable'' (of_bool b) w = Some (set_flag 3 b w)"
  "set_field usbcmd_bits ''enable_wrap_event'' (of_bool b) w = Some (set_flag 10 b w)"
  "set_field config_bits ''max_device_slots_enabled'' x w = Some (bits_set 0 8 x w)"
  "set_field iman_bits ''interrupt_pending'' (of_bool b) w = Some (set_flag 0 b w)"
  "set_field iman_bits ''interrupt_enable'' (of_bool b) w = Some (set_flag 1 b w)"
  by (simp_all add: get_field_def set_field_def layout_defs host_controller_halted_def controller_not_ready_def host_controller_reset_def set_flag_def
      del: One_nat_def)

lemma pointer_fields:
  "map_option (push_bit 6) (get_field crcr_bits ''command_ring_pointer'' w) = Some (crcr_pointer w)"
  "set_field crcr_bits ''command_ring_pointer'' (drop_bit 6 p) w = Some (crcr_set_pointer p w)"
  "map_option (push_bit 6) (get_field dcbaap_bits ''device_context_base_address_array_pointer'' w) = Some (dcbaap_pointer w)"
  "set_field dcbaap_bits ''device_context_base_address_array_pointer'' (drop_bit 6 p) w = Some (dcbaap_set_pointer p w)"
  "map_option (push_bit 6) (get_field erstba_bits ''event_ring_segment_table_base_address'' w) = Some (erstba_pointer w)"
  "set_field erstba_bits ''event_ring_segment_table_base_address'' (drop_bit 6 p) w = Some (erstba_set_pointer p w)"
  "map_option (push_bit 4) (get_field erdp_bits ''event_ring_dequeue_pointer'' w) = Some (erdp_pointer w)"
  "set_field erdp_bits ''event_ring_dequeue_pointer'' (drop_bit 4 p) w = Some (erdp_set_pointer p w)"
  "map_option ucast (get_field erstsz_bits ''event_ring_segment_table_size'' x) = Some (erstsz_size x)"
  "set_field erstsz_bits ''event_ring_segment_table_size'' (ucast n) x = Some (erstsz_set_size n x)"
  "Option.bind (set_field doorbell_bits ''db_target'' (ucast t) 0) (set_field doorbell_bits ''db_stream_id'' (ucast i)) = Some (doorbell_value t i)"
  by (simp_all add: get_field_def set_field_def layout_defs crcr_pointer_def crcr_set_pointer_def dcbaap_pointer_def dcbaap_set_pointer_def
      erstba_pointer_def erstba_set_pointer_def erdp_pointer_def erdp_set_pointer_def erstsz_size_def erstsz_set_size_def doorbell_value_def
      del: One_nat_def)

text \<open>Positions in a context count through its words of 32 bits.\<close>

lemma context_fields:
  "field_at 0 slot_context_bits ''route_string'' = Some (0, 20)" "field_at 0 slot_context_bits ''speed'' = Some (20, 4)"
  "field_at 0 slot_context_bits ''context_entries'' = Some (27, 5)" "field_at 0 slot_context_bits ''root_hub_port_num'' = Some (32 + 16, 8)"
  "field_at 0 endpoint_context_bits ''mult'' = Some (8, 2)" "field_at 0 endpoint_context_bits ''max_primary_streams'' = Some (10, 5)"
  "field_at 0 endpoint_context_bits ''interval'' = Some (16, 8)" "field_at 0 endpoint_context_bits ''error_count'' = Some (32 + 1, 2)"
  "field_at 0 endpoint_context_bits ''ep_type'' = Some (32 + 3, 3)" "field_at 0 endpoint_context_bits ''max_burst_size'' = Some (32 + 8, 8)"
  "field_at 0 endpoint_context_bits ''max_packet_size'' = Some (32 + 16, 16)"
  "field_at 0 endpoint_context_bits ''dequeue_cycle_state'' = Some (64, 1)"
  "field_at 0 endpoint_context_bits ''tr_dequeue_pointer'' = Some (64 + 4, 60)"
  "field_at 0 endpoint_context_bits ''average_trb_length'' = Some (128, 16)"
  by code_simp+

subsection \<open>Port status\<close>

lemma portsc_fields:
  "get_field portsc_bits ''current_connect_status'' w = Some 1 \<longleftrightarrow> is_connected w"
  "get_field portsc_bits ''port_enabled_disabled'' w = Some 1 \<longleftrightarrow> is_enabled w"
  "get_field portsc_bits ''port_reset'' w = Some 1 \<longleftrightarrow> port_reset w"
  "map_option uint (get_field portsc_bits ''port_speed'' w) = Some (port_speed w)"
  "get_field portsc_bits ''connect_status_change'' w = Some 1 \<longleftrightarrow> is_connect_status_changed w"
  "get_field portsc_bits ''port_reset_change'' w = Some 1 \<longleftrightarrow> is_port_reset_changed w"
  by (simp_all add: get_field_def layout_defs is_connected_def is_enabled_def port_reset_def port_speed_def is_connect_status_changed_def
      is_port_reset_changed_def del: One_nat_def)

text \<open>
  What \<open>Reset\<close> writes to the port status register: of the fields that a write could change by accident only the
  power, link and indicator settings and the wake bits are written back as they were read; the reset bit and the connect
  status change are set; every other field is 0. So it neither disables the port nor clears a change bit but the connect status change, which the
  hardware clears when a 1 is written. Clearing a status bit writes back one more field, the link state write strobe, which reads 0.
\<close>

definition kept_fields :: "string list" where
  "kept_fields = [''port_link_state'', ''port_power'', ''port_indicator_control'', ''wake_on_connect_enable'', ''wake_on_disconnect_enable'',
     ''wake_on_over_current_enable'']"

lemma field_of_mask:
  "bits_get k n ((w AND m) OR v) = (bits_get k n w AND bits_get k n m) OR bits_get k n v"
  "bits_get k n w AND mask n = bits_get k n w"
  by (rule bit_word_eqI, auto simp: bits_get_def bit_simps)+

lemma reset_value_fields:
  "\<forall>(f, n)\<in>set portsc_bits. f \<noteq> [] \<longrightarrow> get_field portsc_bits f (reset_value w) =
     (if f \<in> set kept_fields then get_field portsc_bits f w
      else if f \<in> {''port_reset'', ''connect_status_change''} then Some 1 else Some 0)"
proof -
  note keep = field_of_mask(2)[of _ 1 w] field_of_mask(2)[of _ 2 w] field_of_mask(2)[of _ 4 w]
  have masks: "mask 1 = (1 :: u32)" "mask 2 = (3 :: u32)" "mask 4 = (15 :: u32)" by (simp_all add: mask_eq_exp_minus_1)
  have words: "bits_get k n (0x0e00c3e0 :: u32) = take_bit n (0x0e00c3e0 div 2 ^ k)" "bits_get k n (0x00020010 :: u32) = take_bit n (0x00020010 div 2 ^ k)" for k n
    by (simp_all add: bits_get_def drop_bit_eq_div)
  show ?thesis
    by (simp add: layout_defs kept_fields_def get_field_def reset_value_def field_of_mask(1) words take_bit_eq_mod keep[unfolded masks] del: One_nat_def)
qed

lemma clear_status_fields:
  assumes "(g, k) = (''connect_status_change'', 17) \<or> (g, k) = (''port_reset_change'', 21)"
  shows "\<forall>(f, n)\<in>set portsc_bits. f \<noteq> [] \<longrightarrow> get_field portsc_bits f (clear_status_bit k w) =
     (if f \<in> set (''port_link_state_write_strobe'' # kept_fields) then get_field portsc_bits f w
      else if f = g then Some 1 else Some 0)"
proof -
  note keep = field_of_mask(2)[of _ 1 w] field_of_mask(2)[of _ 2 w] field_of_mask(2)[of _ 4 w]
  have masks: "mask 1 = (1 :: u32)" "mask 2 = (3 :: u32)" "mask 4 = (15 :: u32)" by (simp_all add: mask_eq_exp_minus_1)
  have words: "bits_get i n (0x0e01c3e0 :: u32) = take_bit n (0x0e01c3e0 div 2 ^ i)" for i n
    by (simp add: bits_get_def drop_bit_eq_div)
  have mask_only: "bits_get i n (w AND m) = bits_get i n w AND bits_get i n m" for i n m
    using field_of_mask(1)[of i n w m 0] by (simp add: bits_get_def)
  from assms show ?thesis
    by (elim disjE) (simp_all add: layout_defs kept_fields_def get_field_def clear_status_bit_def field_simps_bits mask_only words
        take_bit_eq_mod keep[unfolded masks] del: One_nat_def)
qed

end
