(* ===== verification/Geometry.thy ===== *)
theory Geometry
  imports Prelude
begin

text \<open>
  Vectors and rectangles: \<open>src/kernel/graphics/primitives.hpp\<close>, and colours:
  \<open>src/kernel/graphics/pixel_color.hpp\<close>.

  The templates are used at \<open>int\<close>. Coordinates are integers here: a signed overflow has no
  defined result in C++, and the coordinates of a screen stay far away from it (the lemma
  \<open>adjust_coords_range\<close> of the frame buffers bounds what the clipping computes).
\<close>

record vec =
  vx :: int
  vy :: int

definition vec :: "int \<Rightarrow> int \<Rightarrow> vec" where
  "vec x y = \<lparr>vx = x, vy = y\<rparr>"

definition vec_add :: "vec \<Rightarrow> vec \<Rightarrow> vec" where
  "vec_add a b = vec (vx a + vx b) (vy a + vy b)"

definition vec_sub :: "vec \<Rightarrow> vec \<Rightarrow> vec" where
  "vec_sub a b = vec (vx a - vx b) (vy a - vy b)"

definition vec_min :: "vec \<Rightarrow> vec \<Rightarrow> vec" where
  "vec_min a b = vec (min (vx a) (vx b)) (min (vy a) (vy b))"

definition vec_max :: "vec \<Rightarrow> vec \<Rightarrow> vec" where
  "vec_max a b = vec (max (vx a) (vx b)) (max (vy a) (vy b))"

definition vec_map2 :: "(int \<Rightarrow> int \<Rightarrow> int) \<Rightarrow> vec \<Rightarrow> vec \<Rightarrow> vec" where
  "vec_map2 f a b = vec (f (vx a) (vx b)) (f (vy a) (vy b))"

lemma vec_simps [simp]:
  "vx (vec x y) = x" "vy (vec x y) = y"
  "vx (vec_add a b) = vx a + vx b" "vy (vec_add a b) = vy a + vy b"
  "vx (vec_sub a b) = vx a - vx b" "vy (vec_sub a b) = vy a - vy b"
  "vx (vec_min a b) = min (vx a) (vx b)" "vy (vec_min a b) = min (vy a) (vy b)"
  "vx (vec_max a b) = max (vx a) (vx b)" "vy (vec_max a b) = max (vy a) (vy b)"
  "vx (vec_map2 f a b) = f (vx a) (vx b)" "vy (vec_map2 f a b) = f (vy a) (vy b)"
  by (simp_all add: vec_def vec_add_def vec_sub_def vec_min_def vec_max_def vec_map2_def)

subsection \<open>Rectangles\<close>

record rect =
  r_left :: int
  r_top :: int
  r_right :: int
  r_bottom :: int

definition rect :: "int \<Rightarrow> int \<Rightarrow> int \<Rightarrow> int \<Rightarrow> rect" where
  "rect l t r b = \<lparr>r_left = l, r_top = t, r_right = r, r_bottom = b\<rparr>"

definition rect_of :: "vec \<Rightarrow> vec \<Rightarrow> rect" where
  "rect_of p q = rect (vx p) (vy p) (vx q) (vy q)"

definition with_size :: "vec \<Rightarrow> vec \<Rightarrow> rect" where
  "with_size p sz = rect_of p (vec_add p sz)"

definition top_left :: "rect \<Rightarrow> vec" where
  "top_left r = vec (r_left r) (r_top r)"

definition bottom_right :: "rect \<Rightarrow> vec" where
  "bottom_right r = vec (r_right r) (r_bottom r)"

definition width :: "rect \<Rightarrow> int" where
  "width r = r_right r - r_left r"

definition height :: "rect \<Rightarrow> int" where
  "height r = r_bottom r - r_top r"

definition rect_size :: "rect \<Rightarrow> vec" where
  "rect_size r = vec (width r) (height r)"

definition rect_offset :: "rect \<Rightarrow> vec \<Rightarrow> rect" where
  "rect_offset r d = rect_of (vec_add (top_left r) d) (vec_add (bottom_right r) d)"

definition rect_merge :: "rect \<Rightarrow> rect \<Rightarrow> rect" where
  "rect_merge a b = rect (min (r_left a) (r_left b)) (min (r_top a) (r_top b)) (max (r_right a) (r_right b)) (max (r_bottom a) (r_bottom b))"

definition rect_cross :: "rect \<Rightarrow> rect \<Rightarrow> rect" where
  "rect_cross a b = rect (max (r_left a) (r_left b)) (max (r_top a) (r_top b)) (min (r_right a) (r_right b)) (min (r_bottom a) (r_bottom b))"

definition is_crossing :: "rect \<Rightarrow> rect \<Rightarrow> bool" where
  "is_crossing a b \<longleftrightarrow> r_left a < r_right b \<and> r_top a < r_bottom b \<and> r_left b < r_right a \<and> r_top b < r_bottom a"

definition includes_rect :: "rect \<Rightarrow> rect \<Rightarrow> bool" where
  "includes_rect a b \<longleftrightarrow> r_left a \<le> r_left b \<and> r_top a \<le> r_top b \<and> r_right b \<le> r_right a \<and> r_bottom b \<le> r_bottom a"

definition includes_point :: "rect \<Rightarrow> vec \<Rightarrow> bool" where
  "includes_point r p \<longleftrightarrow> r_left r \<le> vx p \<and> r_top r \<le> vy p \<and> vx p < r_right r \<and> vy p < r_bottom r"

lemma rect_simps [simp]:
  "r_left (rect l t r b) = l" "r_top (rect l t r b) = t" "r_right (rect l t r b) = r" "r_bottom (rect l t r b) = b"
  "r_left (rect_of p q) = vx p" "r_top (rect_of p q) = vy p" "r_right (rect_of p q) = vx q" "r_bottom (rect_of p q) = vy q"
  "vx (top_left a) = r_left a" "vy (top_left a) = r_top a" "vx (bottom_right a) = r_right a" "vy (bottom_right a) = r_bottom a"
  "vx (rect_size a) = r_right a - r_left a" "vy (rect_size a) = r_bottom a - r_top a"
  by (simp_all add: rect_def rect_of_def top_left_def bottom_right_def rect_size_def width_def height_def)

text \<open>The operations as sets of points.\<close>

definition points :: "rect \<Rightarrow> vec set" where
  "points r = {p. includes_point r p}"

lemma points_cross: "points (rect_cross a b) = points a \<inter> points b"
  by (auto simp: points_def includes_point_def rect_cross_def)

lemma points_merge: "points a \<union> points b \<subseteq> points (rect_merge a b)"
  by (auto simp: points_def includes_point_def rect_merge_def)

lemma points_includes: "includes_rect a b \<Longrightarrow> points b \<subseteq> points a"
  by (auto simp: points_def includes_point_def includes_rect_def)

lemma points_offset: "p \<in> points (rect_offset r d) \<longleftrightarrow> vec_sub p d \<in> points r"
  by (auto simp: points_def includes_point_def rect_offset_def)

lemma points_not_crossing: "\<not> is_crossing a b \<Longrightarrow> points a \<inter> points b = {}"
  by (auto simp: points_def includes_point_def is_crossing_def)

text \<open>For rectangles with an inside, \<open>is_crossing\<close> is exactly a common point.\<close>

lemma crossing_iff:
  assumes "r_left a < r_right a" "r_top a < r_bottom a" "r_left b < r_right b" "r_top b < r_bottom b"
  shows "is_crossing a b \<longleftrightarrow> points a \<inter> points b \<noteq> {}"
proof
  assume "is_crossing a b"
  with assms have "top_left (rect_cross a b) \<in> points a \<inter> points b"
    by (auto simp: points_def includes_point_def is_crossing_def rect_cross_def)
  then show "points a \<inter> points b \<noteq> {}" by blast
qed (use points_not_crossing in blast)

subsection \<open>Colours\<close>

record pixel_color =
  col_r :: u8
  col_g :: u8
  col_b :: u8

definition pixel_color_of :: "u32 \<Rightarrow> pixel_color" where
  "pixel_color_of c = \<lparr>col_r = ucast (drop_bit 16 c AND 0xff), col_g = ucast (drop_bit 8 c AND 0xff), col_b = ucast (c AND 0xff)\<rparr>"

definition pixel_color_eq :: "pixel_color \<Rightarrow> pixel_color \<Rightarrow> bool" where
  "pixel_color_eq a b \<longleftrightarrow> col_r a = col_r b \<and> col_g a = col_g b \<and> col_b a = col_b b"

lemma pixel_color_eq_iff: "pixel_color_eq a b \<longleftrightarrow> a = b" for a b :: pixel_color
  by (auto simp: pixel_color_eq_def)

end
