(* ===== verification/Frame_Buffer.thy ===== *)
theory Frame_Buffer
  imports Geometry Kernel_Error
begin

text \<open>
  Frame buffers and pixel writers: \<open>frame_buffer.cpp\<close>, \<open>frame_buffer_config.hpp\<close> and
  \<open>device_pixel_writer.cpp\<close> of \<open>src/kernel/graphics\<close>.

  The memory that \<open>config_.frame_buffer\<close> points to, the screen's or the buffer's own vector, is a
  list of bytes, and an address in it is an index. Every copy checks that it stays inside both
  memories: \<open>None\<close> is a copy that does not, which the theorems below exclude.
\<close>

datatype pixel_format = RGBResv8BitPerColor | BGRResv8BitPerColor

definition bytes_per_pixel :: "pixel_format \<Rightarrow> nat" where
  "bytes_per_pixel fmt = 4"

text \<open>What \<open>write_to_buf\<close> of the two pixel writers puts into a pixel, and \<open>get_pixel_at\<close> reads.\<close>

fun pixel_bytes :: "pixel_format \<Rightarrow> pixel_color \<Rightarrow> u8 list" where
  "pixel_bytes RGBResv8BitPerColor c = [col_r c, col_g c, col_b c, 0]"
| "pixel_bytes BGRResv8BitPerColor c = [col_b c, col_g c, col_r c, 0]"

fun pixel_of_bytes :: "pixel_format \<Rightarrow> u8 list \<Rightarrow> pixel_color" where
  "pixel_of_bytes RGBResv8BitPerColor p = \<lparr>col_r = p ! 0, col_g = p ! 1, col_b = p ! 2\<rparr>"
| "pixel_of_bytes BGRResv8BitPerColor p = \<lparr>col_r = p ! 2, col_g = p ! 1, col_b = p ! 0\<rparr>"

lemma pixel_bytes_roundtrip: "pixel_of_bytes f (pixel_bytes f c) = c"
  by (cases f) simp_all

lemma pixel_bytes_inj: "pixel_bytes f c = pixel_bytes f d \<longleftrightarrow> c = d"
  by (metis pixel_bytes_roundtrip)

lemma length_pixel_bytes [simp]: "length (pixel_bytes f c) = bytes_per_pixel f"
  by (cases f) (simp_all add: bytes_per_pixel_def)

record frame_buffer =
  memory :: "u8 list"
  pixels_per_scan_line :: nat
  horizontal_resolution :: nat
  vertical_resolution :: nat
  pixel_format :: pixel_format

definition bytes_per_scan_line :: "frame_buffer \<Rightarrow> nat" where
  "bytes_per_scan_line fb = bytes_per_pixel (pixel_format fb) * pixels_per_scan_line fb"

definition buffer_size :: "frame_buffer \<Rightarrow> nat" where
  "buffer_size fb = bytes_per_pixel (pixel_format fb) * pixels_per_scan_line fb * vertical_resolution fb"

definition fb_size :: "frame_buffer \<Rightarrow> vec" where
  "fb_size fb = vec (int (horizontal_resolution fb)) (int (vertical_resolution fb))"

text \<open>
  The constructor: without a memory of its own (\<open>frame_buffer == nullptr\<close>) the buffer gets a
  zero-filled one with no padding; \<open>None\<close> stands for \<open>nullptr\<close>.
\<close>

definition new_frame_buffer :: "u8 list option \<Rightarrow> nat \<Rightarrow> nat \<Rightarrow> nat \<Rightarrow> pixel_format \<Rightarrow> frame_buffer" where
  "new_frame_buffer mem ppsl hr vr fmt =
     (case mem of
        Some m \<Rightarrow> \<lparr>memory = m, pixels_per_scan_line = ppsl, horizontal_resolution = hr, vertical_resolution = vr, pixel_format = fmt\<rparr>
      | None \<Rightarrow>
          let fb = \<lparr>memory = [], pixels_per_scan_line = hr, horizontal_resolution = hr, vertical_resolution = vr, pixel_format = fmt\<rparr>
          in fb\<lparr>memory := replicate (buffer_size fb) 0\<rparr>)"

text \<open>
  The offset of a pixel. The code computes it with 32-bit unsigned numbers: \<open>None\<close> is a position
  whose number is negative or needs more bits.
\<close>

definition frame_addr_at :: "frame_buffer \<Rightarrow> vec \<Rightarrow> nat option" where
  "frame_addr_at fb pos =
     (let p = int (pixels_per_scan_line fb) * vy pos + vx pos
      in if p < 0 \<or> 2 ^ 32 \<le> p then None else Some (bytes_per_pixel (pixel_format fb) * nat p))"

subsection \<open>Copying memory\<close>

definition mem_copy :: "u8 list \<Rightarrow> nat \<Rightarrow> u8 list \<Rightarrow> nat \<Rightarrow> nat \<Rightarrow> u8 list option" where
  "mem_copy dst d src s n =
     (if d + n \<le> length dst \<and> s + n \<le> length src
      then Some (take d dst @ take n (drop s src) @ drop (d + n) dst) else None)"

definition write_pixel :: "frame_buffer \<Rightarrow> int \<Rightarrow> int \<Rightarrow> pixel_color \<Rightarrow> frame_buffer option" where
  "write_pixel fb x y c = do {
     a \<leftarrow> frame_addr_at fb (vec x y);
     m \<leftarrow> mem_copy (memory fb) a (pixel_bytes (pixel_format fb) c) 0 (bytes_per_pixel (pixel_format fb));
     Some (fb\<lparr>memory := m\<rparr>) }"

definition forward :: "frame_buffer \<Rightarrow> frame_buffer \<Rightarrow> frame_buffer option" where
  "forward fb src = do {
     m \<leftarrow> mem_copy (memory fb) 0 (memory src) 0 (buffer_size fb);
     Some (fb\<lparr>memory := m\<rparr>) }"

definition copy_self_y :: "frame_buffer \<Rightarrow> int \<Rightarrow> int \<Rightarrow> int \<Rightarrow> frame_buffer option" where
  "copy_self_y fb dst_y src_y lines =
     (if lines < 0 then None
      else do {
        d \<leftarrow> frame_addr_at fb (vec 0 dst_y);
        s \<leftarrow> frame_addr_at fb (vec 0 src_y);
        m \<leftarrow> mem_copy (memory fb) d (memory fb) s (nat lines * bytes_per_scan_line fb);
        Some (fb\<lparr>memory := m\<rparr>) })"

definition clone :: "frame_buffer \<Rightarrow> frame_buffer" where
  "clone fb = fb\<lparr>memory := take (buffer_size fb) (memory fb)\<rparr>"

subsection \<open>Clipping\<close>

definition decrease_d :: "int \<Rightarrow> int \<Rightarrow> int" where
  "decrease_d v d = (if d < 0 then v + d else v)"

definition increase_d :: "int \<Rightarrow> int \<Rightarrow> int" where
  "increase_d v d = (if d < 0 then v - d else v)"

definition adjust_coords :: "vec \<Rightarrow> vec \<Rightarrow> vec \<Rightarrow> vec \<Rightarrow> vec \<Rightarrow> vec \<times> vec \<times> vec" where
  "adjust_coords to_size src_size to_pos src_pos sz =
     (let sz = vec_map2 decrease_d sz src_pos;
          to_pos = vec_map2 increase_d to_pos src_pos;
          src_pos = vec_max src_pos (vec 0 0);
          sz = vec_map2 decrease_d sz to_pos;
          src_pos = vec_map2 increase_d src_pos to_pos;
          to_pos = vec_max to_pos (vec 0 0);
          max_size = vec_min (vec_sub to_size to_pos) (vec_sub src_size src_pos)
      in (to_pos, src_pos, vec_min sz max_size))"

text \<open>
  The code computes this with 32-bit signed integers. No overflow happens for coordinates that
  are small enough: every intermediate result is bounded by the sum of three of them.
\<close>

lemma adjust_coords_range:
  fixes B :: int
  assumes adj: "adjust_coords to_size src_size to_pos src_pos sz = (to_pos', src_pos', sz')"
    and to_size: "0 \<le> vx to_size" "vx to_size \<le> B" "0 \<le> vy to_size" "vy to_size \<le> B"
    and src_size: "0 \<le> vx src_size" "vx src_size \<le> B" "0 \<le> vy src_size" "vy src_size \<le> B"
    and to_pos: "\<bar>vx to_pos\<bar> \<le> B" "\<bar>vy to_pos\<bar> \<le> B" and src_pos: "\<bar>vx src_pos\<bar> \<le> B" "\<bar>vy src_pos\<bar> \<le> B"
    and sz: "\<bar>vx sz\<bar> \<le> B" "\<bar>vy sz\<bar> \<le> B"
    and v: "v \<in> {to_pos', src_pos', sz'}"
  shows "\<bar>vx v\<bar> \<le> 3 * B \<and> \<bar>vy v\<bar> \<le> 3 * B"
proof -
  have eqs: "vx to_pos' = max (increase_d (vx to_pos) (vx src_pos)) 0" "vy to_pos' = max (increase_d (vy to_pos) (vy src_pos)) 0"
    using adj by (auto simp: adjust_coords_def Let_def)
  have eqs2: "vx src_pos' = increase_d (max (vx src_pos) 0) (increase_d (vx to_pos) (vx src_pos))"
     "vy src_pos' = increase_d (max (vy src_pos) 0) (increase_d (vy to_pos) (vy src_pos))"
    using adj by (auto simp: adjust_coords_def Let_def)
  have eqs3: "vx sz' = min (decrease_d (decrease_d (vx sz) (vx src_pos)) (increase_d (vx to_pos) (vx src_pos))) (min (vx to_size - vx to_pos') (vx src_size - vx src_pos'))"
     "vy sz' = min (decrease_d (decrease_d (vy sz) (vy src_pos)) (increase_d (vy to_pos) (vy src_pos))) (min (vy to_size - vy to_pos') (vy src_size - vy src_pos'))"
    using adj by (auto simp: adjust_coords_def Let_def)
  have one: "\<bar>max (increase_d t s) 0\<bar> \<le> 2 * B" "\<bar>increase_d (max s 0) (increase_d t s)\<bar> \<le> 2 * B"
      "\<bar>decrease_d (decrease_d z s) (increase_d t s)\<bar> \<le> 3 * B"
    if "\<bar>t\<bar> \<le> B" "\<bar>s\<bar> \<le> B" "\<bar>z\<bar> \<le> B" for s t z :: int
    using that by (auto simp: increase_d_def decrease_d_def)
  have B: "0 \<le> B" using to_size by simp
  have tp: "\<bar>vx to_pos'\<bar> \<le> 2 * B" "\<bar>vy to_pos'\<bar> \<le> 2 * B"
    and sp: "\<bar>vx src_pos'\<bar> \<le> 2 * B" "\<bar>vy src_pos'\<bar> \<le> 2 * B"
    unfolding eqs eqs2 using one to_pos src_pos sz by blast+
  have "\<bar>vx sz'\<bar> \<le> 3 * B" unfolding eqs3(1) using one(3)[OF to_pos(1) src_pos(1) sz(1)] tp sp to_size src_size by linarith
  moreover have "\<bar>vy sz'\<bar> \<le> 3 * B" unfolding eqs3(2) using one(3)[OF to_pos(2) src_pos(2) sz(2)] tp sp to_size src_size by linarith
  ultimately show ?thesis using v tp sp B by auto
qed

subsection \<open>Copying a rectangle\<close>

text \<open>
  The three copying loops. A 32-bit load or store at a pixel accesses its four bytes, and two
  loads are equal when the bytes are.
\<close>

definition copy_transparent ::
    "u8 list \<Rightarrow> nat \<Rightarrow> u8 list \<Rightarrow> nat \<Rightarrow> u8 list \<Rightarrow> vec \<Rightarrow> nat \<Rightarrow> nat \<Rightarrow> nat \<Rightarrow> u8 list option" where
  "copy_transparent dst dst_buf src src_buf tc_buf sz bpp dst_bpl src_bpl =
     for_range (\<lambda>y dst.
       for_range (\<lambda>x dst.
         let d = dst_buf + y * dst_bpl + x * bpp; s = src_buf + y * src_bpl + x * bpp
         in if length src < s + bpp \<or> length tc_buf < bpp then None
            else if take bpp (drop s src) \<noteq> take bpp tc_buf then mem_copy dst d src s bpp
            else Some dst) 0 (nat (vx sz)) dst) 0 (nat (vy sz)) dst"

definition load32 :: "u8 list \<Rightarrow> nat \<Rightarrow> u32 option" where
  "load32 m a =
     (if a + 4 \<le> length m
      then Some (ucast (m ! a) OR push_bit 8 (ucast (m ! (a + 1))) OR push_bit 16 (ucast (m ! (a + 2))) OR
                 push_bit 24 (ucast (m ! (a + 3))))
      else None)"

definition store32 :: "u8 list \<Rightarrow> nat \<Rightarrow> u32 \<Rightarrow> u8 list option" where
  "store32 m a w =
     mem_copy m a [ucast w, ucast (drop_bit 8 w), ucast (drop_bit 16 w), ucast (drop_bit 24 w)] 0 4"

definition copy_transparent_bpp_4 ::
    "u8 list \<Rightarrow> nat \<Rightarrow> u8 list \<Rightarrow> nat \<Rightarrow> u8 list \<Rightarrow> vec \<Rightarrow> nat \<Rightarrow> nat \<Rightarrow> u8 list option" where
  "copy_transparent_bpp_4 dst dst_buf src src_buf tc_buf sz dst_bpl src_bpl = do {
     tc \<leftarrow> load32 tc_buf 0;
     for_range (\<lambda>y dst.
       for_range (\<lambda>x dst. do {
         src_px \<leftarrow> load32 src (src_buf + y * src_bpl + x * 4);
         if src_px \<noteq> tc then store32 dst (dst_buf + y * dst_bpl + x * 4) src_px else Some dst }) 0 (nat (vx sz)) dst)
       0 (nat (vy sz)) dst }"

definition copy_lines :: "u8 list \<Rightarrow> nat \<Rightarrow> u8 list \<Rightarrow> nat \<Rightarrow> vec \<Rightarrow> nat \<Rightarrow> nat \<Rightarrow> nat \<Rightarrow> u8 list option" where
  "copy_lines dst dst_buf src src_buf sz bpp dst_bpl src_bpl =
     for_range (\<lambda>y dst. mem_copy dst (dst_buf + y * dst_bpl) src (src_buf + y * src_bpl) (bpp * nat (vx sz)))
       0 (nat (vy sz)) dst"

definition copy_from ::
    "frame_buffer \<Rightarrow> frame_buffer \<Rightarrow> vec \<Rightarrow> vec \<Rightarrow> vec \<Rightarrow> pixel_color option \<Rightarrow> (error_code \<times> frame_buffer) option" where
  "copy_from fb src to_pos src_pos sz transparent_color =
     (if pixel_format src \<noteq> pixel_format fb then Some (UnknownPixelFormat, fb)
      else
        let (to_pos, src_pos, sz) = adjust_coords (fb_size fb) (fb_size src) to_pos src_pos sz
        in if vx sz \<le> 0 \<or> vy sz \<le> 0 then Some (Success, fb)
           else
             let bpp = bytes_per_pixel (pixel_format fb);
                 dst_bpl = bytes_per_scan_line fb; src_bpl = bytes_per_scan_line src
             in do {
               dst_buf \<leftarrow> frame_addr_at fb to_pos;
               src_buf \<leftarrow> frame_addr_at src src_pos;
               m \<leftarrow> (case transparent_color of
                  Some c \<Rightarrow>
                    let tc_buf = pixel_bytes (pixel_format fb) c
                    in if bpp = 4 then copy_transparent_bpp_4 (memory fb) dst_buf (memory src) src_buf tc_buf sz dst_bpl src_bpl
                       else copy_transparent (memory fb) dst_buf (memory src) src_buf tc_buf sz bpp dst_bpl src_bpl
                | None \<Rightarrow> copy_lines (memory fb) dst_buf (memory src) src_buf sz bpp dst_bpl src_bpl);
               Some (Success, fb\<lparr>memory := m\<rparr>) })"

definition copy_all_from :: "frame_buffer \<Rightarrow> frame_buffer \<Rightarrow> vec \<Rightarrow> pixel_color option \<Rightarrow> (error_code \<times> frame_buffer) option" where
  "copy_all_from fb src to_pos transparent_color = copy_from fb src to_pos (vec 0 0) (fb_size src) transparent_color"

subsection \<open>The fast loop and the general one\<close>

lemma take4: "a + 4 \<le> length m \<Longrightarrow> take 4 (drop a m) = [m ! a, m ! (a + 1), m ! (a + 2), m ! (a + 3)]"
  by (rule nth_equalityI) (auto simp: less_Suc_eq numeral_eq_Suc)

lemma word_of_bytes:
  fixes b0 b1 b2 b3 :: u8
  defines "w \<equiv> (ucast b0 OR push_bit 8 (ucast b1) OR push_bit 16 (ucast b2) OR push_bit 24 (ucast b3) :: u32)"
  shows "ucast w = b0" "ucast (drop_bit 8 w) = b1" "ucast (drop_bit 16 w) = b2" "ucast (drop_bit 24 w) = b3"
proof -
  have len: "bit b k \<Longrightarrow> k < 8" for b :: u8 and k using bit_imp_le_length[of b k] by simp
  show "ucast w = b0" "ucast (drop_bit 8 w) = b1" "ucast (drop_bit 16 w) = b2" "ucast (drop_bit 24 w) = b3"
    by (rule bit_word_eqI, auto simp: w_def bit_simps dest: len)+
qed

text \<open>A load and a store through 32-bit words is a copy of four bytes.\<close>

lemma load32_bytes:
  assumes "load32 m a = Some w"
  shows "[ucast w, ucast (drop_bit 8 w), ucast (drop_bit 16 w), ucast (drop_bit 24 w)] = take 4 (drop a m)"
proof -
  have len: "a + 4 \<le> length m" using assms by (simp add: load32_def split: if_splits)
  then have w: "w = ucast (m ! a) OR push_bit 8 (ucast (m ! (a + 1))) OR push_bit 16 (ucast (m ! (a + 2))) OR
      push_bit 24 (ucast (m ! (a + 3)))"
    using assms by (simp add: load32_def)
  show ?thesis unfolding take4[OF len] w word_of_bytes by (rule refl)
qed

lemma store32_load32:
  assumes "load32 src s = Some w"
  shows "store32 dst d w = mem_copy dst d src s 4"
  using assms load32_bytes[OF assms] by (auto simp: store32_def mem_copy_def load32_def split: if_splits)

lemma load32_eq_iff:
  assumes "load32 m a = Some v" and "load32 n b = Some w"
  shows "v = w \<longleftrightarrow> take 4 (drop a m) = take 4 (drop b n)"
proof
  assume "take 4 (drop a m) = take 4 (drop b n)"
  moreover have "a + 4 \<le> length m" "b + 4 \<le> length n" using assms by (auto simp: load32_def split: if_splits)
  ultimately have "m ! a = n ! b" "m ! (a + 1) = n ! (b + 1)" "m ! (a + 2) = n ! (b + 2)" "m ! (a + 3) = n ! (b + 3)"
    by (simp_all add: take4)
  then show "v = w" using assms by (auto simp: load32_def split: if_splits)
next
  assume "v = w"
  then show "take 4 (drop a m) = take 4 (drop b n)" using load32_bytes[OF assms(1)] load32_bytes[OF assms(2)] by simp
qed

lemma copy_transparent_bpp_4_conv:
  assumes "4 \<le> length tc_buf"
  shows "copy_transparent_bpp_4 dst dst_buf src src_buf tc_buf sz dst_bpl src_bpl =
    copy_transparent dst dst_buf src src_buf tc_buf sz 4 dst_bpl src_bpl"
proof -
  obtain tc where tc: "load32 tc_buf 0 = Some tc" using assms by (auto simp: load32_def)
  have step: "(do { src_px \<leftarrow> load32 src s; if src_px \<noteq> tc then store32 dst d src_px else Some dst }) =
      (if length src < s + 4 \<or> length tc_buf < 4 then None
       else if take 4 (drop s src) \<noteq> take 4 tc_buf then mem_copy dst d src s 4 else Some dst)" for s d dst
  proof (cases "load32 src s")
    case None
    then show ?thesis by (auto simp: load32_def split: if_splits)
  next
    case (Some w)
    then have "\<not> length src < s + 4" by (auto simp: load32_def split: if_splits)
    then show ?thesis using Some assms load32_eq_iff[OF Some tc] store32_load32[OF Some] by auto
  qed
  show ?thesis
    unfolding copy_transparent_bpp_4_def copy_transparent_def tc by (simp only: Option.bind.simps step Let_def)
qed

text \<open>Claim C16.
  The loop specialised to four bytes per pixel, which compares and moves 32-bit words, does
  exactly what the general loop does with four bytes per pixel, out-of-range accesses included.
\<close>

theorem copy_transparent_bpp_4_eq:
  assumes "4 \<le> length tc_buf"
  shows "copy_transparent_bpp_4 dst dst_buf src src_buf tc_buf sz dst_bpl src_bpl =
    copy_transparent dst dst_buf src src_buf tc_buf sz 4 dst_bpl src_bpl"
  using assms by (rule copy_transparent_bpp_4_conv)

theorem copy_transparent_bpp_4_eq_witness:
  "copy_transparent_bpp_4 (replicate 8 0) 0 [1, 2, 3, 4, 9, 9, 9, 9] 0 [9, 9, 9, 9] (vec 2 1) 8 8 =
     copy_transparent (replicate 8 0) 0 [1, 2, 3, 4, 9, 9, 9, 9] 0 [9, 9, 9, 9] (vec 2 1) 4 8 8"
  by (rule copy_transparent_bpp_4_eq) simp

end
