(* ===== verification/Frame_Copy.thy ===== *)
theory Frame_Copy
  imports Frame_Buffer
begin

text \<open>
  What \<open>FrameBuffer::copy_from\<close> does to every pixel, and that it never leaves the memory of
  either buffer. The memory is seen as a sequence of cells of \<open>bytes_per_pixel\<close> bytes.
\<close>

subsection \<open>Cells\<close>

definition cell :: "nat \<Rightarrow> u8 list \<Rightarrow> nat \<Rightarrow> u8 list" where
  "cell b m c = take b (drop (b * c) m)"

lemma nth_mem_copy:
  assumes "mem_copy dst d src s n = Some dst'" and "i < length dst"
  shows "dst' ! i = (if d \<le> i \<and> i < d + n then src ! (s + (i - d)) else dst ! i)"
proof -
  have len: "d + n \<le> length dst" "s + n \<le> length src" and dst': "dst' = take d dst @ take n (drop s src) @ drop (d + n) dst"
    using assms(1) by (auto simp: mem_copy_def split: if_splits)
  have n: "length (take n (drop s src)) = n" "length (take d dst) = d" using len by simp_all
  consider "i < d" | "d \<le> i" "i < d + n" | "d + n \<le> i" by linarith
  then show ?thesis
  proof cases
    case 1 then show ?thesis using n by (simp add: dst' nth_append)
  next
    case 2
    then have i: "i - d < n" by linarith
    then have "dst' ! i = take n (drop s src) ! (i - d)" using n 2 by (simp add: dst' nth_append)
    then show ?thesis using 2 i len by simp
  next
    case 3
    then have "dst' ! i = drop (d + n) dst ! (i - d - n)" using n by (simp add: dst' nth_append)
    then show ?thesis using 3 len assms(2) by simp
  qed
qed

lemma length_mem_copy: "mem_copy dst d src s n = Some dst' \<Longrightarrow> length dst' = length dst"
  by (auto simp: mem_copy_def split: if_splits)

lemma cell_eqI:
  assumes "b * Suc c \<le> length m" and "b * Suc e \<le> length m'"
    and "\<And>i. i < b \<Longrightarrow> m ! (b * c + i) = m' ! (b * e + i)"
  shows "cell b m c = cell b m' e"
  by (rule nth_equalityI) (use assms in \<open>auto simp: cell_def\<close>)

text \<open>Copying whole cells.\<close>

lemma cell_mem_copy_inside:
  assumes copy: "mem_copy dst (b * c) src (b * e) (b * n) = Some dst'" and j: "j < n"
  shows "cell b dst' (c + j) = cell b src (e + j)"
proof -
  have len: "length dst' = length dst" "b * c + b * n \<le> length dst" "b * e + b * n \<le> length src"
    using length_mem_copy[OF copy] copy by (auto simp: mem_copy_def split: if_splits)
  have "b * Suc j \<le> b * n" using j by (intro mult_le_mono2) simp
  then have jn: "b * j + b \<le> b * n" by simp
  show ?thesis
  proof (rule cell_eqI)
    show "b * Suc (c + j) \<le> length dst'" "b * Suc (e + j) \<le> length src"
      using len jn by (simp_all add: distrib_left)
    fix i assume i: "i < b"
    have in_range: "b * c \<le> b * (c + j) + i" "b * (c + j) + i < b * c + b * n" "b * (c + j) + i < length dst"
      and sub: "b * e + (b * (c + j) + i - b * c) = b * (e + j) + i"
      using i jn len by (simp_all add: distrib_left)
    show "dst' ! (b * (c + j) + i) = src ! (b * (e + j) + i)"
      using nth_mem_copy[OF copy in_range(3)] in_range(1,2) sub by simp
  qed
qed

lemma cell_mem_copy_outside:
  assumes copy: "mem_copy dst (b * c) src s (b * n) = Some dst'" and k: "k < c \<or> c + n \<le> k" and kN: "b * Suc k \<le> length dst"
  shows "cell b dst' k = cell b dst k"
proof (rule cell_eqI)
  show "b * Suc k \<le> length dst'" "b * Suc k \<le> length dst" using kN length_mem_copy[OF copy] by simp_all
  fix i assume i: "i < b"
  have out: "\<not> (b * c \<le> b * k + i \<and> b * k + i < b * c + b * n)"
    using k
  proof
    assume "k < c"
    then have "b * Suc k \<le> b * c" by (intro mult_le_mono2) simp
    then show ?thesis using i by simp
  next
    assume "c + n \<le> k"
    then have "b * (c + n) \<le> b * k" by (rule mult_le_mono2)
    then show ?thesis by (simp add: distrib_left)
  qed
  have "b * k + i < length dst" using i kN by simp
  from nth_mem_copy[OF copy this] out show "dst' ! (b * k + i) = dst ! (b * k + i)" by simp
qed

lemma mem_copy_Some:
  assumes "length dst = b * N" and "length src = b * M" and "c + n \<le> N" and "e + n \<le> M"
  shows "\<exists>dst'. mem_copy dst (b * c) src (b * e) (b * n) = Some dst' \<and> length dst' = b * N"
proof -
  have "b * c + b * n \<le> b * N" "b * e + b * n \<le> b * M"
    using mult_le_mono2[OF assms(3), of b] mult_le_mono2[OF assms(4), of b] by (simp_all add: distrib_left)
  then show ?thesis using assms(1,2) by (simp add: mem_copy_def)
qed

text \<open>
  One row of \<open>w\<close> cells, written from cell \<open>d\<close> on with the cells of the source from \<open>s\<close> on, where
  \<open>keep\<close> selects the ones that are written; and a block of such rows, \<open>P\<close> cells apart in the target
  and \<open>Q\<close> cells apart in the source.
\<close>

definition row_copied :: "nat \<Rightarrow> (u8 list \<Rightarrow> bool) \<Rightarrow> u8 list \<Rightarrow> nat \<Rightarrow> nat \<Rightarrow> nat \<Rightarrow> nat \<Rightarrow> u8 list \<Rightarrow> u8 list \<Rightarrow> bool" where
  "row_copied b keep src N d s w t t' \<longleftrightarrow>
     length t' = b * N \<and>
     (\<forall>r<w. cell b t' (d + r) = (if keep (cell b src (s + r)) then cell b src (s + r) else cell b t (d + r))) \<and>
     (\<forall>k<N. k < d \<or> d + w \<le> k \<longrightarrow> cell b t' k = cell b t k)"

definition block_copied ::
    "nat \<Rightarrow> (u8 list \<Rightarrow> bool) \<Rightarrow> u8 list \<Rightarrow> nat \<Rightarrow> nat \<Rightarrow> nat \<Rightarrow> nat \<Rightarrow> nat \<Rightarrow> nat \<Rightarrow> nat \<Rightarrow> u8 list \<Rightarrow> u8 list \<Rightarrow> bool" where
  "block_copied b keep src N d P s Q w h t t' \<longleftrightarrow>
     length t' = b * N \<and>
     (\<forall>q<h. \<forall>r<w. cell b t' (d + q * P + r) =
        (if keep (cell b src (s + q * Q + r)) then cell b src (s + q * Q + r) else cell b t (d + q * P + r))) \<and>
     (\<forall>k<N. (\<forall>q<h. \<forall>r<w. k \<noteq> d + q * P + r) \<longrightarrow> cell b t' k = cell b t k)"

lemma row_of_block:
  fixes q q' r r' P w :: nat
  assumes "q * P + r = q' * P + r'" and "r < w" and "r' < w" and "w \<le> P"
  shows "q = q' \<and> r = r'"
proof -
  have "(q * P + r) div P = q" "(q' * P + r') div P = q'" using assms(2-) by simp_all
  then have "q = q'" using assms(1) by simp
  then show ?thesis using assms(1) by simp
qed

lemma block_copied_0: "length t = b * N \<Longrightarrow> block_copied b keep src N d P s Q w 0 t t"
  by (simp add: block_copied_def)

lemma block_copied_Suc:
  assumes block: "block_copied b keep src N d P s Q w y t t'"
    and row: "row_copied b keep src N (d + y * P) (s + y * Q) w t' t''"
    and w: "w \<le> P" and fits: "\<And>q r. q < y \<Longrightarrow> r < w \<Longrightarrow> d + q * P + r < N" "d + y * P + w \<le> N"
  shows "block_copied b keep src N d P s Q w (Suc y) t t''"
proof -
  have above: "q * P + r < y * P" if "q < y" "r < w" for q r
  proof -
    have "Suc q * P \<le> y * P" using that by (intro mult_le_mono1) simp
    then show ?thesis using that w by simp
  qed
  have "cell b t'' (d + q * P + r) =
      (if keep (cell b src (s + q * Q + r)) then cell b src (s + q * Q + r) else cell b t (d + q * P + r))"
    if q: "q < Suc y" and r: "r < w" for q r
  proof (cases "q = y")
    case True
    have "cell b t' (d + y * P + r) = cell b t (d + y * P + r)"
    proof -
      have "\<forall>q<y. \<forall>i<w. d + y * P + r \<noteq> d + q * P + i" using above by fastforce
      moreover have "d + y * P + r < N" using r fits(2) by simp
      ultimately show ?thesis using block unfolding block_copied_def by blast
    qed
    then show ?thesis using row r True unfolding row_copied_def by simp
  next
    case False
    then have "q < y" using q by simp
    then have "cell b t'' (d + q * P + r) = cell b t' (d + q * P + r)"
      using row above[OF \<open>q < y\<close> r] fits(1)[OF \<open>q < y\<close> r] unfolding row_copied_def by simp
    then show ?thesis using block \<open>q < y\<close> r unfolding block_copied_def by simp
  qed
  moreover have "cell b t'' k = cell b t k" if k: "k < N" and out: "\<forall>q<Suc y. \<forall>r<w. k \<noteq> d + q * P + r" for k
  proof -
    have "k < d + y * P \<or> d + y * P + w \<le> k"
    proof (rule ccontr)
      assume "\<not> ?thesis"
      then have "k = d + y * P + (k - (d + y * P))" "k - (d + y * P) < w" by linarith+
      then show False using out by blast
    qed
    then have "cell b t'' k = cell b t' k" using row k unfolding row_copied_def by blast
    also have "\<dots> = cell b t k" using block k out unfolding block_copied_def by simp
    finally show ?thesis .
  qed
  ultimately show ?thesis using row unfolding block_copied_def row_copied_def by blast
qed

text \<open>A loop whose body copies one row copies a block.\<close>

lemma for_range_rows:
  assumes body: "\<And>y t. y < h \<Longrightarrow> length t = b * N \<Longrightarrow>
      \<exists>t'. body y t = Some t' \<and> row_copied b keep src N (d + y * P) (s + y * Q) w t t'"
    and len: "length t = b * N" and w: "w \<le> P" and fits: "\<And>q. q < h \<Longrightarrow> d + q * P + w \<le> N"
  shows "\<exists>t'. for_range body 0 h t = Some t' \<and> block_copied b keep src N d P s Q w h t t'"
proof -
  have "\<exists>t'. for_range body 0 h t = Some t' \<and> block_copied b keep src N d P s Q w (0 + h) t t'"
  proof (rule for_range_rule[where P = "\<lambda>y t'. block_copied b keep src N d P s Q w y t t'"])
    show "block_copied b keep src N d P s Q w 0 t t" using len by (rule block_copied_0)
  next
    fix y u assume y: "y < 0 + h" and u: "block_copied b keep src N d P s Q w y t u"
    have fits': "d + q * P + r < N" if "q < y" "r < w" for q r using fits[of q] y that by simp
    have "length u = b * N" using u by (simp add: block_copied_def)
    with body[of y u] y obtain u' where "body y u = Some u'" "row_copied b keep src N (d + y * P) (s + y * Q) w u u'"
      by auto
    then show "\<exists>u'. body y u = Some u' \<and> block_copied b keep src N d P s Q w (Suc y) t u'"
      using block_copied_Suc[OF u _ w fits'] fits[of y] y by auto
  qed
  then show ?thesis by simp
qed

subsection \<open>The loops\<close>

text \<open>A row without transparency is one copy.\<close>

lemma row_copied_mem_copy:
  assumes "length t = b * N" and "length src = b * M" and "d + w \<le> N" and "s + w \<le> M"
  shows "\<exists>t'. mem_copy t (b * d) src (b * s) (b * w) = Some t' \<and> row_copied b (\<lambda>_. True) src N d s w t t'"
proof -
  obtain t' where t': "mem_copy t (b * d) src (b * s) (b * w) = Some t'" "length t' = b * N"
    using mem_copy_Some[OF assms] by blast
  have "cell b t' k = cell b t k" if "k < N" "k < d \<or> d + w \<le> k" for k
  proof (rule cell_mem_copy_outside[OF t'(1) that(2)])
    show "b * Suc k \<le> length t" unfolding assms(1) using that by (intro mult_le_mono2) simp
  qed
  then show ?thesis using t' cell_mem_copy_inside[OF t'(1)] by (simp add: row_copied_def)
qed

text \<open>A row with transparency, cell by cell.\<close>

lemma row_copied_transparent:
  assumes len: "length t = b * N" and src: "length src = b * M" and fits: "d + w \<le> N" "s + w \<le> M" and tc: "b \<le> length tc_buf"
  shows "\<exists>t'. for_range (\<lambda>x t.
         let d' = b * d + x * b; s' = b * s + x * b
         in if length src < s' + b \<or> length tc_buf < b then None
            else if take b (drop s' src) \<noteq> take b tc_buf then mem_copy t d' src s' b else Some t) 0 w t = Some t' \<and>
      row_copied b (\<lambda>c. c \<noteq> take b tc_buf) src N d s w t t'"
    (is "\<exists>t'. for_range ?body 0 w t = Some t' \<and> row_copied b ?keep src N d s w t t'")
proof -
  have "\<exists>t'. for_range ?body 0 w t = Some t' \<and> row_copied b ?keep src N d s (0 + w) t t'"
  proof (rule for_range_rule[where P = "\<lambda>x t'. row_copied b ?keep src N d s x t t'"])
    show "row_copied b ?keep src N d s 0 t t" using len by (simp add: row_copied_def)
  next
    fix x u assume x: "x < 0 + w" and u: "row_copied b ?keep src N d s x t u"
    have lenu: "length u = b * N" using u by (simp add: row_copied_def)
    have addr: "b * d + x * b = b * (d + x)" "b * s + x * b = b * (s + x)" by (simp_all add: distrib_left mult.commute)
    have sx: "\<not> length src < b * (s + x) + b"
    proof -
      have "b * Suc (s + x) \<le> b * M" using fits x by (intro mult_le_mono2) simp
      then show ?thesis using src by simp
    qed
    obtain u' where u': "mem_copy u (b * (d + x)) src (b * (s + x)) b = Some u'"
        "row_copied b (\<lambda>_. True) src N (d + x) (s + x) 1 u u'"
      using row_copied_mem_copy[of u b N src M "d + x" 1 "s + x"] lenu src fits x by auto
    have old: "cell b u (d + x) = cell b t (d + x)" using u x fits by (simp add: row_copied_def)
    show "\<exists>u'. ?body x u = Some u' \<and> row_copied b ?keep src N d s (Suc x) t u'"
    proof (cases "cell b src (s + x) = take b tc_buf")
      case True
      then have "?body x u = Some u" using sx tc by (simp add: addr cell_def Let_def)
      moreover have "row_copied b ?keep src N d s (Suc x) t u"
        using u old True by (auto simp: row_copied_def less_Suc_eq)
      ultimately show ?thesis by blast
    next
      case False
      then have "?body x u = Some u'" using sx tc u'(1) by (simp add: addr cell_def Let_def)
      moreover have "row_copied b ?keep src N d s (Suc x) t u'"
        using u u'(2) False fits x by (auto simp: row_copied_def less_Suc_eq)
      ultimately show ?thesis by blast
    qed
  qed
  then show ?thesis by simp
qed

lemma copy_lines_block:
  assumes len: "length t = b * N" and src: "length src = b * M" and P: "nat (vx sz) \<le> P"
    and fits: "\<And>q. q < nat (vy sz) \<Longrightarrow> d + q * P + nat (vx sz) \<le> N" "\<And>q. q < nat (vy sz) \<Longrightarrow> s + q * Q + nat (vx sz) \<le> M"
  shows "\<exists>t'. copy_lines t (b * d) src (b * s) sz b (b * P) (b * Q) = Some t' \<and>
    block_copied b (\<lambda>_. True) src N d P s Q (nat (vx sz)) (nat (vy sz)) t t'"
  unfolding copy_lines_def
proof (rule for_range_rows[OF _ len P fits(1)])
  fix y and u :: "u8 list" assume y: "y < nat (vy sz)" and u: "length u = b * N"
  have addr: "b * d + y * (b * P) = b * (d + y * P)" "b * s + y * (b * Q) = b * (s + y * Q)"
    by (simp_all add: distrib_left mult.left_commute)
  show "\<exists>t'. mem_copy u (b * d + y * (b * P)) src (b * s + y * (b * Q)) (b * nat (vx sz)) = Some t' \<and>
      row_copied b (\<lambda>_. True) src N (d + y * P) (s + y * Q) (nat (vx sz)) u t'"
    unfolding addr using u src fits y by (intro row_copied_mem_copy) auto
qed

lemma copy_transparent_block:
  assumes len: "length t = b * N" and src: "length src = b * M" and P: "nat (vx sz) \<le> P" and tc: "b \<le> length tc_buf"
    and fits: "\<And>q. q < nat (vy sz) \<Longrightarrow> d + q * P + nat (vx sz) \<le> N" "\<And>q. q < nat (vy sz) \<Longrightarrow> s + q * Q + nat (vx sz) \<le> M"
  shows "\<exists>t'. copy_transparent t (b * d) src (b * s) tc_buf sz b (b * P) (b * Q) = Some t' \<and>
    block_copied b (\<lambda>c. c \<noteq> take b tc_buf) src N d P s Q (nat (vx sz)) (nat (vy sz)) t t'"
  unfolding copy_transparent_def
proof (rule for_range_rows[OF _ len P fits(1)])
  fix y and u :: "u8 list" assume y: "y < nat (vy sz)" and u: "length u = b * N"
  have addr: "b * d + y * (b * P) = b * (d + y * P)" "b * s + y * (b * Q) = b * (s + y * Q)"
    by (simp_all add: distrib_left mult.left_commute)
  show "\<exists>t'. for_range (\<lambda>x u.
         let d' = b * d + y * (b * P) + x * b; s' = b * s + y * (b * Q) + x * b
         in if length src < s' + b \<or> length tc_buf < b then None
            else if take b (drop s' src) \<noteq> take b tc_buf then mem_copy u d' src s' b else Some u) 0 (nat (vx sz)) u = Some t' \<and>
      row_copied b (\<lambda>c. c \<noteq> take b tc_buf) src N (d + y * P) (s + y * Q) (nat (vx sz)) u t'"
    unfolding addr using u src fits y tc by (intro row_copied_transparent) auto
qed

subsection \<open>Clipping keeps exactly the common pixels\<close>

text \<open>
  One coordinate: the clipped interval is the set of target coordinates whose source lies in the
  requested interval, and both are inside their buffers.
\<close>

lemma clip_coordinate:
  fixes t s z T S :: int
  defines "t1 \<equiv> increase_d t s" and "z1 \<equiv> decrease_d z s" and "s1 \<equiv> max s 0"
  defines "z2 \<equiv> decrease_d z1 t1" and "s2 \<equiv> increase_d s1 t1" and "t2 \<equiv> max t1 0"
  defines "z3 \<equiv> min z2 (min (T - t2) (S - s2))"
  shows "(\<forall>p. t2 \<le> p \<and> p < t2 + z3 \<longleftrightarrow>
        0 \<le> p \<and> p < T \<and> 0 \<le> p - t + s \<and> p - t + s < S \<and> s \<le> p - t + s \<and> p - t + s < s + z) \<and>
      s2 - t2 = s - t \<and> 0 \<le> t2 \<and> 0 \<le> s2 \<and> t2 + z3 \<le> T \<and> s2 + z3 \<le> S"
proof (intro conjI allI)
  fix p
  show "t2 \<le> p \<and> p < t2 + z3 \<longleftrightarrow> 0 \<le> p \<and> p < T \<and> 0 \<le> p - t + s \<and> p - t + s < S \<and> s \<le> p - t + s \<and> p - t + s < s + z"
    by (cases "s < 0"; cases "t1 < 0") (auto simp: assms increase_d_def decrease_d_def)
qed (auto simp: assms increase_d_def decrease_d_def)

definition buffer_rect :: "frame_buffer \<Rightarrow> rect" where
  "buffer_rect fb = with_size (vec 0 0) (fb_size fb)"

text \<open>The pixel of the source that a copy brings to the position \<open>p\<close>.\<close>

definition source_pos :: "vec \<Rightarrow> vec \<Rightarrow> vec \<Rightarrow> vec" where
  "source_pos to_pos src_pos p = vec_add (vec_sub p to_pos) src_pos"

lemma source_pos_sel [simp]:
  "vx (source_pos t s p) = vx p - vx t + vx s" "vy (source_pos t s p) = vy p - vy t + vy s"
  by (simp_all add: source_pos_def)

lemma includes_with_size [simp]:
  "includes_point (with_size q sz) p \<longleftrightarrow> vx q \<le> vx p \<and> vy q \<le> vy p \<and> vx p < vx q + vx sz \<and> vy p < vy q + vy sz"
  by (simp add: includes_point_def with_size_def)

lemma adjust_coords_clip:
  assumes "adjust_coords (fb_size fb) (fb_size src) to_pos src_pos sz = (t, s, z)"
  shows "includes_point (with_size t z) p \<longleftrightarrow>
      includes_point (buffer_rect fb) p \<and> includes_point (buffer_rect src) (source_pos to_pos src_pos p) \<and>
      includes_point (with_size src_pos sz) (source_pos to_pos src_pos p)"
    and "source_pos to_pos src_pos p = source_pos t s p"
    and "0 \<le> vx t" "0 \<le> vy t" "0 \<le> vx s" "0 \<le> vy s"
    and "vx t + vx z \<le> int (horizontal_resolution fb)" "vy t + vy z \<le> int (vertical_resolution fb)"
    and "vx s + vx z \<le> int (horizontal_resolution src)" "vy s + vy z \<le> int (vertical_resolution src)"
proof -
  note X = clip_coordinate[where t = "vx to_pos" and s = "vx src_pos" and z = "vx sz" and T = "int (horizontal_resolution fb)"
      and S = "int (horizontal_resolution src)"]
  note Y = clip_coordinate[where t = "vy to_pos" and s = "vy src_pos" and z = "vy sz" and T = "int (vertical_resolution fb)"
      and S = "int (vertical_resolution src)"]
  have eqs: "vx t = max (increase_d (vx to_pos) (vx src_pos)) 0" "vy t = max (increase_d (vy to_pos) (vy src_pos)) 0"
    "vx s = increase_d (max (vx src_pos) 0) (increase_d (vx to_pos) (vx src_pos))"
    "vy s = increase_d (max (vy src_pos) 0) (increase_d (vy to_pos) (vy src_pos))"
    "vx z = min (decrease_d (decrease_d (vx sz) (vx src_pos)) (increase_d (vx to_pos) (vx src_pos)))
       (min (int (horizontal_resolution fb) - vx t) (int (horizontal_resolution src) - vx s))"
    "vy z = min (decrease_d (decrease_d (vy sz) (vy src_pos)) (increase_d (vy to_pos) (vy src_pos)))
       (min (int (vertical_resolution fb) - vy t) (int (vertical_resolution src) - vy s))"
    using assms by (auto simp: adjust_coords_def Let_def fb_size_def)
  note X' = X[folded eqs(1,3), folded eqs(5)] and Y' = Y[folded eqs(2,4), folded eqs(6)]
  show "0 \<le> vx t" "0 \<le> vy t" "0 \<le> vx s" "0 \<le> vy s"
    "vx t + vx z \<le> int (horizontal_resolution fb)" "vy t + vy z \<le> int (vertical_resolution fb)"
    "vx s + vx z \<le> int (horizontal_resolution src)" "vy s + vy z \<le> int (vertical_resolution src)"
    using X' Y' by auto
  show "source_pos to_pos src_pos p = source_pos t s p"
    using X' Y' by (auto simp: source_pos_def vec_def vec_add_def vec_sub_def)
  show "includes_point (with_size t z) p \<longleftrightarrow>
      includes_point (buffer_rect fb) p \<and> includes_point (buffer_rect src) (source_pos to_pos src_pos p) \<and>
      includes_point (with_size src_pos sz) (source_pos to_pos src_pos p)"
    using X'[THEN conjunct1, rule_format, of "vx p"] Y'[THEN conjunct1, rule_format, of "vy p"] by (auto simp: buffer_rect_def fb_size_def)
qed

subsection \<open>Pixels\<close>

definition wf_frame_buffer :: "frame_buffer \<Rightarrow> bool" where
  "wf_frame_buffer fb \<longleftrightarrow>
     length (memory fb) = buffer_size fb \<and> horizontal_resolution fb \<le> pixels_per_scan_line fb \<and>
     pixels_per_scan_line fb * vertical_resolution fb < 2 ^ 31"

definition pixel_index :: "frame_buffer \<Rightarrow> vec \<Rightarrow> nat" where
  "pixel_index fb p = pixels_per_scan_line fb * nat (vy p) + nat (vx p)"

definition pixel :: "frame_buffer \<Rightarrow> vec \<Rightarrow> u8 list" where
  "pixel fb p = cell (bytes_per_pixel (pixel_format fb)) (memory fb) (pixel_index fb p)"

definition shown :: "pixel_format \<Rightarrow> pixel_color option \<Rightarrow> u8 list \<Rightarrow> bool" where
  "shown fmt transparent_color c = (case transparent_color of None \<Rightarrow> True | Some col \<Rightarrow> c \<noteq> pixel_bytes fmt col)"

lemma pixel_index_bound:
  assumes "wf_frame_buffer fb" and "0 \<le> vx p" "vx p + int w \<le> int (horizontal_resolution fb)"
    and "0 \<le> vy p" "vy p < int (vertical_resolution fb)"
  shows "pixel_index fb p + w \<le> pixels_per_scan_line fb * vertical_resolution fb"
proof -
  have "horizontal_resolution fb \<le> pixels_per_scan_line fb" using assms(1) by (simp add: wf_frame_buffer_def)
  then have "nat (vx p) + w \<le> pixels_per_scan_line fb" using assms(2,3) by linarith
  moreover have "pixels_per_scan_line fb * Suc (nat (vy p)) \<le> pixels_per_scan_line fb * vertical_resolution fb"
    using assms by (intro mult_le_mono2) simp
  ultimately show ?thesis by (simp add: pixel_index_def)
qed

lemma frame_addr_at_inside:
  assumes "wf_frame_buffer fb" and "includes_point (buffer_rect fb) p"
  shows "frame_addr_at fb p = Some (bytes_per_pixel (pixel_format fb) * pixel_index fb p)"
proof -
  have p: "0 \<le> vx p" "0 \<le> vy p" "vx p < int (horizontal_resolution fb)" "vy p < int (vertical_resolution fb)"
    using assms(2) by (auto simp: buffer_rect_def fb_size_def)
  have "pixel_index fb p + 0 \<le> pixels_per_scan_line fb * vertical_resolution fb"
    using p assms(1) by (intro pixel_index_bound) auto
  then have "pixel_index fb p < 2 ^ 31" using assms(1) by (simp add: wf_frame_buffer_def)
  moreover have "int (pixels_per_scan_line fb) * vy p + vx p = int (pixel_index fb p)"
    using p by (simp add: pixel_index_def)
  ultimately show ?thesis by (simp add: frame_addr_at_def Let_def)
qed

lemma buffer_size_alt: "buffer_size fb = bytes_per_pixel (pixel_format fb) * (pixels_per_scan_line fb * vertical_resolution fb)"
  by (simp add: buffer_size_def)

text \<open>The pixels of a rectangle of the screen are a block of cells, and no other pixel is in it.\<close>

lemma pixel_index_block:
  assumes "0 \<le> vx t" "0 \<le> vy t" and "includes_point (with_size t z) p"
  shows "pixel_index fb p = pixel_index fb t + nat (vy p - vy t) * pixels_per_scan_line fb + nat (vx p - vx t)"
proof -
  have "nat (vy p) = nat (vy t) + nat (vy p - vy t)" "nat (vx p) = nat (vx t) + nat (vx p - vx t)"
    using assms by (auto simp: nat_diff_distrib)
  then show ?thesis unfolding pixel_index_def by (simp add: distrib_left mult.commute)
qed

lemma pixel_index_outside:
  assumes wf: "wf_frame_buffer fb" and p: "includes_point (buffer_rect fb) p" and t: "0 \<le> vx t" "0 \<le> vy t"
    and fits: "vx t + vx z \<le> int (horizontal_resolution fb)" and out: "\<not> includes_point (with_size t z) p"
    and q: "q < nat (vy z)" and r: "r < nat (vx z)"
  shows "pixel_index fb p \<noteq> pixel_index fb t + q * pixels_per_scan_line fb + r"
proof
  assume "pixel_index fb p = pixel_index fb t + q * pixels_per_scan_line fb + r"
  then have eq: "nat (vy p) * pixels_per_scan_line fb + nat (vx p) =
      (nat (vy t) + q) * pixels_per_scan_line fb + (nat (vx t) + r)"
    by (simp add: pixel_index_def algebra_simps)
  have hr: "horizontal_resolution fb \<le> pixels_per_scan_line fb" using wf by (simp add: wf_frame_buffer_def)
  have "nat (vx p) < pixels_per_scan_line fb" "nat (vx t) + r < pixels_per_scan_line fb"
    using p fits r t hr by (auto simp: buffer_rect_def fb_size_def)
  from row_of_block[OF eq this] have "nat (vy p) = nat (vy t) + q" "nat (vx p) = nat (vx t) + r" by simp_all
  moreover have "0 \<le> vx p" "0 \<le> vy p" using p by (auto simp: buffer_rect_def)
  ultimately have "includes_point (with_size t z) p" using t q r by auto
  with out show False by contradiction
qed

lemma pixel_memory_update: "pixel (fb\<lparr>memory := m\<rparr>) p = cell (bytes_per_pixel (pixel_format fb)) m (pixel_index fb p)"
  by (simp add: pixel_def pixel_index_def)

text \<open>What a block of rows means for the pixels.\<close>

lemma block_copied_pixels:
  assumes block: "block_copied bpp keep (memory src) N (pixel_index fb t) (pixels_per_scan_line fb)
        (pixel_index src s) (pixels_per_scan_line src) (nat (vx z)) (nat (vy z)) (memory fb) m"
    and N: "N = pixels_per_scan_line fb * vertical_resolution fb"
    and bpp: "bpp = bytes_per_pixel (pixel_format fb)" "bpp = bytes_per_pixel (pixel_format src)"
    and wf: "wf_frame_buffer fb" and p: "includes_point (buffer_rect fb) p"
    and t: "0 \<le> vx t" "0 \<le> vy t" "vx t + vx z \<le> int (horizontal_resolution fb)" and s: "0 \<le> vx s" "0 \<le> vy s"
  shows "pixel (fb\<lparr>memory := m\<rparr>) p =
    (if includes_point (with_size t z) p \<and> keep (pixel src (source_pos t s p)) then pixel src (source_pos t s p) else pixel fb p)"
proof (cases "includes_point (with_size t z) p")
  case True
  have "source_pos t s p = vec (vx s + (vx p - vx t)) (vy s + (vy p - vy t))" by (simp add: source_pos_def vec_add_def vec_sub_def)
  then have "includes_point (with_size s z) (source_pos t s p)" using True by auto
  from pixel_index_block[OF s this] have src: "pixel_index src (source_pos t s p) =
      pixel_index src s + nat (vy p - vy t) * pixels_per_scan_line src + nat (vx p - vx t)" by simp
  have "nat (vy p - vy t) < nat (vy z)" "nat (vx p - vx t) < nat (vx z)" using True by auto
  with block True show ?thesis
    unfolding block_copied_def pixel_memory_update bpp(1)[symmetric]
    by (simp add: pixel_def src pixel_index_block[OF t(1,2) True] flip: bpp)
next
  case False
  have "pixel_index fb p < N"
  proof -
    have "pixel_index fb p + 1 \<le> N" unfolding N using p wf by (intro pixel_index_bound) (auto simp: buffer_rect_def fb_size_def)
    then show ?thesis by simp
  qed
  moreover have "\<forall>q<nat (vy z). \<forall>r<nat (vx z). pixel_index fb p \<noteq> pixel_index fb t + q * pixels_per_scan_line fb + r"
    using pixel_index_outside[OF wf p t False] by blast
  ultimately have "cell bpp m (pixel_index fb p) = cell bpp (memory fb) (pixel_index fb p)"
    using block unfolding block_copied_def by blast
  then have "pixel (fb\<lparr>memory := m\<rparr>) p = pixel fb p" unfolding pixel_memory_update bpp(1)[symmetric] by (simp add: pixel_def bpp(1))
  with False show ?thesis by (simp del: includes_with_size)
qed

text \<open>The copying loop of the code, whichever it chooses, copies a block.\<close>

definition copied_memory :: "frame_buffer \<Rightarrow> frame_buffer \<Rightarrow> nat \<Rightarrow> nat \<Rightarrow> vec \<Rightarrow> pixel_color option \<Rightarrow> u8 list option" where
  "copied_memory fb src d s sz transparent_color =
     (let bpp = bytes_per_pixel (pixel_format fb); dst_bpl = bytes_per_scan_line fb; src_bpl = bytes_per_scan_line src
      in case transparent_color of
           Some c \<Rightarrow>
             let tc_buf = pixel_bytes (pixel_format fb) c
             in if bpp = 4 then copy_transparent_bpp_4 (memory fb) d (memory src) s tc_buf sz dst_bpl src_bpl
                else copy_transparent (memory fb) d (memory src) s tc_buf sz bpp dst_bpl src_bpl
         | None \<Rightarrow> copy_lines (memory fb) d (memory src) s sz bpp dst_bpl src_bpl)"

lemma copied_memory_block:
  assumes wf: "wf_frame_buffer fb" "wf_frame_buffer src" and fmt: "pixel_format src = pixel_format fb"
    and t: "0 \<le> vx t" "0 \<le> vy t" "vx t + vx z \<le> int (horizontal_resolution fb)" "vy t + vy z \<le> int (vertical_resolution fb)"
    and s: "0 \<le> vx s" "0 \<le> vy s" "vx s + vx z \<le> int (horizontal_resolution src)" "vy s + vy z \<le> int (vertical_resolution src)"
    and z: "0 < vx z" "0 < vy z"
  defines "bpp \<equiv> bytes_per_pixel (pixel_format fb)"
  shows "\<exists>m. copied_memory fb src (bpp * pixel_index fb t) (bpp * pixel_index src s) z transparent_color = Some m \<and>
    block_copied bpp (shown (pixel_format fb) transparent_color) (memory src) (pixels_per_scan_line fb * vertical_resolution fb)
      (pixel_index fb t) (pixels_per_scan_line fb) (pixel_index src s) (pixels_per_scan_line src) (nat (vx z)) (nat (vy z)) (memory fb) m"
proof -
  have len: "length (memory fb) = bpp * (pixels_per_scan_line fb * vertical_resolution fb)"
    "length (memory src) = bpp * (pixels_per_scan_line src * vertical_resolution src)"
    using wf fmt unfolding wf_frame_buffer_def buffer_size_alt bpp_def by simp_all
  have fits: "pixel_index b u + q * pixels_per_scan_line b + nat (vx z) \<le> pixels_per_scan_line b * vertical_resolution b"
    if "wf_frame_buffer b" "0 \<le> vx u" "0 \<le> vy u" "vx u + vx z \<le> int (horizontal_resolution b)"
      "vy u + vy z \<le> int (vertical_resolution b)" "q < nat (vy z)" for b u q
  proof -
    have "pixel_index b (vec (vx u) (vy u + int q)) = pixel_index b u + q * pixels_per_scan_line b"
      using that by (simp add: pixel_index_def nat_add_distrib algebra_simps)
    moreover have "pixel_index b (vec (vx u) (vy u + int q)) + nat (vx z) \<le> pixels_per_scan_line b * vertical_resolution b"
      using that z by (intro pixel_index_bound) auto
    ultimately show ?thesis by simp
  qed
  have P: "nat (vx z) \<le> pixels_per_scan_line fb" using wf(1) t unfolding wf_frame_buffer_def by linarith
  note fits' = fits[OF wf(1) t] fits[OF wf(2) s]
  have bpl: "bytes_per_scan_line fb = bpp * pixels_per_scan_line fb" "bytes_per_scan_line src = bpp * pixels_per_scan_line src"
    by (simp_all add: bytes_per_scan_line_def bpp_def fmt)
  show ?thesis
  proof (cases transparent_color)
    case None
    have "shown (pixel_format fb) transparent_color = (\<lambda>_. True)" by (simp add: None shown_def fun_eq_iff)
    then show ?thesis using copy_lines_block[OF len P fits']
      by (simp add: copied_memory_def None bpl flip: bpp_def)
  next
    case (Some c)
    have b: "bpp = 4" by (simp add: bpp_def bytes_per_pixel_def)
    have tc: "length (pixel_bytes (pixel_format fb) c) = 4" using b by (simp add: bpp_def)
    have "shown (pixel_format fb) transparent_color = (\<lambda>x. x \<noteq> take bpp (pixel_bytes (pixel_format fb) c))"
      unfolding b take_all[OF eq_imp_le[OF tc]] by (simp add: Some shown_def fun_eq_iff)
    then show ?thesis using copy_transparent_block[OF len P _ fits', of "pixel_bytes (pixel_format fb) c"] b tc
      by (simp add: copied_memory_def Some bpl copy_transparent_bpp_4_conv flip: bpp_def)
  qed
qed

text \<open>
  What a copy does, as a relation between the buffer before and after: the configuration stays,
  and every pixel is the one the copy brings to it, if there is one and it is not transparent.
\<close>

definition copied :: "frame_buffer \<Rightarrow> frame_buffer \<Rightarrow> vec \<Rightarrow> vec \<Rightarrow> vec \<Rightarrow> pixel_color option \<Rightarrow> frame_buffer \<Rightarrow> bool" where
  "copied src fb to_pos src_pos sz transparent_color fb' \<longleftrightarrow>
     wf_frame_buffer fb' \<and> fb' = fb\<lparr>memory := memory fb'\<rparr> \<and>
     (\<forall>p. includes_point (buffer_rect fb) p \<longrightarrow>
       pixel fb' p =
         (let s = source_pos to_pos src_pos p
          in if includes_point (buffer_rect src) s \<and> includes_point (with_size src_pos sz) s \<and>
                shown (pixel_format fb) transparent_color (pixel src s)
             then pixel src s else pixel fb p))"

lemma copy_from_copied:
  assumes wf: "wf_frame_buffer fb" "wf_frame_buffer src" and fmt: "pixel_format src = pixel_format fb"
  shows "\<exists>fb'. copy_from fb src to_pos src_pos sz transparent_color = Some (Success, fb') \<and>
    copied src fb to_pos src_pos sz transparent_color fb'"
proof -
  obtain t s z where adj: "adjust_coords (fb_size fb) (fb_size src) to_pos src_pos sz = (t, s, z)"
    by (cases "adjust_coords (fb_size fb) (fb_size src) to_pos src_pos sz") auto
  note clip = adjust_coords_clip[OF adj]
  show ?thesis
  proof (cases "vx z \<le> 0 \<or> vy z \<le> 0")
    case True
    then have "\<not> includes_point (with_size t z) p" for p by auto
    then have "copied src fb to_pos src_pos sz transparent_color fb"
      using wf(1) clip(1) by (auto simp: copied_def Let_def simp del: includes_with_size)
    moreover have "copy_from fb src to_pos src_pos sz transparent_color = Some (Success, fb)"
      using True by (simp add: copy_from_def fmt adj)
    ultimately show ?thesis by blast
  next
    case False
    define bpp where "bpp = bytes_per_pixel (pixel_format fb)"
    from False have z: "0 < vx z" "0 < vy z" by auto
    obtain m where m: "copied_memory fb src (bpp * pixel_index fb t) (bpp * pixel_index src s) z transparent_color = Some m"
      and block: "block_copied bpp (shown (pixel_format fb) transparent_color) (memory src) (pixels_per_scan_line fb * vertical_resolution fb)
        (pixel_index fb t) (pixels_per_scan_line fb) (pixel_index src s) (pixels_per_scan_line src) (nat (vx z)) (nat (vy z)) (memory fb) m"
      using copied_memory_block[OF wf fmt clip(3,4,7,8) clip(5,6,9,10) z, of transparent_color] unfolding bpp_def by blast
    have addr: "frame_addr_at fb t = Some (bpp * pixel_index fb t)" "frame_addr_at src s = Some (bpp * pixel_index src s)"
      using frame_addr_at_inside[OF wf(1), of t] frame_addr_at_inside[OF wf(2), of s] clip(3-) z
      by (auto simp: bpp_def fmt buffer_rect_def fb_size_def)
    have "copy_from fb src to_pos src_pos sz transparent_color = Some (Success, fb\<lparr>memory := m\<rparr>)"
      using False m addr by (simp add: copy_from_def fmt adj copied_memory_def Let_def split: option.splits)
    moreover have "wf_frame_buffer (fb\<lparr>memory := m\<rparr>)"
      using wf(1) block by (simp add: wf_frame_buffer_def block_copied_def buffer_size_def bpp_def)
    moreover have "pixel (fb\<lparr>memory := m\<rparr>) p = (if includes_point (with_size t z) p \<and>
        shown (pixel_format fb) transparent_color (pixel src (source_pos t s p)) then pixel src (source_pos t s p) else pixel fb p)"
      if "includes_point (buffer_rect fb) p" for p
      using block_copied_pixels[OF block refl _ _ wf(1) that clip(3,4,7,5,6)] by (simp add: bpp_def fmt)
    ultimately show ?thesis using clip(1,2) by (auto simp: copied_def Let_def simp del: includes_with_size)
  qed
qed



end
