(* ===== verification/Compositor.thy ===== *)
theory Compositor
  imports Geometry
begin

text \<open>
  The contract between the layer manager and its layers, as a locale, and what the manager's
  drawing strategy achieves with it. A layer draws the part of itself that lies in a damaged
  rectangle; a pixel it does not draw keeps what was there. The picture of a stack of layers at a
  point is the colour of the topmost layer that draws there, and what was there before if none
  does.
\<close>

locale compositor =
  fixes draw :: "'l \<Rightarrow> 'fb \<Rightarrow> rect \<Rightarrow> 'fb option"
    and col :: "'l \<Rightarrow> vec \<Rightarrow> 'c option"
    and pix :: "'fb \<Rightarrow> vec \<Rightarrow> 'c"
    and inv :: "'fb \<Rightarrow> bool"
    and ok :: "'l \<Rightarrow> bool"
    and opaque :: "'l \<Rightarrow> bool"
    and area :: "'l \<Rightarrow> rect"
    and screen :: "vec set"
  assumes draw: "ok l \<Longrightarrow> inv fb \<Longrightarrow> \<exists>fb'. draw l fb r = Some fb' \<and> inv fb' \<and>
      (\<forall>p\<in>screen. pix fb' p = (if p \<in> points r then case_option (pix fb p) id (col l p) else pix fb p))"
    and opaque: "ok l \<Longrightarrow> opaque l \<Longrightarrow> p \<in> points (area l) \<Longrightarrow> col l p \<noteq> None"
    and outside: "ok l \<Longrightarrow> p \<notin> points (area l) \<Longrightarrow> col l p = None"
begin

text \<open>The picture of a stack, bottom layer first, over a ground colour.\<close>

definition picture :: "'l list \<Rightarrow> 'c \<Rightarrow> vec \<Rightarrow> 'c" where
  "picture ls c p = fold (\<lambda>l c. case_option c id (col l p)) ls c"

lemma picture_Nil [simp]: "picture [] c p = c"
  by (simp add: picture_def)

lemma picture_Cons [simp]: "picture (l # ls) c p = picture ls (case_option c id (col l p)) p"
  by (simp add: picture_def)

lemma picture_append: "picture (ls @ ms) c p = picture ms (picture ls c p) p"
  by (simp add: picture_def)

text \<open>Nothing below a layer that covers the point is seen.\<close>

lemma picture_covered:
  assumes "ok l" and "opaque l" and "p \<in> points (area l)"
  shows "picture (ls @ l # ms) c p = picture (l # ms) d p"
  using opaque[OF assms] by (auto simp: picture_append)

lemma picture_cong: "(\<And>l. l \<in> set ls \<Longrightarrow> col (f l) p = col l p) \<Longrightarrow> picture (map f ls) c p = picture ls c p"
  by (induction ls arbitrary: c) auto

text \<open>Drawing a list of layers, and the part of the stack that is drawn for a damaged rectangle.\<close>

primrec draw_list :: "'l list \<Rightarrow> 'fb \<Rightarrow> rect \<Rightarrow> 'fb option" where
  "draw_list [] fb r = Some fb"
| "draw_list (l # ls) fb r = (case draw l fb r of None \<Rightarrow> None | Some fb' \<Rightarrow> draw_list ls fb' r)"

lemma draw_list:
  assumes "\<forall>l\<in>set ls. ok l" and "inv fb"
  shows "\<exists>fb'. draw_list ls fb r = Some fb' \<and> inv fb' \<and>
    (\<forall>p\<in>screen. pix fb' p = (if p \<in> points r then picture ls (pix fb p) p else pix fb p))"
  using assms
proof (induction ls arbitrary: fb)
  case (Cons l ls)
  from Cons.prems draw[of l fb r] obtain fb1 where fb1: "draw l fb r = Some fb1" "inv fb1"
      "\<forall>p\<in>screen. pix fb1 p = (if p \<in> points r then case_option (pix fb p) id (col l p) else pix fb p)"
    by auto
  with Cons.prems Cons.IH[of fb1] obtain fb2 where "draw_list ls fb1 r = Some fb2" "inv fb2"
      "\<forall>p\<in>screen. pix fb2 p = (if p \<in> points r then picture ls (pix fb1 p) p else pix fb1 p)"
    by auto
  with fb1 show ?case by auto
qed simp

fun visible_suffix :: "rect \<Rightarrow> 'l list \<Rightarrow> 'l list \<Rightarrow> 'l list" where
  "visible_suffix r [] acc = acc"
| "visible_suffix r (l # below) acc =
     (if opaque l \<and> includes_rect (area l) r then l # acc else visible_suffix r below (l # acc))"

lemma visible_suffix_split:
  obtains "visible_suffix r (rev ls) acc = ls @ acc"
  | below l ms where "ls = below @ l # ms" "visible_suffix r (rev ls) acc = l # ms @ acc" "opaque l" "includes_rect (area l) r"
proof -
  have "visible_suffix r (rev ls) acc = ls @ acc \<or>
      (\<exists>below l ms. ls = below @ l # ms \<and> visible_suffix r (rev ls) acc = l # ms @ acc \<and> opaque l \<and> includes_rect (area l) r)"
  proof (induction ls arbitrary: acc rule: rev_induct)
    case (snoc l ls)
    show ?case
    proof (cases "opaque l \<and> includes_rect (area l) r")
      case True then show ?thesis by auto
    next
      case False
      then have eq: "visible_suffix r (rev (ls @ [l])) acc = visible_suffix r (rev ls) (l # acc)" by auto
      from snoc[of "l # acc"] show ?thesis
      proof
        assume "visible_suffix r (rev ls) (l # acc) = ls @ l # acc"
        then show ?thesis using eq by simp
      next
        assume "\<exists>below k ms. ls = below @ k # ms \<and> visible_suffix r (rev ls) (l # acc) = k # ms @ l # acc \<and> opaque k \<and> includes_rect (area k) r"
        then obtain below k ms where k: "ls = below @ k # ms" "visible_suffix r (rev ls) (l # acc) = k # ms @ l # acc"
            "opaque k" "includes_rect (area k) r" by blast
        have "ls @ [l] = below @ k # (ms @ [l])" using k(1) by simp
        moreover have "visible_suffix r (rev (ls @ [l])) acc = k # (ms @ [l]) @ acc" unfolding eq k(2) by simp
        ultimately show ?thesis using k(3,4) by blast
      qed
    qed
  qed simp
  with that show thesis by blast
qed

text \<open>Inside the damaged rectangle the part of the stack that is drawn has the picture of the whole stack.\<close>

lemma picture_visible_suffix:
  assumes "\<forall>l\<in>set ls. ok l" and "p \<in> points r"
  shows "picture (visible_suffix r (rev ls) []) c p = picture ls c p"
proof (cases rule: visible_suffix_split[of r ls "[]"])
  case 1 then show ?thesis by simp
next
  case (2 below l ms)
  have "p \<in> points (area l)" using points_includes[OF 2(4)] assms(2) by blast
  then have "picture ls c p = picture (l # ms) c p" using 2 assms(1) by (simp add: picture_covered[of l p below ms c c] del: picture_Cons)
  with 2(2) show ?thesis by simp
qed

text \<open>
  Redrawing for a damaged rectangle: draw the visible part of the stack, unless the damaged layer,
  told by \<open>hit\<close>, is not in it.
\<close>

definition redraw :: "('l \<Rightarrow> bool) \<Rightarrow> 'l list \<Rightarrow> 'fb \<Rightarrow> rect \<Rightarrow> 'fb option" where
  "redraw hit ls fb r =
     (let vis = visible_suffix r (rev ls) []
      in if \<not> list_ex hit vis then Some fb else draw_list vis fb r)"

lemma redraw:
  assumes ok: "\<forall>l\<in>set ls. ok l" and inv: "inv fb"
  shows "\<exists>fb'. redraw hit ls fb r = Some fb' \<and> inv fb' \<and>
    (\<forall>p\<in>screen. pix fb' p =
      (if p \<in> points r \<and> list_ex hit (visible_suffix r (rev ls) []) then picture ls (pix fb p) p else pix fb p))"
proof (cases "list_ex hit (visible_suffix r (rev ls) [])")
  case True
  have "set (visible_suffix r (rev ls) []) \<subseteq> set ls"
    by (rule visible_suffix_split[of r ls "[]"]) auto
  with ok draw_list[of "visible_suffix r (rev ls) []" fb r] inv obtain fb' where
      "draw_list (visible_suffix r (rev ls) []) fb r = Some fb'" "inv fb'"
      "\<forall>p\<in>screen. pix fb' p = (if p \<in> points r then picture (visible_suffix r (rev ls) []) (pix fb p) p else pix fb p)"
    by blast
  then show ?thesis using True picture_visible_suffix[OF ok] by (auto simp: redraw_def Let_def)
next
  case False
  then show ?thesis using inv by (auto simp: redraw_def Let_def)
qed

text \<open>
  The buffer shows the stack: every pixel of the screen is covered, and has the colour of the
  picture.
\<close>

definition shows_stack :: "'l list \<Rightarrow> 'fb \<Rightarrow> bool" where
  "shows_stack ls fb \<longleftrightarrow> inv fb \<and> (\<forall>p\<in>screen. \<forall>c. pix fb p = picture ls c p)"

text \<open>
  The main argument: when the buffer shows the stack, the layers that changed are told by \<open>hit\<close>,
  and the picture of the new stack differs from the old one inside the rectangle only, then
  redrawing makes the buffer show the new stack, provided that the layers above the topmost
  opaque one that covers the rectangle are the same ones when none of them has changed.
\<close>

lemma redraw_shows:
  assumes old: "shows_stack ls fb" and ok: "\<forall>l\<in>set ls'. ok l"
    and covered: "\<And>p c d. p \<in> screen \<Longrightarrow> picture ls' c p = picture ls' d p"
    and out: "\<And>p c. p \<in> screen \<Longrightarrow> p \<notin> points r \<Longrightarrow> picture ls' c p = picture ls c p"
    and skip: "\<And>p c. p \<in> screen \<Longrightarrow> p \<in> points r \<Longrightarrow> \<not> list_ex hit (visible_suffix r (rev ls') []) \<Longrightarrow>
      picture ls' c p = picture ls c p"
  shows "\<exists>fb'. redraw hit ls' fb r = Some fb' \<and> shows_stack ls' fb'"
proof -
  from old have "inv fb" by (simp add: shows_stack_def)
  from redraw[OF ok this, of hit r] obtain fb' where fb': "redraw hit ls' fb r = Some fb'" "inv fb'"
      "\<forall>p\<in>screen. pix fb' p =
        (if p \<in> points r \<and> list_ex hit (visible_suffix r (rev ls') []) then picture ls' (pix fb p) p else pix fb p)"
    by blast
  have "pix fb' p = picture ls' c p" if p: "p \<in> screen" for p c
  proof (cases "p \<in> points r \<and> list_ex hit (visible_suffix r (rev ls') [])")
    case True
    then show ?thesis using fb'(3) p covered[OF p] by simp
  next
    case False
    then have "pix fb' p = picture ls c p" using fb'(3) p old by (auto simp: shows_stack_def)
    also have "\<dots> = picture ls' c p" using False out[OF p] skip[OF p] by metis
    finally show ?thesis .
  qed
  with fb' show ?thesis by (auto simp: shows_stack_def)
qed

text \<open>
  First use: layers change in place, as when one is moved or painted on. \<open>f\<close> gives the new
  layers, only the ones told by \<open>hit\<close> change, and their colours change inside the rectangle only.
\<close>

lemma redraw_changed:
  assumes old: "shows_stack ls fb" and ok: "\<forall>l\<in>set ls. ok l" "\<forall>l\<in>set (map f ls). ok l"
    and same: "\<And>l. l \<in> set ls \<Longrightarrow> \<not> hit (f l) \<Longrightarrow> f l = l"
    and colours: "\<And>l p. l \<in> set ls \<Longrightarrow> hit (f l) \<Longrightarrow> p \<in> screen \<Longrightarrow> p \<notin> points r \<Longrightarrow> col (f l) p = col l p"
    and covered: "\<And>p c d. p \<in> screen \<Longrightarrow> picture (map f ls) c p = picture (map f ls) d p"
  shows "\<exists>fb'. redraw hit (map f ls) fb r = Some fb' \<and> shows_stack (map f ls) fb'"
proof (rule redraw_shows[OF old ok(2) covered])
  fix p c assume p: "p \<in> screen" "p \<notin> points r"
  then show "picture (map f ls) c p = picture ls c p" using same colours by (intro picture_cong) metis
next
  fix p c assume p: "p \<in> screen" "p \<in> points r" and no: "\<not> list_ex hit (visible_suffix r (rev (map f ls)) [])"
  show "picture (map f ls) c p = picture ls c p"
  proof (cases rule: visible_suffix_split[of r "map f ls" "[]"])
    case 1
    then have "\<forall>l\<in>set ls. \<not> hit (f l)" using no by (simp add: list_ex_iff)
    then have "map f ls = ls" using same by (simp add: map_idI)
    then show ?thesis by simp
  next
    case (2 below l ms)
    then obtain below0 l0 ms0 where ls: "ls = below0 @ l0 # ms0" and l: "l = f l0" and ms: "ms = map f ms0"
      by (auto simp: map_eq_append_conv map_eq_Cons_conv)
    have "\<not> hit (f l0)" "\<forall>k\<in>set ms0. \<not> hit (f k)" using no 2(2) l ms by (auto simp: list_ex_iff)
    then have id: "f l0 = l0" "map f ms0 = ms0" using same ls by (auto intro: map_idI)
    have "p \<in> points (area l0)" using points_includes[OF 2(4)] p l id by auto
    then have "picture (below @ l # ms) c p = picture (l # ms) c p" "picture ls c p = picture (l0 # ms0) c p"
      using 2 ok p ls l id by (auto simp: picture_covered simp del: picture_Cons)
    then show ?thesis using 2(1) l ms id by simp
  qed
qed

text \<open>
  Second use: one layer \<open>x\<close> is inserted, or raised above the layers \<open>between\<close>.
\<close>

lemma redraw_raised:
  assumes old: "shows_stack (low @ xs @ between @ high) fb" and xs: "xs = [] \<or> xs = [x]"
    and ok: "ok x" "\<forall>l\<in>set (low @ between @ high). ok l"
    and hit: "hit x"
    and r: "points (area x) \<subseteq> points r"
    and covered: "\<And>p c d. p \<in> screen \<Longrightarrow>
      picture (low @ between @ x # high) c p = picture (low @ between @ x # high) d p"
  shows "\<exists>fb'. redraw hit (low @ between @ x # high) fb r = Some fb' \<and> shows_stack (low @ between @ x # high) fb'"
proof (rule redraw_shows[OF old _ covered])
  show "\<forall>l\<in>set (low @ between @ x # high). ok l" using ok by auto
next
  fix p c assume p: "p \<in> screen" "p \<notin> points r"
  then have "col x p = None" using outside[OF ok(1)] r by blast
  then show "picture (low @ between @ x # high) c p = picture (low @ xs @ between @ high) c p"
    using xs by (auto simp: picture_append)
next
  fix p c assume p: "p \<in> screen" "p \<in> points r"
    and no: "\<not> list_ex hit (visible_suffix r (rev (low @ between @ x # high)) [])"
  show "picture (low @ between @ x # high) c p = picture (low @ xs @ between @ high) c p"
  proof (cases rule: visible_suffix_split[of r "low @ between @ x # high" "[]"])
    case 1 then show ?thesis using no hit by simp
  next
    case (2 below l ms)
    have "x \<notin> set (l # ms)" using no hit 2(2) by (auto simp: list_ex_iff)
    moreover have "(low @ between) @ x # high = below @ l # ms" using 2(1) by simp
    ultimately obtain us where us: "high = us @ l # ms"
      by (auto simp: append_eq_append_conv2 append_eq_Cons_conv Cons_eq_append_conv)
    have "p \<in> points (area l)" using points_includes[OF 2(4)] p by blast
    then have cov: "picture (zs @ l # ms) c p = picture (l # ms) c p" for zs
      using 2 ok us by (intro picture_covered) auto
    show ?thesis using cov[of "low @ between @ x # us"] cov[of "low @ xs @ between @ us"] us by simp
  qed
qed

text \<open>An opaque bottom layer that covers the screen makes every picture independent of the ground.\<close>

lemma covered_by_bottom:
  assumes "ok b" and "opaque b" and "screen \<subseteq> points (area b)" and "p \<in> screen"
  shows "picture (b # ls) c p = picture (b # ls) d p"
  using picture_covered[OF assms(1,2), of p "[]" ls c d] assms(3,4) by auto

end

end
