(* ===== verification/Layers.thy ===== *)
theory Layers
  imports Frame_Copy Compositor
begin

text \<open>
  Layers and layer managers: \<open>layer.cpp\<close>, \<open>buffer_layer.cpp\<close>, \<open>group_layer.cpp\<close> and
  \<open>layer_manager.cpp\<close> of \<open>src/kernel/graphics\<close>.

  A buffer layer and a group layer draw their buffer in the same way; a group layer also owns a
  manager, whose buffer is the layer's. A manager owns its layers, which are never removed, so the
  pointers of its stack are the ids of its layers. \<open>None\<close> is an access through a null pointer or
  outside a frame buffer.
\<close>

type_synonym layer_id = u32

record layer =
  l_id :: layer_id
  l_pos :: vec
  l_transparent_color :: "pixel_color option"
  l_draggable :: bool
  l_buffer :: frame_buffer

definition make_layer :: "layer_id \<Rightarrow> pixel_format \<Rightarrow> vec \<Rightarrow> layer" where
  "make_layer lid fmt sz =
     \<lparr>l_id = lid, l_pos = vec 0 0, l_transparent_color = None, l_draggable = False,
      l_buffer = new_frame_buffer None (nat (vx sz)) (nat (vx sz)) (nat (vy sz)) fmt\<rparr>"

definition layer_size :: "layer \<Rightarrow> vec" where
  "layer_size l = fb_size (l_buffer l)"

definition set_transparent_color :: "pixel_color option \<Rightarrow> layer \<Rightarrow> layer" where
  "set_transparent_color c l = l\<lparr>l_transparent_color := c\<rparr>"

definition has_transparency :: "layer \<Rightarrow> bool" where
  "has_transparency l \<longleftrightarrow> l_transparent_color l \<noteq> None"

definition set_draggable :: "bool \<Rightarrow> layer \<Rightarrow> layer" where
  "set_draggable d l = l\<lparr>l_draggable := d\<rparr>"

definition manager_area :: "layer \<Rightarrow> rect" where
  "manager_area l = rect_of (l_pos l) (vec_add (l_pos l) (layer_size l))"

definition layer_draw_to :: "layer \<Rightarrow> frame_buffer \<Rightarrow> frame_buffer option" where
  "layer_draw_to l dst = map_option snd (copy_all_from dst (l_buffer l) (l_pos l) (l_transparent_color l))"

definition layer_draw_damage_to :: "layer \<Rightarrow> frame_buffer \<Rightarrow> rect \<Rightarrow> frame_buffer option" where
  "layer_draw_damage_to l dst damage =
     (let layer_rect = manager_area l
      in if \<not> is_crossing damage layer_rect then Some dst
         else
           let cr = rect_cross damage layer_rect
           in map_option snd (copy_from dst (l_buffer l) (top_left cr) (vec_sub (top_left cr) (l_pos l)) (rect_size cr)
                (l_transparent_color l)))"

subsection \<open>The manager\<close>

text \<open>
  \<open>lm_double\<close> tells a \<open>DoubleBufferedLayerManager\<close>, the only class that overrides \<open>set_buffer\<close>,
  \<open>draw\<close> and \<open>damage\<close>; its back buffer is \<open>lm_back\<close>.
\<close>

record layer_manager =
  lm_format :: pixel_format
  lm_layers :: "layer list"
  lm_latest_id :: layer_id
  lm_stack :: "layer_id list"
  lm_buffer :: "frame_buffer option"
  lm_double :: bool
  lm_back :: "frame_buffer option"

definition new_layer_manager :: "bool \<Rightarrow> pixel_format \<Rightarrow> layer_manager" where
  "new_layer_manager double fmt =
     \<lparr>lm_format = fmt, lm_layers = [], lm_latest_id = 0, lm_stack = [], lm_buffer = None, lm_double = double, lm_back = None\<rparr>"

definition base_set_buffer :: "layer_manager \<Rightarrow> frame_buffer option \<Rightarrow> layer_manager" where
  "base_set_buffer mgr buffer = mgr\<lparr>lm_buffer := buffer\<rparr>"

definition double_set_buffer :: "layer_manager \<Rightarrow> frame_buffer option \<Rightarrow> layer_manager" where
  "double_set_buffer mgr buffer = base_set_buffer (mgr\<lparr>lm_back := map_option clone buffer\<rparr>) buffer"

definition set_buffer :: "layer_manager \<Rightarrow> frame_buffer option \<Rightarrow> layer_manager" where
  "set_buffer mgr buffer = (if lm_double mgr then double_set_buffer mgr buffer else base_set_buffer mgr buffer)"

lemmas set_buffer_defs = set_buffer_def double_set_buffer_def base_set_buffer_def

text \<open>A group layer and the manager it owns, which draws into the layer's buffer.\<close>

definition make_group_layer :: "layer_id \<Rightarrow> pixel_format \<Rightarrow> vec \<Rightarrow> layer \<times> layer_manager" where
  "make_group_layer lid fmt sz =
     (let l = make_layer lid fmt sz in (l, set_buffer (new_layer_manager False fmt) (Some (l_buffer l))))"

definition new_layer :: "layer_manager \<Rightarrow> vec \<Rightarrow> layer_id \<times> layer_manager" where
  "new_layer mgr sz =
     (let lid = lm_latest_id mgr + 1
      in (lid, mgr\<lparr>lm_latest_id := lid, lm_layers := lm_layers mgr @ [make_layer lid (lm_format mgr) sz]\<rparr>))"

definition find_layer :: "layer_manager \<Rightarrow> layer_id \<Rightarrow> layer option" where
  "find_layer mgr lid = find (\<lambda>l. l_id l = lid) (lm_layers mgr)"

definition stack_layers :: "layer_manager \<Rightarrow> layer list" where
  "stack_layers mgr = List.map_filter (find_layer mgr) (lm_stack mgr)"

definition find_layer_by_position :: "layer_manager \<Rightarrow> vec \<Rightarrow> layer_id \<Rightarrow> layer option" where
  "find_layer_by_position mgr pos exclude_id =
     find (\<lambda>l. if l_id l = exclude_id then False else includes_point (manager_area l) pos) (rev (stack_layers mgr))"

text \<open>A change of one layer through its pointer.\<close>

definition update_layer :: "layer_manager \<Rightarrow> layer_id \<Rightarrow> (layer \<Rightarrow> layer) \<Rightarrow> layer_manager" where
  "update_layer mgr lid f = mgr\<lparr>lm_layers := map (\<lambda>l. if l_id l = lid then f l else l) (lm_layers mgr)\<rparr>"

fun draw_layers :: "layer list \<Rightarrow> frame_buffer \<Rightarrow> frame_buffer option" where
  "draw_layers [] fb = Some fb"
| "draw_layers (l # ls) fb = do { fb' \<leftarrow> layer_draw_to l fb; draw_layers ls fb' }"

definition base_draw :: "layer_manager \<Rightarrow> layer_manager option" where
  "base_draw mgr =
     (case lm_buffer mgr of
        None \<Rightarrow> Some mgr
      | Some buffer \<Rightarrow> do {
          buffer' \<leftarrow> draw_layers (stack_layers mgr) buffer;
          Some (mgr\<lparr>lm_buffer := Some buffer'\<rparr>) })"

definition double_draw :: "layer_manager \<Rightarrow> layer_manager option" where
  "double_draw mgr =
     (case lm_buffer mgr of
        None \<Rightarrow> Some mgr
      | Some buffer \<Rightarrow> do {
          bk \<leftarrow> lm_back mgr;
          bk' \<leftarrow> draw_layers (stack_layers mgr) bk;
          buffer' \<leftarrow> forward buffer bk';
          Some (mgr\<lparr>lm_back := Some bk', lm_buffer := Some buffer'\<rparr>) })"

definition manager_draw :: "layer_manager \<Rightarrow> layer_manager option" where
  "manager_draw mgr = (if lm_double mgr then double_draw mgr else base_draw mgr)"

lemmas manager_draw_defs = manager_draw_def double_draw_def base_draw_def

fun merge_from :: "rect \<Rightarrow> rect list \<Rightarrow> rect" where
  "merge_from merged [] = merged"
| "merge_from merged (r # rs) = merge_from (rect_merge merged r) rs"

definition merge_rects :: "rect list \<Rightarrow> rect option" where
  "merge_rects rects = (case rects of [] \<Rightarrow> None | r # rs \<Rightarrow> Some (merge_from r rs))"

text \<open>
  The iterator of \<open>draw_damage_to\<close> walks down from the top of the stack; \<open>passed\<close> are the layers it
  has passed. The result is the part of the stack from the iterator's final position on.
\<close>

fun damage_suffix :: "rect \<Rightarrow> layer list \<Rightarrow> layer list \<Rightarrow> layer list" where
  "damage_suffix area [] passed = passed"
| "damage_suffix area (l # below) passed =
     (if has_transparency l then damage_suffix area below (l # passed)
      else if includes_rect (manager_area l) area then l # passed
      else damage_suffix area below (l # passed))"

fun draw_damage_layers :: "layer list \<Rightarrow> frame_buffer \<Rightarrow> rect \<Rightarrow> frame_buffer option" where
  "draw_damage_layers [] fb area = Some fb"
| "draw_damage_layers (l # ls) fb area = do { fb' \<leftarrow> layer_draw_damage_to l fb area; draw_damage_layers ls fb' area }"

definition draw_damage_to :: "layer list \<Rightarrow> frame_buffer \<Rightarrow> layer_id \<Rightarrow> rect \<Rightarrow> frame_buffer option" where
  "draw_damage_to stack buffer lid area =
     (let i = damage_suffix area (rev stack) []
      in if \<not> list_ex (\<lambda>l. l_id l = lid) i then Some buffer else draw_damage_layers i buffer area)"

definition base_damage :: "layer_manager \<Rightarrow> layer_id \<Rightarrow> rect list \<Rightarrow> layer_manager option" where
  "base_damage mgr lid rects =
     (case lm_buffer mgr of
        None \<Rightarrow> Some mgr
      | Some buffer \<Rightarrow>
          (case merge_rects rects of
             None \<Rightarrow> Some mgr
           | Some merged_rect \<Rightarrow> do {
               buffer' \<leftarrow> draw_damage_to (stack_layers mgr) buffer lid merged_rect;
               Some (mgr\<lparr>lm_buffer := Some buffer'\<rparr>) }))"

definition double_damage :: "layer_manager \<Rightarrow> layer_id \<Rightarrow> rect list \<Rightarrow> layer_manager option" where
  "double_damage mgr lid rects =
     (case lm_buffer mgr of
        None \<Rightarrow> Some mgr
      | Some buffer \<Rightarrow>
          (case merge_rects rects of
             None \<Rightarrow> Some mgr
           | Some merged_rect \<Rightarrow> do {
               bk \<leftarrow> lm_back mgr;
               bk' \<leftarrow> draw_damage_to (stack_layers mgr) bk lid merged_rect;
               (err, buffer') \<leftarrow> copy_from buffer bk' (top_left merged_rect) (top_left merged_rect) (rect_size merged_rect) None;
               Some (mgr\<lparr>lm_back := Some bk', lm_buffer := Some buffer'\<rparr>) }))"

definition damage :: "layer_manager \<Rightarrow> layer_id \<Rightarrow> rect list \<Rightarrow> layer_manager option" where
  "damage mgr lid rects = (if lm_double mgr then double_damage mgr lid rects else base_damage mgr lid rects)"

lemmas damage_defs = damage_def double_damage_def base_damage_def

subsection \<open>Moving, stacking, hiding\<close>

definition layer_move :: "layer_manager \<Rightarrow> layer_id \<Rightarrow> vec \<Rightarrow> layer_manager option" where
  "layer_move mgr lid pos = do {
     l \<leftarrow> find_layer mgr lid;
     let before = manager_area l; l' = l\<lparr>l_pos := pos\<rparr>; after = manager_area l'
     in damage (update_layer mgr lid (\<lambda>_. l')) lid [before, after] }"

definition layer_move_relative :: "layer_manager \<Rightarrow> layer_id \<Rightarrow> vec \<Rightarrow> layer_manager option" where
  "layer_move_relative mgr lid pos_diff = do { l \<leftarrow> find_layer mgr lid; layer_move mgr lid (vec_add (l_pos l) pos_diff) }"

text \<open>\<open>Layer::damage\<close>: the rectangles are in the coordinates of the layer.\<close>

definition layer_damage :: "layer_manager \<Rightarrow> layer_id \<Rightarrow> rect list \<Rightarrow> layer_manager option" where
  "layer_damage mgr lid rects = do {
     l \<leftarrow> find_layer mgr lid;
     damage mgr lid (map (\<lambda>r. rect_offset r (l_pos l)) rects) }"

definition hide :: "layer_manager \<Rightarrow> layer_id \<Rightarrow> layer_manager" where
  "hide mgr lid = mgr\<lparr>lm_stack := remove1 lid (lm_stack mgr)\<rparr>"

definition insert_at :: "nat \<Rightarrow> 'a \<Rightarrow> 'a list \<Rightarrow> 'a list" where
  "insert_at pos x xs = take pos xs @ x # drop pos xs"

text \<open>
  The position of the insertion is an iterator made before the old entry is erased: it keeps its
  index.
\<close>

definition up_down :: "layer_manager \<Rightarrow> layer_id \<Rightarrow> int \<Rightarrow> layer_manager option" where
  "up_down mgr lid new_height =
     (if new_height < 0 then Some (hide mgr lid)
      else
        let stack = lm_stack mgr;
            new_pos = if int (length stack) < new_height then length stack else nat new_height
        in do {
          layer \<leftarrow> find_layer mgr lid;
          if lid \<notin> set stack
          then damage (mgr\<lparr>lm_stack := insert_at new_pos lid stack\<rparr>) lid [manager_area layer]
          else
            let new_pos = if new_pos = length stack then new_pos - 1 else new_pos
            in damage (mgr\<lparr>lm_stack := insert_at new_pos lid (remove1 lid stack)\<rparr>) lid [manager_area layer] })"

text \<open>
  The end of \<open>damage\<close> of a group layer's manager: its buffer is the buffer of the group layer, and the group layer
  reports the same rectangles to the manager it belongs to.
\<close>

definition parent_damage :: "layer_manager \<Rightarrow> layer_id \<Rightarrow> layer_manager \<Rightarrow> rect list \<Rightarrow> layer_manager option" where
  "parent_damage mgr group_id child rects =
     (case lm_buffer child of
        None \<Rightarrow> Some mgr
      | Some buffer \<Rightarrow>
          if rects = [] then Some mgr
          else layer_damage (update_layer mgr group_id (\<lambda>l. l\<lparr>l_buffer := buffer\<rparr>)) group_id rects)"

end
