(* ===== verification/Layer_Screen.thy ===== *)
theory Layer_Screen
  imports Layers
begin

text \<open>
  What the layer manager puts on the screen. The buffer layers satisfy the contract of
  \<open>compositor\<close>; the manager's \<open>draw_damage_to\<close> is the redrawing of that theory; and so moving,
  painting, adding and raising a layer leave on the screen exactly the picture of the stack.
\<close>

subsection \<open>Layers meet the compositor's contract\<close>

definition layer_col :: "layer \<Rightarrow> vec \<Rightarrow> u8 list option" where
  "layer_col l p =
     (let s = vec_sub p (l_pos l)
      in if includes_point (buffer_rect (l_buffer l)) s \<and> shown (pixel_format (l_buffer l)) (l_transparent_color l) (pixel (l_buffer l) s)
         then Some (pixel (l_buffer l) s) else None)"

definition layer_ok :: "pixel_format \<Rightarrow> layer \<Rightarrow> bool" where
  "layer_ok fmt l \<longleftrightarrow> wf_frame_buffer (l_buffer l) \<and> pixel_format (l_buffer l) = fmt"

definition canvas_ok :: "rect \<Rightarrow> pixel_format \<Rightarrow> frame_buffer \<Rightarrow> bool" where
  "canvas_ok R fmt fb \<longleftrightarrow> wf_frame_buffer fb \<and> buffer_rect fb = R \<and> pixel_format fb = fmt"

lemma points_manager_area: "p \<in> points (manager_area l) \<longleftrightarrow> includes_point (buffer_rect (l_buffer l)) (vec_sub p (l_pos l))"
  by (auto simp: points_def manager_area_def layer_size_def includes_point_def buffer_rect_def with_size_def fb_size_def)

lemma buffer_rect_memory [simp]: "buffer_rect (fb\<lparr>memory := m\<rparr>) = buffer_rect fb"
  by (simp add: buffer_rect_def fb_size_def)

lemma vec_eqI: "vx a = vx b \<Longrightarrow> vy a = vy b \<Longrightarrow> a = b" for a b :: vec
  by simp

lemma copied_canvas:
  assumes "copied src fb t s z c fb'" and "canvas_ok R fmt fb"
  shows "canvas_ok R fmt fb'"
proof -
  obtain m where "fb' = fb\<lparr>memory := m\<rparr>" and "wf_frame_buffer fb'" using assms(1) unfolding copied_def by blast
  with assms(2) show ?thesis by (simp add: canvas_ok_def)
qed

lemma layer_draw_damage_law:
  assumes l: "layer_ok fmt l" and fb: "canvas_ok R fmt fb"
  shows "\<exists>fb'. layer_draw_damage_to l fb r = Some fb' \<and> canvas_ok R fmt fb' \<and>
    (\<forall>p\<in>points R. pixel fb' p = (if p \<in> points r then case_option (pixel fb p) id (layer_col l p) else pixel fb p))"
proof (cases "is_crossing r (manager_area l)")
  case False
  then have "layer_col l p = None" if "p \<in> points r" for p
    using points_not_crossing[OF False] that points_manager_area[of p l] by (auto simp: layer_col_def Let_def)
  then show ?thesis using False fb by (auto simp: layer_draw_damage_to_def Let_def)
next
  case True
  define cr where "cr = rect_cross r (manager_area l)"
  define t where "t = top_left cr"
  define s where "s = vec_sub t (l_pos l)"
  have wf: "wf_frame_buffer fb" "wf_frame_buffer (l_buffer l)" and fmt: "pixel_format (l_buffer l) = pixel_format fb"
    using l fb by (auto simp: layer_ok_def canvas_ok_def)
  obtain fb' where fb': "copy_from fb (l_buffer l) t s (rect_size cr) (l_transparent_color l) = Some (Success, fb')"
      and cp: "copied (l_buffer l) fb t s (rect_size cr) (l_transparent_color l) fb'"
    using copy_from_copied[OF wf fmt] by blast
  have src: "source_pos t s p = vec_sub p (l_pos l)" for p
    by (rule vec_eqI) (simp_all add: s_def)
  have win: "includes_point (with_size s (rect_size cr)) (vec_sub p (l_pos l)) \<longleftrightarrow> p \<in> points cr" for p
    by (auto simp: points_def includes_point_def with_size_def s_def t_def)
  have "pixel fb' p = (if p \<in> points r then case_option (pixel fb p) id (layer_col l p) else pixel fb p)" if "p \<in> points R" for p
  proof -
    have "pixel fb' p = (if includes_point (buffer_rect (l_buffer l)) (vec_sub p (l_pos l)) \<and> p \<in> points cr \<and>
        shown (pixel_format fb) (l_transparent_color l) (pixel (l_buffer l) (vec_sub p (l_pos l)))
        then pixel (l_buffer l) (vec_sub p (l_pos l)) else pixel fb p)"
      using cp that fb unfolding copied_def canvas_ok_def points_def[of R] by (simp add: src win Let_def conj_ac del: includes_with_size)
    then show ?thesis
      unfolding cr_def points_cross by (auto simp: layer_col_def Let_def points_manager_area fmt)
  qed
  moreover have "layer_draw_damage_to l fb r = Some fb'"
    using True fb' by (simp add: layer_draw_damage_to_def Let_def cr_def t_def s_def)
  ultimately show ?thesis using copied_canvas[OF cp fb] by blast
qed

interpretation canvas: compositor layer_draw_damage_to layer_col pixel "canvas_ok R fmt" "layer_ok fmt"
    "\<lambda>l. \<not> has_transparency l" manager_area "points R" for R fmt
proof unfold_locales
  fix l fb r assume "layer_ok fmt l" "canvas_ok R fmt fb"
  then show "\<exists>fb'. layer_draw_damage_to l fb r = Some fb' \<and> canvas_ok R fmt fb' \<and>
    (\<forall>p\<in>points R. pixel fb' p = (if p \<in> points r then case_option (pixel fb p) id (layer_col l p) else pixel fb p))"
    by (rule layer_draw_damage_law)
next
  fix l p assume "layer_ok fmt l" "\<not> has_transparency l" "p \<in> points (manager_area l)"
  then show "layer_col l p \<noteq> None" by (auto simp: layer_col_def Let_def points_manager_area has_transparency_def shown_def)
next
  fix l p assume "p \<notin> points (manager_area l)"
  then show "layer_col l p = None" by (auto simp: layer_col_def Let_def points_manager_area)
qed

text \<open>The manager's drawing is that of the contract.\<close>

lemma damage_suffix_canvas: "damage_suffix r ls acc = canvas.visible_suffix r ls acc"
  by (induction r ls acc rule: damage_suffix.induct) auto

lemma draw_damage_layers_canvas: "draw_damage_layers ls fb r = canvas.draw_list ls fb r"
  by (induction ls arbitrary: fb) (auto split: option.split)

lemma draw_damage_to_canvas: "draw_damage_to ls fb lid r = canvas.redraw (\<lambda>l. l_id l = lid) ls fb r"
  by (simp add: draw_damage_to_def canvas.redraw_def damage_suffix_canvas draw_damage_layers_canvas Let_def)

subsection \<open>What the buffers of a manager show\<close>

text \<open>
  The colour a stack of layers, bottom first, has at a point over a ground \<open>c\<close>, and that a buffer
  shows it: at every pixel, whatever the ground, so every pixel is covered by a layer.
\<close>

definition stack_picture :: "layer list \<Rightarrow> u8 list \<Rightarrow> vec \<Rightarrow> u8 list" where
  "stack_picture ls c p = fold (\<lambda>l c. case layer_col l p of None \<Rightarrow> c | Some d \<Rightarrow> d) ls c"

definition shows_on :: "rect \<Rightarrow> pixel_format \<Rightarrow> layer list \<Rightarrow> frame_buffer \<Rightarrow> bool" where
  "shows_on R fmt ls fb \<longleftrightarrow> canvas_ok R fmt fb \<and> (\<forall>p\<in>points R. \<forall>c. pixel fb p = stack_picture ls c p)"

definition buffers_show :: "layer_manager \<Rightarrow> layer list \<Rightarrow> bool" where
  "buffers_show mgr ls \<longleftrightarrow>
     (case lm_buffer mgr of
        None \<Rightarrow> True
      | Some fb \<Rightarrow> shows_on (buffer_rect fb) (lm_format mgr) ls fb \<and>
          (lm_double mgr \<longrightarrow> (\<exists>bk. lm_back mgr = Some bk \<and> shows_on (buffer_rect fb) (lm_format mgr) ls bk)))"

lemma stack_picture_canvas: "stack_picture = canvas.picture"
  by (auto simp: fun_eq_iff stack_picture_def canvas.picture_def intro!: fold_cong split: option.split)

lemma shows_on_canvas: "shows_on R fmt = canvas.shows_stack R fmt"
  by (auto simp: fun_eq_iff shows_on_def canvas.shows_stack_def stack_picture_canvas)

lemma shows_on_rect: "shows_on R fmt ls fb \<Longrightarrow> buffer_rect fb = R"
  by (simp add: shows_on_def canvas_ok_def)

text \<open>
  \<open>damage\<close> on a manager whose stack has changed from \<open>ls\<close> to the present one: when redrawing is
  right for a single buffer, it is right for the manager, double buffered or not.
\<close>

lemma damage_shows:
  assumes old: "buffers_show mgr ls" and rects: "merge_rects rects = Some r"
    and redraw: "\<And>R fb. lm_buffer mgr \<noteq> None \<Longrightarrow> R = buffer_rect (the (lm_buffer mgr)) \<Longrightarrow> shows_on R (lm_format mgr) ls fb \<Longrightarrow>
      \<exists>fb'. draw_damage_to (stack_layers mgr) fb lid r = Some fb' \<and> shows_on R (lm_format mgr) (stack_layers mgr) fb'"
    and out: "\<And>fb p c. lm_buffer mgr = Some fb \<Longrightarrow> p \<in> points (buffer_rect fb) \<Longrightarrow> p \<notin> points r \<Longrightarrow>
      stack_picture (stack_layers mgr) c p = stack_picture ls c p"
  shows "\<exists>fb bk. damage mgr lid rects = Some (mgr\<lparr>lm_buffer := fb, lm_back := bk\<rparr>) \<and>
    map_option buffer_rect fb = map_option buffer_rect (lm_buffer mgr) \<and>
    buffers_show (mgr\<lparr>lm_buffer := fb, lm_back := bk\<rparr>) (stack_layers mgr)"
proof (cases "lm_buffer mgr")
  case None
  have "mgr\<lparr>lm_buffer := None, lm_back := lm_back mgr\<rparr> = mgr" using None by simp
  then show ?thesis using None by (intro exI[of _ None] exI[of _ "lm_back mgr"]) (simp add: damage_defs buffers_show_def)
next
  case (Some fb)
  define R where "R = buffer_rect fb"
  have fb: "shows_on R (lm_format mgr) ls fb" using old Some by (simp add: buffers_show_def R_def)
  have redraw': "\<exists>fb'. draw_damage_to (stack_layers mgr) b lid r = Some fb' \<and> shows_on R (lm_format mgr) (stack_layers mgr) fb'"
    if "shows_on R (lm_format mgr) ls b" for b
    using redraw[of R b] Some that by (simp add: R_def)
  show ?thesis
  proof (cases "lm_double mgr")
    case False
    from redraw'[OF fb] obtain fb' where fb': "draw_damage_to (stack_layers mgr) fb lid r = Some fb'"
        "shows_on R (lm_format mgr) (stack_layers mgr) fb'" by blast
    show ?thesis
    proof (intro exI conjI)
      show "damage mgr lid rects = Some (mgr\<lparr>lm_buffer := Some fb', lm_back := lm_back mgr\<rparr>)"
        using False Some rects fb' by (simp add: damage_defs)
      show "map_option buffer_rect (Some fb') = map_option buffer_rect (lm_buffer mgr)"
        using Some shows_on_rect[OF fb'(2)] by (simp add: R_def)
      show "buffers_show (mgr\<lparr>lm_buffer := Some fb', lm_back := lm_back mgr\<rparr>) (stack_layers mgr)"
        using False fb' shows_on_rect[OF fb'(2)] by (simp add: buffers_show_def)
    qed
  next
    case True
    with old Some obtain bk where bk: "lm_back mgr = Some bk" "shows_on R (lm_format mgr) ls bk"
      by (auto simp: buffers_show_def R_def)
    from redraw'[OF bk(2)] obtain bk' where bk': "draw_damage_to (stack_layers mgr) bk lid r = Some bk'"
        "shows_on R (lm_format mgr) (stack_layers mgr) bk'" by blast
    have wf: "wf_frame_buffer fb" "wf_frame_buffer bk'" and fmt: "pixel_format bk' = pixel_format fb"
      and rect: "buffer_rect bk' = R" "buffer_rect fb = R"
      using fb bk'(2) by (auto simp: shows_on_def canvas_ok_def)
    from copy_from_copied[OF wf fmt] obtain fb' where
        cp: "copy_from fb bk' (top_left r) (top_left r) (rect_size r) None = Some (Success, fb')"
            "copied bk' fb (top_left r) (top_left r) (rect_size r) None fb'" by blast
    have win: "includes_point (with_size (top_left r) (rect_size r)) p \<longleftrightarrow> p \<in> points r" for p
      by (auto simp: points_def includes_point_def with_size_def)
    have src: "source_pos t t p = p" for t p :: vec by (rule vec_eqI) simp_all
    have "pixel fb' p = stack_picture (stack_layers mgr) c p" if p: "p \<in> points R" for p c
    proof (cases "p \<in> points r")
      case True
      then have "pixel fb' p = pixel bk' p"
        using cp(2) p rect unfolding copied_def by (simp add: src win shown_def points_def del: includes_with_size)
      then show ?thesis using bk'(2) p by (simp add: shows_on_def)
    next
      case False
      then have "pixel fb' p = pixel fb p"
        using cp(2) p rect unfolding copied_def by (simp add: src win Let_def points_def del: includes_with_size)
      then show ?thesis using fb p out[OF Some _ False, of c] by (simp add: shows_on_def R_def)
    qed
    moreover have "canvas_ok R (lm_format mgr) fb'" using copied_canvas[OF cp(2)] fb by (simp add: shows_on_def)
    ultimately have fb': "shows_on R (lm_format mgr) (stack_layers mgr) fb'" by (simp add: shows_on_def)
    show ?thesis
    proof (intro exI conjI)
      show "damage mgr lid rects = Some (mgr\<lparr>lm_buffer := Some fb', lm_back := Some bk'\<rparr>)"
        using True Some rects bk bk' cp by (simp add: damage_defs)
      show "map_option buffer_rect (Some fb') = map_option buffer_rect (lm_buffer mgr)"
        using Some shows_on_rect[OF fb'] by (simp add: R_def)
      show "buffers_show (mgr\<lparr>lm_buffer := Some fb', lm_back := Some bk'\<rparr>) (stack_layers mgr)"
        using fb' bk'(2) shows_on_rect[OF fb'] by (simp add: buffers_show_def)
    qed
  qed
qed

end
