(* ===== verification/Layer_Invariant.thy ===== *)
theory Layer_Invariant
  imports Layer_Screen
begin

text \<open>
  The invariant of a layer manager with a background, and that its operations keep it: the
  screen always shows the picture of the stack.
\<close>

subsection \<open>Well-formed managers\<close>

definition wf_manager :: "layer_manager \<Rightarrow> bool" where
  "wf_manager mgr \<longleftrightarrow>
     distinct (map l_id (lm_layers mgr)) \<and> distinct (lm_stack mgr) \<and> set (lm_stack mgr) \<subseteq> l_id ` set (lm_layers mgr) \<and>
     (\<forall>l\<in>set (lm_layers mgr). layer_ok (lm_format mgr) l \<and> l_id l \<le> lm_latest_id mgr)"

lemma find_layer_iff:
  assumes "wf_manager mgr"
  shows "find_layer mgr lid = Some l \<longleftrightarrow> l \<in> set (lm_layers mgr) \<and> l_id l = lid"
proof -
  have dist: "distinct (map l_id (lm_layers mgr))" using assms by (simp add: wf_manager_def)
  have "find (\<lambda>l. l_id l = lid) ls = Some l \<longleftrightarrow> l \<in> set ls \<and> l_id l = lid" if "distinct (map l_id ls)" for ls
    using that by (induction ls) (auto simp: image_iff)
  with dist show ?thesis by (simp add: find_layer_def)
qed

lemma find_layer_stack:
  assumes "wf_manager mgr" and "lid \<in> set (lm_stack mgr)"
  obtains l where "find_layer mgr lid = Some l"
proof -
  from assms obtain l where "l \<in> set (lm_layers mgr)" "l_id l = lid" by (auto simp: wf_manager_def)
  then show thesis using that find_layer_iff[OF assms(1)] by blast
qed

lemma stack_layers_ids: "wf_manager mgr \<Longrightarrow> map l_id (stack_layers mgr) = lm_stack mgr"
proof -
  assume wf: "wf_manager mgr"
  have "map l_id (List.map_filter (find_layer mgr) ids) = ids" if "set ids \<subseteq> set (lm_stack mgr)" for ids
    using that
  proof (induction ids)
    case (Cons i ids)
    then obtain l where l: "find_layer mgr i = Some l" using find_layer_stack[OF wf, of i] by auto
    then have "l_id l = i" using find_layer_iff[OF wf] by blast
    with l Cons show ?case by (simp add: List.map_filter_simps)
  qed (simp add: List.map_filter_simps)
  then show ?thesis by (simp add: stack_layers_def)
qed

lemma stack_layers_subset: "wf_manager mgr \<Longrightarrow> set (stack_layers mgr) \<subseteq> set (lm_layers mgr)"
  by (auto simp: stack_layers_def List.map_filter_def dest: find_layer_iff[THEN iffD1])

lemma stack_layers_ok: "wf_manager mgr \<Longrightarrow> \<forall>l\<in>set (stack_layers mgr). layer_ok (lm_format mgr) l"
  using stack_layers_subset[of mgr] by (auto simp: wf_manager_def)

lemma find_layer_update:
  assumes "\<And>l. l_id l = lid \<Longrightarrow> l_id (f l) = lid"
  shows "find_layer (update_layer mgr lid f) i = map_option (\<lambda>l. if l_id l = lid then f l else l) (find_layer mgr i)"
proof -
  have "find (\<lambda>l. l_id l = i) (map (\<lambda>l. if l_id l = lid then f l else l) ls) =
      map_option (\<lambda>l. if l_id l = lid then f l else l) (find (\<lambda>l. l_id l = i) ls)" for ls
    using assms by (induction ls) auto
  then show ?thesis by (simp add: find_layer_def update_layer_def)
qed

lemma stack_layers_update:
  assumes "\<And>l. l_id l = lid \<Longrightarrow> l_id (f l) = lid"
  shows "stack_layers (update_layer mgr lid f) = map (\<lambda>l. if l_id l = lid then f l else l) (stack_layers mgr)"
proof -
  have "List.map_filter (find_layer (update_layer mgr lid f)) ids =
      map (\<lambda>l. if l_id l = lid then f l else l) (List.map_filter (find_layer mgr) ids)" for ids
    by (induction ids) (auto simp: List.map_filter_simps find_layer_update[OF assms] split: option.split)
  then show ?thesis by (simp add: stack_layers_def update_layer_def)
qed

lemma wf_manager_update:
  assumes "wf_manager mgr" and "\<And>l. l_id l = lid \<Longrightarrow> l_id (f l) = lid"
    and "\<And>l. l \<in> set (lm_layers mgr) \<Longrightarrow> l_id l = lid \<Longrightarrow> layer_ok (lm_format mgr) (f l)"
  shows "wf_manager (update_layer mgr lid f)"
proof -
  define g where "g = (\<lambda>l. if l_id l = lid then f l else l)"
  have g: "l_id (g l) = l_id l" for l using assms(2) by (simp add: g_def)
  then have ids: "map l_id (map g (lm_layers mgr)) = map l_id (lm_layers mgr)" by simp
  moreover have "l_id ` set (map g (lm_layers mgr)) = l_id ` set (lm_layers mgr)" using g by (auto simp: image_image)
  moreover have "layer_ok (lm_format mgr) (g l)" if "l \<in> set (lm_layers mgr)" for l
    using that assms(1,3) by (simp add: g_def wf_manager_def)
  moreover have "update_layer mgr lid f = mgr\<lparr>lm_layers := map g (lm_layers mgr)\<rparr>" by (simp add: update_layer_def g_def)
  ultimately show ?thesis using assms(1) g unfolding wf_manager_def by (simp add: comp_def)
qed

subsection \<open>The invariant\<close>

definition has_background :: "layer_manager \<Rightarrow> bool" where
  "has_background mgr \<longleftrightarrow>
     (\<exists>b ls. stack_layers mgr = b # ls \<and> \<not> has_transparency b \<and>
        (\<forall>fb. lm_buffer mgr = Some fb \<longrightarrow> points (buffer_rect fb) \<subseteq> points (manager_area b)))"

definition screen_current :: "layer_manager \<Rightarrow> bool" where
  "screen_current mgr \<longleftrightarrow> wf_manager mgr \<and> has_background mgr \<and> buffers_show mgr (stack_layers mgr)"

lemma background_covered:
  assumes "wf_manager mgr" and "has_background mgr" and "lm_buffer mgr = Some fb" and "p \<in> points (buffer_rect fb)"
  shows "stack_picture (stack_layers mgr) c p = stack_picture (stack_layers mgr) d p"
proof -
  from assms(2) obtain b ls where b: "stack_layers mgr = b # ls" "\<not> has_transparency b"
      "points (buffer_rect fb) \<subseteq> points (manager_area b)" using assms(3) by (auto simp: has_background_def)
  have "layer_ok (lm_format mgr) b" using stack_layers_ok[OF assms(1)] b(1) by simp
  from canvas.covered_by_bottom[OF this b(2,3) assms(4)] show ?thesis unfolding b(1) stack_picture_canvas .
qed

text \<open>The manager after \<open>damage\<close> has the same layers and stack.\<close>

lemma screen_current_buffers:
  assumes "wf_manager mgr" and "has_background mgr" and "map_option buffer_rect fb = map_option buffer_rect (lm_buffer mgr)"
    and "buffers_show (mgr\<lparr>lm_buffer := fb, lm_back := b\<rparr>) (stack_layers mgr)"
  shows "screen_current (mgr\<lparr>lm_buffer := fb, lm_back := b\<rparr>)"
proof -
  have eq: "stack_layers (mgr\<lparr>lm_buffer := fb, lm_back := b\<rparr>) = stack_layers mgr"
    by (simp add: stack_layers_def find_layer_def[abs_def])
  have "has_background (mgr\<lparr>lm_buffer := fb, lm_back := b\<rparr>)"
    using assms(2,3) unfolding has_background_def eq by (cases fb; cases "lm_buffer mgr") auto
  then show ?thesis using assms(1,4) unfolding screen_current_def eq by (simp add: wf_manager_def)
qed

text \<open>One layer is changed and the damage reported.\<close>

lemma damage_changed_layer:
  assumes cur: "screen_current mgr" and l: "find_layer mgr lid = Some l" and l': "l_id l' = lid" "layer_ok (lm_format mgr) l'"
    and bg: "lid = hd (lm_stack mgr) \<Longrightarrow> has_transparency l' = has_transparency l \<and> manager_area l' = manager_area l"
    and r: "merge_rects rects = Some r" and out: "\<And>p. p \<notin> points r \<Longrightarrow> layer_col l' p = layer_col l p"
  shows "\<exists>fb bk. damage (update_layer mgr lid (\<lambda>_. l')) lid rects = Some ((update_layer mgr lid (\<lambda>_. l'))\<lparr>lm_buffer := fb, lm_back := bk\<rparr>) \<and>
    screen_current ((update_layer mgr lid (\<lambda>_. l'))\<lparr>lm_buffer := fb, lm_back := bk\<rparr>) \<and>
    map_option buffer_rect fb = map_option buffer_rect (lm_buffer mgr)"
proof -
  define f where "f = (\<lambda>k. if l_id k = lid then l' else k)"
  define mgr1 where "mgr1 = update_layer mgr lid (\<lambda>_. l')"
  have wf: "wf_manager mgr" and hb: "has_background mgr" and shows_old: "buffers_show mgr (stack_layers mgr)"
    using cur by (auto simp: screen_current_def)
  have st: "stack_layers mgr1 = map f (stack_layers mgr)" unfolding mgr1_def f_def using l'(1) by (intro stack_layers_update)
  have wf1: "wf_manager mgr1" unfolding mgr1_def using wf l' by (intro wf_manager_update) auto
  have same: "lm_buffer mgr1 = lm_buffer mgr" "lm_back mgr1 = lm_back mgr" "lm_double mgr1 = lm_double mgr" "lm_format mgr1 = lm_format mgr"
    by (simp_all add: mgr1_def update_layer_def)
  have only: "k = l" if "k \<in> set (stack_layers mgr)" "l_id k = lid" for k
    using that l find_layer_iff[OF wf] stack_layers_subset[OF wf] by (metis subsetD option.inject)
  have hb1: "has_background mgr1"
  proof -
    from hb obtain b ls where b: "stack_layers mgr = b # ls" "\<not> has_transparency b"
        "\<forall>fb. lm_buffer mgr = Some fb \<longrightarrow> points (buffer_rect fb) \<subseteq> points (manager_area b)" by (auto simp: has_background_def)
    have "hd (lm_stack mgr) = l_id b" using stack_layers_ids[OF wf] b(1) by (metis list.sel(1) list.simps(9))
    then have "has_transparency (f b) = has_transparency b \<and> manager_area (f b) = manager_area b"
      using bg only[of b] b(1) by (auto simp: f_def)
    then show ?thesis using b st same by (auto simp: has_background_def)
  qed
  have eqf: "(l_id (f k) = lid) = (l_id k = lid)" for k using l'(1) by (simp add: f_def)
  have out': "stack_picture (stack_layers mgr1) c p = stack_picture (stack_layers mgr) c p" if "p \<notin> points r" for c p
    unfolding st stack_picture_canvas using only out[OF that] by (intro canvas.picture_cong) (auto simp: f_def)
  have "buffers_show mgr1 (stack_layers mgr)" using shows_old unfolding buffers_show_def same .
  then have "\<exists>fb bk. damage mgr1 lid rects = Some (mgr1\<lparr>lm_buffer := fb, lm_back := bk\<rparr>) \<and>
      map_option buffer_rect fb = map_option buffer_rect (lm_buffer mgr1) \<and>
      buffers_show (mgr1\<lparr>lm_buffer := fb, lm_back := bk\<rparr>) (stack_layers mgr1)"
  proof (rule damage_shows[OF _ r])
    fix R fb assume R: "lm_buffer mgr1 \<noteq> None" "R = buffer_rect (the (lm_buffer mgr1))"
      and old: "shows_on R (lm_format mgr1) (stack_layers mgr) fb"
    obtain fb0 where fb0: "lm_buffer mgr1 = Some fb0" using R(1) by blast
    show "\<exists>fb'. draw_damage_to (stack_layers mgr1) fb lid r = Some fb' \<and> shows_on R (lm_format mgr1) (stack_layers mgr1) fb'"
      unfolding draw_damage_to_canvas shows_on_canvas st
    proof (rule canvas.redraw_changed)
      show "canvas.shows_stack R (lm_format mgr1) (stack_layers mgr) fb" using old unfolding shows_on_canvas .
      show "\<forall>l\<in>set (stack_layers mgr). layer_ok (lm_format mgr1) l" using stack_layers_ok[OF wf] same by simp
      show "\<forall>l\<in>set (map f (stack_layers mgr)). layer_ok (lm_format mgr1) l" using stack_layers_ok[OF wf1] st by simp
      show "f k = k" if "l_id (f k) \<noteq> lid" for k using that eqf by (simp add: f_def)
      show "layer_col (f k) p = layer_col k p" if "k \<in> set (stack_layers mgr)" "l_id (f k) = lid" "p \<notin> points r" for k p
        using that only eqf out by (simp add: f_def)
      show "canvas.picture (map f (stack_layers mgr)) c p = canvas.picture (map f (stack_layers mgr)) d p" if "p \<in> points R" for p c d
        using background_covered[OF wf1 hb1 fb0, of p c d] that R fb0 unfolding stack_picture_canvas st by simp
    qed
  next
    fix fb p c assume "p \<notin> points r"
    then show "stack_picture (stack_layers mgr1) c p = stack_picture (stack_layers mgr) c p" by (rule out')
  qed
  then show ?thesis using screen_current_buffers[OF wf1 hb1] unfolding mgr1_def[symmetric] same by blast
qed

subsection \<open>The operations keep the invariant\<close>

lemma merge_from_points: "points m \<union> (\<Union>r\<in>set rs. points r) \<subseteq> points (merge_from m rs)"
proof (induction rs arbitrary: m)
  case (Cons r rs)
  from Cons[of "rect_merge m r"] points_merge[of m r] show ?case by auto
qed simp

lemma merge_rects_points:
  assumes "merge_rects rects = Some m" and "r \<in> set rects"
  shows "points r \<subseteq> points m"
proof -
  from assms(1) obtain a rs where "rects = a # rs" "m = merge_from a rs" by (cases rects) (auto simp: merge_rects_def)
  with assms(2) merge_from_points[of a rs] show ?thesis by auto
qed

lemma layer_move_current:
  assumes cur: "screen_current mgr" and l: "find_layer mgr lid = Some l" and bg: "lid \<noteq> hd (lm_stack mgr)"
  shows "\<exists>mgr'. layer_move mgr lid pos = Some mgr' \<and> screen_current mgr' \<and> lm_stack mgr' = lm_stack mgr \<and>
    map_option buffer_rect (lm_buffer mgr') = map_option buffer_rect (lm_buffer mgr) \<and>
    (\<forall>i. find_layer mgr' i = map_option (\<lambda>k. if l_id k = lid then k\<lparr>l_pos := pos\<rparr> else k) (find_layer mgr i))"
proof -
  define l' where "l' = l\<lparr>l_pos := pos\<rparr>"
  define r where "r = rect_merge (manager_area l) (manager_area l')"
  have wf: "wf_manager mgr" using cur by (simp add: screen_current_def)
  have lid: "l_id l = lid" and ok: "layer_ok (lm_format mgr) l" using l find_layer_iff[OF wf] wf by (auto simp: wf_manager_def)
  have "layer_col l' p = None \<and> layer_col l p = None" if "p \<notin> points r" for p
    using that points_merge[of "manager_area l" "manager_area l'"] points_manager_area[of p l] points_manager_area[of p l']
    by (auto simp: r_def layer_col_def Let_def)
  then obtain fb bk where dmg: "damage (update_layer mgr lid (\<lambda>_. l')) lid [manager_area l, manager_area l'] =
        Some ((update_layer mgr lid (\<lambda>_. l'))\<lparr>lm_buffer := fb, lm_back := bk\<rparr>)"
      and cur': "screen_current ((update_layer mgr lid (\<lambda>_. l'))\<lparr>lm_buffer := fb, lm_back := bk\<rparr>)"
        "map_option buffer_rect fb = map_option buffer_rect (lm_buffer mgr)"
    using damage_changed_layer[OF cur l, of l' "[manager_area l, manager_area l']" r] lid ok bg
    by (auto simp: l'_def layer_ok_def merge_rects_def r_def)
  have "find_layer ((update_layer mgr lid (\<lambda>_. l'))\<lparr>lm_buffer := fb, lm_back := bk\<rparr>) i =
      map_option (\<lambda>k. if l_id k = lid then k\<lparr>l_pos := pos\<rparr> else k) (find_layer mgr i)" for i
  proof -
    have "find_layer ((update_layer mgr lid (\<lambda>_. l'))\<lparr>lm_buffer := fb, lm_back := bk\<rparr>) i = find_layer (update_layer mgr lid (\<lambda>_. l')) i"
      by (simp add: find_layer_def)
    also have "\<dots> = map_option (\<lambda>k. if l_id k = lid then l' else k) (find_layer mgr i)"
      using lid by (intro find_layer_update) (simp add: l'_def)
    also have "\<dots> = map_option (\<lambda>k. if l_id k = lid then k\<lparr>l_pos := pos\<rparr> else k) (find_layer mgr i)"
    proof (cases "find_layer mgr i")
      case (Some a)
      then have "a \<in> set (lm_layers mgr)" using find_layer_iff[OF wf] by blast
      then have "a = l" if "l_id a = lid" using that l find_layer_iff[OF wf, of lid a] by simp
      then show ?thesis using Some by (simp add: l'_def)
    qed simp
    finally show ?thesis .
  qed
  moreover have "layer_move mgr lid pos = Some ((update_layer mgr lid (\<lambda>_. l'))\<lparr>lm_buffer := fb, lm_back := bk\<rparr>)"
    using l dmg by (simp add: layer_move_def l'_def Let_def)
  ultimately show ?thesis using cur' by (auto simp: update_layer_def)
qed

text \<open>A layer comes into the stack, or goes up in it.\<close>

lemma map_filter_append: "List.map_filter f (xs @ ys) = List.map_filter f xs @ List.map_filter f ys"
  by (simp add: List.map_filter_def)

lemma damage_raised_layer:
  assumes cur: "screen_current mgr" and l: "find_layer mgr lid = Some l"
    and stack: "lm_stack mgr = lo @ xs @ mid @ hi" and xs: "xs = [] \<or> xs = [lid]" and new: "lid \<notin> set (lo @ mid @ hi)" and lo: "lo \<noteq> []"
  shows "\<exists>fb bk. damage (mgr\<lparr>lm_stack := lo @ mid @ lid # hi\<rparr>) lid [manager_area l] =
      Some (mgr\<lparr>lm_stack := lo @ mid @ lid # hi, lm_buffer := fb, lm_back := bk\<rparr>) \<and>
    screen_current (mgr\<lparr>lm_stack := lo @ mid @ lid # hi, lm_buffer := fb, lm_back := bk\<rparr>) \<and>
    map_option buffer_rect fb = map_option buffer_rect (lm_buffer mgr)"
proof -
  define F where "F = List.map_filter (find_layer mgr)"
  define mgr1 where "mgr1 = mgr\<lparr>lm_stack := lo @ mid @ lid # hi\<rparr>"
  have wf: "wf_manager mgr" and hb: "has_background mgr" and shows_old: "buffers_show mgr (stack_layers mgr)"
    using cur by (auto simp: screen_current_def)
  have lid: "l_id l = lid" and l_in: "l \<in> set (lm_layers mgr)" using l find_layer_iff[OF wf] by auto
  then have ok: "layer_ok (lm_format mgr) l" using wf by (simp add: wf_manager_def)
  have fl: "find_layer mgr1 = find_layer mgr" by (simp add: fun_eq_iff find_layer_def mgr1_def)
  have Fl: "F [lid] = [l]" by (simp add: F_def List.map_filter_simps l)
  have st: "stack_layers mgr = F lo @ F xs @ F mid @ F hi" by (simp add: stack_layers_def stack F_def map_filter_append)
  have st1: "stack_layers mgr1 = F lo @ F mid @ l # F hi"
    unfolding stack_layers_def fl by (simp add: mgr1_def F_def map_filter_append List.map_filter_simps l)
  have Fxs: "F xs = [] \<or> F xs = [l]" using xs Fl by (auto simp: F_def List.map_filter_simps)
  have wf1: "wf_manager mgr1"
    using wf new l_in lid xs by (auto simp: wf_manager_def mgr1_def stack)
  have hb1: "has_background mgr1"
  proof -
    from hb obtain b ls where b: "stack_layers mgr = b # ls" "\<not> has_transparency b"
        "\<forall>fb. lm_buffer mgr = Some fb \<longrightarrow> points (buffer_rect fb) \<subseteq> points (manager_area b)" by (auto simp: has_background_def)
    obtain i lo' where "lo = i # lo'" using lo by (cases lo) auto
    moreover obtain k where "find_layer mgr i = Some k" using find_layer_stack[OF wf, of i] calculation stack by auto
    ultimately have "F lo = b # tl (F lo)" using b(1) st by (simp add: F_def List.map_filter_simps)
    then have "stack_layers mgr1 = b # (tl (F lo) @ F mid @ l # F hi)" using st1 by (metis append_Cons)
    then show ?thesis using b by (auto simp: has_background_def mgr1_def)
  qed
  have same: "lm_buffer mgr1 = lm_buffer mgr" "lm_back mgr1 = lm_back mgr" "lm_double mgr1 = lm_double mgr" "lm_format mgr1 = lm_format mgr"
    by (simp_all add: mgr1_def)
  have "buffers_show mgr1 (stack_layers mgr)" using shows_old unfolding buffers_show_def same .
  then have "\<exists>fb bk. damage mgr1 lid [manager_area l] = Some (mgr1\<lparr>lm_buffer := fb, lm_back := bk\<rparr>) \<and>
      map_option buffer_rect fb = map_option buffer_rect (lm_buffer mgr1) \<and>
      buffers_show (mgr1\<lparr>lm_buffer := fb, lm_back := bk\<rparr>) (stack_layers mgr1)"
  proof (rule damage_shows)
    show "merge_rects [manager_area l] = Some (manager_area l)" by (simp add: merge_rects_def)
  next
    fix R fb assume R: "lm_buffer mgr1 \<noteq> None" "R = buffer_rect (the (lm_buffer mgr1))"
      and old: "shows_on R (lm_format mgr1) (stack_layers mgr) fb"
    obtain fb0 where fb0: "lm_buffer mgr1 = Some fb0" using R(1) by blast
    show "\<exists>fb'. draw_damage_to (stack_layers mgr1) fb lid (manager_area l) = Some fb' \<and> shows_on R (lm_format mgr1) (stack_layers mgr1) fb'"
      unfolding draw_damage_to_canvas shows_on_canvas st1
    proof (rule canvas.redraw_raised[OF _ Fxs])
      show "canvas.shows_stack R (lm_format mgr1) (F lo @ F xs @ F mid @ F hi) fb" using old unfolding shows_on_canvas st .
      show "layer_ok (lm_format mgr1) l" using ok same by simp
      show "\<forall>l\<in>set (F lo @ F mid @ F hi). layer_ok (lm_format mgr1) l" using stack_layers_ok[OF wf] st same by auto
      show "canvas.picture (F lo @ F mid @ l # F hi) c p = canvas.picture (F lo @ F mid @ l # F hi) d p" if "p \<in> points R" for p c d
        using background_covered[OF wf1 hb1 fb0, of p c d] that R fb0 unfolding stack_picture_canvas st1 by simp
    qed (simp_all add: lid)
  next
    fix fb p c assume "p \<notin> points (manager_area l)"
    then have "layer_col l p = None" using points_manager_area[of p l] by (auto simp: layer_col_def Let_def)
    then show "stack_picture (stack_layers mgr1) c p = stack_picture (stack_layers mgr) c p"
      unfolding st st1 stack_picture_canvas using Fxs by (auto simp: canvas.picture_append)
  qed
  then show ?thesis using screen_current_buffers[OF wf1 hb1] unfolding mgr1_def[symmetric] same by blast
qed

text \<open>The buffers are sound, and so \<open>damage\<close> always succeeds, and changes nothing but the buffers.\<close>

definition buffers_ok :: "layer_manager \<Rightarrow> bool" where
  "buffers_ok mgr \<longleftrightarrow>
     (case lm_buffer mgr of
        None \<Rightarrow> True
      | Some fb \<Rightarrow> canvas_ok (buffer_rect fb) (lm_format mgr) fb \<and>
          (lm_double mgr \<longrightarrow> (\<exists>bk. lm_back mgr = Some bk \<and> canvas_ok (buffer_rect fb) (lm_format mgr) bk)))"

lemma buffers_show_ok: "buffers_show mgr ls \<Longrightarrow> buffers_ok mgr"
  by (auto simp: buffers_show_def buffers_ok_def shows_on_def split: option.splits)

lemma damage_total:
  assumes wf: "wf_manager mgr" and ok: "buffers_ok mgr"
  shows "\<exists>fb bk. damage mgr lid rects = Some (mgr\<lparr>lm_buffer := fb, lm_back := bk\<rparr>) \<and>
    map_option buffer_rect fb = map_option buffer_rect (lm_buffer mgr) \<and> buffers_ok (mgr\<lparr>lm_buffer := fb, lm_back := bk\<rparr>)"
proof (cases "lm_buffer mgr = None \<or> merge_rects rects = None")
  case True
  then have "damage mgr lid rects = Some (mgr\<lparr>lm_buffer := lm_buffer mgr, lm_back := lm_back mgr\<rparr>)"
    by (auto simp: damage_defs split: option.split)
  moreover have "buffers_ok (mgr\<lparr>lm_buffer := lm_buffer mgr, lm_back := lm_back mgr\<rparr>)" using ok by simp
  ultimately show ?thesis by blast
next
  case False
  then obtain fb r where fb: "lm_buffer mgr = Some fb" and r: "merge_rects rects = Some r" by auto
  have cfb: "canvas_ok (buffer_rect fb) (lm_format mgr) fb" using ok fb by (simp add: buffers_ok_def)
  have draw: "\<exists>b'. draw_damage_to (stack_layers mgr) b lid r = Some b' \<and> canvas_ok (buffer_rect fb) (lm_format mgr) b'"
    if "canvas_ok (buffer_rect fb) (lm_format mgr) b" for b
    unfolding draw_damage_to_canvas using canvas.redraw[OF stack_layers_ok[OF wf] that] by blast
  show ?thesis
  proof (cases "lm_double mgr")
    case False
    with draw[OF cfb] fb r show ?thesis
      by (intro exI[of _ "draw_damage_to (stack_layers mgr) fb lid r"] exI[of _ "lm_back mgr"])
        (auto simp: damage_defs canvas_ok_def buffers_ok_def)
  next
    case True
    with ok fb obtain bk where bk: "lm_back mgr = Some bk" "canvas_ok (buffer_rect fb) (lm_format mgr) bk"
      by (auto simp: buffers_ok_def)
    from draw[OF bk(2)] obtain bk' where bk': "draw_damage_to (stack_layers mgr) bk lid r = Some bk'"
        "canvas_ok (buffer_rect fb) (lm_format mgr) bk'" by blast
    have "wf_frame_buffer fb" "wf_frame_buffer bk'" "pixel_format bk' = pixel_format fb"
      using cfb bk'(2) by (auto simp: canvas_ok_def)
    from copy_from_copied[OF this] obtain fb' where cp:
        "copy_from fb bk' (top_left r) (top_left r) (rect_size r) None = Some (Success, fb')"
        "copied bk' fb (top_left r) (top_left r) (rect_size r) None fb'" by blast
    then have "damage mgr lid rects = Some (mgr\<lparr>lm_buffer := Some fb', lm_back := Some bk'\<rparr>)"
      using fb r True bk bk' by (simp add: damage_defs)
    moreover have "map_option buffer_rect (Some fb') = map_option buffer_rect (lm_buffer mgr)"
      using copied_canvas[OF cp(2) cfb] fb by (simp add: canvas_ok_def)
    moreover have "buffers_ok (mgr\<lparr>lm_buffer := Some fb', lm_back := Some bk'\<rparr>)"
      using copied_canvas[OF cp(2) cfb] bk'(2) by (simp add: buffers_ok_def canvas_ok_def)
    ultimately show ?thesis by blast
  qed
qed

lemma insert_at_remove1:
  assumes "lid \<in> set stack"
  obtains lo hi where "stack = lo @ lid # hi" "lid \<notin> set lo" "remove1 lid stack = lo @ hi"
proof -
  from split_list_first[OF assms] obtain lo hi where "stack = lo @ lid # hi" "lid \<notin> set lo" by blast
  then show thesis using that by (simp add: remove1_append)
qed

definition new_index :: "layer_id list \<Rightarrow> layer_id \<Rightarrow> int \<Rightarrow> nat" where
  "new_index stack lid new_height = min (nat new_height) (length (remove1 lid stack))"

lemma up_down_damage:
  assumes "find_layer mgr lid = Some l" and "0 \<le> new_height"
  shows "up_down mgr lid new_height =
    damage (mgr\<lparr>lm_stack := insert_at (new_index (lm_stack mgr) lid new_height) lid (remove1 lid (lm_stack mgr))\<rparr>) lid [manager_area l]"
proof (cases "lid \<in> set (lm_stack mgr)")
  case True
  then have "0 < length (lm_stack mgr)" by auto
  then have "new_index (lm_stack mgr) lid new_height =
      (let n = if int (length (lm_stack mgr)) < new_height then length (lm_stack mgr) else nat new_height
       in if n = length (lm_stack mgr) then n - 1 else n)"
    using True assms(2) by (auto simp: new_index_def length_remove1 min_def Let_def)
  then show ?thesis using True assms by (auto simp: up_down_def Let_def)
next
  case False
  then have "new_index (lm_stack mgr) lid new_height = (if int (length (lm_stack mgr)) < new_height then length (lm_stack mgr) else nat new_height)"
    using assms(2) by (auto simp: new_index_def remove1_idem min_def)
  then show ?thesis using False assms by (auto simp: up_down_def Let_def remove1_idem)
qed

text \<open>Claim C18.
  Moving a layer: on a manager with a background whose buffers show the picture of the stack,
  \<open>LayerManager::move\<close> on any layer but the background succeeds, gives the layer its new
  position and leaves all others alone, and afterwards the screen, which keeps its size, and the back buffer of a double
  buffered manager, show the picture of the stack again, although only the layers above the
  topmost one that hides the damage are drawn and nothing is drawn when the moved layer is hidden.
\<close>

theorem layer_move_shows:
  assumes "screen_current mgr" and "find_layer mgr lid \<noteq> None" and "lid \<noteq> hd (lm_stack mgr)"
  shows "\<exists>mgr'. layer_move mgr lid pos = Some mgr' \<and> screen_current mgr' \<and> lm_stack mgr' = lm_stack mgr \<and>
    map_option buffer_rect (lm_buffer mgr') = map_option buffer_rect (lm_buffer mgr) \<and>
    (\<forall>i. find_layer mgr' i = map_option (\<lambda>k. if l_id k = lid then k\<lparr>l_pos := pos\<rparr> else k) (find_layer mgr i))"
  using layer_move_current[OF assms(1) _ assms(3)] assms(2) by blast

lemma wf_manager_insert:
  assumes wf: "wf_manager mgr" and l: "find_layer mgr lid = Some l"
  shows "wf_manager (mgr\<lparr>lm_stack := insert_at n lid (remove1 lid (lm_stack mgr))\<rparr>)"
proof -
  define rest where "rest = remove1 lid (lm_stack mgr)"
  have dist: "lid \<notin> set rest" "distinct rest" using wf by (auto simp: rest_def wf_manager_def)
  have "l \<in> set (lm_layers mgr)" "l_id l = lid" using l find_layer_iff[OF wf] by auto
  then have "lid \<in> l_id ` set (lm_layers mgr)" by auto
  moreover have "set (take n rest) \<inter> set (drop n rest) = {}" using dist(2) by (metis append_take_drop_id distinct_append)
  moreover have "lid \<notin> set (take n rest)" "lid \<notin> set (drop n rest)" using dist by (auto dest: in_set_takeD in_set_dropD)
  moreover have "set (take n rest) \<union> set (drop n rest) \<subseteq> set (lm_stack mgr)"
    unfolding rest_def by (meson set_drop_subset set_remove1_subset set_take_subset subset_trans Un_least)
  ultimately show ?thesis using wf dist(2) unfolding rest_def[symmetric] by (auto simp: wf_manager_def insert_at_def)
qed

text \<open>Where a layer that is new in the stack, or does not go down, is inserted.\<close>

lemma insert_at_raised:
  assumes h: "0 < n" "n \<le> length rest" and rest: "rest = remove1 lid stack" and bg: "lid \<noteq> hd stack" and ne: "stack \<noteq> []"
    and up: "length (takeWhile (\<lambda>i. i \<noteq> lid) stack) \<le> n \<or> lid \<notin> set stack"
  shows "\<exists>lo xs mid hi. stack = lo @ xs @ mid @ hi \<and> (xs = [] \<or> xs = [lid]) \<and> rest = lo @ mid @ hi \<and>
    lo \<noteq> [] \<and> insert_at n lid rest = lo @ mid @ lid # hi"
proof (cases "lid \<in> set stack")
  case False
  have "rest = stack" using False rest by (simp add: remove1_idem)
  then show ?thesis using h ne
    by (intro exI[of _ "take n rest"] exI[of _ "[]"] exI[of _ "drop n rest"]) (auto simp: insert_at_def)
next
  case True
  then obtain lo hi where lohi: "stack = lo @ lid # hi" "lid \<notin> set lo" "rest = lo @ hi"
    using insert_at_remove1 rest by metis
  have "lo \<noteq> []" using lohi(1) bg by auto
  have "\<forall>i\<in>set lo. i \<noteq> lid" using lohi(2) by blast
  then have "takeWhile (\<lambda>i. i \<noteq> lid) stack = lo"
    using takeWhile_append2[of lo "\<lambda>i. i \<noteq> lid" "lid # hi"] lohi(1) by simp
  then have "length lo \<le> n" using up True by auto
  then have "insert_at n lid rest = lo @ take (n - length lo) hi @ lid # drop (n - length lo) hi"
    by (simp add: insert_at_def lohi)
  then show ?thesis using lohi \<open>lo \<noteq> []\<close>
    by (intro exI[of _ lo] exI[of _ "[lid]"] exI[of _ "take (n - length lo) hi"] exI[of _ "drop (n - length lo) hi"]) auto
qed

lemma takeWhile_remove1: "lid \<in> set xs \<Longrightarrow> length (takeWhile (\<lambda>i. i \<noteq> lid) xs) \<le> length (remove1 lid xs)"
  by (induction xs) auto

text \<open>Claim C19.
  Changing the height of a layer: for a height above that of the background \<open>up_down\<close> succeeds and
  puts the layer at that height, at the top when the height is larger, keeping the order of all
  others; and when the layer is new in the stack or does not go down in it, the screen shows the
  picture of the new stack.
\<close>

theorem up_down_shows:
  assumes cur: "screen_current mgr" and l: "find_layer mgr lid = Some l" and h: "0 < new_height" and bg: "lid \<noteq> hd (lm_stack mgr)"
  shows "\<exists>mgr'. up_down mgr lid new_height = Some mgr' \<and> lm_layers mgr' = lm_layers mgr \<and>
    lm_stack mgr' = insert_at (min (nat new_height) (length (remove1 lid (lm_stack mgr)))) lid (remove1 lid (lm_stack mgr)) \<and>
    map_option buffer_rect (lm_buffer mgr') = map_option buffer_rect (lm_buffer mgr) \<and>
    (int (length (takeWhile (\<lambda>i. i \<noteq> lid) (lm_stack mgr))) \<le> new_height \<or> lid \<notin> set (lm_stack mgr) \<longrightarrow> screen_current mgr')"
proof -
  define rest where "rest = remove1 lid (lm_stack mgr)"
  define n where "n = new_index (lm_stack mgr) lid new_height"
  define mgr1 where "mgr1 = mgr\<lparr>lm_stack := insert_at n lid rest\<rparr>"
  have wf: "wf_manager mgr" and ok: "buffers_ok mgr" and hb: "has_background mgr"
    using cur buffers_show_ok by (auto simp: screen_current_def)
  have dist: "lid \<notin> set rest" using wf by (auto simp: rest_def wf_manager_def)
  have ne: "lm_stack mgr \<noteq> []" using hb stack_layers_ids[OF wf] by (auto simp: has_background_def)
  then have "rest \<noteq> []" using bg by (cases "lm_stack mgr") (auto simp: rest_def)
  then have n: "0 < n" "n \<le> length rest" "n = min (nat new_height) (length rest)"
    using h by (auto simp: n_def new_index_def rest_def)
  have ud: "up_down mgr lid new_height = damage mgr1 lid [manager_area l]"
    unfolding mgr1_def n_def rest_def using l h by (intro up_down_damage) auto
  have "wf_manager mgr1" unfolding mgr1_def rest_def using wf l by (rule wf_manager_insert)
  moreover have "buffers_ok mgr1" using ok by (auto simp: buffers_ok_def mgr1_def split: option.splits)
  ultimately obtain fb bk where dmg: "damage mgr1 lid [manager_area l] = Some (mgr1\<lparr>lm_buffer := fb, lm_back := bk\<rparr>)"
      and rect: "map_option buffer_rect fb = map_option buffer_rect (lm_buffer mgr1)"
    using damage_total by blast
  have "screen_current (mgr1\<lparr>lm_buffer := fb, lm_back := bk\<rparr>)"
    if "int (length (takeWhile (\<lambda>i. i \<noteq> lid) (lm_stack mgr))) \<le> new_height \<or> lid \<notin> set (lm_stack mgr)"
  proof -
    have "length (takeWhile (\<lambda>i. i \<noteq> lid) (lm_stack mgr)) \<le> n \<or> lid \<notin> set (lm_stack mgr)"
      using that takeWhile_remove1[of lid "lm_stack mgr"] n(3) unfolding rest_def by auto
    from insert_at_raised[OF n(1,2) rest_def bg ne this] obtain lo xs mid hi where
        split: "lm_stack mgr = lo @ xs @ mid @ hi" "xs = [] \<or> xs = [lid]" "rest = lo @ mid @ hi" "lo \<noteq> []"
        and ins: "insert_at n lid rest = lo @ mid @ lid # hi" by blast
    have "lid \<notin> set (lo @ mid @ hi)" using dist split(3) by simp
    from damage_raised_layer[OF cur l split(1,2) this split(4)] obtain fb' bk' where
        "damage mgr1 lid [manager_area l] = Some (mgr1\<lparr>lm_buffer := fb', lm_back := bk'\<rparr>)"
        "screen_current (mgr1\<lparr>lm_buffer := fb', lm_back := bk'\<rparr>)"
      unfolding mgr1_def ins by blast
    with dmg show ?thesis by simp
  qed
  moreover have "lm_stack (mgr1\<lparr>lm_buffer := fb, lm_back := bk\<rparr>) = insert_at n lid rest"
      "lm_layers (mgr1\<lparr>lm_buffer := fb, lm_back := bk\<rparr>) = lm_layers mgr"
      "map_option buffer_rect (lm_buffer (mgr1\<lparr>lm_buffer := fb, lm_back := bk\<rparr>)) = map_option buffer_rect (lm_buffer mgr)"
    using rect by (simp_all add: mgr1_def)
  ultimately show ?thesis unfolding ud dmg using n(3) rest_def by blast
qed

end
