(* ===== verification/Layer_Operations.thy ===== *)
theory Layer_Operations
  imports Layer_Invariant
begin

text \<open>
  The remaining operations of the layer manager: the first drawing of the whole stack, painting
  on a layer, the layer under the mouse, and what \<open>up_down\<close> and \<open>hide\<close> do not draw.
\<close>

subsection \<open>Drawing the whole stack\<close>

lemma layer_draw_to_law:
  assumes l: "layer_ok fmt l" and fb: "canvas_ok R fmt fb"
  shows "\<exists>m. layer_draw_to l fb = Some (fb\<lparr>memory := m\<rparr>) \<and> canvas_ok R fmt (fb\<lparr>memory := m\<rparr>) \<and>
    (\<forall>p\<in>points R. pixel (fb\<lparr>memory := m\<rparr>) p = (case layer_col l p of None \<Rightarrow> pixel fb p | Some d \<Rightarrow> d))"
proof -
  have wf: "wf_frame_buffer fb" "wf_frame_buffer (l_buffer l)" and fmt: "pixel_format (l_buffer l) = pixel_format fb"
    using l fb by (auto simp: layer_ok_def canvas_ok_def)
  from copy_from_copied[OF wf fmt] obtain fb' where
      fb': "copy_from fb (l_buffer l) (l_pos l) (vec 0 0) (fb_size (l_buffer l)) (l_transparent_color l) = Some (Success, fb')"
      and cp: "copied (l_buffer l) fb (l_pos l) (vec 0 0) (fb_size (l_buffer l)) (l_transparent_color l) fb'" by blast
  have src: "source_pos (l_pos l) (vec 0 0) p = vec_sub p (l_pos l)" for p by (rule vec_eqI) simp_all
  have "pixel fb' p = (case layer_col l p of None \<Rightarrow> pixel fb p | Some d \<Rightarrow> d)" if "p \<in> points R" for p
    using cp that fb unfolding copied_def canvas_ok_def points_def[of R]
    by (auto simp: src layer_col_def Let_def fmt buffer_rect_def[of "l_buffer l"] simp del: includes_with_size)
  moreover have "fb' = fb\<lparr>memory := memory fb'\<rparr>" using cp by (simp add: copied_def)
  moreover have "layer_draw_to l fb = Some fb'" using fb' by (simp add: layer_draw_to_def copy_all_from_def)
  ultimately show ?thesis using copied_canvas[OF cp fb] by metis
qed

lemma draw_layers_law:
  assumes "\<forall>l\<in>set ls. layer_ok fmt l" and "canvas_ok R fmt fb"
  shows "\<exists>m. draw_layers ls fb = Some (fb\<lparr>memory := m\<rparr>) \<and> canvas_ok R fmt (fb\<lparr>memory := m\<rparr>) \<and>
    (\<forall>p\<in>points R. pixel (fb\<lparr>memory := m\<rparr>) p = stack_picture ls (pixel fb p) p)"
  using assms
proof (induction ls arbitrary: fb)
  case Nil
  have "fb\<lparr>memory := memory fb\<rparr> = fb" by simp
  then show ?case using Nil by (intro exI[of _ "memory fb"]) (simp add: stack_picture_def)
next
  case (Cons l ls)
  from Cons.prems layer_draw_to_law[of fmt l R fb] obtain m where m: "layer_draw_to l fb = Some (fb\<lparr>memory := m\<rparr>)"
      "canvas_ok R fmt (fb\<lparr>memory := m\<rparr>)"
      "\<forall>p\<in>points R. pixel (fb\<lparr>memory := m\<rparr>) p = (case layer_col l p of None \<Rightarrow> pixel fb p | Some d \<Rightarrow> d)" by auto
  from Cons.IH[of "fb\<lparr>memory := m\<rparr>"] Cons.prems m(2) obtain m' where m': "draw_layers ls (fb\<lparr>memory := m\<rparr>) = Some (fb\<lparr>memory := m'\<rparr>)"
      "canvas_ok R fmt (fb\<lparr>memory := m'\<rparr>)"
      "\<forall>p\<in>points R. pixel (fb\<lparr>memory := m'\<rparr>) p = stack_picture ls (pixel (fb\<lparr>memory := m\<rparr>) p) p" by auto
  then show ?case using m by (intro exI[of _ m']) (simp add: stack_picture_def)
qed

lemma stack_layers_set_buffer [simp]: "stack_layers (set_buffer mgr b) = stack_layers mgr"
  by (simp add: stack_layers_def set_buffer_defs find_layer_def[abs_def])

lemma forward_same:
  assumes "wf_frame_buffer fb" and "wf_frame_buffer (fb\<lparr>memory := m\<rparr>)"
  shows "forward fb (fb\<lparr>memory := m\<rparr>) = Some (fb\<lparr>memory := m\<rparr>)"
  using assms by (simp add: forward_def mem_copy_def wf_frame_buffer_def buffer_size_def)

lemma first_draw_current:
  assumes wf: "wf_manager mgr" and fb: "wf_frame_buffer fb" "pixel_format fb = lm_format mgr"
    and bg: "has_background (set_buffer mgr (Some fb))"
  shows "\<exists>mgr'. manager_draw (set_buffer mgr (Some fb)) = Some mgr' \<and> screen_current mgr' \<and>
    lm_layers mgr' = lm_layers mgr \<and> lm_stack mgr' = lm_stack mgr \<and> lm_double mgr' = lm_double mgr \<and>
    map_option buffer_rect (lm_buffer mgr') = Some (buffer_rect fb)"
proof -
  define mgr1 where "mgr1 = set_buffer mgr (Some fb)"
  have clone: "clone fb = fb" using fb by (simp add: clone_def wf_frame_buffer_def)
  have mgr1: "lm_buffer mgr1 = Some fb" "lm_double mgr1 = lm_double mgr" "lm_format mgr1 = lm_format mgr" "stack_layers mgr1 = stack_layers mgr"
      "lm_layers mgr1 = lm_layers mgr" "lm_stack mgr1 = lm_stack mgr" "lm_double mgr \<Longrightarrow> lm_back mgr1 = Some fb"
    by (auto simp: mgr1_def set_buffer_defs clone stack_layers_def find_layer_def[abs_def])
  have wf1: "wf_manager mgr1" using wf by (simp add: wf_manager_def mgr1_def set_buffer_defs)
  have cfb: "canvas_ok (buffer_rect fb) (lm_format mgr) fb" using fb by (simp add: canvas_ok_def)
  from draw_layers_law[OF stack_layers_ok[OF wf] cfb] obtain m where m: "draw_layers (stack_layers mgr) fb = Some (fb\<lparr>memory := m\<rparr>)"
      "canvas_ok (buffer_rect fb) (lm_format mgr) (fb\<lparr>memory := m\<rparr>)"
      "\<forall>p\<in>points (buffer_rect fb). pixel (fb\<lparr>memory := m\<rparr>) p = stack_picture (stack_layers mgr) (pixel fb p) p" by blast
  have "pixel (fb\<lparr>memory := m\<rparr>) p = stack_picture (stack_layers mgr) c p" if p: "p \<in> points (buffer_rect fb)" for p c
    using m(3)[rule_format, OF p] background_covered[OF wf1 bg[folded mgr1_def] mgr1(1) p, of "pixel fb p" c] unfolding mgr1(4)
    by (rule trans)
  with m(2) have shows_m: "shows_on (buffer_rect fb) (lm_format mgr) (stack_layers mgr) (fb\<lparr>memory := m\<rparr>)"
    unfolding shows_on_def by blast
  have "wf_frame_buffer (fb\<lparr>memory := m\<rparr>)" using m(2) by (simp add: canvas_ok_def)
  note fwd = forward_same[OF fb(1) this]
  define bk where "bk = (if lm_double mgr then Some (fb\<lparr>memory := m\<rparr>) else lm_back mgr1)"
  have draw: "manager_draw mgr1 = Some (mgr1\<lparr>lm_buffer := Some (fb\<lparr>memory := m\<rparr>), lm_back := bk\<rparr>)"
    by (cases "lm_double mgr") (simp_all add: manager_draw_defs mgr1 m(1) fwd bk_def)
  have "screen_current (mgr1\<lparr>lm_buffer := Some (fb\<lparr>memory := m\<rparr>), lm_back := bk\<rparr>)"
  proof (rule screen_current_buffers[OF wf1 bg[folded mgr1_def]])
    show "map_option buffer_rect (Some (fb\<lparr>memory := m\<rparr>)) = map_option buffer_rect (lm_buffer mgr1)" using mgr1 by simp
    show "buffers_show (mgr1\<lparr>lm_buffer := Some (fb\<lparr>memory := m\<rparr>), lm_back := bk\<rparr>) (stack_layers mgr1)"
      using shows_m by (simp add: buffers_show_def bk_def mgr1)
  qed
  moreover have "lm_layers (mgr1\<lparr>lm_buffer := Some (fb\<lparr>memory := m\<rparr>), lm_back := bk\<rparr>) = lm_layers mgr"
      "lm_stack (mgr1\<lparr>lm_buffer := Some (fb\<lparr>memory := m\<rparr>), lm_back := bk\<rparr>) = lm_stack mgr"
      "lm_double (mgr1\<lparr>lm_buffer := Some (fb\<lparr>memory := m\<rparr>), lm_back := bk\<rparr>) = lm_double mgr"
      "map_option buffer_rect (lm_buffer (mgr1\<lparr>lm_buffer := Some (fb\<lparr>memory := m\<rparr>), lm_back := bk\<rparr>)) = Some (buffer_rect fb)"
    using mgr1 by simp_all
  ultimately show ?thesis using draw unfolding mgr1_def[symmetric] by blast
qed

subsection \<open>Painting on a layer\<close>

text \<open>
  The buffer of a layer gets new contents that differ from the old ones inside the given
  rectangles only, and the layer reports these rectangles.
\<close>

lemma paint_current:
  assumes cur: "screen_current mgr" and l: "find_layer mgr lid = Some l"
    and b: "wf_frame_buffer b" "pixel_format b = pixel_format (l_buffer l)" "fb_size b = fb_size (l_buffer l)"
    and rects: "rects \<noteq> []"
    and same: "\<And>p. includes_point (buffer_rect b) p \<Longrightarrow> \<forall>r\<in>set rects. p \<notin> points r \<Longrightarrow> pixel b p = pixel (l_buffer l) p"
  shows "\<exists>mgr'. layer_damage (update_layer mgr lid (\<lambda>l. l\<lparr>l_buffer := b\<rparr>)) lid rects = Some mgr' \<and> screen_current mgr' \<and>
    lm_stack mgr' = lm_stack mgr \<and> map_option buffer_rect (lm_buffer mgr') = map_option buffer_rect (lm_buffer mgr)"
proof -
  define l' where "l' = l\<lparr>l_buffer := b\<rparr>"
  define rs where "rs = map (\<lambda>r. rect_offset r (l_pos l)) rects"
  have wf: "wf_manager mgr" using cur by (simp add: screen_current_def)
  have lid: "l_id l = lid" and ok: "layer_ok (lm_format mgr) l" using l find_layer_iff[OF wf] wf by (auto simp: wf_manager_def)
  have upd: "update_layer mgr lid (\<lambda>l. l\<lparr>l_buffer := b\<rparr>) = update_layer mgr lid (\<lambda>_. l')"
    unfolding update_layer_def using l find_layer_iff[OF wf] wf
    by (auto simp: l'_def intro!: arg_cong[where f = "\<lambda>x. mgr\<lparr>lm_layers := x\<rparr>"]) (metis option.inject)
  obtain r where r: "merge_rects rs = Some r" using rects by (cases rs) (auto simp: merge_rects_def rs_def)
  have rect: "buffer_rect b = buffer_rect (l_buffer l)" using b(3) by (simp add: buffer_rect_def)
  have out: "layer_col l' p = layer_col l p" if "p \<notin> points r" for p
  proof -
    have "\<forall>q\<in>set rects. vec_sub p (l_pos l) \<notin> points q"
      using merge_rects_points[OF r] that by (force simp: rs_def points_offset[symmetric])
    then show ?thesis using same[of "vec_sub p (l_pos l)"] b(2) rect by (auto simp: layer_col_def Let_def l'_def)
  qed
  have "l_id l' = lid" "layer_ok (lm_format mgr) l'" "manager_area l' = manager_area l" "has_transparency l' = has_transparency l"
    using lid ok b by (auto simp: l'_def layer_ok_def manager_area_def layer_size_def has_transparency_def)
  then obtain fb bk where "damage (update_layer mgr lid (\<lambda>_. l')) lid rs = Some ((update_layer mgr lid (\<lambda>_. l'))\<lparr>lm_buffer := fb, lm_back := bk\<rparr>)"
      "screen_current ((update_layer mgr lid (\<lambda>_. l'))\<lparr>lm_buffer := fb, lm_back := bk\<rparr>)"
      "map_option buffer_rect fb = map_option buffer_rect (lm_buffer mgr)"
    using damage_changed_layer[OF cur l _ _ _ r out] by blast
  moreover have "find_layer (update_layer mgr lid (\<lambda>_. l')) lid = Some l'"
    using l lid by (subst find_layer_update) (simp_all add: l'_def)
  moreover have "l_pos l' = l_pos l" by (simp add: l'_def)
  ultimately show ?thesis unfolding upd layer_damage_def by (auto simp: rs_def update_layer_def)
qed

subsection \<open>The layer under a point\<close>

text \<open>
  \<open>find_layer_by_position\<close>, which decides what the mouse drags: the result is the topmost layer of
  the stack other than the excluded one whose area contains the point, and there is none exactly
  when no layer qualifies.
\<close>

lemma find_layer_by_position_topmost:
  "case find_layer_by_position mgr pos exclude_id of
     None \<Rightarrow> \<forall>l\<in>set (stack_layers mgr). l_id l \<noteq> exclude_id \<longrightarrow> pos \<notin> points (manager_area l)
   | Some l \<Rightarrow> \<exists>lower higher. stack_layers mgr = lower @ l # higher \<and> l_id l \<noteq> exclude_id \<and> pos \<in> points (manager_area l) \<and>
       (\<forall>k\<in>set higher. l_id k \<noteq> exclude_id \<longrightarrow> pos \<notin> points (manager_area k))"
proof (cases "find_layer_by_position mgr pos exclude_id")
  case None
  then have "\<forall>l\<in>set (stack_layers mgr). l_id l \<noteq> exclude_id \<longrightarrow> pos \<notin> points (manager_area l)"
    by (auto simp: find_layer_by_position_def find_None_iff points_def split: if_splits)
  with None show ?thesis by simp
next
  case (Some l)
  then obtain i where i: "i < length (stack_layers mgr)" "rev (stack_layers mgr) ! i = l"
      "l_id l \<noteq> exclude_id" "pos \<in> points (manager_area l)"
      "\<forall>j<i. l_id (rev (stack_layers mgr) ! j) \<noteq> exclude_id \<longrightarrow> pos \<notin> points (manager_area (rev (stack_layers mgr) ! j))"
    by (auto simp: find_layer_by_position_def find_Some_iff points_def split: if_splits)
  have rev: "rev (stack_layers mgr) = take i (rev (stack_layers mgr)) @ l # drop (Suc i) (rev (stack_layers mgr))"
    using i by (metis id_take_nth_drop length_rev)
  have "stack_layers mgr = rev (drop (Suc i) (rev (stack_layers mgr))) @ l # rev (take i (rev (stack_layers mgr)))"
    using arg_cong[OF rev, of rev] by simp
  moreover have "\<forall>k\<in>set (take i (rev (stack_layers mgr))). l_id k \<noteq> exclude_id \<longrightarrow> pos \<notin> points (manager_area k)"
    using i(1,5) by (fastforce simp: in_set_conv_nth)
  ultimately have "\<exists>lower higher. stack_layers mgr = lower @ l # higher \<and> l_id l \<noteq> exclude_id \<and> pos \<in> points (manager_area l) \<and>
       (\<forall>k\<in>set higher. l_id k \<noteq> exclude_id \<longrightarrow> pos \<notin> points (manager_area k))"
    using i(3,4) by (intro exI conjI) (assumption | simp)+
  with Some show ?thesis by simp
qed

subsection \<open>What is not drawn\<close>

text \<open>The buffer that the layers are drawn into.\<close>

definition drawn_buffer :: "layer_manager \<Rightarrow> frame_buffer option" where
  "drawn_buffer mgr = (if lm_double mgr then lm_back mgr else lm_buffer mgr)"

lemma damage_hidden:
  assumes wf: "wf_manager mgr" "buffers_ok mgr" and rects: "merge_rects rects = Some r"
    and stack: "stack_layers mgr = lo @ k # hi" and k: "\<not> has_transparency k" "includes_rect (manager_area k) r"
    and hidden: "\<forall>l\<in>set (k # hi). l_id l \<noteq> lid"
  shows "\<exists>mgr'. damage mgr lid rects = Some mgr' \<and> drawn_buffer mgr' = drawn_buffer mgr \<and> lm_double mgr' = lm_double mgr \<and>
    lm_layers mgr' = lm_layers mgr \<and> lm_stack mgr' = lm_stack mgr"
proof -
  have suffix: "set (damage_suffix r (rev hi @ k # rest) acc) \<subseteq> set (k # hi) \<union> set acc" for hi rest acc
  proof (induction hi arbitrary: acc rule: rev_induct)
    case (snoc x xs)
    from snoc[of "x # acc"] show ?case by auto
  qed (use k in auto)
  have skip: "draw_damage_to (stack_layers mgr) fb lid r = Some fb" for fb
    using suffix[of hi "rev lo" "[]"] hidden unfolding draw_damage_to_def Let_def stack by (auto simp: list_ex_iff)
  show ?thesis
  proof (cases "lm_buffer mgr = None \<or> \<not> lm_double mgr")
    case True
    then have "damage mgr lid rects = Some mgr" using rects skip by (auto simp: damage_defs split: option.split)
    then show ?thesis by simp
  next
    case False
    then obtain fb b where fb: "lm_buffer mgr = Some fb" "lm_back mgr = Some b" "lm_double mgr"
        "canvas_ok (buffer_rect fb) (lm_format mgr) fb" "canvas_ok (buffer_rect fb) (lm_format mgr) b"
      using wf(2) by (auto simp: buffers_ok_def)
    then obtain fb' where "copy_from fb b (top_left r) (top_left r) (rect_size r) None = Some (Success, fb')"
      using copy_from_copied[of fb b "top_left r" "top_left r" "rect_size r" None] unfolding canvas_ok_def by metis
    then have "damage mgr lid rects = Some (mgr\<lparr>lm_back := Some b, lm_buffer := Some fb'\<rparr>)"
      using rects skip fb by (simp add: damage_defs)
    then show ?thesis using fb by (simp add: drawn_buffer_def)
  qed
qed

text \<open>Claim C20.
  A layer that \<open>up_down\<close> puts below an opaque layer which covers its whole area is not redrawn:
  the buffer keeps the pixels of the layer although the picture of the stack now has those of the
  covering layer there. The redrawing is skipped because the damaged layer is hidden in the new
  stack, but it was visible in the old one.
\<close>

theorem up_down_lowered_stale:
  assumes "wf_manager mgr" and "buffers_ok mgr" and stack: "lm_stack mgr = lo @ mid @ lid # hi" and l: "find_layer mgr lid = Some l"
    and k: "kid \<in> set mid" "find_layer mgr kid = Some k" "\<not> has_transparency k" "includes_rect (manager_area k) (manager_area l)"
  shows "\<exists>mgr'. up_down mgr lid (int (length lo)) = Some mgr' \<and> lm_stack mgr' = lo @ lid # mid @ hi \<and>
    lm_layers mgr' = lm_layers mgr \<and> lm_double mgr' = lm_double mgr \<and> drawn_buffer mgr' = drawn_buffer mgr"
proof -
  define mgr1 where "mgr1 = mgr\<lparr>lm_stack := lo @ lid # mid @ hi\<rparr>"
  have dist: "distinct (lm_stack mgr)" using assms(1) by (simp add: wf_manager_def)
  then have rest: "remove1 lid (lm_stack mgr) = lo @ mid @ hi" by (auto simp: stack remove1_append)
  then have "insert_at (new_index (lm_stack mgr) lid (int (length lo))) lid (remove1 lid (lm_stack mgr)) = lo @ lid # mid @ hi"
    by (simp add: insert_at_def new_index_def)
  then have ud: "up_down mgr lid (int (length lo)) = damage mgr1 lid [manager_area l]"
      and wf1: "wf_manager mgr1"
    using up_down_damage[OF l, of "int (length lo)"] wf_manager_insert[OF assms(1) l, of "length lo"] rest
    by (simp_all add: mgr1_def insert_at_def)
  have ok1: "buffers_ok mgr1" using assms(2) by (auto simp: buffers_ok_def mgr1_def split: option.splits)
  obtain m1 m2 where mid: "mid = m1 @ kid # m2" using k(1) by (meson split_list)
  have fl: "find_layer mgr1 = find_layer mgr" by (simp add: fun_eq_iff find_layer_def mgr1_def)
  define F where "F = List.map_filter (find_layer mgr)"
  have st: "stack_layers mgr1 = F (lo @ lid # m1) @ k # F (m2 @ hi)"
    unfolding stack_layers_def fl by (simp add: mgr1_def mid F_def map_filter_append List.map_filter_simps k(2) l)
  have ids: "l_id x \<in> set is" if "x \<in> set (F is)" for x "is"
    using that by (auto simp: F_def List.map_filter_def dest: find_layer_iff[OF assms(1), THEN iffD1])
  have "l_id k = kid" using k(2) find_layer_iff[OF assms(1)] by blast
  then have "\<forall>x\<in>set (k # F (m2 @ hi)). l_id x \<noteq> lid" using ids[of _ "m2 @ hi"] dist by (auto simp: stack mid)
  from damage_hidden[OF wf1 ok1 _ st k(3,4) this, of "[manager_area l]"] obtain mgr' where
      "damage mgr1 lid [manager_area l] = Some mgr'" "drawn_buffer mgr' = drawn_buffer mgr1" "lm_double mgr' = lm_double mgr1"
      "lm_layers mgr' = lm_layers mgr1" "lm_stack mgr' = lm_stack mgr1"
    by (auto simp: merge_rects_def)
  moreover have "drawn_buffer mgr1 = drawn_buffer mgr" "lm_double mgr1 = lm_double mgr" "lm_layers mgr1 = lm_layers mgr"
      "lm_stack mgr1 = lo @ lid # mid @ hi"
    by (simp_all add: mgr1_def drawn_buffer_def)
  ultimately show ?thesis unfolding ud by metis
qed

subsection \<open>An example\<close>

text \<open>A screen of one pixel, a background and two layers above it, in three colours.\<close>

definition demo_buffer :: "u8 \<Rightarrow> frame_buffer" where
  "demo_buffer c = new_frame_buffer (Some (replicate 4 c)) 1 1 1 RGBResv8BitPerColor"

definition demo_layer :: "layer_id \<Rightarrow> u8 \<Rightarrow> layer" where
  "demo_layer i c = \<lparr>l_id = i, l_pos = vec 0 0, l_transparent_color = None, l_draggable = False, l_buffer = demo_buffer c\<rparr>"

definition demo_manager :: "bool \<Rightarrow> layer_manager" where
  "demo_manager double =
     \<lparr>lm_format = RGBResv8BitPerColor, lm_layers = [demo_layer 1 10, demo_layer 2 20, demo_layer 3 30], lm_latest_id = 3,
      lm_stack = [1, 2, 3], lm_buffer = None, lm_double = double, lm_back = None\<rparr>"

lemma demo_buffer_simps [simp]:
  "wf_frame_buffer (demo_buffer c)" "pixel_format (demo_buffer c) = RGBResv8BitPerColor"
  "buffer_rect (demo_buffer c) = rect 0 0 1 1" "fb_size (demo_buffer c) = vec 1 1" "memory (demo_buffer c) = replicate 4 c"
  by (simp_all add: demo_buffer_def new_frame_buffer_def wf_frame_buffer_def buffer_size_def bytes_per_pixel_def buffer_rect_def
      fb_size_def with_size_def rect_of_def)

lemma demo_manager_simps:
  "wf_manager (demo_manager d)" "find_layer (demo_manager d) 1 = Some (demo_layer 1 10)"
  "find_layer (demo_manager d) 2 = Some (demo_layer 2 20)" "find_layer (demo_manager d) 3 = Some (demo_layer 3 30)"
  "stack_layers (demo_manager d) = [demo_layer 1 10, demo_layer 2 20, demo_layer 3 30]"
  by (simp_all add: wf_manager_def demo_manager_def demo_layer_def layer_ok_def find_layer_def stack_layers_def List.map_filter_simps)

lemma demo_background: "has_background (set_buffer (demo_manager d) (Some (demo_buffer 0)))"
  unfolding has_background_def stack_layers_set_buffer demo_manager_simps
  by (auto simp: demo_layer_def has_transparency_def manager_area_def layer_size_def set_buffer_defs rect_of_def rect_def vec_def vec_add_def)

lemma demo_screen:
  obtains mgr where "screen_current mgr" "lm_stack mgr = [1, 2, 3]" "lm_layers mgr = lm_layers (demo_manager d)"
    "lm_double mgr = d" "map_option buffer_rect (lm_buffer mgr) = Some (rect 0 0 1 1)"
  using first_draw_current[OF demo_manager_simps(1) _ _ demo_background, of d] that
  by (auto simp: demo_manager_def)

lemma first_draw_example:
  "\<exists>mgr'. manager_draw (set_buffer (demo_manager True) (Some (demo_buffer 0))) = Some mgr' \<and> screen_current mgr' \<and>
     lm_layers mgr' = lm_layers (demo_manager True) \<and> lm_stack mgr' = lm_stack (demo_manager True) \<and>
     lm_double mgr' = lm_double (demo_manager True) \<and> map_option buffer_rect (lm_buffer mgr') = Some (buffer_rect (demo_buffer 0))"
  by (rule first_draw_current[OF demo_manager_simps(1) _ _ demo_background]) (simp_all add: demo_manager_def)

lemma find_layer_by_position_example:
  "find_layer_by_position (demo_manager True) (vec 0 0) 3 = Some (demo_layer 2 20) \<and>
   (\<exists>lower higher. stack_layers (demo_manager True) = lower @ demo_layer 2 20 # higher \<and> vec 0 0 \<in> points (manager_area (demo_layer 2 20)))"
proof -
  have found: "find_layer_by_position (demo_manager True) (vec 0 0) 3 = Some (demo_layer 2 20)"
    unfolding find_layer_by_position_def demo_manager_simps
    by (simp add: demo_layer_def manager_area_def layer_size_def includes_point_def with_size_def rect_of_def)
  show ?thesis
    using find_layer_by_position_topmost[where mgr = "demo_manager True" and pos = "vec 0 0" and exclude_id = 3] unfolding found by auto
qed

theorem layer_move_shows_witness:
  "\<exists>mgr mgr'. screen_current mgr \<and> layer_move mgr 3 (vec 5 5) = Some mgr' \<and> screen_current mgr'"
proof -
  obtain mgr where mgr: "screen_current mgr" "lm_stack mgr = [1, 2, 3]" "lm_layers mgr = lm_layers (demo_manager True)"
    by (rule demo_screen)
  have "find_layer mgr 3 \<noteq> None" by (simp add: find_layer_def mgr(3) demo_manager_def demo_layer_def)
  then show ?thesis using layer_move_shows[OF mgr(1), of 3 "vec 5 5"] mgr by auto
qed

theorem up_down_shows_witness:
  "\<exists>mgr mgr'. screen_current mgr \<and> up_down mgr 2 7 = Some mgr' \<and> lm_stack mgr' = [1, 3, 2] \<and> screen_current mgr'"
proof -
  obtain mgr where mgr: "screen_current mgr" "lm_stack mgr = [1, 2, 3]" "lm_layers mgr = lm_layers (demo_manager True)"
    by (rule demo_screen)
  have "find_layer mgr 2 = Some (demo_layer 2 20)" by (simp add: find_layer_def mgr(3) demo_manager_def demo_layer_def)
  from up_down_shows[OF mgr(1) this, of 7] mgr show ?thesis by (auto simp: insert_at_def)
qed

lemma demo_picture:
  "stack_picture [a, b, demo_layer i c] d (vec 0 0) = replicate 4 c"
proof -
  have "layer_col (demo_layer i c) (vec 0 0) = Some (replicate 4 c)"
    by (simp add: layer_col_def demo_layer_def Let_def includes_point_def shown_def pixel_def cell_def pixel_index_def bytes_per_pixel_def
        numeral_eq_Suc)
  then show ?thesis by (simp add: stack_picture_def)
qed

lemma demo_pixel:
  assumes "screen_current mgr" and "lm_buffer mgr = Some fb" "buffer_rect fb = rect 0 0 1 1" and "stack_layers mgr = [a, b, demo_layer i c]"
  shows "pixel fb (vec 0 0) = replicate 4 c"
proof -
  have "vec 0 0 \<in> points (buffer_rect fb)" using assms(3) by (simp add: points_def includes_point_def)
  then have "pixel fb (vec 0 0) = stack_picture (stack_layers mgr) [] (vec 0 0)"
    using assms(1,2) by (simp add: screen_current_def buffers_show_def shows_on_def)
  then show ?thesis using assms(4) demo_picture by simp
qed

theorem up_down_lowered_stale_witness:
  "\<exists>mgr mgr'. screen_current mgr \<and> up_down mgr 3 1 = Some mgr' \<and> \<not> screen_current mgr'"
proof -
  obtain mgr where mgr: "screen_current mgr" "lm_stack mgr = [1, 2, 3]" "lm_layers mgr = lm_layers (demo_manager False)"
      "\<not> lm_double mgr" "map_option buffer_rect (lm_buffer mgr) = Some (rect 0 0 1 1)"
    by (rule demo_screen[of False]) blast
  then obtain fb where fb: "lm_buffer mgr = Some fb" "buffer_rect fb = rect 0 0 1 1" by auto
  have find: "find_layer m 1 = Some (demo_layer 1 10) \<and> find_layer m 2 = Some (demo_layer 2 20) \<and> find_layer m 3 = Some (demo_layer 3 30)"
    if "lm_layers m = lm_layers (demo_manager False)" for m
    using that by (simp add: find_layer_def demo_manager_def demo_layer_def)
  have wf: "wf_manager mgr" "buffers_ok mgr" using mgr(1) buffers_show_ok by (auto simp: screen_current_def)
  have "includes_rect (manager_area (demo_layer 2 20)) (manager_area (demo_layer 3 30))" "\<not> has_transparency (demo_layer 2 20)"
    by (simp_all add: includes_rect_def manager_area_def demo_layer_def layer_size_def has_transparency_def)
  with up_down_lowered_stale[OF wf, of "[1]" "[2]" 3 "[]" "demo_layer 3 30" 2 "demo_layer 2 20"] find[OF mgr(3)] mgr(2) obtain mgr'
    where mgr': "up_down mgr 3 1 = Some mgr'" "lm_stack mgr' = [1, 3, 2]" "lm_layers mgr' = lm_layers mgr" "drawn_buffer mgr' = drawn_buffer mgr"
      "lm_double mgr' = lm_double mgr"
    by auto
  have "\<not> screen_current mgr'"
  proof
    assume cur: "screen_current mgr'"
    have st: "stack_layers mgr = [demo_layer 1 10, demo_layer 2 20, demo_layer 3 30]"
        "stack_layers mgr' = [demo_layer 1 10, demo_layer 3 30, demo_layer 2 20]"
      using find[OF mgr(3)] find[of mgr'] mgr mgr' by (simp_all add: stack_layers_def List.map_filter_simps)
    have "lm_buffer mgr' = Some fb" using mgr'(4,5) mgr(4) fb(1) by (simp add: drawn_buffer_def)
    then show False using demo_pixel[OF mgr(1) fb st(1)] demo_pixel[OF cur _ fb(2) st(2)] by simp
  qed
  then show ?thesis using mgr(1) mgr' by blast
qed

end
