(* ===== verification/Painter.thy ===== *)
theory Painter
  imports Layer_Operations
begin

text \<open>
  Drawing on a layer: \<open>draw_rectangle\<close> and \<open>draw_filled_rectangle\<close> of \<open>graphics.cpp\<close>, \<open>font.cpp\<close>,
  \<open>painter.cpp\<close>, the mouse cursor of \<open>mouse.cpp\<close> and the window frame of \<open>window.cpp\<close>.

  The font is a binary file that the build generates: it is the parameter \<open>font\<close>, its bytes. A C
  string is the list of its characters without the terminating zero.
\<close>

subsection \<open>Drawing primitives\<close>

definition draw_filled_rectangle :: "frame_buffer \<Rightarrow> vec \<Rightarrow> vec \<Rightarrow> pixel_color \<Rightarrow> frame_buffer option" where
  "draw_filled_rectangle fb pos sz c =
     for_range (\<lambda>dy fb.
       for_range (\<lambda>dx fb. write_pixel fb (vx pos + int dx) (vy pos + int dy) c) 0 (nat (vx sz)) fb) 0 (nat (vy sz)) fb"

definition draw_rectangle :: "frame_buffer \<Rightarrow> vec \<Rightarrow> vec \<Rightarrow> pixel_color \<Rightarrow> frame_buffer option" where
  "draw_rectangle fb pos sz c = do {
     fb \<leftarrow> for_range (\<lambda>dx fb. do {
         fb \<leftarrow> write_pixel fb (vx pos + int dx) (vy pos) c;
         write_pixel fb (vx pos + int dx) (vy pos + vy sz - 1) c }) 0 (nat (vx sz)) fb;
     for_range (\<lambda>dy fb. do {
         fb \<leftarrow> write_pixel fb (vx pos) (vy pos + int dy) c;
         write_pixel fb (vx pos + vx sz - 1) (vy pos + int dy) c }) 0 (nat (vy sz)) fb }"

text \<open>The conversion of a character to \<open>unsigned int\<close> extends its sign.\<close>

definition get_font :: "u8 list \<Rightarrow> u8 \<Rightarrow> nat option" where
  "get_font font c =
     (let index = 16 * (scast c :: u32)
      in if of_nat (length font) \<le> (ucast index :: u64) then None else Some (unat index))"

definition write_ascii :: "u8 list \<Rightarrow> frame_buffer \<Rightarrow> int \<Rightarrow> int \<Rightarrow> u8 \<Rightarrow> pixel_color \<Rightarrow> frame_buffer option" where
  "write_ascii font fb x y c color =
     (case get_font font c of
        None \<Rightarrow> Some fb
      | Some f \<Rightarrow>
          for_range (\<lambda>dy fb.
            for_range (\<lambda>dx fb.
              if length font \<le> f + dy then None
              else if (push_bit dx (ucast (font ! (f + dy)) :: u32)) AND 0x80 \<noteq> 0
              then write_pixel fb (x + int dx) (y + int dy) color else Some fb) 0 8 fb) 0 16 fb)"

fun write_string_from :: "u8 list \<Rightarrow> frame_buffer \<Rightarrow> int \<Rightarrow> int \<Rightarrow> nat \<Rightarrow> u8 list \<Rightarrow> pixel_color \<Rightarrow> frame_buffer option" where
  "write_string_from font fb x y i [] color = Some fb"
| "write_string_from font fb x y i (c # s) color = do {
     fb \<leftarrow> write_ascii font fb (x + int i * 8) y c color;
     write_string_from font fb x y (Suc i) s color }"

definition write_string :: "u8 list \<Rightarrow> frame_buffer \<Rightarrow> int \<Rightarrow> int \<Rightarrow> u8 list \<Rightarrow> pixel_color \<Rightarrow> frame_buffer option" where
  "write_string font fb x y s color = write_string_from font fb x y 0 s color"

subsection \<open>The painter\<close>

text \<open>A painter holds the buffer of its layer and the rectangle it has changed.\<close>

record painter =
  p_buffer :: frame_buffer
  p_damaged :: bool
  p_top_left :: vec
  p_bottom_right :: vec

definition start_paint :: "layer \<Rightarrow> painter" where
  "start_paint l = \<lparr>p_buffer = l_buffer l, p_damaged = False, p_top_left = vec 0 0, p_bottom_right = vec 0 0\<rparr>"

definition raw_damage :: "painter \<Rightarrow> rect \<Rightarrow> painter" where
  "raw_damage p r =
     (if \<not> p_damaged p then p\<lparr>p_top_left := top_left r, p_bottom_right := bottom_right r, p_damaged := True\<rparr>
      else p\<lparr>p_top_left := vec_min (p_top_left p) (top_left r), p_bottom_right := vec_max (p_bottom_right p) (bottom_right r)\<rparr>)"

definition painter_copy_y :: "painter \<Rightarrow> int \<Rightarrow> int \<Rightarrow> int \<Rightarrow> painter option" where
  "painter_copy_y p dst_y src_y src_end_y =
     (let h = src_end_y - src_y
      in do {
        fb \<leftarrow> copy_self_y (p_buffer p) dst_y src_y h;
        Some (raw_damage (p\<lparr>p_buffer := fb\<rparr>) (rect 0 dst_y (vx (fb_size fb)) (dst_y + h))) })"

definition painter_draw_rectangle :: "painter \<Rightarrow> rect \<Rightarrow> pixel_color \<Rightarrow> painter option" where
  "painter_draw_rectangle p r c = do {
     fb \<leftarrow> draw_rectangle (p_buffer p) (top_left r) (rect_size r) c;
     Some (raw_damage (p\<lparr>p_buffer := fb\<rparr>) r) }"

definition painter_draw_filled_rectangle :: "painter \<Rightarrow> rect \<Rightarrow> pixel_color \<Rightarrow> painter option" where
  "painter_draw_filled_rectangle p r c = do {
     fb \<leftarrow> draw_filled_rectangle (p_buffer p) (top_left r) (rect_size r) c;
     Some (raw_damage (p\<lparr>p_buffer := fb\<rparr>) r) }"

definition painter_draw_ascii :: "u8 list \<Rightarrow> painter \<Rightarrow> vec \<Rightarrow> u8 \<Rightarrow> pixel_color \<Rightarrow> painter option" where
  "painter_draw_ascii font p pos ch c = do {
     fb \<leftarrow> write_ascii font (p_buffer p) (vx pos) (vy pos) ch c;
     Some (raw_damage (p\<lparr>p_buffer := fb\<rparr>) (with_size pos (vec 8 16))) }"

definition painter_draw_string :: "u8 list \<Rightarrow> painter \<Rightarrow> vec \<Rightarrow> u8 list \<Rightarrow> pixel_color \<Rightarrow> painter option" where
  "painter_draw_string font p pos str c = do {
     fb \<leftarrow> write_string_from font (p_buffer p) (vx pos) (vy pos) 0 str c;
     Some (raw_damage (p\<lparr>p_buffer := fb\<rparr>) (with_size pos (vec (int (length str) * 8) 16))) }"

text \<open>
  \<open>pixel_writer()\<close> damages the whole layer and hands out the writer; \<open>raw_pixel_writer()\<close> hands it
  out without.
\<close>

definition painter_pixel_writer :: "painter \<Rightarrow> painter" where
  "painter_pixel_writer p = raw_damage p (rect_of (vec 0 0) (fb_size (p_buffer p)))"

text \<open>
  The end of a painter, also its destructor. The painter has drawn into the buffer of the layer
  \<open>lid\<close>, which now reports the damage.
\<close>

definition painter_end :: "layer_manager \<Rightarrow> layer_id \<Rightarrow> painter \<Rightarrow> layer_manager option" where
  "painter_end mgr lid p =
     (let mgr = update_layer mgr lid (\<lambda>l. l\<lparr>l_buffer := p_buffer p\<rparr>)
      in if \<not> p_damaged p then Some mgr else layer_damage mgr lid [rect_of (p_top_left p) (p_bottom_right p)])"

subsection \<open>Changes inside a region\<close>

text \<open>
  The buffer is changed inside the region \<open>S\<close> only. This composes, so a sequence of writes inside
  \<open>S\<close> changes it inside \<open>S\<close> only.
\<close>

definition changed_within :: "vec set \<Rightarrow> frame_buffer \<Rightarrow> frame_buffer \<Rightarrow> bool" where
  "changed_within S fb fb' \<longleftrightarrow>
     wf_frame_buffer fb' \<and> fb' = fb\<lparr>memory := memory fb'\<rparr> \<and>
     (\<forall>p. includes_point (buffer_rect fb) p \<longrightarrow> p \<notin> S \<longrightarrow> pixel fb' p = pixel fb p)"

lemma changed_within_refl [simp]: "wf_frame_buffer fb \<Longrightarrow> changed_within S fb fb"
  by (simp add: changed_within_def)

lemma changed_within_buffer_rect: "changed_within S fb fb' \<Longrightarrow> buffer_rect fb' = buffer_rect fb"
  unfolding changed_within_def by (metis buffer_rect_memory)

lemma changed_within_fb_size: "changed_within S fb fb' \<Longrightarrow> fb_size fb' = fb_size fb"
  and changed_within_format: "changed_within S fb fb' \<Longrightarrow> pixel_format fb' = pixel_format fb"
proof -
  assume "changed_within S fb fb'"
  then obtain m where "fb' = fb\<lparr>memory := m\<rparr>" unfolding changed_within_def by blast
  then show "fb_size fb' = fb_size fb" "pixel_format fb' = pixel_format fb" by (simp_all add: fb_size_def)
qed

lemma changed_within_wf: "changed_within S fb fb' \<Longrightarrow> wf_frame_buffer fb'"
  by (simp add: changed_within_def)

lemma changed_within_trans:
  assumes "changed_within S fb fb'" and "changed_within T fb' fb''"
  shows "changed_within (S \<union> T) fb fb''"
proof -
  obtain m m' where "fb' = fb\<lparr>memory := m\<rparr>" "fb'' = fb'\<lparr>memory := m'\<rparr>" using assms unfolding changed_within_def by blast
  then have "fb'' = fb\<lparr>memory := memory fb''\<rparr>" by simp
  then show ?thesis using assms changed_within_buffer_rect[OF assms(1)] by (simp add: changed_within_def)
qed

lemma changed_within_mono: "changed_within S fb fb' \<Longrightarrow> S \<subseteq> T \<Longrightarrow> changed_within T fb fb'"
  by (auto simp: changed_within_def)

lemma changed_within_step:
  assumes "changed_within S fb fb'" and "changed_within S fb' fb''"
  shows "changed_within S fb fb''"
  using changed_within_trans[OF assms] by simp

lemma pixel_index_inj:
  assumes "wf_frame_buffer fb" and "includes_point (buffer_rect fb) p" and "includes_point (buffer_rect fb) q"
    and "pixel_index fb p = pixel_index fb q"
  shows "p = q"
proof -
  have p: "0 \<le> vx p" "0 \<le> vy p" "vx p < int (horizontal_resolution fb)" and q: "0 \<le> vx q" "0 \<le> vy q" "vx q < int (horizontal_resolution fb)"
    using assms(2,3) by (auto simp: buffer_rect_def fb_size_def)
  have hr: "horizontal_resolution fb \<le> pixels_per_scan_line fb" using assms(1) by (simp add: wf_frame_buffer_def)
  have "nat (vy p) * pixels_per_scan_line fb + nat (vx p) = nat (vy q) * pixels_per_scan_line fb + nat (vx q)"
    using assms(4) by (simp add: pixel_index_def mult.commute)
  moreover have "nat (vx p) < pixels_per_scan_line fb" "nat (vx q) < pixels_per_scan_line fb" using p q hr by linarith+
  ultimately have "nat (vy p) = nat (vy q) \<and> nat (vx p) = nat (vx q)" by (rule row_of_block) simp
  then have "vy p = vy q" "vx p = vx q" using p q by (auto simp: eq_nat_nat_iff)
  then show ?thesis by (intro vec_eqI)
qed

text \<open>Writing a pixel of the buffer.\<close>

lemma pixel_index_less:
  assumes "wf_frame_buffer fb" and "includes_point (buffer_rect fb) p"
  shows "pixel_index fb p < pixels_per_scan_line fb * vertical_resolution fb"
proof -
  have "pixel_index fb p + 1 \<le> pixels_per_scan_line fb * vertical_resolution fb"
    using assms by (intro pixel_index_bound) (auto simp: buffer_rect_def fb_size_def)
  then show ?thesis by simp
qed

lemma write_pixel_law:
  assumes wf: "wf_frame_buffer fb" and q: "includes_point (buffer_rect fb) (vec x y)"
  shows "\<exists>fb'. write_pixel fb x y c = Some fb' \<and> changed_within {vec x y} fb fb' \<and> pixel fb' (vec x y) = pixel_bytes (pixel_format fb) c"
proof -
  define b N where "b = bytes_per_pixel (pixel_format fb)" and "N = pixels_per_scan_line fb * vertical_resolution fb"
  have len: "length (memory fb) = b * N" using wf unfolding wf_frame_buffer_def buffer_size_alt b_def N_def by simp
  have idx: "pixel_index fb p < N" if "includes_point (buffer_rect fb) p" for p using pixel_index_less[OF wf that] by (simp add: N_def)
  have src: "length (pixel_bytes (pixel_format fb) c) = b * 1" by (simp add: b_def)
  obtain m where "mem_copy (memory fb) (b * pixel_index fb (vec x y)) (pixel_bytes (pixel_format fb) c) (b * 0) (b * 1) = Some m"
      and lenm: "length m = b * N"
    using mem_copy_Some[OF len src, of "pixel_index fb (vec x y)" 1 0] idx[OF q] by auto
  note m = this
  have eq: "write_pixel fb x y c = Some (fb\<lparr>memory := m\<rparr>)"
    using m frame_addr_at_inside[OF wf q] by (simp add: write_pixel_def b_def)
  have "cell b m (pixel_index fb (vec x y) + 0) = cell b (pixel_bytes (pixel_format fb) c) (0 + 0)"
    by (rule cell_mem_copy_inside[OF m(1)]) simp
  then have new: "pixel (fb\<lparr>memory := m\<rparr>) (vec x y) = pixel_bytes (pixel_format fb) c"
    unfolding pixel_memory_update b_def by (simp add: cell_def)
  have "pixel (fb\<lparr>memory := m\<rparr>) p = pixel fb p" if p: "includes_point (buffer_rect fb) p" "p \<noteq> vec x y" for p
  proof -
    have "pixel_index fb p \<noteq> pixel_index fb (vec x y)" using pixel_index_inj[OF wf p(1) q] p(2) by blast
    then have "cell b m (pixel_index fb p) = cell b (memory fb) (pixel_index fb p)"
    proof (intro cell_mem_copy_outside[OF m(1)])
      show "b * Suc (pixel_index fb p) \<le> length (memory fb)" unfolding len using idx[OF p(1)] by (intro mult_le_mono2) simp
    qed linarith
    then show ?thesis unfolding pixel_memory_update by (simp add: pixel_def b_def)
  qed
  moreover have "wf_frame_buffer (fb\<lparr>memory := m\<rparr>)"
    using wf lenm by (simp add: wf_frame_buffer_def buffer_size_def b_def N_def)
  ultimately show ?thesis using eq new by (auto simp: changed_within_def)
qed

text \<open>A loop whose body changes the buffer inside \<open>S\<close> only.\<close>

lemma for_range_changed:
  assumes wf: "wf_frame_buffer fb"
    and body: "\<And>i t. i < n \<Longrightarrow> changed_within S fb t \<Longrightarrow> \<exists>t'. body i t = Some t' \<and> changed_within S t t'"
  shows "\<exists>fb'. for_range body 0 n fb = Some fb' \<and> changed_within S fb fb'"
proof (rule for_range_rule[where P = "\<lambda>_ t. changed_within S fb t"])
  show "changed_within S fb fb" using wf by simp
next
  fix i t assume "i < 0 + n" and t: "changed_within S fb t"
  then obtain t' where "body i t = Some t'" "changed_within S t t'" using body[of i t] by auto
  then show "\<exists>t'. body i t = Some t' \<and> changed_within S fb t'" using changed_within_step[OF t] by blast
qed

lemma write_pixel_changed:
  assumes "changed_within S fb t" and "vec x y \<in> S" and "S \<subseteq> points (buffer_rect fb)"
  shows "\<exists>t'. write_pixel t x y c = Some t' \<and> changed_within S t t'"
proof -
  have "includes_point (buffer_rect t) (vec x y)"
    using assms changed_within_buffer_rect[OF assms(1)] by (auto simp: points_def)
  from write_pixel_law[OF changed_within_wf[OF assms(1)] this] obtain t' where
    "write_pixel t x y c = Some t'" "changed_within {vec x y} t t'" by blast
  then show ?thesis using assms(2) changed_within_mono by blast
qed

subsection \<open>The primitives stay inside their rectangle\<close>

lemma vec_in_with_size:
  "vec x y \<in> points (with_size pos sz) \<longleftrightarrow> vx pos \<le> x \<and> x < vx pos + vx sz \<and> vy pos \<le> y \<and> y < vy pos + vy sz"
  by (auto simp: points_def)

lemma draw_filled_rectangle_changed:
  assumes "wf_frame_buffer fb" and "points (with_size pos sz) \<subseteq> points (buffer_rect fb)"
  shows "\<exists>fb'. draw_filled_rectangle fb pos sz c = Some fb' \<and> changed_within (points (with_size pos sz)) fb fb'"
  unfolding draw_filled_rectangle_def
proof (rule for_range_changed[OF assms(1)])
  fix dy t assume dy: "dy < nat (vy sz)" and t: "changed_within (points (with_size pos sz)) fb t"
  show "\<exists>t'. for_range (\<lambda>dx fb. write_pixel fb (vx pos + int dx) (vy pos + int dy) c) 0 (nat (vx sz)) t = Some t' \<and>
      changed_within (points (with_size pos sz)) t t'"
  proof (rule for_range_changed[OF changed_within_wf[OF t]])
    fix dx u assume dx: "dx < nat (vx sz)" and u: "changed_within (points (with_size pos sz)) t u"
    show "\<exists>u'. write_pixel u (vx pos + int dx) (vy pos + int dy) c = Some u' \<and> changed_within (points (with_size pos sz)) u u'"
      using assms(2) dx dy by (intro write_pixel_changed[OF changed_within_step[OF t u]]) (auto simp: vec_in_with_size)
  qed
qed

lemma draw_rectangle_changed:
  assumes wf: "wf_frame_buffer fb" and S: "points (with_size pos sz) \<subseteq> points (buffer_rect fb)" and sz: "0 < vx sz" "0 < vy sz"
  shows "\<exists>fb'. draw_rectangle fb pos sz c = Some fb' \<and> changed_within (points (with_size pos sz)) fb fb'"
proof -
  let ?S = "points (with_size pos sz)"
  have two: "\<exists>t'. (do { u \<leftarrow> write_pixel t x y c; write_pixel u x' y' c }) = Some t' \<and> changed_within ?S t t'"
    if t: "changed_within ?S fb t" and xy: "vec x y \<in> ?S" "vec x' y' \<in> ?S" for t x y x' y'
  proof -
    obtain u where u: "write_pixel t x y c = Some u" "changed_within ?S t u" using write_pixel_changed[OF t xy(1) S] by blast
    obtain v where v: "write_pixel u x' y' c = Some v" "changed_within ?S u v"
      using write_pixel_changed[OF changed_within_step[OF t u(2)] xy(2) S] by blast
    then show ?thesis using u changed_within_step[OF u(2) v(2)] by simp
  qed
  have "\<exists>t. for_range (\<lambda>dx fb. do {
         fb \<leftarrow> write_pixel fb (vx pos + int dx) (vy pos) c;
         write_pixel fb (vx pos + int dx) (vy pos + vy sz - 1) c }) 0 (nat (vx sz)) fb = Some t \<and> changed_within ?S fb t"
    using sz by (intro for_range_changed[OF wf] two) (auto simp: vec_in_with_size)
  then obtain t where t: "for_range (\<lambda>dx fb. do {
         fb \<leftarrow> write_pixel fb (vx pos + int dx) (vy pos) c;
         write_pixel fb (vx pos + int dx) (vy pos + vy sz - 1) c }) 0 (nat (vx sz)) fb = Some t" "changed_within ?S fb t"
    by blast
  have "\<exists>u. for_range (\<lambda>dy fb. do {
         fb \<leftarrow> write_pixel fb (vx pos) (vy pos + int dy) c;
         write_pixel fb (vx pos + vx sz - 1) (vy pos + int dy) c }) 0 (nat (vy sz)) t = Some u \<and> changed_within ?S t u"
    using sz by (intro for_range_changed[OF changed_within_wf[OF t(2)]] two)
      (auto simp: vec_in_with_size intro: changed_within_step[OF t(2)])
  then show ?thesis using t changed_within_step[OF t(2)] by (auto simp: draw_rectangle_def)
qed

definition font_ok :: "u8 list \<Rightarrow> bool" where
  "font_ok font \<longleftrightarrow> length font mod 16 = 0 \<and> length font < 2 ^ 64"

lemma get_font_bound:
  assumes "font_ok font" and "get_font font c = Some f" and "dy < 16"
  shows "f + dy < length font"
proof -
  define index where "index = 16 * (scast c :: u32)"
  have len: "length font < 2 ^ 64" "length font mod 16 = 0" using assms(1) by (auto simp: font_ok_def)
  have f: "f = unat index" and "\<not> of_nat (length font) \<le> (ucast index :: u64)"
    using assms(2) by (auto simp: get_font_def index_def Let_def split: if_splits)
  then have "unat (ucast index :: u64) < unat (of_nat (length font) :: u64)" by (simp add: word_le_nat_alt not_le)
  moreover have "unat (of_nat (length font) :: u64) = length font" using len(1) by (simp add: unat_of_nat)
  moreover have "unat (ucast index :: u64) = unat index" 
  proof -
    have "unat index < 2 ^ 64" using unat_lt2p[of index] by simp
    then show ?thesis by (simp add: unsigned_ucast_eq take_bit_nat_eq_self)
  qed
  ultimately have lt: "f < length font" using f by simp
  have "(16::nat) dvd unat index"
  proof -
    have "unat index = (16 * unat (scast c :: u32)) mod 2 ^ 32" by (simp add: index_def unat_word_ariths)
    moreover have "(16::nat) dvd 2 ^ 32" by simp
    ultimately show ?thesis by (simp add: dvd_mod)
  qed
  then obtain k where k: "f = 16 * k" using f by blast
  obtain n where n: "length font = 16 * n" using len(2) by (metis mod_0_imp_dvd dvdE)
  then have "k < n" using lt k by simp
  then show ?thesis using k n assms(3) by simp
qed

lemma write_ascii_changed:
  assumes wf: "wf_frame_buffer fb" and font: "font_ok font" and S: "points (with_size (vec x y) (vec 8 16)) \<subseteq> points (buffer_rect fb)"
  shows "\<exists>fb'. write_ascii font fb x y ch c = Some fb' \<and> changed_within (points (with_size (vec x y) (vec 8 16))) fb fb'"
proof (cases "get_font font ch")
  case None
  then show ?thesis using wf by (simp add: write_ascii_def)
next
  case (Some f)
  let ?S = "points (with_size (vec x y) (vec 8 16))"
  show ?thesis unfolding write_ascii_def Some option.case
  proof (rule for_range_changed[OF wf], rule for_range_changed[OF changed_within_wf])
    fix dy dx :: nat and t u assume dy: "dy < 16" and t: "changed_within ?S fb t" and dx: "dx < 8" and u: "changed_within ?S t u"
    have "\<not> length font \<le> f + dy" using get_font_bound[OF font Some dy] by simp
    moreover have "vec (x + int dx) (y + int dy) \<in> ?S" using dx dy by (simp add: vec_in_with_size)
    ultimately show "\<exists>u'. (if length font \<le> f + dy then None
        else if push_bit dx (ucast (font ! (f + dy)) :: u32) AND 0x80 \<noteq> 0 then write_pixel u (x + int dx) (y + int dy) c else Some u) = Some u' \<and>
        changed_within ?S u u'"
      using write_pixel_changed[OF changed_within_step[OF t u] _ S] changed_within_wf[OF u] by auto
  qed assumption
qed

lemma write_string_changed:
  assumes "wf_frame_buffer fb" and "font_ok font"
    and "points (with_size (vec (x + int i * 8) y) (vec (int (length str) * 8) 16)) \<subseteq> S" and "S \<subseteq> points (buffer_rect fb)"
  shows "\<exists>fb'. write_string_from font fb x y i str c = Some fb' \<and> changed_within S fb fb'"
  using assms
proof (induction str arbitrary: i fb)
  case (Cons ch str)
  have sub: "points (with_size (vec (x + int i * 8) y) (vec 8 16)) \<subseteq> S"
      "points (with_size (vec (x + int (Suc i) * 8) y) (vec (int (length str) * 8) 16)) \<subseteq> S"
    using Cons.prems(3) by (auto simp: points_def subset_iff)
  obtain t where t: "write_ascii font fb (x + int i * 8) y ch c = Some t" "changed_within S fb t"
    using write_ascii_changed[OF Cons.prems(1,2)] sub(1) Cons.prems(4) changed_within_mono by (meson subset_trans)
  have "\<exists>fb'. write_string_from font t x y (Suc i) str c = Some fb' \<and> changed_within S t fb'"
    using Cons.prems(2,4) sub(2) changed_within_wf[OF t(2)] changed_within_buffer_rect[OF t(2)] by (intro Cons.IH) auto
  then show ?case using t changed_within_step[OF t(2)] by auto
qed simp

lemma copy_self_y_changed:
  assumes wf: "wf_frame_buffer fb" and y: "0 \<le> dst_y" "0 \<le> src_y" "0 \<le> n"
    and fits: "dst_y + n \<le> int (vertical_resolution fb)" "src_y + n \<le> int (vertical_resolution fb)"
    and small: "pixels_per_scan_line fb * (vertical_resolution fb) < 2 ^ 31"
  shows "\<exists>fb'. copy_self_y fb dst_y src_y n = Some fb' \<and>
    changed_within (points (rect 0 dst_y (int (horizontal_resolution fb)) (dst_y + n))) fb fb'"
proof -
  define b N P where "b = bytes_per_pixel (pixel_format fb)" and "N = pixels_per_scan_line fb * vertical_resolution fb"
    and "P = pixels_per_scan_line fb"
  have len: "length (memory fb) = b * N" using wf unfolding wf_frame_buffer_def buffer_size_alt b_def N_def by simp
  have bound: "P * nat a \<le> N" if "0 \<le> a" "a \<le> int (vertical_resolution fb)" for a
    unfolding N_def P_def using that by (intro mult_le_mono2) simp
  have addr: "frame_addr_at fb (vec 0 a) = Some (b * (P * nat a))" if "0 \<le> a" "a \<le> int (vertical_resolution fb)" for a
  proof -
    have "int P * a = int (P * nat a)" using that by simp
    moreover have "P * nat a < 2 ^ 31" using le_less_trans[OF bound[OF that]] small by (simp add: N_def)
    then have "int (P * nat a) < int (2 ^ 31)" by (simp only: of_nat_less_iff)
    then have "\<not> 2 ^ 32 \<le> int (P * nat a)" by (simp del: of_nat_mult)
    moreover have "\<not> int P * a < 0" using that by (simp add: not_less)
    ultimately have "\<not> int P * a < 0" "\<not> 2 ^ 32 \<le> int P * a" "nat (int P * a) = P * nat a"
      using that by (simp_all add: nat_mult_distrib)
    then show ?thesis by (simp add: frame_addr_at_def Let_def b_def flip: P_def)
  qed
  have "P * nat dst_y + P * nat n \<le> N" "P * nat src_y + P * nat n \<le> N"
    using bound[of "dst_y + n"] bound[of "src_y + n"] y fits by (simp_all add: nat_add_distrib distrib_left)
  then obtain m where m: "mem_copy (memory fb) (b * (P * nat dst_y)) (memory fb) (b * (P * nat src_y)) (b * (P * nat n)) = Some m"
      "length m = b * N" using mem_copy_Some[OF len len] by blast
  have eq: "copy_self_y fb dst_y src_y n = Some (fb\<lparr>memory := m\<rparr>)"
    using y fits m(1) addr by (simp add: copy_self_y_def bytes_per_scan_line_def b_def P_def mult.left_commute mult.commute)
  have "pixel (fb\<lparr>memory := m\<rparr>) p = pixel fb p"
    if p: "includes_point (buffer_rect fb) p" "p \<notin> points (rect 0 dst_y (int (horizontal_resolution fb)) (dst_y + n))" for p
  proof -
    have p': "0 \<le> vx p" "0 \<le> vy p" "vx p < int (horizontal_resolution fb)" using p(1) by (auto simp: buffer_rect_def fb_size_def)
    have hr: "horizontal_resolution fb \<le> P" using wf by (simp add: wf_frame_buffer_def P_def)
    have out: "vy p < dst_y \<or> dst_y + n \<le> vy p" using p p' by (auto simp: points_def includes_point_def)
    have "pixel_index fb p < P * nat dst_y \<or> P * nat dst_y + P * nat n \<le> pixel_index fb p"
    proof (cases "vy p < dst_y")
      case True
      then have "P * Suc (nat (vy p)) \<le> P * nat dst_y" using p' by (intro mult_le_mono2) simp
      then show ?thesis using p' hr by (simp add: pixel_index_def flip: P_def) linarith
    next
      case False
      then have "P * (nat dst_y + nat n) \<le> P * nat (vy p)" using out y by (intro mult_le_mono2) simp
      then show ?thesis by (simp add: pixel_index_def distrib_left flip: P_def)
    qed
    then have "cell b m (pixel_index fb p) = cell b (memory fb) (pixel_index fb p)"
    proof (rule cell_mem_copy_outside[OF m(1)])
      show "b * Suc (pixel_index fb p) \<le> length (memory fb)"
        unfolding len using pixel_index_less[OF wf p(1)] by (intro mult_le_mono2) (simp add: N_def)
    qed
    then show ?thesis unfolding pixel_memory_update by (simp add: pixel_def b_def)
  qed
  moreover have "wf_frame_buffer (fb\<lparr>memory := m\<rparr>)" using wf m(2) by (simp add: wf_frame_buffer_def buffer_size_def b_def N_def)
  ultimately show ?thesis using eq by (auto simp: changed_within_def)
qed

end
