(* ===== verification/Painting.thy ===== *)
theory Painting
  imports Painter
begin

text \<open>
  Painting sessions: a painter is started on a layer, draws, and ends. The damage it reports
  covers everything it has drawn, so that the screen shows it afterwards.
\<close>

subsection \<open>What a painter has changed is in its damage\<close>

definition painter_region :: "painter \<Rightarrow> vec set" where
  "painter_region p = (if p_damaged p then points (rect_of (p_top_left p) (p_bottom_right p)) else {})"

definition painter_inv :: "frame_buffer \<Rightarrow> painter \<Rightarrow> bool" where
  "painter_inv fb p \<longleftrightarrow> changed_within (painter_region p) fb (p_buffer p) \<and> (\<not> p_damaged p \<longrightarrow> p_buffer p = fb)"

lemma raw_damage_region: "painter_region p \<union> points r \<subseteq> painter_region (raw_damage p r)"
proof (cases "p_damaged p")
  case True
  have "rect_of (p_top_left (raw_damage p r)) (p_bottom_right (raw_damage p r)) = rect_merge (rect_of (p_top_left p) (p_bottom_right p)) r"
    using True by (simp add: raw_damage_def rect_merge_def rect_of_def)
  then show ?thesis using True points_merge[of "rect_of (p_top_left p) (p_bottom_right p)" r]
    by (simp add: painter_region_def raw_damage_def)
next
  case False
  then show ?thesis by (simp add: painter_region_def raw_damage_def points_def includes_point_def subset_iff)
qed

lemma raw_damage_buffer [simp]: "p_buffer (raw_damage p r) = p_buffer p" "p_damaged (raw_damage p r)"
  by (simp_all add: raw_damage_def)

lemma painter_inv_draw:
  assumes "painter_inv fb p" and "changed_within (points r) (p_buffer p) fb'"
  shows "painter_inv fb (raw_damage (p\<lparr>p_buffer := fb'\<rparr>) r)"
proof -
  have "changed_within (painter_region p \<union> points r) fb fb'"
    using assms unfolding painter_inv_def by (auto intro: changed_within_trans)
  moreover have "painter_region (p\<lparr>p_buffer := fb'\<rparr>) = painter_region p" by (simp add: painter_region_def)
  ultimately show ?thesis using raw_damage_region[of "p\<lparr>p_buffer := fb'\<rparr>" r] changed_within_mono
    unfolding painter_inv_def by (simp add: changed_within_mono)
qed

lemma painter_inv_buffer:
  assumes "painter_inv fb p"
  shows "wf_frame_buffer (p_buffer p)" "buffer_rect (p_buffer p) = buffer_rect fb" "fb_size (p_buffer p) = fb_size fb"
proof -
  have "changed_within (painter_region p) fb (p_buffer p)" using assms by (simp add: painter_inv_def)
  then show "wf_frame_buffer (p_buffer p)" "buffer_rect (p_buffer p) = buffer_rect fb" "fb_size (p_buffer p) = fb_size fb"
    by (rule changed_within_wf changed_within_buffer_rect changed_within_fb_size)+
qed

subsection \<open>Sequences of drawing operations\<close>

datatype paint_op =
    Copy_Y int int int
  | Rectangle rect pixel_color
  | Filled rect pixel_color
  | Ascii vec u8 pixel_color
  | Text vec "u8 list" pixel_color

fun paint_step :: "u8 list \<Rightarrow> painter \<Rightarrow> paint_op \<Rightarrow> painter option" where
  "paint_step font p (Copy_Y dst_y src_y src_end_y) = painter_copy_y p dst_y src_y src_end_y"
| "paint_step font p (Rectangle r c) = painter_draw_rectangle p r c"
| "paint_step font p (Filled r c) = painter_draw_filled_rectangle p r c"
| "paint_step font p (Ascii pos ch c) = painter_draw_ascii font p pos ch c"
| "paint_step font p (Text pos str c) = painter_draw_string font p pos str c"

fun paint_run :: "u8 list \<Rightarrow> painter \<Rightarrow> paint_op list \<Rightarrow> painter option" where
  "paint_run font p [] = Some p"
| "paint_run font p (a # as) = do { p' \<leftarrow> paint_step font p a; paint_run font p' as }"

text \<open>The operation stays inside a buffer of the given size; the code does not clip.\<close>

fun paint_fits :: "vec \<Rightarrow> paint_op \<Rightarrow> bool" where
  "paint_fits sz (Copy_Y dst_y src_y src_end_y) \<longleftrightarrow>
     0 \<le> dst_y \<and> 0 \<le> src_y \<and> src_y \<le> src_end_y \<and> src_end_y \<le> vy sz \<and> dst_y + (src_end_y - src_y) \<le> vy sz"
| "paint_fits sz (Rectangle r c) \<longleftrightarrow> includes_rect (with_size (vec 0 0) sz) r \<and> 0 < width r \<and> 0 < height r"
| "paint_fits sz (Filled r c) \<longleftrightarrow> includes_rect (with_size (vec 0 0) sz) r"
| "paint_fits sz (Ascii pos ch c) \<longleftrightarrow> includes_rect (with_size (vec 0 0) sz) (with_size pos (vec 8 16))"
| "paint_fits sz (Text pos str c) \<longleftrightarrow> includes_rect (with_size (vec 0 0) sz) (with_size pos (vec (int (length str) * 8) 16))"

lemma points_with_size_self: "points (with_size (top_left r) (rect_size r)) = points r"
  by (auto simp: points_def includes_point_def with_size_def)

lemma paint_step_inv:
  assumes inv: "painter_inv fb p" and font: "font_ok font" and fits: "paint_fits (fb_size fb) a"
  shows "\<exists>p'. paint_step font p a = Some p' \<and> painter_inv fb p'"
proof -
  note buf = painter_inv_buffer[OF inv]
  have inside: "points r \<subseteq> points (buffer_rect (p_buffer p))" if "includes_rect (with_size (vec 0 0) (fb_size fb)) r" for r
    using points_includes[OF that] buf by (simp add: buffer_rect_def)
  show ?thesis
  proof (cases a)
    case (Copy_Y d s e)
    have vr: "int (vertical_resolution (p_buffer p)) = vy (fb_size fb)" "int (horizontal_resolution (p_buffer p)) = vx (fb_size fb)"
      using buf(3) by (auto simp: fb_size_def vec_def)
    obtain fb' where fb': "copy_self_y (p_buffer p) d s (e - s) = Some fb'"
        "changed_within (points (rect 0 d (int (horizontal_resolution (p_buffer p))) (d + (e - s)))) (p_buffer p) fb'"
      using copy_self_y_changed[OF buf(1), of d s "e - s"] fits vr buf(1) by (auto simp: Copy_Y wf_frame_buffer_def)
    moreover have "vx (fb_size fb') = int (horizontal_resolution (p_buffer p))"
      using changed_within_fb_size[OF fb'(2)] by (simp add: fb_size_def)
    ultimately show ?thesis using painter_inv_draw[OF inv fb'(2)] by (simp add: Copy_Y painter_copy_y_def Let_def)
  next
    case (Rectangle r c)
    then obtain fb' where "draw_rectangle (p_buffer p) (top_left r) (rect_size r) c = Some fb'" "changed_within (points r) (p_buffer p) fb'"
      using draw_rectangle_changed[OF buf(1), of "top_left r" "rect_size r" c] inside[of r] fits
      by (auto simp: points_with_size_self width_def height_def)
    then show ?thesis using painter_inv_draw[OF inv] by (simp add: Rectangle painter_draw_rectangle_def)
  next
    case (Filled r c)
    then obtain fb' where "draw_filled_rectangle (p_buffer p) (top_left r) (rect_size r) c = Some fb'" "changed_within (points r) (p_buffer p) fb'"
      using draw_filled_rectangle_changed[OF buf(1), of "top_left r" "rect_size r" c] inside[of r] fits
      by (auto simp: points_with_size_self)
    then show ?thesis using painter_inv_draw[OF inv] by (simp add: Filled painter_draw_filled_rectangle_def)
  next
    case (Ascii pos ch c)
    have pos: "vec (vx pos) (vy pos) = pos" by (simp add: vec_def)
    from Ascii obtain fb' where "write_ascii font (p_buffer p) (vx pos) (vy pos) ch c = Some fb'"
        "changed_within (points (with_size pos (vec 8 16))) (p_buffer p) fb'"
      using write_ascii_changed[OF buf(1) font, of "vx pos" "vy pos" ch c] inside fits unfolding pos by auto
    then show ?thesis using painter_inv_draw[OF inv] by (simp add: Ascii painter_draw_ascii_def)
  next
    case (Text pos str c)
    have pos: "vec (vx pos) (vy pos) = pos" by (simp add: vec_def)
    from Text obtain fb' where "write_string_from font (p_buffer p) (vx pos) (vy pos) 0 str c = Some fb'"
        "changed_within (points (with_size pos (vec (int (length str) * 8) 16))) (p_buffer p) fb'"
      using write_string_changed[OF buf(1) font, of "vx pos" 0 "vy pos" str "points (with_size pos (vec (int (length str) * 8) 16))" c]
        inside[of "with_size pos (vec (int (length str) * 8) 16)"] fits by (auto simp: pos)
    then show ?thesis using painter_inv_draw[OF inv] by (simp add: Text painter_draw_string_def)
  qed
qed

lemma paint_run_inv:
  assumes "painter_inv fb p" and "font_ok font" and "\<forall>a\<in>set as. paint_fits (fb_size fb) a"
  shows "\<exists>p'. paint_run font p as = Some p' \<and> painter_inv fb p' \<and> (as \<noteq> [] \<or> p_damaged p \<longrightarrow> p_damaged p')"
  using assms
proof (induction "as" arbitrary: p)
  case (Cons a "as")
  from Cons.prems paint_step_inv[of fb p font a] obtain p1 where p1: "paint_step font p a = Some p1" "painter_inv fb p1" by auto
  have "p_damaged p1"
    using p1(1) by (cases a) (auto simp: painter_copy_y_def painter_draw_rectangle_def painter_draw_filled_rectangle_def
      painter_draw_ascii_def painter_draw_string_def Let_def bind_eq_Some_conv)
  then show ?case using Cons.IH[OF p1(2)] Cons.prems p1(1) by auto
qed simp

subsection \<open>The end of a session\<close>

lemma update_layer_same:
  assumes "wf_manager mgr" and "find_layer mgr lid = Some l"
  shows "update_layer mgr lid (\<lambda>k. k\<lparr>l_buffer := l_buffer l\<rparr>) = mgr"
proof -
  have "(if l_id k = lid then k\<lparr>l_buffer := l_buffer l\<rparr> else k) = k" if "k \<in> set (lm_layers mgr)" for k
    using find_layer_iff[OF assms(1), of lid k] that assms(2) by auto
  then have "map (\<lambda>k. if l_id k = lid then k\<lparr>l_buffer := l_buffer l\<rparr> else k) (lm_layers mgr) = lm_layers mgr" by (rule map_idI)
  then show ?thesis by (simp add: update_layer_def)
qed

lemma painter_end_current:
  assumes cur: "screen_current mgr" and l: "find_layer mgr lid = Some l" and inv: "painter_inv (l_buffer l) p"
  shows "\<exists>mgr'. painter_end mgr lid p = Some mgr' \<and> screen_current mgr' \<and> lm_stack mgr' = lm_stack mgr \<and>
    map_option buffer_rect (lm_buffer mgr') = map_option buffer_rect (lm_buffer mgr)"
proof -
  have wf: "wf_manager mgr" using cur by (simp add: screen_current_def)
  have ch: "changed_within (painter_region p) (l_buffer l) (p_buffer p)" using inv by (simp add: painter_inv_def)
  show ?thesis
  proof (cases "p_damaged p")
    case True
    then have "changed_within (points (rect_of (p_top_left p) (p_bottom_right p))) (l_buffer l) (p_buffer p)"
      using ch by (simp add: painter_region_def)
    then have "\<exists>mgr'. layer_damage (update_layer mgr lid (\<lambda>l. l\<lparr>l_buffer := p_buffer p\<rparr>)) lid [rect_of (p_top_left p) (p_bottom_right p)] = Some mgr' \<and>
        screen_current mgr' \<and> lm_stack mgr' = lm_stack mgr \<and> map_option buffer_rect (lm_buffer mgr') = map_option buffer_rect (lm_buffer mgr)"
      using changed_within_wf[OF ch] changed_within_fb_size[OF ch] changed_within_format[OF ch] changed_within_buffer_rect[OF ch]
      by (intro paint_current[OF cur l]) (auto simp: changed_within_def)
    then show ?thesis using True by (simp add: painter_end_def)
  next
    case False
    then have "p_buffer p = l_buffer l" using inv by (simp add: painter_inv_def)
    then show ?thesis using False cur update_layer_same[OF wf l] by (simp add: painter_end_def)
  qed
qed

text \<open>Claim C21.
  A painting session: any sequence of drawing operations that stay inside the layer succeeds,
  and when the painter ends, the damage it has gathered is enough for the screen to show the
  layer's new contents, whatever is in front of it.
\<close>

theorem painting_shows:
  assumes cur: "screen_current mgr" and l: "find_layer mgr lid = Some l" and font: "font_ok font"
    and fits: "\<forall>a\<in>set as. paint_fits (layer_size l) a"
  shows "\<exists>p mgr'. paint_run font (start_paint l) as = Some p \<and> painter_end mgr lid p = Some mgr' \<and> screen_current mgr' \<and>
    lm_stack mgr' = lm_stack mgr \<and> map_option buffer_rect (lm_buffer mgr') = map_option buffer_rect (lm_buffer mgr)"
proof -
  have wf: "wf_manager mgr" using cur by (simp add: screen_current_def)
  then have "wf_frame_buffer (l_buffer l)" using l find_layer_iff[OF wf] by (auto simp: wf_manager_def layer_ok_def)
  then have "painter_inv (l_buffer l) (start_paint l)" by (simp add: painter_inv_def start_paint_def)
  from paint_run_inv[OF this font] fits obtain p where p: "paint_run font (start_paint l) as = Some p" "painter_inv (l_buffer l) p"
    unfolding layer_size_def by blast
  with painter_end_current[OF cur l p(2)] show ?thesis by blast
qed

theorem painting_shows_witness:
  "\<exists>mgr p mgr'. screen_current mgr \<and>
     paint_run (replicate 16 0x80) (start_paint (demo_layer 2 20)) [Filled (rect 0 0 1 1) (pixel_color_of 0x102030)] = Some p \<and>
     painter_end mgr 2 p = Some mgr' \<and> screen_current mgr'"
proof -
  obtain mgr where mgr: "screen_current mgr" "lm_stack mgr = [1, 2, 3]" "lm_layers mgr = lm_layers (demo_manager True)"
    by (rule demo_screen)
  have "find_layer mgr 2 = Some (demo_layer 2 20)" by (simp add: find_layer_def mgr(3) demo_manager_def demo_layer_def)
  from painting_shows[OF mgr(1) this, of "replicate 16 0x80" "[Filled (rect 0 0 1 1) (pixel_color_of 0x102030)]"] mgr(1)
  show ?thesis by (auto simp: font_ok_def layer_size_def demo_layer_def includes_rect_def with_size_def)
qed

end
