(* ===== verification/Console.thy ===== *)
theory Console
  imports Painting
begin

text \<open>
  The two text consoles of \<open>src/kernel/graphics/console.cpp\<close>. \<open>Console\<close> keeps the text and draws it
  through a pixel writer, if it has one; \<open>FastConsole\<close> keeps only the cursor and paints on a layer.
  Strings are lists of characters without the terminating zero.
\<close>

definition rows :: nat where
  "rows = 25"

definition columns :: nat where
  "columns = 80"

definition newline :: u8 where
  "newline = 10"

subsection \<open>Console\<close>

record console =
  c_writer :: "frame_buffer option"
  c_fg_color :: pixel_color
  c_bg_color :: pixel_color
  c_buffer :: "u8 list list"
  c_row :: nat
  c_column :: nat

definition new_console :: "pixel_color \<Rightarrow> pixel_color \<Rightarrow> console" where
  "new_console fg bg =
     \<lparr>c_writer = None, c_fg_color = fg, c_bg_color = bg, c_buffer = replicate rows (replicate columns 0), c_row = 0, c_column = 0\<rparr>"

definition draw_char_at :: "u8 list \<Rightarrow> console \<Rightarrow> frame_buffer \<Rightarrow> nat \<Rightarrow> nat \<Rightarrow> u8 \<Rightarrow> frame_buffer option" where
  "draw_char_at font con fb x y c =
     (if c = 0 then Some fb else write_ascii font fb (int x * 8) (int y * 16) c (c_fg_color con))"

definition redraw_console :: "u8 list \<Rightarrow> console \<Rightarrow> console option" where
  "redraw_console font con =
     (case c_writer con of
        None \<Rightarrow> Some con
      | Some fb \<Rightarrow> do {
          fb \<leftarrow> for_range (\<lambda>y fb. for_range (\<lambda>x fb. write_pixel fb (int x) (int y) (c_bg_color con)) 0 (8 * columns) fb) 0 (16 * rows) fb;
          fb \<leftarrow> for_range (\<lambda>y fb. for_range (\<lambda>x fb. draw_char_at font con fb x y (c_buffer con ! y ! x)) 0 columns fb) 0 rows fb;
          Some (con\<lparr>c_writer := Some fb\<rparr>) })"

definition set_pixel_writer :: "u8 list \<Rightarrow> console \<Rightarrow> frame_buffer option \<Rightarrow> console option" where
  "set_pixel_writer font con writer = redraw_console font (con\<lparr>c_writer := writer\<rparr>)"

text \<open>The rows of the array are contiguous: \<open>memmove\<close> moves all of them up by one.\<close>

definition console_new_line :: "u8 list \<Rightarrow> console \<Rightarrow> console option" where
  "console_new_line font con =
     (let con = con\<lparr>c_column := 0\<rparr>
      in if c_row con < rows - 1 then Some (con\<lparr>c_row := c_row con + 1\<rparr>)
         else redraw_console font (con\<lparr>c_buffer := drop 1 (c_buffer con) @ [replicate columns 0]\<rparr>))"

text \<open>
  One character. The jump back to \<open>retry\<close> happens at most once, because the column is 0 after a new
  line.
\<close>

definition console_put_printable :: "u8 list \<Rightarrow> console \<Rightarrow> u8 \<Rightarrow> console option" where
  "console_put_printable font con c = do {
     writer \<leftarrow> (case c_writer con of
        None \<Rightarrow> Some None
      | Some fb \<Rightarrow> map_option Some (draw_char_at font con fb (c_column con) (c_row con) c));
     Some (con\<lparr>c_writer := writer, c_buffer := (c_buffer con)[c_row con := (c_buffer con ! c_row con)[c_column con := c]],
       c_column := c_column con + 1\<rparr>) }"

definition console_put_char :: "u8 list \<Rightarrow> console \<Rightarrow> u8 \<Rightarrow> console option" where
  "console_put_char font con c =
     (if c = newline then console_new_line font con
      else if c_column con < columns then console_put_printable font con c
      else do { con \<leftarrow> console_new_line font con; console_put_printable font con c })"

fun console_put_string :: "u8 list \<Rightarrow> console \<Rightarrow> u8 list \<Rightarrow> console option" where
  "console_put_string font con [] = Some con"
| "console_put_string font con (c # s) = do { con \<leftarrow> console_put_char font con c; console_put_string font con s }"

subsection \<open>FastConsole\<close>

record fast_console =
  f_fg_color :: pixel_color
  f_bg_color :: pixel_color
  f_row :: nat
  f_column :: nat

definition new_fast_console :: "pixel_color \<Rightarrow> pixel_color \<Rightarrow> painter \<Rightarrow> (fast_console \<times> painter) option" where
  "new_fast_console fg bg p = do {
     p \<leftarrow> painter_draw_filled_rectangle p (rect 0 0 (8 * int columns) (16 * int rows)) bg;
     Some (\<lparr>f_fg_color = fg, f_bg_color = bg, f_row = 0, f_column = 0\<rparr>, p) }"

definition fast_new_line :: "fast_console \<Rightarrow> painter \<Rightarrow> (fast_console \<times> painter) option" where
  "fast_new_line con p =
     (let con = con\<lparr>f_column := 0\<rparr>
      in if f_row con < rows - 1 then Some (con\<lparr>f_row := f_row con + 1\<rparr>, p)
         else do {
           p \<leftarrow> painter_copy_y p 0 16 (int rows * 16);
           p \<leftarrow> painter_draw_filled_rectangle p
                 (rect 0 (int (f_row con) * 16) (8 * int columns) ((int (f_row con) + 1) * 16)) (f_bg_color con);
           Some (con, p) })"

definition fast_put_printable :: "u8 list \<Rightarrow> fast_console \<Rightarrow> painter \<Rightarrow> u8 \<Rightarrow> (fast_console \<times> painter) option" where
  "fast_put_printable font con p c = do {
     p \<leftarrow> painter_draw_ascii font p (vec (int (f_column con) * 8) (int (f_row con) * 16)) c (f_fg_color con);
     Some (con\<lparr>f_column := f_column con + 1\<rparr>, p) }"

definition fast_put_char :: "u8 list \<Rightarrow> fast_console \<Rightarrow> painter \<Rightarrow> u8 \<Rightarrow> (fast_console \<times> painter) option" where
  "fast_put_char font con p c =
     (if c = newline then fast_new_line con p
      else if f_column con < columns then fast_put_printable font con p c
      else do { (con, p) \<leftarrow> fast_new_line con p; fast_put_printable font con p c })"

fun fast_put_chars :: "u8 list \<Rightarrow> fast_console \<Rightarrow> painter \<Rightarrow> u8 list \<Rightarrow> (fast_console \<times> painter) option" where
  "fast_put_chars font con p [] = Some (con, p)"
| "fast_put_chars font con p (c # s) = do { (con, p) \<leftarrow> fast_put_char font con p c; fast_put_chars font con p s }"

text \<open>The painter lives as long as the call, and its end reports the damage.\<close>

definition fast_put_string ::
    "u8 list \<Rightarrow> layer_manager \<Rightarrow> layer_id \<Rightarrow> fast_console \<Rightarrow> u8 list \<Rightarrow> (fast_console \<times> layer_manager) option" where
  "fast_put_string font mgr lid con s = do {
     l \<leftarrow> find_layer mgr lid;
     (con, p) \<leftarrow> fast_put_chars font con (start_paint l) s;
     mgr \<leftarrow> painter_end mgr lid p;
     Some (con, mgr) }"

subsection \<open>The text of a console\<close>

text \<open>
  The specification: a terminal without a limit on the number of lines. A line takes up to
  \<open>columns\<close> characters; the next character starts a new line.
\<close>

definition terminal_put :: "u8 list list \<Rightarrow> u8 \<Rightarrow> u8 list list" where
  "terminal_put ls c =
     (if c = newline then ls @ [[]]
      else if length (last ls) < columns then butlast ls @ [last ls @ [c]]
      else ls @ [[c]])"

definition terminal_text :: "u8 list \<Rightarrow> u8 list list" where
  "terminal_text s = foldl terminal_put [[]] s"

definition padded :: "u8 list \<Rightarrow> u8 list" where
  "padded l = l @ replicate (columns - length l) 0"

definition visible_lines :: "u8 list list \<Rightarrow> u8 list list" where
  "visible_lines ls = drop (length ls - rows) ls"

definition screen_text :: "u8 list list \<Rightarrow> u8 list list" where
  "screen_text ls = map padded (visible_lines ls) @ replicate (rows - length (visible_lines ls)) (replicate columns 0)"

definition console_shows :: "console \<Rightarrow> u8 list list \<Rightarrow> bool" where
  "console_shows con ls \<longleftrightarrow>
     ls \<noteq> [] \<and> (\<forall>l\<in>set ls. length l \<le> columns) \<and> c_buffer con = screen_text ls \<and>
     c_row con = length (visible_lines ls) - 1 \<and> c_column con = length (last ls)"

lemma rows_columns: "rows = 25" "columns = 80" "0 < rows" "0 < columns"
  by (simp_all add: rows_def columns_def)

lemma length_visible: "length (visible_lines ls) = min (length ls) rows"
  by (simp add: visible_lines_def)

lemma padded_Nil: "padded [] = replicate columns 0"
  by (simp add: padded_def)

text \<open>A new line, while there is room on the screen and when it scrolls.\<close>

lemma screen_text_new_line:
  assumes "length ls < rows"
  shows "screen_text (ls @ [[]]) = screen_text ls"
proof -
  have "rows - length ls = Suc (rows - Suc (length ls))" using assms by simp
  then have "replicate (rows - length ls) (replicate columns (0::u8)) = padded [] # replicate (rows - Suc (length ls)) (replicate columns 0)"
    by (simp add: padded_Nil)
  then show ?thesis using assms by (simp add: screen_text_def visible_lines_def)
qed

lemma screen_text_scroll:
  assumes "rows \<le> length ls"
  shows "screen_text (ls @ [[]]) = drop 1 (screen_text ls) @ [replicate columns 0]"
proof -
  have "visible_lines (ls @ [[]]) = drop 1 (visible_lines ls) @ [[]]"
    using assms rows_columns by (simp add: visible_lines_def Suc_diff_le)
  moreover have "length (visible_lines ls) = rows" using assms by (simp add: length_visible)
  ultimately show ?thesis using rows_columns by (simp add: screen_text_def drop_map padded_Nil)
qed

lemma screen_text_put:
  assumes "ls \<noteq> []" and "length (last ls) < columns"
  defines "r \<equiv> length (visible_lines ls) - 1"
  shows "screen_text (butlast ls @ [last ls @ [c]]) = (screen_text ls)[r := (screen_text ls ! r)[length (last ls) := c]]"
proof -
  define vis where "vis = visible_lines ls"
  have vis: "vis \<noteq> []" "last vis = last ls" "visible_lines (butlast ls @ [last ls @ [c]]) = butlast vis @ [last ls @ [c]]"
  proof -
    have "length ls - rows < length ls" using assms(1) rows_columns(3) by (cases ls) auto
    moreover have "length (butlast ls @ [last ls @ [c]]) = length ls" using assms(1) by (cases ls) auto
    ultimately show "vis \<noteq> []" "last vis = last ls" "visible_lines (butlast ls @ [last ls @ [c]]) = butlast vis @ [last ls @ [c]]"
      by (simp_all add: vis_def visible_lines_def butlast_drop)
  qed
  define row where "row = padded (last ls)"
  have st: "screen_text ls = map padded (butlast vis) @ row # replicate (rows - length vis) (replicate columns 0)"
    using append_butlast_last_id[OF vis(1)] vis(2)
    by (metis (no_types, lifting) screen_text_def vis_def row_def map_append list.simps(8,9) append.assoc append_Cons append_Nil)
  have r: "r = length (map padded (butlast vis))" by (simp add: r_def vis_def)
  have "padded (last ls @ [c]) = row[length (last ls) := c]"
    using assms(2) by (auto simp: row_def padded_def list_update_append replicate_Suc[symmetric] Suc_diff_Suc simp del: replicate_Suc
        intro!: nth_equalityI simp: nth_append nth_list_update)
  moreover have "screen_text (butlast ls @ [last ls @ [c]]) =
      map padded (butlast vis) @ padded (last ls @ [c]) # replicate (rows - length vis) (replicate columns 0)"
    using vis by (simp add: screen_text_def)
  ultimately show ?thesis unfolding st r by (simp add: list_update_append nth_append)
qed

subsection \<open>Drawing succeeds\<close>

definition text_area :: rect where
  "text_area = rect 0 0 (8 * int columns) (16 * int rows)"

definition writer_ok :: "console \<Rightarrow> bool" where
  "writer_ok con \<longleftrightarrow> (\<forall>fb. c_writer con = Some fb \<longrightarrow> wf_frame_buffer fb \<and> points text_area \<subseteq> points (buffer_rect fb))"

lemma draw_char_at_changed:
  assumes "changed_within (points text_area) fb t" and "points text_area \<subseteq> points (buffer_rect fb)" and "font_ok font"
    and "x < columns" and "y < rows"
  shows "\<exists>t'. draw_char_at font con t x y c = Some t' \<and> changed_within (points text_area) t t'"
proof (cases "c = 0")
  case True
  then show ?thesis using changed_within_wf[OF assms(1)] by (simp add: draw_char_at_def)
next
  case False
  have sub: "points (with_size (vec (int x * 8) (int y * 16)) (vec 8 16)) \<subseteq> points text_area"
    using assms(4,5) by (auto simp: points_def text_area_def includes_point_def with_size_def)
  then obtain t' where "write_ascii font t (int x * 8) (int y * 16) c (c_fg_color con) = Some t'"
      "changed_within (points (with_size (vec (int x * 8) (int y * 16)) (vec 8 16))) t t'"
    using write_ascii_changed[OF changed_within_wf[OF assms(1)] assms(3)] assms(2) changed_within_buffer_rect[OF assms(1)] by (metis subset_trans)
  then show ?thesis using False sub changed_within_mono by (auto simp: draw_char_at_def)
qed

lemma redraw_console_ok:
  assumes "writer_ok con" and "font_ok font"
  shows "\<exists>w. redraw_console font con = Some (con\<lparr>c_writer := w\<rparr>) \<and> writer_ok (con\<lparr>c_writer := w\<rparr>) \<and>
    (\<forall>fb. c_writer con = Some fb \<longrightarrow> (\<exists>u. w = Some u \<and> changed_within (points text_area) fb u))"
proof (cases "c_writer con")
  case None
  have "con\<lparr>c_writer := None\<rparr> = con" using None by simp
  then show ?thesis using None by (intro exI[of _ None]) (simp add: redraw_console_def writer_ok_def)
next
  case (Some fb)
  let ?S = "points text_area"
  have fb: "wf_frame_buffer fb" "?S \<subseteq> points (buffer_rect fb)" using assms(1) Some by (auto simp: writer_ok_def)
  have "\<exists>t. for_range (\<lambda>y fb. for_range (\<lambda>x fb. write_pixel fb (int x) (int y) (c_bg_color con)) 0 (8 * columns) fb) 0 (16 * rows) fb = Some t \<and>
      changed_within ?S fb t"
  proof (rule for_range_changed[OF fb(1)], rule for_range_changed[OF changed_within_wf])
    fix y x :: nat and t u assume "y < 16 * rows" "changed_within ?S fb t" "x < 8 * columns" "changed_within ?S t u"
    then show "\<exists>u'. write_pixel u (int x) (int y) (c_bg_color con) = Some u' \<and> changed_within ?S u u'"
      using fb(2) by (intro write_pixel_changed[of ?S fb]) (auto intro: changed_within_step simp: points_def text_area_def includes_point_def)
  qed assumption
  then obtain t where t: "for_range (\<lambda>y fb. for_range (\<lambda>x fb. write_pixel fb (int x) (int y) (c_bg_color con)) 0 (8 * columns) fb) 0 (16 * rows) fb = Some t"
      "changed_within ?S fb t" by blast
  have "\<exists>u. for_range (\<lambda>y fb. for_range (\<lambda>x fb. draw_char_at font con fb x y (c_buffer con ! y ! x)) 0 columns fb) 0 rows t = Some u \<and>
      changed_within ?S t u"
  proof (rule for_range_changed[OF changed_within_wf[OF t(2)]], rule for_range_changed[OF changed_within_wf])
    fix y x :: nat and v u assume "y < rows" "changed_within ?S t v" "x < columns" "changed_within ?S v u"
    then show "\<exists>u'. draw_char_at font con u x y (c_buffer con ! y ! x) = Some u' \<and> changed_within ?S u u'"
      using fb(2) assms(2) by (intro draw_char_at_changed[of fb]) (auto intro: changed_within_step t(2))
  qed assumption
  then obtain u where u: "for_range (\<lambda>y fb. for_range (\<lambda>x fb. draw_char_at font con fb x y (c_buffer con ! y ! x)) 0 columns fb) 0 rows t = Some u"
      "changed_within ?S t u" by blast
  have "changed_within ?S fb u" by (rule changed_within_step[OF t(2) u(2)])
  then have "writer_ok (con\<lparr>c_writer := Some u\<rparr>)"
    using fb(2) changed_within_wf changed_within_buffer_rect by (auto simp: writer_ok_def)
  moreover have "redraw_console font con = Some (con\<lparr>c_writer := Some u\<rparr>)" using Some t(1) u(1) by (simp add: redraw_console_def)
  ultimately show ?thesis using Some \<open>changed_within ?S fb u\<close> by (intro exI[of _ "Some u"]) simp
qed

subsection \<open>The console refines the terminal\<close>

lemma console_new_line_shows:
  assumes sh: "console_shows con ls" and w: "writer_ok con" and font: "font_ok font"
  shows "\<exists>con'. console_new_line font con = Some con' \<and> console_shows con' (ls @ [[]]) \<and> writer_ok con'"
proof (cases "length ls < rows")
  case True
  have ne: "0 < length ls" and "c_row con = length ls - 1" using sh True by (auto simp: console_shows_def length_visible)
  then have "c_row con < rows - 1" using True by linarith
  moreover have "console_shows (con\<lparr>c_column := 0, c_row := c_row con + 1\<rparr>) (ls @ [[]])"
    using sh True ne screen_text_new_line[OF True] by (auto simp: console_shows_def length_visible)
  ultimately show ?thesis using w by (simp add: console_new_line_def writer_ok_def)
next
  case False
  define con1 where "con1 = con\<lparr>c_column := 0, c_buffer := drop 1 (c_buffer con) @ [replicate columns 0]\<rparr>"
  have "\<not> c_row con < rows - 1" using sh False by (simp add: console_shows_def length_visible)
  then have eq: "console_new_line font con = redraw_console font con1" by (simp add: console_new_line_def con1_def)
  have "writer_ok con1" using w by (simp add: writer_ok_def con1_def)
  from redraw_console_ok[OF this font] obtain wr where wr: "redraw_console font con1 = Some (con1\<lparr>c_writer := wr\<rparr>)" "writer_ok (con1\<lparr>c_writer := wr\<rparr>)"
    by (elim exE conjE) (rule that)
  have "console_shows (con1\<lparr>c_writer := wr\<rparr>) (ls @ [[]])"
    using sh False screen_text_scroll[of ls] by (auto simp: console_shows_def length_visible con1_def)
  then show ?thesis using eq wr by auto
qed

lemma console_put_printable_shows:
  assumes sh: "console_shows con ls" and col: "c_column con < columns" and w: "writer_ok con" and font: "font_ok font"
  shows "\<exists>con'. console_put_printable font con c = Some con' \<and> console_shows con' (butlast ls @ [last ls @ [c]]) \<and> writer_ok con'"
proof -
  have "\<exists>wr. (case c_writer con of None \<Rightarrow> Some None | Some fb \<Rightarrow> map_option Some (draw_char_at font con fb (c_column con) (c_row con) c)) = Some wr \<and>
      writer_ok (con\<lparr>c_writer := wr\<rparr>)"
  proof (cases "c_writer con")
    case None
    then show ?thesis by (simp add: writer_ok_def)
  next
    case (Some fb)
    have fb: "wf_frame_buffer fb" "points text_area \<subseteq> points (buffer_rect fb)" using w Some by (auto simp: writer_ok_def)
    have "c_row con < rows" using sh rows_columns by (auto simp: console_shows_def length_visible)
    then obtain t where "draw_char_at font con fb (c_column con) (c_row con) c = Some t" "changed_within (points text_area) fb t"
      using draw_char_at_changed[of fb fb font "c_column con" "c_row con" con c] fb font col by auto
    then show ?thesis using fb(2) Some changed_within_wf changed_within_buffer_rect by (auto simp: writer_ok_def)
  qed
  then obtain wr where wr: "(case c_writer con of None \<Rightarrow> Some None
      | Some fb \<Rightarrow> map_option Some (draw_char_at font con fb (c_column con) (c_row con) c)) = Some wr" "writer_ok (con\<lparr>c_writer := wr\<rparr>)"
    by blast
  define con' where "con' = con\<lparr>c_writer := wr, c_buffer := (c_buffer con)[c_row con := (c_buffer con ! c_row con)[c_column con := c]],
       c_column := c_column con + 1\<rparr>"
  have ne: "ls \<noteq> []" and len: "length (last ls) < columns" using sh col by (auto simp: console_shows_def)
  have "length (butlast ls @ [last ls @ [c]]) = length ls" using ne by (cases ls) auto
  then have "console_shows con' (butlast ls @ [last ls @ [c]])"
    using sh screen_text_put[OF ne len, of c] len by (auto simp: console_shows_def con'_def length_visible dest: in_set_butlastD)
  moreover have "writer_ok con'" using wr(2) by (simp add: writer_ok_def con'_def)
  ultimately show ?thesis using wr(1) by (simp add: console_put_printable_def con'_def)
qed

lemma console_put_char_shows:
  assumes sh: "console_shows con ls" and w: "writer_ok con" and font: "font_ok font"
  shows "\<exists>con'. console_put_char font con c = Some con' \<and> console_shows con' (terminal_put ls c) \<and> writer_ok con'"
proof -
  have col: "c_column con = length (last ls)" using sh by (simp add: console_shows_def)
  obtain con1 where con1: "console_new_line font con = Some con1" "console_shows con1 (ls @ [[]])" "writer_ok con1"
    using console_new_line_shows[OF assms] by blast
  have "c_column con1 < columns" using con1(2) rows_columns by (simp add: console_shows_def)
  from console_put_printable_shows[OF con1(2) this con1(3) font, of c] console_put_printable_shows[OF sh _ w font, of c] con1 col
  show ?thesis by (cases "c = newline"; cases "c_column con < columns") (auto simp: console_put_char_def terminal_put_def)
qed

lemma console_put_string_shows:
  assumes "console_shows con ls" and "writer_ok con" and font: "font_ok font"
  shows "\<exists>con'. console_put_string font con s = Some con' \<and> console_shows con' (foldl terminal_put ls s) \<and> writer_ok con'"
  using assms(1,2)
proof (induction s arbitrary: con ls)
  case (Cons c s)
  from console_put_char_shows[OF Cons.prems font, of c] Cons.IH show ?case by fastforce
qed simp

lemma set_pixel_writer_shows:
  assumes font: "font_ok font" and fb: "wf_frame_buffer fb" and area: "points text_area \<subseteq> points (buffer_rect fb)"
    and w: "writer = None \<or> writer = Some fb"
  shows "\<exists>con. set_pixel_writer font (new_console fg bg) writer = Some con \<and> console_shows con [[]] \<and> writer_ok con \<and>
    (writer = Some fb \<longrightarrow> (\<exists>u. c_writer con = Some u \<and> changed_within (points text_area) fb u))"
proof -
  define con0 where "con0 = new_console fg bg\<lparr>c_writer := writer\<rparr>"
  have "writer_ok con0" using fb area w by (auto simp: writer_ok_def con0_def)
  from redraw_console_ok[OF this font] obtain wr where wr: "redraw_console font con0 = Some (con0\<lparr>c_writer := wr\<rparr>)" "writer_ok (con0\<lparr>c_writer := wr\<rparr>)"
      "\<forall>fb. c_writer con0 = Some fb \<longrightarrow> (\<exists>u. wr = Some u \<and> changed_within (points text_area) fb u)"
    by (elim exE conjE) (rule that)
  have "visible_lines [[]] = [[]]" by (simp add: visible_lines_def rows_def)
  moreover have "replicate rows (replicate columns (0::u8)) = padded [] # replicate (rows - 1) (replicate columns 0)"
    using replicate_Suc[of "rows - 1" "replicate columns (0::u8)"] rows_columns by (simp add: padded_Nil)
  ultimately have "console_shows (con0\<lparr>c_writer := wr\<rparr>) [[]]"
    by (simp add: console_shows_def con0_def new_console_def screen_text_def)
  with wr show ?thesis by (auto simp: set_pixel_writer_def con0_def)
qed

text \<open>Claim C22.
  The text of a console: after any strings put on a new console, with or without a pixel writer,
  its buffer holds the last \<open>rows\<close> lines of the text, wrapped at \<open>columns\<close> characters, the rest is
  blank, and the cursor stands behind the last character. Every drawing stays inside the pixel
  writer's buffer when that has room for all rows and columns.
\<close>

theorem console_text:
  assumes font: "font_ok font" and fb: "wf_frame_buffer fb" and area: "points text_area \<subseteq> points (buffer_rect fb)"
    and w: "writer = None \<or> writer = Some fb"
  shows "\<exists>con con'. set_pixel_writer font (new_console fg bg) writer = Some con \<and> console_put_string font con s = Some con' \<and>
    console_shows con' (terminal_text s)"
  using set_pixel_writer_shows[OF assms, of fg bg] console_put_string_shows[OF _ _ font] by (fastforce simp: terminal_text_def)

definition demo_screen_buffer :: frame_buffer where
  "demo_screen_buffer = new_frame_buffer None 640 640 400 RGBResv8BitPerColor"

theorem console_text_witness:
  "\<exists>con con'. set_pixel_writer (replicate 16 0) (new_console (pixel_color_of 0xffffff) (pixel_color_of 0)) (Some demo_screen_buffer) = Some con \<and>
     console_put_string (replicate 16 0) con [72, 105, 10, 33] = Some con' \<and> console_shows con' [[72, 105], [33]]"
proof -
  have "terminal_text [72, 105, 10, 33] = [[72, 105], [33]]" by (simp add: terminal_text_def terminal_put_def newline_def columns_def)
  moreover have "wf_frame_buffer demo_screen_buffer" "points text_area \<subseteq> points (buffer_rect demo_screen_buffer)"
    by (auto simp: demo_screen_buffer_def new_frame_buffer_def wf_frame_buffer_def buffer_size_def bytes_per_pixel_def Let_def
        text_area_def points_def includes_point_def buffer_rect_def fb_size_def with_size_def rows_def columns_def)
  ultimately show ?thesis
    using console_text[of "replicate 16 0" demo_screen_buffer "Some demo_screen_buffer" "pixel_color_of 0xffffff" "pixel_color_of 0" "[72, 105, 10, 33]"]
    by (simp add: font_ok_def)
qed

subsection \<open>The fast console\<close>

definition fast_cursor :: "fast_console \<Rightarrow> u8 list list \<Rightarrow> bool" where
  "fast_cursor con ls \<longleftrightarrow> ls \<noteq> [] \<and> f_row con = length (visible_lines ls) - 1 \<and> f_column con = length (last ls) \<and> f_column con \<le> columns"

definition text_size :: vec where
  "text_size = vec (8 * int columns) (16 * int rows)"

lemma fast_new_line_ok:
  assumes cur: "fast_cursor con ls" and inv: "painter_inv fb p" and sz: "fb_size fb = text_size" and font: "font_ok font"
  shows "\<exists>con' p'. fast_new_line con p = Some (con', p') \<and> fast_cursor con' (ls @ [[]]) \<and> painter_inv fb p'"
proof (cases "f_row con < rows - 1")
  case True
  have ne: "0 < length ls" using cur by (simp add: fast_cursor_def)
  then have "length ls < rows" "f_row con = length ls - 1" using True cur rows_columns by (auto simp: fast_cursor_def length_visible min_def split: if_splits)
  then have "fast_cursor (con\<lparr>f_column := 0, f_row := f_row con + 1\<rparr>) (ls @ [[]])"
    using ne by (simp add: fast_cursor_def length_visible)
  then show ?thesis using True inv by (simp add: fast_new_line_def)
next
  case False
  have row: "f_row con = rows - 1" "rows \<le> length ls" using False cur rows_columns by (auto simp: fast_cursor_def length_visible)
  have "paint_fits (fb_size fb) (Copy_Y 0 16 (int rows * 16))" by (simp add: sz text_size_def rows_def)
  from paint_step_inv[OF inv font this] obtain p1 where p1: "painter_copy_y p 0 16 (int rows * 16) = Some p1" "painter_inv fb p1" by auto
  have "paint_fits (fb_size fb) (Filled (rect 0 (int (f_row con) * 16) (8 * int columns) ((int (f_row con) + 1) * 16)) (f_bg_color con))"
    using row(1) by (simp add: sz text_size_def includes_rect_def with_size_def rows_def columns_def)
  from paint_step_inv[OF p1(2) font this] obtain p2 where
      "painter_draw_filled_rectangle p1 (rect 0 (int (f_row con) * 16) (8 * int columns) ((int (f_row con) + 1) * 16)) (f_bg_color con) = Some p2"
      "painter_inv fb p2" by auto
  then show ?thesis using False p1(1) cur row by (auto simp: fast_new_line_def fast_cursor_def length_visible)
qed

lemma fast_put_printable_ok:
  assumes cur: "fast_cursor con ls" and col: "f_column con < columns" and inv: "painter_inv fb p" and sz: "fb_size fb = text_size" and font: "font_ok font"
  shows "\<exists>con' p'. fast_put_printable font con p c = Some (con', p') \<and> fast_cursor con' (butlast ls @ [last ls @ [c]]) \<and> painter_inv fb p'"
proof -
  have row: "f_row con < rows" using cur rows_columns by (auto simp: fast_cursor_def length_visible)
  have "paint_fits (fb_size fb) (Ascii (vec (int (f_column con) * 8) (int (f_row con) * 16)) c (f_fg_color con))"
    using row col by (simp add: sz text_size_def includes_rect_def with_size_def rows_def columns_def)
  from paint_step_inv[OF inv font this] obtain p1 where
      "painter_draw_ascii font p (vec (int (f_column con) * 8) (int (f_row con) * 16)) c (f_fg_color con) = Some p1" "painter_inv fb p1" by auto
  moreover have "length (butlast ls @ [last ls @ [c]]) = length ls" using cur by (cases ls) (auto simp: fast_cursor_def)
  ultimately show ?thesis using cur col by (auto simp: fast_put_printable_def fast_cursor_def length_visible)
qed

lemma fast_put_char_ok:
  assumes cur: "fast_cursor con ls" and inv: "painter_inv fb p" and sz: "fb_size fb = text_size" and font: "font_ok font"
  shows "\<exists>con' p'. fast_put_char font con p c = Some (con', p') \<and> fast_cursor con' (terminal_put ls c) \<and> painter_inv fb p'"
proof -
  have col: "f_column con = length (last ls)" using cur by (simp add: fast_cursor_def)
  obtain con1 p1 where con1: "fast_new_line con p = Some (con1, p1)" "fast_cursor con1 (ls @ [[]])" "painter_inv fb p1"
    using fast_new_line_ok[OF cur inv sz font] by blast
  have "f_column con1 < columns" using con1(2) rows_columns by (simp add: fast_cursor_def)
  from fast_put_printable_ok[OF con1(2) this con1(3) sz font, of c] fast_put_printable_ok[OF cur _ inv sz font, of c] con1 col
  show ?thesis by (cases "c = newline"; cases "f_column con < columns") (auto simp: fast_put_char_def terminal_put_def)
qed

lemma fast_put_chars_ok:
  assumes sz: "layer_size l = text_size" and font: "font_ok font"
  shows "fast_cursor con ls \<Longrightarrow> painter_inv (l_buffer l) p \<Longrightarrow>
    \<exists>con' p'. fast_put_chars font con p s = Some (con', p') \<and> fast_cursor con' (foldl terminal_put ls s) \<and> painter_inv (l_buffer l) p'"
proof (induction s arbitrary: con ls p)
  case (Cons c s)
  from fast_put_char_ok[OF Cons.prems sz[unfolded layer_size_def] font, of c] obtain con1 p1 where
      "fast_put_char font con p c = Some (con1, p1)" "fast_cursor con1 (terminal_put ls c)" "painter_inv (l_buffer l) p1" by blast
  with Cons.IH show ?case by fastforce
qed simp

text \<open>
  The fast console on a layer of exactly its size: putting any string succeeds, draws only inside
  the layer, leaves the cursor where the unlimited terminal has it, and the damage reported at the
  end makes the screen show the layer's new contents.
\<close>

lemma fast_console_shows:
  assumes scr: "screen_current mgr" and l: "find_layer mgr lid = Some l" and sz: "layer_size l = text_size" and font: "font_ok font"
    and cur: "fast_cursor con ls"
  shows "\<exists>con' mgr'. fast_put_string font mgr lid con s = Some (con', mgr') \<and> fast_cursor con' (foldl terminal_put ls s) \<and>
    screen_current mgr' \<and> lm_stack mgr' = lm_stack mgr \<and> map_option buffer_rect (lm_buffer mgr') = map_option buffer_rect (lm_buffer mgr)"
proof -
  have wf: "wf_manager mgr" using scr by (simp add: screen_current_def)
  then have "wf_frame_buffer (l_buffer l)" using l find_layer_iff[OF wf] by (auto simp: wf_manager_def layer_ok_def)
  then have "painter_inv (l_buffer l) (start_paint l)" by (simp add: painter_inv_def start_paint_def)
  from fast_put_chars_ok[OF sz font cur this] obtain con' p where p: "fast_put_chars font con (start_paint l) s = Some (con', p)"
      "fast_cursor con' (foldl terminal_put ls s)" "painter_inv (l_buffer l) p" by blast
  with painter_end_current[OF scr l p(3)] l show ?thesis by (auto simp: fast_put_string_def)
qed

definition demo_console_manager :: layer_manager where
  "demo_console_manager =
     \<lparr>lm_format = RGBResv8BitPerColor, lm_layers = [make_layer 1 RGBResv8BitPerColor (vec 640 400)], lm_latest_id = 1,
      lm_stack = [1], lm_buffer = None, lm_double = True, lm_back = None\<rparr>"

lemma demo_console_screen:
  obtains mgr where "screen_current mgr" "find_layer mgr 1 = Some (make_layer 1 RGBResv8BitPerColor (vec 640 400))"
    "layer_size (make_layer 1 RGBResv8BitPerColor (vec 640 400)) = vec 640 400"
proof -
  define l where "l = make_layer 1 RGBResv8BitPerColor (vec 640 400)"
  have wfb: "wf_frame_buffer demo_screen_buffer" "pixel_format demo_screen_buffer = RGBResv8BitPerColor"
    by (simp_all add: demo_screen_buffer_def new_frame_buffer_def wf_frame_buffer_def buffer_size_def bytes_per_pixel_def Let_def)
  have lb: "l_buffer l = demo_screen_buffer" "l_id l = 1" "l_pos l = vec 0 0" "l_transparent_color l = None"
    by (simp_all add: l_def make_layer_def demo_screen_buffer_def new_frame_buffer_def)
  have wf: "wf_manager demo_console_manager"
    using wfb lb by (simp add: wf_manager_def demo_console_manager_def layer_ok_def flip: l_def)
  have st: "stack_layers demo_console_manager = [l]"
    using lb by (simp add: stack_layers_def List.map_filter_simps find_layer_def demo_console_manager_def flip: l_def)
  have "points (buffer_rect demo_screen_buffer) \<subseteq> points (manager_area l)"
    using lb by (auto simp: manager_area_def layer_size_def buffer_rect_def points_def includes_point_def with_size_def)
  then have "has_background (set_buffer demo_console_manager (Some demo_screen_buffer))"
    unfolding has_background_def stack_layers_set_buffer st using lb
    by (simp add: has_transparency_def set_buffer_defs demo_console_manager_def)
  from first_draw_current[OF wf wfb(1) _ this] wfb(2) obtain mgr where mgr: "screen_current mgr" "lm_layers mgr = lm_layers demo_console_manager"
    by (auto simp: demo_console_manager_def)
  have "find_layer mgr 1 = Some l" using lb mgr(2) by (simp add: find_layer_def demo_console_manager_def flip: l_def)
  moreover have "layer_size l = vec 640 400"
    by (simp add: layer_size_def lb demo_screen_buffer_def new_frame_buffer_def fb_size_def Let_def)
  ultimately show thesis using that mgr(1) by (simp add: l_def)
qed

lemma fast_console_shows_example:
  "\<exists>mgr con' mgr'. screen_current mgr \<and>
     fast_put_string (replicate 16 0) mgr 1 \<lparr>f_fg_color = pixel_color_of 0xffffff, f_bg_color = pixel_color_of 0, f_row = 0, f_column = 0\<rparr> [72, 105, 10] =
       Some (con', mgr') \<and> fast_cursor con' [[72, 105], []] \<and> screen_current mgr'"
proof -
  obtain mgr where mgr: "screen_current mgr" "find_layer mgr 1 = Some (make_layer 1 RGBResv8BitPerColor (vec 640 400))"
    "layer_size (make_layer 1 RGBResv8BitPerColor (vec 640 400)) = vec 640 400" by (rule demo_console_screen)
  have "vec 640 400 = text_size" by (simp add: text_size_def rows_def columns_def)
  moreover have "foldl terminal_put [[]] [72, 105, 10] = [[72, 105], []]" by (simp add: terminal_put_def newline_def columns_def)
  ultimately show ?thesis
    using fast_console_shows[OF mgr(1,2), of "replicate 16 0" "\<lparr>f_fg_color = pixel_color_of 0xffffff, f_bg_color = pixel_color_of 0, f_row = 0, f_column = 0\<rparr>"
        "[[]]" "[72, 105, 10]"] mgr(1,3)
    by (fastforce simp: font_ok_def fast_cursor_def visible_lines_def)
qed

end
