(* ===== verification/Desktop.thy ===== *)
theory Desktop
  imports Console
begin

text \<open>
  The parts of the desktop that use the layers: the mouse cursor of \<open>graphics/mouse.cpp\<close>, the window
  frame of \<open>window.cpp\<close>, and the mouse observer of \<open>main.cpp\<close>, which moves the cursor and drags
  layers.
\<close>

subsection \<open>Pictures\<close>

text \<open>The pictures are drawn pixel by pixel through a writer.\<close>

definition draw_picture :: "(char \<Rightarrow> pixel_color) \<Rightarrow> string list \<Rightarrow> frame_buffer \<Rightarrow> int \<Rightarrow> int \<Rightarrow> nat \<Rightarrow> nat \<Rightarrow> frame_buffer option" where
  "draw_picture col shape fb x y w h =
     for_range (\<lambda>dy fb.
       for_range (\<lambda>dx fb. write_pixel fb (x + int dx) (y + int dy) (col (shape ! dy ! dx))) 0 w fb) 0 h fb"

definition mouse_cursor_shape :: "string list" where
  "mouse_cursor_shape =
    [''@              '',
     ''@@             '',
     ''@.@            '',
     ''@..@           '',
     ''@...@          '',
     ''@....@         '',
     ''@.....@        '',
     ''@......@       '',
     ''@.......@      '',
     ''@........@     '',
     ''@.........@    '',
     ''@..........@   '',
     ''@...........@  '',
     ''@............@ '',
     ''@......@@@@@@@@'',
     ''@......@       '',
     ''@....@@.@      '',
     ''@...@ @.@      '',
     ''@..@   @.@     '',
     ''@.@    @.@     '',
     ''@@      @.@    '',
     ''@       @.@    '',
     ''         @.@   '',
     ''         @@@   '']"

definition mouse_cursor_width :: nat where
  "mouse_cursor_width = 15"

definition mouse_cursor_height :: nat where
  "mouse_cursor_height = 24"

definition mouse_cursor_color :: "char \<Rightarrow> pixel_color" where
  "mouse_cursor_color c =
     (if c = CHR ''@'' then pixel_color_of 0 else if c = CHR ''.'' then pixel_color_of 0xffffff else pixel_color_of 0xff0000)"

definition draw_mouse_cursor :: "frame_buffer \<Rightarrow> vec \<Rightarrow> frame_buffer option" where
  "draw_mouse_cursor fb pos =
     draw_picture mouse_cursor_color mouse_cursor_shape fb (vx pos) (vy pos) mouse_cursor_width mouse_cursor_height"

definition make_mouse_layer :: "layer_manager \<Rightarrow> (layer_id \<times> layer_manager) option" where
  "make_mouse_layer mgr =
     (let (lid, mgr) = new_layer mgr (vec (int mouse_cursor_width) (int mouse_cursor_height));
          mgr = update_layer mgr lid (set_transparent_color (Some (pixel_color_of 0xff0000)))
      in do {
        l \<leftarrow> find_layer mgr lid;
        let p = painter_pixel_writer (start_paint l)
        in do {
          fb \<leftarrow> draw_mouse_cursor (p_buffer p) (vec 0 0);
          mgr \<leftarrow> painter_end mgr lid (p\<lparr>p_buffer := fb\<rparr>);
          Some (lid, mgr) } })"

subsection \<open>The window frame\<close>

definition close_button :: "string list" where
  "close_button =
    [''...............@'',
     ''.:::::::::::::$@'',
     ''.:::::::::::::$@'',
     ''.:::@@::::@@::$@'',
     ''.::::@@::@@:::$@'',
     ''.:::::@@@@::::$@'',
     ''.::::::@@:::::$@'',
     ''.:::::@@@@::::$@'',
     ''.::::@@::@@:::$@'',
     ''.:::@@::::@@::$@'',
     ''.:::::::::::::$@'',
     ''.:::::::::::::$@'',
     ''.$$$$$$$$$$$$$$@'',
     ''@@@@@@@@@@@@@@@@'']"

definition close_button_width :: nat where
  "close_button_width = 16"

definition close_button_height :: nat where
  "close_button_height = 14"

definition c_bg where "c_bg = pixel_color_of 0xc6c6c6"
definition c_fg where "c_fg = pixel_color_of 0x000000"
definition c_highlight1 where "c_highlight1 = pixel_color_of 0xc6c6c6"
definition c_highlight2 where "c_highlight2 = pixel_color_of 0xffffff"
definition c_shadow1 where "c_shadow1 = pixel_color_of 0x848484"
definition c_shadow2 where "c_shadow2 = pixel_color_of 0x000000"
definition c_title_bg where "c_title_bg = pixel_color_of 0x000084"
definition c_title_fg where "c_title_fg = pixel_color_of 0xffffff"

definition close_button_color :: "char \<Rightarrow> pixel_color" where
  "close_button_color c =
     (if c = CHR ''@'' then c_fg else if c = CHR ''.'' then c_highlight2 else if c = CHR ''$'' then c_shadow1 else c_bg)"

text \<open>The frame is a fixed sequence of painter operations, then the button through the raw writer.\<close>

definition window_ops :: "int \<Rightarrow> int \<Rightarrow> u8 list \<Rightarrow> paint_op list" where
  "window_ops w h title =
     [Rectangle (rect 0 0 w 1) c_highlight1, Rectangle (rect 0 0 1 h) c_highlight1,
      Rectangle (rect 1 1 (w - 1) 2) c_highlight2, Rectangle (rect 1 1 2 (h - 1)) c_highlight2,
      Filled (rect 2 2 (w - 2) (h - 2)) c_bg,
      Filled (rect 1 (h - 2) (w - 1) (h - 1)) c_shadow1, Filled (rect (w - 2) 1 (w - 1) (h - 1)) c_shadow1,
      Rectangle (rect 0 (h - 1) w h) c_shadow2, Rectangle (rect (w - 1) 0 w h) c_shadow2,
      Filled (rect 3 3 (w - 3) (3 + 18)) c_title_bg, Text (vec 24 4) title c_title_fg]"

definition draw_window :: "u8 list \<Rightarrow> painter \<Rightarrow> u8 list \<Rightarrow> painter option" where
  "draw_window font p title =
     (let sz = fb_size (p_buffer p); w = vx sz; h = vy sz
      in do {
        p \<leftarrow> paint_run font p (window_ops w h title);
        fb \<leftarrow> draw_picture close_button_color close_button (p_buffer p) (w - 5 - int close_button_width) 5 close_button_width close_button_height;
        Some (p\<lparr>p_buffer := fb\<rparr>) })"

subsection \<open>The mouse observer\<close>

record mouse_state =
  dragging_layer_id :: "layer_id option"
  previous_buttons :: u8
  mouse_position :: vec

definition initial_mouse :: mouse_state where
  "initial_mouse = \<lparr>dragging_layer_id = None, previous_buttons = 0, mouse_position = vec 0 0\<rparr>"

definition mouse_observer ::
    "vec \<Rightarrow> layer_id \<Rightarrow> layer_manager \<times> mouse_state \<Rightarrow> u8 \<Rightarrow> 8 word \<Rightarrow> 8 word \<Rightarrow> (layer_manager \<times> mouse_state) option" where
  "mouse_observer screen_size mouse_id = (\<lambda>(mgr, st) buttons dx dy.
     let old_pos = mouse_position st;
         new_pos = vec_add old_pos (vec (sint dx) (sint dy));
         pos = vec_min (vec_max new_pos (vec 0 0)) (vec_sub screen_size (vec 1 1))
     in do {
       mgr \<leftarrow> layer_move mgr mouse_id pos;
       let pos_diff = vec_sub pos old_pos;
           is_previous_left_pressed = (previous_buttons st AND 1 \<noteq> 0);
           is_left_pressed = (buttons AND 1 \<noteq> 0);
           st = st\<lparr>mouse_position := pos\<rparr>
       in if \<not> is_previous_left_pressed \<and> is_left_pressed then
            let dragging = (case find_layer_by_position mgr pos mouse_id of
                  None \<Rightarrow> dragging_layer_id st
                | Some layer \<Rightarrow> if l_draggable layer then Some (l_id layer) else dragging_layer_id st)
            in Some (mgr, st\<lparr>dragging_layer_id := dragging, previous_buttons := buttons\<rparr>)
          else if is_previous_left_pressed \<and> is_left_pressed then
            (case dragging_layer_id st of
               None \<Rightarrow> Some (mgr, st\<lparr>previous_buttons := buttons\<rparr>)
             | Some d \<Rightarrow> do {
                 mgr \<leftarrow> layer_move_relative mgr d pos_diff;
                 Some (mgr, st\<lparr>previous_buttons := buttons\<rparr>) })
          else if is_previous_left_pressed \<and> \<not> is_left_pressed then
            Some (mgr, st\<lparr>dragging_layer_id := None, previous_buttons := buttons\<rparr>)
          else Some (mgr, st\<lparr>previous_buttons := buttons\<rparr>) })"

fun mouse_run ::
    "vec \<Rightarrow> layer_id \<Rightarrow> layer_manager \<times> mouse_state \<Rightarrow> (u8 \<times> 8 word \<times> 8 word) list \<Rightarrow> (layer_manager \<times> mouse_state) option" where
  "mouse_run sz mouse_id s [] = Some s"
| "mouse_run sz mouse_id s ((b, dx, dy) # es) = do { s \<leftarrow> mouse_observer sz mouse_id s b dx dy; mouse_run sz mouse_id s es }"

subsection \<open>Pictures stay in their place\<close>

lemma draw_picture_changed:
  assumes "wf_frame_buffer fb" and "points (with_size (vec x y) (vec (int w) (int h))) \<subseteq> S" and "S \<subseteq> points (buffer_rect fb)"
  shows "\<exists>fb'. draw_picture col shape fb x y w h = Some fb' \<and> changed_within S fb fb'"
  unfolding draw_picture_def
proof (rule for_range_changed[OF assms(1)], rule for_range_changed[OF changed_within_wf])
  fix dy dx :: nat and t u assume "dy < h" "changed_within S fb t" "dx < w" "changed_within S t u"
  then show "\<exists>u'. write_pixel u (x + int dx) (y + int dy) (col (shape ! dy ! dx)) = Some u' \<and> changed_within S u u'"
    using assms(2,3) by (intro write_pixel_changed[of S fb]) (auto intro: changed_within_step simp: vec_in_with_size)
qed assumption

lemma damage_covers_frame:
  assumes "paint_run font p (Rectangle (rect 0 0 w 1) c # as) = Some p'" and "Rectangle (rect (w - 1) 0 w h) d \<in> set as" and "0 < w" "0 < h"
  shows "points (rect 0 0 w h) \<subseteq> painter_region p'"
proof -
  have mono: "p_damaged q' \<and> (p_damaged q \<longrightarrow> vx (p_top_left q') \<le> vx (p_top_left q) \<and> vy (p_top_left q') \<le> vy (p_top_left q) \<and>
      vx (p_bottom_right q) \<le> vx (p_bottom_right q') \<and> vy (p_bottom_right q) \<le> vy (p_bottom_right q'))"
    if "paint_step font q a = Some q'" for q q' a
    using that by (cases a) (auto simp: painter_copy_y_def painter_draw_rectangle_def painter_draw_filled_rectangle_def
      painter_draw_ascii_def painter_draw_string_def Let_def bind_eq_Some_conv raw_damage_def)
  have run: "p_damaged q' \<and> vx (p_top_left q') \<le> vx (p_top_left q) \<and> vy (p_top_left q') \<le> vy (p_top_left q) \<and>
      vx (p_bottom_right q) \<le> vx (p_bottom_right q') \<and> vy (p_bottom_right q) \<le> vy (p_bottom_right q')"
    if "paint_run font q as = Some q'" "p_damaged q" for q q' "as"
    using that
  proof (induction "as" arbitrary: q)
    case (Cons a "as")
    then obtain q1 where "paint_step font q a = Some q1" "paint_run font q1 as = Some q'" by (auto simp: bind_eq_Some_conv)
    with mono[of q a q1] Cons.IH[of q1] Cons.prems(2) show ?case by force
  qed simp
  have rectangle: "p_damaged q' \<and> vx (p_top_left q') \<le> r_left r \<and> vy (p_top_left q') \<le> r_top r \<and>
      r_right r \<le> vx (p_bottom_right q') \<and> r_bottom r \<le> vy (p_bottom_right q')"
    if "paint_step font q (Rectangle r c) = Some q'" for q q' r c
    using that by (auto simp: painter_draw_rectangle_def bind_eq_Some_conv raw_damage_def)
  obtain as1 as2 where as12: "as = as1 @ Rectangle (rect (w - 1) 0 w h) d # as2" using assms(2) by (meson split_list)
  have split: "\<exists>q. paint_run font p xs = Some q \<and> paint_run font q ys = Some p'" if "paint_run font p (xs @ ys) = Some p'" for p xs ys
    using that by (induction xs arbitrary: p) (auto simp: bind_eq_Some_conv)
  from assms(1) obtain p1 where p1: "paint_step font p (Rectangle (rect 0 0 w 1) c) = Some p1" "paint_run font p1 as = Some p'"
    by (auto simp: bind_eq_Some_conv)
  from split[OF p1(2)[unfolded as12]] obtain p2 p3 where p2: "paint_run font p1 as1 = Some p2"
      "paint_step font p2 (Rectangle (rect (w - 1) 0 w h) d) = Some p3" "paint_run font p3 as2 = Some p'"
    by (auto simp: bind_eq_Some_conv)
  show ?thesis
    using rectangle[OF p1(1)] rectangle[OF p2(2)] run[OF p2(1)] mono[OF p2(2)] run[OF p2(3)]
    by (auto simp: painter_region_def points_def includes_point_def)
qed

lemma window_ops_fit:
  assumes "24 + 8 * int (length title) \<le> w" and "21 \<le> h"
  shows "\<forall>a\<in>set (window_ops w h title). paint_fits (vec w h) a"
  using assms by (simp add: window_ops_def includes_rect_def with_size_def width_def height_def)

lemma draw_window_inv:
  assumes wf: "wf_frame_buffer (l_buffer l)" and font: "font_ok font"
    and w: "24 + 8 * int (length title) \<le> vx (layer_size l)" and h: "21 \<le> vy (layer_size l)"
  shows "\<exists>p. draw_window font (start_paint l) title = Some p \<and> painter_inv (l_buffer l) p"
proof -
  define W H where "W = vx (layer_size l)" and "H = vy (layer_size l)"
  have inv0: "painter_inv (l_buffer l) (start_paint l)" using wf by (simp add: painter_inv_def start_paint_def)
  have size: "fb_size (l_buffer l) = vec W H" by (simp add: W_def H_def layer_size_def vec_def)
  from paint_run_inv[OF inv0 font] window_ops_fit[OF w h] size obtain p where
      p: "paint_run font (start_paint l) (window_ops W H title) = Some p" "painter_inv (l_buffer l) p" "p_damaged p"
    by (fastforce simp: W_def H_def window_ops_def)
  have area: "points (rect 0 0 W H) \<subseteq> painter_region p"
    using damage_covers_frame[of font "start_paint l" W c_highlight1 "tl (window_ops W H title)" p H c_shadow2] p(1) w h
    by (simp add: window_ops_def W_def H_def)
  have rect: "points (buffer_rect (p_buffer p)) = points (rect 0 0 W H)"
    using painter_inv_buffer(3)[OF p(2)] size by (simp add: buffer_rect_def with_size_def rect_of_def)
  let ?S = "points (rect 0 0 W H)"
  have sub: "points (with_size (vec (W - 5 - int close_button_width) 5) (vec (int close_button_width) (int close_button_height))) \<subseteq> ?S"
    using w h by (auto simp: points_def includes_point_def with_size_def close_button_width_def close_button_height_def W_def H_def)
  from draw_picture_changed[OF painter_inv_buffer(1)[OF p(2)] sub] rect obtain fb where
      fb: "draw_picture close_button_color close_button (p_buffer p) (W - 5 - int close_button_width) 5 close_button_width close_button_height = Some fb"
      "changed_within ?S (p_buffer p) fb" by blast
  have "painter_inv (l_buffer l) (p\<lparr>p_buffer := fb\<rparr>)"
  proof -
    have "changed_within (painter_region p) (p_buffer p) fb" using fb(2) area by (rule changed_within_mono)
    then have "changed_within (painter_region p) (l_buffer l) fb"
      using p(2) changed_within_step unfolding painter_inv_def by blast
    then show ?thesis using p(3) by (simp add: painter_inv_def painter_region_def)
  qed
  then show ?thesis using p(1) fb(1) size by (auto simp: draw_window_def start_paint_def Let_def)
qed

text \<open>
  The window frame: on a layer that is large enough for the title and the title bar, \<open>draw_window\<close>
  draws inside the layer only, and although the button is drawn through the raw pixel writer, which
  reports no damage, the screen shows the whole window when the painter ends.
\<close>

lemma draw_window_shows:
  assumes cur: "screen_current mgr" and l: "find_layer mgr lid = Some l" and font: "font_ok font"
    and w: "24 + 8 * int (length title) \<le> vx (layer_size l)" and h: "21 \<le> vy (layer_size l)"
  shows "\<exists>p mgr'. draw_window font (start_paint l) title = Some p \<and> painter_end mgr lid p = Some mgr' \<and> screen_current mgr' \<and>
    lm_stack mgr' = lm_stack mgr \<and> map_option buffer_rect (lm_buffer mgr') = map_option buffer_rect (lm_buffer mgr)"
proof -
  have wf: "wf_manager mgr" using cur by (simp add: screen_current_def)
  then have "wf_frame_buffer (l_buffer l)" using l find_layer_iff[OF wf] by (auto simp: wf_manager_def layer_ok_def)
  from draw_window_inv[OF this font w h] painter_end_current[OF cur l] show ?thesis by blast
qed

lemma draw_window_shows_example:
  "\<exists>mgr p mgr'. screen_current mgr \<and>
     draw_window (replicate 16 0) (start_paint (make_layer 1 RGBResv8BitPerColor (vec 640 400))) [72, 105] = Some p \<and>
     painter_end mgr 1 p = Some mgr' \<and> screen_current mgr'"
proof -
  obtain mgr where mgr: "screen_current mgr" "find_layer mgr 1 = Some (make_layer 1 RGBResv8BitPerColor (vec 640 400))"
    "layer_size (make_layer 1 RGBResv8BitPerColor (vec 640 400)) = vec 640 400" by (rule demo_console_screen)
  from draw_window_shows[OF mgr(1,2), of "replicate 16 0" "[72, 105]"] mgr show ?thesis by (auto simp: font_ok_def)
qed

subsection \<open>The mouse\<close>

text \<open>
  Between two events: the screen is current, the cursor layer is not the background, the
  background cannot be dragged, and a layer that is being dragged exists, is draggable and is not
  the cursor.
\<close>

definition mouse_inv :: "vec \<Rightarrow> layer_id \<Rightarrow> layer_manager \<times> mouse_state \<Rightarrow> bool" where
  "mouse_inv sz mouse_id = (\<lambda>(mgr, st).
     screen_current mgr \<and> find_layer mgr mouse_id \<noteq> None \<and> mouse_id \<noteq> hd (lm_stack mgr) \<and>
     map_option l_draggable (find_layer mgr (hd (lm_stack mgr))) \<noteq> Some True \<and>
     includes_point (with_size (vec 0 0) sz) (mouse_position st) \<and>
     (\<forall>d. dragging_layer_id st = Some d \<longrightarrow> map_option l_draggable (find_layer mgr d) = Some True \<and> d \<noteq> mouse_id))"

text \<open>A move changes the position of one layer only.\<close>

definition moved_layer :: "layer_id \<Rightarrow> vec \<Rightarrow> layer_manager \<Rightarrow> layer_manager \<Rightarrow> bool" where
  "moved_layer lid pos mgr mgr' \<longleftrightarrow>
     screen_current mgr' \<and> lm_stack mgr' = lm_stack mgr \<and>
     (\<forall>i. find_layer mgr' i = map_option (\<lambda>k. if l_id k = lid then k\<lparr>l_pos := pos\<rparr> else k) (find_layer mgr i))"

lemma layer_move_moved:
  assumes "screen_current mgr" and "find_layer mgr lid \<noteq> None" and "lid \<noteq> hd (lm_stack mgr)"
  shows "\<exists>mgr'. layer_move mgr lid pos = Some mgr' \<and> moved_layer lid pos mgr mgr'"
  using layer_move_current[OF assms(1) _ assms(3)] assms(2) unfolding moved_layer_def by blast

lemma mouse_inv_moved:
  assumes "mouse_inv sz mouse_id (mgr, st)" and "moved_layer lid pos mgr mgr'"
  shows "mouse_inv sz mouse_id (mgr', st)"
proof -
  have "map_option l_draggable (find_layer mgr' i) = map_option l_draggable (find_layer mgr i)" for i
    using assms(2) by (cases "find_layer mgr i") (auto simp: moved_layer_def)
  moreover have "find_layer mgr' mouse_id \<noteq> None" "screen_current mgr'" "lm_stack mgr' = lm_stack mgr"
    using assms by (auto simp: mouse_inv_def moved_layer_def)
  ultimately show ?thesis using assms(1) unfolding mouse_inv_def prod.case by (simp del: map_option_eq_Some not_None_eq)
qed

lemma topmost_not_background:
  assumes "mouse_inv sz mouse_id (mgr, st)" and "find_layer_by_position mgr pos mouse_id = Some l" and "l_draggable l"
  shows "find_layer mgr (l_id l) = Some l" "l_id l \<noteq> hd (lm_stack mgr)" "l_id l \<noteq> mouse_id"
proof -
  have wf: "wf_manager mgr" using assms(1) by (auto simp: mouse_inv_def screen_current_def)
  have "l \<in> set (stack_layers mgr)" and ne: "l_id l \<noteq> mouse_id"
    using assms(2) by (auto simp: find_layer_by_position_def find_Some_iff set_conv_nth rev_nth split: if_splits)
  then show l: "find_layer mgr (l_id l) = Some l" using stack_layers_subset[OF wf] find_layer_iff[OF wf] by blast
  show "l_id l \<noteq> mouse_id" by (rule ne)
  show "l_id l \<noteq> hd (lm_stack mgr)" using assms(1,3) l by (auto simp: mouse_inv_def)
qed

lemma mouse_observer_inv:
  assumes inv: "mouse_inv sz mouse_id (mgr, st)"
  shows "\<exists>mgr' st'. mouse_observer sz mouse_id (mgr, st) buttons dx dy = Some (mgr', st') \<and> mouse_inv sz mouse_id (mgr', st') \<and>
    map_option l_pos (find_layer mgr' mouse_id) = Some (mouse_position st')"
proof -
  define pos where "pos = vec_min (vec_max (vec_add (mouse_position st) (vec (sint dx) (sint dy))) (vec 0 0)) (vec_sub sz (vec 1 1))"
  have wf: "wf_manager m" if "screen_current m" for m using that by (simp add: screen_current_def)
  have inv': "screen_current mgr" "find_layer mgr mouse_id \<noteq> None" "mouse_id \<noteq> hd (lm_stack mgr)" using inv by (auto simp: mouse_inv_def)
  obtain m1 where m1: "layer_move mgr mouse_id pos = Some m1" "moved_layer mouse_id pos mgr m1" using layer_move_moved[OF inv'] by blast
  have at: "map_option l_pos (find_layer m1 mouse_id) = Some pos"
    using m1(2) inv'(2) find_layer_iff[OF wf[OF inv'(1)]] by (auto simp: moved_layer_def)
  have inv1: "mouse_inv sz mouse_id (m1, st\<lparr>mouse_position := pos\<rparr>)"
    using mouse_inv_moved[OF inv m1(2)] inv by (auto simp: mouse_inv_def pos_def)
  show ?thesis
  proof (cases "buttons AND 1 \<noteq> 0 \<and> previous_buttons st AND 1 \<noteq> 0 \<and> dragging_layer_id st \<noteq> None")
    case True
    then obtain d l where d: "dragging_layer_id st = Some d" "find_layer m1 d = Some l" "l_draggable l" "d \<noteq> mouse_id"
      using inv1 by (auto simp: mouse_inv_def)
    then have "d \<noteq> hd (lm_stack m1)" using inv1 by (auto simp: mouse_inv_def)
    then obtain m2 where m2: "layer_move m1 d (vec_add (l_pos l) (vec_sub pos (mouse_position st))) = Some m2"
        "moved_layer d (vec_add (l_pos l) (vec_sub pos (mouse_position st))) m1 m2"
      using layer_move_moved[of m1 d] inv1 d by (auto simp: mouse_inv_def)
    have "mouse_inv sz mouse_id (m2, st\<lparr>mouse_position := pos, previous_buttons := buttons\<rparr>)"
      using mouse_inv_moved[OF inv1 m2(2)] by (simp add: mouse_inv_def)
    moreover have "map_option l_pos (find_layer m2 mouse_id) = Some pos"
    proof -
      obtain y where y: "find_layer m1 mouse_id = Some y" "l_pos y = pos" using at by auto
      then have "l_id y \<noteq> d" using find_layer_iff[OF wf, of m1 mouse_id y] inv1 d(4) by (auto simp: mouse_inv_def)
      then show ?thesis using m2(2) y by (simp add: moved_layer_def)
    qed
    moreover have "mouse_observer sz mouse_id (mgr, st) buttons dx dy = Some (m2, st\<lparr>mouse_position := pos, previous_buttons := buttons\<rparr>)"
      using True d m1(1) m2(1) by (simp add: mouse_observer_def Let_def layer_move_relative_def flip: pos_def)
    ultimately show ?thesis by auto
  next
    case False
    have drop: "mouse_inv sz mouse_id (m1, st\<lparr>mouse_position := pos, dragging_layer_id := dr, previous_buttons := buttons\<rparr>)"
      if "dr = None \<or> dr = dragging_layer_id st \<or> (\<exists>l. find_layer_by_position m1 pos mouse_id = Some l \<and> l_draggable l \<and> dr = Some (l_id l))" for dr
    proof -
      have "map_option l_draggable (find_layer m1 d) = Some True \<and> d \<noteq> mouse_id" if dr: "dr = Some d" for d
        using \<open>dr = None \<or> _\<close>
      proof (elim disjE exE conjE)
        assume "dr = dragging_layer_id st"
        then show ?thesis using dr inv1 unfolding mouse_inv_def by (simp del: map_option_eq_Some)
      next
        fix l assume "find_layer_by_position m1 pos mouse_id = Some l" "l_draggable l" "dr = Some (l_id l)"
        then show ?thesis using dr topmost_not_background[OF inv1, of pos l] by simp
      qed (use dr in simp)
      then show ?thesis using inv1 unfolding mouse_inv_def by (simp del: map_option_eq_Some not_None_eq)
    qed
    let ?result = "\<lambda>dr. mouse_observer sz mouse_id (mgr, st) buttons dx dy =
        Some (m1, st\<lparr>mouse_position := pos, dragging_layer_id := dr, previous_buttons := buttons\<rparr>)"
    have obs: "mouse_observer sz mouse_id (mgr, st) buttons dx dy =
        Some (m1, st\<lparr>mouse_position := pos, dragging_layer_id :=
          (if previous_buttons st AND 1 = 0 \<and> buttons AND 1 \<noteq> 0
           then (case find_layer_by_position m1 pos mouse_id of None \<Rightarrow> dragging_layer_id st
                 | Some l \<Rightarrow> if l_draggable l then Some (l_id l) else dragging_layer_id st)
           else if previous_buttons st AND 1 \<noteq> 0 \<and> buttons AND 1 = 0 then None else dragging_layer_id st),
          previous_buttons := buttons\<rparr>)"
      using False m1(1)
      by (cases "previous_buttons st AND 1 = 0"; cases "buttons AND 1 = 0"; cases "dragging_layer_id st")
        (simp_all add: mouse_observer_def Let_def flip: pos_def split: option.split)
    then obtain dr where "?result dr"
        "dr = None \<or> dr = dragging_layer_id st \<or> (\<exists>l. find_layer_by_position m1 pos mouse_id = Some l \<and> l_draggable l \<and> dr = Some (l_id l))"
      by (auto split: option.splits if_splits)
    with drop at show ?thesis by auto
  qed
qed

text \<open>Claim C26.
  The mouse: whatever sequence of reports the mouse sends, with any displacements and buttons,
  the observer handles every one of them, the cursor stays on the screen and its layer is at the
  mouse position, only draggable layers other than the cursor are ever dragged, and the screen
  shows the picture of the stack after each report.
\<close>

theorem mouse_run_keeps:
  assumes "mouse_inv sz mouse_id (mgr, st)"
  shows "\<exists>mgr' st'. mouse_run sz mouse_id (mgr, st) es = Some (mgr', st') \<and> mouse_inv sz mouse_id (mgr', st') \<and>
    (es \<noteq> [] \<longrightarrow> map_option l_pos (find_layer mgr' mouse_id) = Some (mouse_position st'))"
proof -
  have run: "\<exists>mgr' st'. mouse_run sz mouse_id (mgr, st) es = Some (mgr', st') \<and> mouse_inv sz mouse_id (mgr', st') \<and>
      map_option l_pos (find_layer mgr' mouse_id) = Some (mouse_position st')"
    if "mouse_inv sz mouse_id (mgr, st)" "map_option l_pos (find_layer mgr mouse_id) = Some (mouse_position st)" for es mgr st
    using that
  proof (induction es arbitrary: mgr st)
    case (Cons e es)
    obtain b dx dy where e: "e = (b, dx, dy)" by (cases e) auto
    from mouse_observer_inv[OF Cons.prems(1), of b dx dy] obtain m1 st1 where
        "mouse_observer sz mouse_id (mgr, st) b dx dy = Some (m1, st1)" "mouse_inv sz mouse_id (m1, st1)"
        "map_option l_pos (find_layer m1 mouse_id) = Some (mouse_position st1)" by blast
    then show ?case using Cons.IH[of m1 st1] e by auto
  qed auto
  show ?thesis
  proof (cases es)
    case Nil
    then show ?thesis using assms by simp
  next
    case (Cons e es')
    obtain b dx dy where e: "e = (b, dx, dy)" by (cases e) auto
    from mouse_observer_inv[OF assms, of b dx dy] obtain m1 st1 where
        "mouse_observer sz mouse_id (mgr, st) b dx dy = Some (m1, st1)" "mouse_inv sz mouse_id (m1, st1)"
        "map_option l_pos (find_layer m1 mouse_id) = Some (mouse_position st1)" by blast
    with run[of m1 st1 es'] Cons e show ?thesis by auto
  qed
qed

theorem mouse_run_keeps_witness:
  "\<exists>mgr mgr' st'. screen_current mgr \<and>
     mouse_run (vec 1 1) 3 (mgr, initial_mouse) [(1, 5, 7), (1, 0xf0, 3), (0, 0, 0)] = Some (mgr', st') \<and> screen_current mgr' \<and>
     includes_point (with_size (vec 0 0) (vec 1 1)) (mouse_position st')"
proof -
  obtain mgr where mgr: "screen_current mgr" "lm_stack mgr = [1, 2, 3]" "lm_layers mgr = lm_layers (demo_manager True)"
    by (rule demo_screen)
  have "mouse_inv (vec 1 1) 3 (mgr, initial_mouse)"
    using mgr by (simp add: mouse_inv_def initial_mouse_def find_layer_def demo_manager_def demo_layer_def)
  from mouse_run_keeps[OF this, of "[(1, 5, 7), (1, 0xf0, 3), (0, 0, 0)]"] obtain mgr' st' where
      "mouse_run (vec 1 1) 3 (mgr, initial_mouse) [(1, 5, 7), (1, 0xf0, 3), (0, 0, 0)] = Some (mgr', st')"
      "mouse_inv (vec 1 1) 3 (mgr', st')" by blast
  then show ?thesis using mgr(1) by (intro exI conjI) (assumption | simp add: mouse_inv_def)+
qed

end
