(* ===== verification/Logger.thy ===== *)
theory Logger
  imports Prelude
begin

text \<open>
  Messages of the kernel and of the USB driver: \<open>src/kernel/logger.hpp\<close>, \<open>logger.cpp\<close>, \<open>usb/logger.cpp\<close> and \<open>printk\<close> of
  \<open>utils.hpp\<close>. What \<open>snprintf\<close> makes of a format and its arguments is a parameter; here is what the code does with the
  result. The consoles are behind the interface \<open>IConsole\<close>, whose contract is the locale \<open>console_sink\<close>.
\<close>

subsection \<open>Levels\<close>

datatype log_level = Log_Panic | Log_Error | Log_Warn | Log_Info | Log_Debug

fun level_code :: "log_level \<Rightarrow> int" where
  "level_code Log_Panic = 1"
| "level_code Log_Error = 3"
| "level_code Log_Warn = 4"
| "level_code Log_Info = 6"
| "level_code Log_Debug = 7"

lemma level_code_inject: "level_code a = level_code b \<longleftrightarrow> a = b"
  by (cases a; cases b) simp_all

instantiation log_level :: linorder
begin

definition less_eq_log_level :: "log_level \<Rightarrow> log_level \<Rightarrow> bool" where
  "less_eq_log_level a b \<longleftrightarrow> level_code a \<le> level_code b"

definition less_log_level :: "log_level \<Rightarrow> log_level \<Rightarrow> bool" where
  "less_log_level a b \<longleftrightarrow> level_code a < level_code b"

instance
  by standard (auto simp: less_eq_log_level_def less_log_level_def level_code_inject)

end

subsection \<open>The loggers\<close>

text \<open>\<open>'c\<close> stands for the pointers to consoles, \<open>'s\<close> for the state they write to; \<open>put\<close> is their \<open>put_string\<close>.\<close>

record 'c console_logger =
  cl_console :: "'c option"
  cl_level :: log_level

definition set_console :: "'c option \<Rightarrow> 'c console_logger \<Rightarrow> 'c console_logger" where
  "set_console c lg = lg\<lparr>cl_console := c\<rparr>"

definition will_be_logged :: "'c console_logger \<Rightarrow> log_level \<Rightarrow> bool" where
  "will_be_logged lg level \<longleftrightarrow> level \<le> cl_level lg"

definition console_log ::
    "('c \<Rightarrow> u8 list \<Rightarrow> 's \<Rightarrow> 's option) \<Rightarrow> 'c console_logger \<Rightarrow> log_level \<Rightarrow> u8 list \<Rightarrow> 's \<Rightarrow> 's option" where
  "console_log put lg level msg s =
     (case cl_console lg of
        None \<Rightarrow> Some s
      | Some c \<Rightarrow> if will_be_logged lg level then put c msg s else Some s)"

text \<open>What is in a \<open>char buf[n]\<close> after \<open>snprintf\<close>, for a reader that stops at the first null character.\<close>

definition char_buffer :: "nat \<Rightarrow> u8 list \<Rightarrow> u8 list" where
  "char_buffer n formatted = takeWhile (\<lambda>c. c \<noteq> 0) (take (n - 1) formatted)"

text \<open>\<open>formatted\<close> is what the format and its arguments give, \<open>None\<close> for a negative result of \<open>snprintf\<close>.\<close>

definition log_format ::
    "('c \<Rightarrow> u8 list \<Rightarrow> 's \<Rightarrow> 's option) \<Rightarrow> 'c console_logger \<Rightarrow> log_level \<Rightarrow> u8 list option \<Rightarrow> 's \<Rightarrow> 's option" where
  "log_format put lg level formatted s =
     (if \<not> will_be_logged lg level then Some s
      else case formatted of
        None \<Rightarrow> Some s
      | Some str \<Rightarrow> console_log put lg level (char_buffer 1024 str) s)"

text \<open>The levels of the USB driver, and its \<open>Log\<close>, which formats with \<open>vsprintf\<close>: without the size of the buffer.\<close>

definition usb_level :: "int \<Rightarrow> log_level option" where
  "usb_level level =
     (if level = 3 then Some Log_Error else if level = 4 then Some Log_Warn else if level = 6 then Some Log_Info
      else if level = 7 then Some Log_Debug else None)"

definition usb_log ::
    "('c \<Rightarrow> u8 list \<Rightarrow> 's \<Rightarrow> 's option) \<Rightarrow> 'c console_logger \<Rightarrow> int \<Rightarrow> u8 list \<Rightarrow> 's \<Rightarrow> (int \<times> 's) option" where
  "usb_log put lg level formatted s =
     (case usb_level level of
        None \<Rightarrow> Some (1, s)
      | Some k_log_level \<Rightarrow>
          if \<not> will_be_logged lg k_log_level then Some (0, s)
          else if 1024 \<le> length formatted then None
          else do {
            s \<leftarrow> console_log put lg k_log_level (takeWhile (\<lambda>c. c \<noteq> 0) formatted) s;
            Some (int (length formatted), s) })"

subsection \<open>The contract of a console\<close>

text \<open>What reaches the console.\<close>

definition logged :: "'c console_logger \<Rightarrow> log_level \<Rightarrow> u8 list \<Rightarrow> u8 list" where
  "logged lg level msg = (if will_be_logged lg level then msg else [])"

text \<open>
  \<open>shows_text c t s\<close>: in the state \<open>s\<close> the console \<open>c\<close> is in order and the text \<open>t\<close> has been written to it. A console accepts every
  text.
\<close>

locale console_sink =
  fixes put :: "'c \<Rightarrow> u8 list \<Rightarrow> 's \<Rightarrow> 's option" and shows_text :: "'c \<Rightarrow> u8 list \<Rightarrow> 's \<Rightarrow> bool"
  assumes put: "shows_text c t s \<Longrightarrow> \<exists>s'. put c m s = Some s' \<and> shows_text c (t @ m) s'"
begin

lemma console_log_shows:
  assumes "cl_console lg = Some c" and "shows_text c t s"
  shows "\<exists>s'. console_log put lg level m s = Some s' \<and> shows_text c (t @ logged lg level m) s'"
  using put[OF assms(2), of m] assms by (simp add: console_log_def logged_def)

lemma log_format_shows:
  assumes "cl_console lg = Some c" and "shows_text c t s"
  shows "\<exists>s'. log_format put lg level (Some f) s = Some s' \<and> shows_text c (t @ logged lg level (char_buffer 1024 f)) s'"
  using console_log_shows[OF assms, of level "char_buffer 1024 f"] assms(2) by (auto simp: log_format_def logged_def)

text \<open>The driver's logger does the same as the kernel's on messages that fit; on longer ones that are logged it is undefined.\<close>

lemma usb_log_shows:
  assumes "cl_console lg = Some c" and "shows_text c t s" and "usb_level level = Some k"
  shows "if will_be_logged lg k \<and> 1024 \<le> length f then usb_log put lg level f s = None
    else \<exists>r s'. usb_log put lg level f s = Some (r, s') \<and> log_format put lg k (Some f) s = Some s' \<and>
      shows_text c (t @ logged lg k (char_buffer 1024 f)) s'"
proof -
  have "char_buffer 1024 f = takeWhile (\<lambda>c. c \<noteq> 0) f" if "length f < 1024" using that by (simp add: char_buffer_def)
  then show ?thesis
    using assms log_format_shows[OF assms(1,2), of k f] by (auto simp: usb_log_def log_format_def)
qed

end

end
