(* ===== verification/Graphics_Setup.thy ===== *)
theory Graphics_Setup
  imports Desktop Logger
begin

text \<open>
  \<open>initialize_graphics\<close> of \<open>src/kernel/graphics/graphics.cpp\<close>: it creates the layers of the desktop, paints them, stacks
  them and draws the screen for the first time. Layers can be created, moved and painted before the manager has a
  buffer; the invariant \<open>built\<close> follows them until it has one.
\<close>

subsection \<open>The layers of the desktop\<close>

definition ascii :: "string \<Rightarrow> u8 list" where
  "ascii s = map of_char s"

definition desktop_fg_color :: pixel_color where
  "desktop_fg_color = \<lparr>col_r = 0xc8, col_g = 0xc8, col_b = 0xc6\<rparr>"

definition desktop_bg_color :: pixel_color where
  "desktop_bg_color = \<lparr>col_r = 0x1d, col_g = 0x1f, col_b = 0x21\<rparr>"

text \<open>A painter that lives as long as its block, with its drawing operations.\<close>

definition paint_layer :: "u8 list \<Rightarrow> layer_manager \<Rightarrow> layer_id \<Rightarrow> paint_op list \<Rightarrow> layer_manager option" where
  "paint_layer font mgr lid ops = do {
     l \<leftarrow> find_layer mgr lid;
     p \<leftarrow> paint_run font (start_paint l) ops;
     painter_end mgr lid p }"

definition background_ops :: "vec \<Rightarrow> paint_op list" where
  "background_ops screen_size =
     (let w = vx screen_size; h = vy screen_size
      in [Filled (rect 0 0 w (h - 50)) desktop_bg_color,
          Filled (rect 0 (h - 50) w h) \<lparr>col_r = 1, col_g = 8, col_b = 17\<rparr>,
          Filled (rect 0 (h - 50) (w div 5) h) \<lparr>col_r = 80, col_g = 80, col_b = 80\<rparr>,
          Rectangle (rect 10 (h - 40) 40 (h - 10)) \<lparr>col_r = 160, col_g = 160, col_b = 160\<rparr>,
          Filled (rect 500 500 600 600) \<lparr>col_r = 255, col_g = 0, col_b = 0\<rparr>])"

definition make_background :: "u8 list \<Rightarrow> vec \<Rightarrow> layer_manager \<Rightarrow> (layer_id \<times> layer_manager) option" where
  "make_background font screen_size mgr =
     (let (bg_layer, mgr) = new_layer mgr screen_size
      in do {
        mgr \<leftarrow> layer_move mgr bg_layer (vec 0 0);
        mgr \<leftarrow> paint_layer font mgr bg_layer (background_ops screen_size);
        Some (bg_layer, mgr) })"

definition make_console_layer :: "layer_manager \<Rightarrow> (layer_id \<times> fast_console \<times> layer_manager) option" where
  "make_console_layer mgr =
     (let (console_layer, mgr) = new_layer mgr (vec 640 400)
      in do {
        mgr \<leftarrow> layer_move mgr console_layer (vec 200 150);
        l \<leftarrow> find_layer mgr console_layer;
        (con, p) \<leftarrow> new_fast_console desktop_fg_color \<lparr>col_r = 0, col_g = 0, col_b = 123\<rparr> (start_paint l);
        mgr \<leftarrow> painter_end mgr console_layer p;
        Some (console_layer, con, mgr) })"

definition place_mouse_layer :: "layer_manager \<Rightarrow> (layer_id \<times> layer_manager) option" where
  "place_mouse_layer mgr = do {
     (mouse_layer, mgr) \<leftarrow> make_mouse_layer mgr;
     mgr \<leftarrow> layer_move mgr mouse_layer (vec 200 200);
     Some (mouse_layer, mgr) }"

definition make_main_window :: "u8 list \<Rightarrow> layer_manager \<Rightarrow> (layer_id \<times> layer_manager) option" where
  "make_main_window font mgr =
     (let (main_window_layer, mgr) = new_layer mgr (vec 160 68)
      in do {
        l \<leftarrow> find_layer mgr main_window_layer;
        p \<leftarrow> draw_window font (start_paint l) (ascii ''Hello Window'');
        p \<leftarrow> paint_step font p (Text (vec 8 44) (ascii ''Chino-chan Kawaii!'') \<lparr>col_r = 0, col_g = 0, col_b = 0\<rparr>);
        mgr \<leftarrow> painter_end mgr main_window_layer p;
        mgr \<leftarrow> layer_move mgr main_window_layer (vec 300 300);
        Some (main_window_layer, update_layer mgr main_window_layer (set_draggable True)) })"

subsection \<open>The group layer\<close>

definition new_group_layer :: "layer_manager \<Rightarrow> vec \<Rightarrow> layer_id \<times> layer_manager \<times> layer_manager" where
  "new_group_layer mgr sz =
     (let lid = lm_latest_id mgr + 1;
          (l, child) = make_group_layer lid (lm_format mgr) sz
      in (lid, mgr\<lparr>lm_latest_id := lid, lm_layers := lm_layers mgr @ [l]\<rparr>, child))"

text \<open>Operations on a layer of the group: on its own manager, then on the one the group layer belongs to.\<close>

definition group_paint ::
    "u8 list \<Rightarrow> layer_id \<Rightarrow> layer_manager \<times> layer_manager \<Rightarrow> layer_id \<Rightarrow> paint_op list \<Rightarrow> (layer_manager \<times> layer_manager) option" where
  "group_paint font group_id = (\<lambda>(mgr, child) lid ops. do {
     l \<leftarrow> find_layer child lid;
     p \<leftarrow> paint_run font (start_paint l) ops;
     child \<leftarrow> painter_end child lid p;
     mgr \<leftarrow> (if p_damaged p
        then parent_damage mgr group_id child [rect_offset (rect_of (p_top_left p) (p_bottom_right p)) (l_pos l)] else Some mgr);
     Some (mgr, child) })"

definition group_move ::
    "layer_id \<Rightarrow> layer_manager \<times> layer_manager \<Rightarrow> layer_id \<Rightarrow> vec \<Rightarrow> (layer_manager \<times> layer_manager) option" where
  "group_move group_id = (\<lambda>(mgr, child) lid pos. do {
     l \<leftarrow> find_layer child lid;
     child \<leftarrow> layer_move child lid pos;
     mgr \<leftarrow> parent_damage mgr group_id child [manager_area l, manager_area (l\<lparr>l_pos := pos\<rparr>)];
     Some (mgr, child) })"

definition group_up_down ::
    "layer_id \<Rightarrow> layer_manager \<times> layer_manager \<Rightarrow> layer_id \<Rightarrow> int \<Rightarrow> (layer_manager \<times> layer_manager) option" where
  "group_up_down group_id = (\<lambda>(mgr, child) lid new_height.
     if new_height < 0 then Some (mgr, hide child lid)
     else do {
       l \<leftarrow> find_layer child lid;
       child \<leftarrow> up_down child lid new_height;
       mgr \<leftarrow> parent_damage mgr group_id child [manager_area l];
       Some (mgr, child) })"

definition fill_group ::
    "u8 list \<Rightarrow> layer_id \<Rightarrow> layer_manager \<times> layer_manager \<Rightarrow> (layer_id \<times> layer_manager \<times> layer_manager) option" where
  "fill_group font group_id = (\<lambda>(mgr, group_manager).
     let (bg, group_manager) = new_layer group_manager (vec 500 500);
         tc = \<lparr>col_r = 0x00, col_g = 0xff, col_b = 0x00\<rparr>;
         mgr = update_layer mgr group_id (set_transparent_color (Some tc))
     in do {
       (mgr, group_manager) \<leftarrow> group_paint font group_id (mgr, group_manager) bg [Filled (rect 0 0 500 500) tc];
       let (test, group_manager) = new_layer group_manager (vec 100 100)
       in do {
         s \<leftarrow> group_paint font group_id (mgr, group_manager) test
           [Filled (with_size (vec 0 0) (vec 100 100)) \<lparr>col_r = 0xff, col_g = 0x00, col_b = 0xff\<rparr>,
            Filled (with_size (vec 30 30) (vec 50 50)) \<lparr>col_r = 0xff, col_g = 0xff, col_b = 0x00\<rparr>];
         s \<leftarrow> group_move group_id s test (vec 10 10);
         s \<leftarrow> group_up_down group_id s bg 0;
         s \<leftarrow> group_up_down group_id s test 1;
         Some (test, s) } })"

subsection \<open>The start of the desktop\<close>

text \<open>
  The global state: \<open>layer_manager\<close>, the manager of the group layer, the global console with its layer, and the ids of
  \<open>layer_ids.hpp\<close>.
\<close>

record desktop =
  d_manager :: layer_manager
  d_group_manager :: layer_manager
  d_console :: fast_console
  d_console_layer :: layer_id
  d_mouse :: layer_id
  d_group_layer :: layer_id
  d_main_window :: layer_id
  d_test_layer :: layer_id

text \<open>\<open>put_string\<close> of the global console, which is known by its layer.\<close>

definition put_string :: "u8 list \<Rightarrow> layer_id \<Rightarrow> u8 list \<Rightarrow> desktop \<Rightarrow> desktop option" where
  "put_string font con_layer s d = do {
     (con, mgr) \<leftarrow> fast_put_string font (d_manager d) con_layer (d_console d) s;
     Some (d\<lparr>d_console := con, d_manager := mgr\<rparr>) }"

definition printk :: "u8 list \<Rightarrow> desktop \<Rightarrow> u8 list \<Rightarrow> desktop option" where
  "printk font d formatted = put_string font (d_console_layer d) (char_buffer 1024 formatted) d"

definition initialize_graphics :: "u8 list \<Rightarrow> frame_buffer \<Rightarrow> desktop option" where
  "initialize_graphics font screen =
     (let screen_size = fb_size screen;
          mgr = new_layer_manager True (pixel_format screen)
      in do {
        (bg_layer, mgr) \<leftarrow> make_background font screen_size mgr;
        (console_layer, console, mgr) \<leftarrow> make_console_layer mgr;
        (mouse_layer, mgr) \<leftarrow> place_mouse_layer mgr;
        let (group_layer, mgr, child) = new_group_layer mgr (vec 500 500)
        in do {
          mgr \<leftarrow> layer_move mgr group_layer (vec 0 0);
          (main_window_layer, mgr) \<leftarrow> make_main_window font mgr;
          (test, mgr, child) \<leftarrow> fill_group font group_layer (mgr, child);
          mgr \<leftarrow> up_down mgr bg_layer 0;
          mgr \<leftarrow> up_down mgr console_layer 1;
          mgr \<leftarrow> up_down mgr group_layer 2;
          mgr \<leftarrow> up_down mgr main_window_layer 3;
          mgr \<leftarrow> up_down mgr mouse_layer 4;
          mgr \<leftarrow> manager_draw (set_buffer mgr (Some screen));
          let d = \<lparr>d_manager = mgr, d_group_manager = child, d_console = console, d_console_layer = console_layer,
                d_mouse = mouse_layer, d_group_layer = group_layer, d_main_window = main_window_layer, d_test_layer = test\<rparr>
          in do {
            d \<leftarrow> printk font d (ascii ''chino chan kawaii!'' @ [newline]);
            printk font d (ascii ''gochuumon wa usagi desu ka?'' @ [newline]) } } })"

subsection \<open>Managers under construction\<close>

text \<open>
  What the construction depends on of a layer, and a manager whose layers are those of a given list: with id, position,
  transparent colour, whether it can be dragged, and size. The first component has what never changes: the pixel format,
  whether the manager has a back buffer, and the area of its buffer.
\<close>

definition layer_shape :: "layer \<Rightarrow> layer_id \<times> vec \<times> pixel_color option \<times> bool \<times> vec" where
  "layer_shape l = (l_id l, l_pos l, l_transparent_color l, l_draggable l, layer_size l)"

definition built where
  "built K n S st mgr \<longleftrightarrow> wf_manager mgr \<and> buffers_ok mgr \<and>
     (lm_format mgr, lm_double mgr, map_option buffer_rect (lm_buffer mgr)) = K \<and> lm_latest_id mgr = n \<and>
     map layer_shape (lm_layers mgr) = S \<and> lm_stack mgr = st"

lemma fst_layer_shape [simp]: "fst (layer_shape l) = l_id l"
  by (simp add: layer_shape_def)

lemma find_built:
  assumes "built (fmt, dbl, R) n S st mgr" and "find (\<lambda>s. fst s = lid) S = Some s"
  obtains l where "find_layer mgr lid = Some l" "layer_shape l = s" "layer_ok fmt l" "l_id l = lid"
proof -
  have "find (\<lambda>s. fst s = lid) (map layer_shape ls) = map_option layer_shape (find (\<lambda>l. l_id l = lid) ls)" for ls
    by (induction ls) auto
  then have "map_option layer_shape (find_layer mgr lid) = Some s" using assms by (auto simp: built_def find_layer_def)
  then obtain l where l: "find_layer mgr lid = Some l" "layer_shape l = s" by auto
  then have "l \<in> set (lm_layers mgr)" "l_id l = lid" using find_layer_iff assms(1) by (auto simp: built_def)
  then show thesis using that l assms(1) by (auto simp: built_def wf_manager_def)
qed

lemma damage_built:
  assumes "built K n S st mgr"
  shows "\<exists>mgr'. damage mgr lid rects = Some mgr' \<and> built K n S st mgr' \<and> lm_layers mgr' = lm_layers mgr"
proof -
  from assms damage_total obtain fb bk where d: "damage mgr lid rects = Some (mgr\<lparr>lm_buffer := fb, lm_back := bk\<rparr>)"
      "map_option buffer_rect fb = map_option buffer_rect (lm_buffer mgr)" "buffers_ok (mgr\<lparr>lm_buffer := fb, lm_back := bk\<rparr>)"
    unfolding built_def by blast
  moreover have "wf_manager (mgr\<lparr>lm_buffer := fb, lm_back := bk\<rparr>) = wf_manager mgr" by (simp add: wf_manager_def)
  ultimately show ?thesis using assms unfolding built_def by auto
qed

text \<open>A change of one layer that is described by its shape.\<close>

definition reshape where
  "reshape lid g S = map (\<lambda>s. if fst s = lid then g s else s) S"

lemma update_built:
  assumes b: "built (fmt, dbl, R) n S st mgr"
    and f: "\<And>l. l \<in> set (lm_layers mgr) \<Longrightarrow> l_id l = lid \<Longrightarrow> layer_ok fmt l \<Longrightarrow> layer_ok fmt (f l) \<and> layer_shape (f l) = g (layer_shape l)"
    and id: "\<And>l. l_id l = lid \<Longrightarrow> l_id (f l) = lid"
  shows "built (fmt, dbl, R) n (reshape lid g S) st (update_layer mgr lid f)"
proof -
  have wf: "wf_manager mgr" "lm_format mgr = fmt" using b by (auto simp: built_def)
  then have ok: "layer_ok fmt l" if "l \<in> set (lm_layers mgr)" for l using that by (auto simp: wf_manager_def)
  have "wf_manager (update_layer mgr lid f)" using wf f ok id by (intro wf_manager_update) auto
  moreover have "map layer_shape (lm_layers (update_layer mgr lid f)) = reshape lid g S"
    using b f ok by (auto simp: built_def update_layer_def reshape_def)
  moreover have "buffers_ok (update_layer mgr lid f)" using b by (auto simp: built_def buffers_ok_def update_layer_def split: option.splits)
  ultimately show ?thesis using b by (simp add: built_def update_layer_def)
qed

lemma make_layer_ok:
  assumes "0 \<le> vx sz" "0 \<le> vy sz" "vx sz * vy sz < 2 ^ 31"
  shows "layer_ok fmt (make_layer lid fmt sz)" and "layer_shape (make_layer lid fmt sz) = (lid, vec 0 0, None, False, sz)"
proof -
  have "nat (vx sz) * nat (vy sz) < 2 ^ 31" using assms by (simp flip: nat_mult_distrib)
  then show "layer_ok fmt (make_layer lid fmt sz)"
    by (simp add: layer_ok_def make_layer_def wf_frame_buffer_def new_frame_buffer_def Let_def buffer_size_def)
  show "layer_shape (make_layer lid fmt sz) = (lid, vec 0 0, None, False, sz)"
    using assms by (simp add: layer_shape_def make_layer_def layer_size_def new_frame_buffer_def fb_size_def vec_def Let_def)
qed

lemma new_built:
  assumes b: "built (fmt, dbl, R) n S st mgr" and n: "n < n + 1" and sz: "0 \<le> vx sz" "0 \<le> vy sz" "vx sz * vy sz < 2 ^ 31"
  obtains mgr' where "new_layer mgr sz = (n + 1, mgr')" "built (fmt, dbl, R) (n + 1) (S @ [(n + 1, vec 0 0, None, False, sz)]) st mgr'"
proof -
  have wf: "wf_manager mgr" "lm_format mgr = fmt" "lm_latest_id mgr = n" using b by (auto simp: built_def)
  define mgr' where "mgr' = mgr\<lparr>lm_latest_id := n + 1, lm_layers := lm_layers mgr @ [make_layer (n + 1) fmt sz]\<rparr>"
  have old: "l_id l \<le> n" "layer_ok fmt l" if "l \<in> set (lm_layers mgr)" for l using wf that by (auto simp: wf_manager_def)
  have id: "l_id (make_layer (n + 1) fmt sz) = n + 1" by (simp add: make_layer_def)
  have "wf_manager mgr'"
    using wf old n make_layer_ok(1)[OF sz] id by (fastforce simp: wf_manager_def mgr'_def)
  moreover have "buffers_ok mgr'" using b by (auto simp: built_def buffers_ok_def mgr'_def split: option.splits)
  ultimately have "built (fmt, dbl, R) (n + 1) (S @ [(n + 1, vec 0 0, None, False, sz)]) st mgr'"
    using b make_layer_ok(2)[OF sz] by (simp add: built_def mgr'_def)
  then show thesis using that wf by (simp add: new_layer_def mgr'_def Let_def)
qed

lemma find_layer_unique: "wf_manager mgr \<Longrightarrow> find_layer mgr lid = Some l \<Longrightarrow> k \<in> set (lm_layers mgr) \<Longrightarrow> l_id k = lid \<Longrightarrow> k = l"
  using find_layer_iff[of mgr lid k] by simp

lemma move_built:
  assumes b: "built (fmt, dbl, R) n S st mgr" and s: "find (\<lambda>s. fst s = lid) S = Some s"
  shows "\<exists>mgr'. layer_move mgr lid pos = Some mgr' \<and>
    built (fmt, dbl, R) n (reshape lid (\<lambda>(i, p, t). (i, pos, t)) S) st mgr'"
proof -
  obtain l where l: "find_layer mgr lid = Some l" "layer_shape l = s" "layer_ok fmt l" "l_id l = lid" using find_built[OF b s] .
  have wf: "wf_manager mgr" using b by (simp add: built_def)
  have "k = l" if "k \<in> set (lm_layers mgr)" "l_id k = lid" for k using find_layer_unique[OF wf l(1) that] .
  then have "built (fmt, dbl, R) n (reshape lid (\<lambda>(i, p, t). (i, pos, t)) S) st (update_layer mgr lid (\<lambda>_. l\<lparr>l_pos := pos\<rparr>))"
    using l by (intro update_built[OF b]) (auto simp: layer_ok_def layer_shape_def layer_size_def)
  from damage_built[OF this] l(1) show ?thesis by (auto simp: layer_move_def Let_def)
qed

lemma reshape_same: "(\<And>s. s \<in> set S \<Longrightarrow> fst s = lid \<Longrightarrow> g s = s) \<Longrightarrow> reshape lid g S = S"
  unfolding reshape_def by (rule map_idI) auto

lemma rebuffer_built:
  assumes b: "built (fmt, dbl, R) n S st mgr" and s: "find (\<lambda>s. fst s = lid) S = Some (lid, pos, t, d, sz)"
    and fb: "wf_frame_buffer fb" "pixel_format fb = fmt" "fb_size fb = sz"
  shows "built (fmt, dbl, R) n S st (update_layer mgr lid (\<lambda>l. l\<lparr>l_buffer := fb\<rparr>))"
proof -
  obtain l where l: "find_layer mgr lid = Some l" "layer_shape l = (lid, pos, t, d, sz)" "layer_ok fmt l" "l_id l = lid" using find_built[OF b s] .
  have wf: "wf_manager mgr" using b by (simp add: built_def)
  have "k = l" if "k \<in> set (lm_layers mgr)" "l_id k = lid" for k using find_layer_unique[OF wf l(1) that] .
  then have "built (fmt, dbl, R) n (reshape lid (\<lambda>s. s) S) st (update_layer mgr lid (\<lambda>l. l\<lparr>l_buffer := fb\<rparr>))"
    using l fb by (intro update_built[OF b]) (auto simp: layer_ok_def layer_shape_def layer_size_def)
  then show ?thesis by (simp add: reshape_same)
qed

lemma layer_damage_built:
  assumes b: "built (fmt, dbl, R) n S st mgr" and s: "find (\<lambda>s. fst s = lid) S = Some s"
  shows "\<exists>mgr'. layer_damage mgr lid rects = Some mgr' \<and> built (fmt, dbl, R) n S st mgr' \<and> lm_layers mgr' = lm_layers mgr"
proof -
  obtain l where "find_layer mgr lid = Some l" using find_built[OF b s] .
  then show ?thesis using damage_built[OF b, of lid "map (\<lambda>r. rect_offset r (l_pos l)) rects"] by (simp add: layer_damage_def)
qed

lemma find_layers_eq: "lm_layers m = lm_layers m' \<Longrightarrow> find_layer m i = find_layer m' i"
  by (simp add: find_layer_def)

lemma painter_end_built:
  assumes b: "built (fmt, dbl, R) n S st mgr" and s: "find (\<lambda>s. fst s = lid) S = Some (lid, pos, t, d, sz)"
    and p: "wf_frame_buffer (p_buffer p)" "pixel_format (p_buffer p) = fmt" "fb_size (p_buffer p) = sz"
  shows "\<exists>mgr'. painter_end mgr lid p = Some mgr' \<and> built (fmt, dbl, R) n S st mgr'"
  using layer_damage_built[OF rebuffer_built[OF assms] s] rebuffer_built[OF assms]
  by (auto simp: painter_end_def Let_def)

text \<open>Painting: drawing operations that stay inside the layer.\<close>

lemma start_paint_inv: "layer_ok fmt l \<Longrightarrow> painter_inv (l_buffer l) (start_paint l)"
  by (simp add: painter_inv_def start_paint_def layer_ok_def)

lemma painted_built:
  assumes b: "built (fmt, dbl, R) n S st mgr" and s: "find (\<lambda>s. fst s = lid) S = Some (lid, pos, t, d, sz)"
    and l: "find_layer mgr lid = Some l" and inv: "painter_inv (l_buffer l) p"
  shows "\<exists>mgr'. painter_end mgr lid p = Some mgr' \<and> built (fmt, dbl, R) n S st mgr'"
proof -
  have "layer_ok fmt l" "layer_size l = sz" using find_built[OF b s] l by (auto simp: layer_shape_def)
  moreover have "changed_within (painter_region p) (l_buffer l) (p_buffer p)" using inv by (simp add: painter_inv_def)
  ultimately show ?thesis
    using painter_inv_buffer[OF inv] changed_within_format by (intro painter_end_built[OF b s]) (auto simp: layer_ok_def layer_size_def)
qed

lemma paint_built:
  assumes b: "built (fmt, dbl, R) n S st mgr" and s: "find (\<lambda>s. fst s = lid) S = Some (lid, pos, t, d, sz)"
    and font: "font_ok font" and fits: "\<forall>a\<in>set as. paint_fits sz a"
  shows "\<exists>mgr'. paint_layer font mgr lid as = Some mgr' \<and> built (fmt, dbl, R) n S st mgr'"
proof -
  obtain l where l: "find_layer mgr lid = Some l" "layer_shape l = (lid, pos, t, d, sz)" "layer_ok fmt l" using find_built[OF b s] .
  from paint_run_inv[OF start_paint_inv[OF l(3)] font] fits l(2) obtain p where
      "paint_run font (start_paint l) as = Some p" "painter_inv (l_buffer l) p" by (auto simp: layer_shape_def layer_size_def)
  with painted_built[OF b s l(1)] l(1) show ?thesis by (simp add: paint_layer_def)
qed

lemma up_down_built:
  assumes b: "built (fmt, dbl, R) n S st mgr" and s: "find (\<lambda>s. fst s = lid) S = Some s" and h: "0 \<le> h"
  shows "\<exists>mgr'. up_down mgr lid h = Some mgr' \<and> lm_layers mgr' = lm_layers mgr \<and>
    built (fmt, dbl, R) n S (insert_at (new_index st lid h) lid (remove1 lid st)) mgr'"
proof -
  obtain l where l: "find_layer mgr lid = Some l" using find_built[OF b s] .
  let ?mgr = "mgr\<lparr>lm_stack := insert_at (new_index st lid h) lid (remove1 lid st)\<rparr>"
  have "built (fmt, dbl, R) n S (insert_at (new_index st lid h) lid (remove1 lid st)) ?mgr"
    using b wf_manager_insert[OF _ l] by (auto simp: built_def buffers_ok_def split: option.splits)
  from damage_built[OF this] show ?thesis using b up_down_damage[OF l h] by (auto simp: built_def)
qed

text \<open>A layer that has just been created.\<close>

lemma built_new:
  assumes b: "built K n S st mgr" and n: "n < n + 1"
  shows "n + 1 \<notin> fst ` set S"
proof -
  have "S = map layer_shape (lm_layers mgr)" using b by (simp add: built_def)
  then have "fst ` set S = l_id ` set (lm_layers mgr)" by (simp add: image_image)
  then show ?thesis using b n by (auto simp: built_def wf_manager_def)
qed

lemma find_new [simp]: "i \<notin> fst ` set S \<Longrightarrow> find (\<lambda>s. fst s = i) (S @ [(i, x)]) = Some (i, x)"
  by (induction S) auto

lemma reshape_new [simp]: "i \<notin> fst ` set S \<Longrightarrow> reshape i g (S @ [(i, x)]) = S @ [g (i, x)]"
  using reshape_same[of S i g] by (force simp: reshape_def)

lemma background_ops_fit:
  assumes "600 \<le> vx sz" and "600 \<le> vy sz"
  shows "\<forall>a\<in>set (background_ops sz). paint_fits sz a"
  using assms by (auto simp: background_ops_def Let_def includes_rect_def with_size_def width_def height_def)

lemma make_background_built:
  assumes b: "built (fmt, dbl, R) n S st mgr" and n: "n < n + 1" and font: "font_ok font"
    and sz: "600 \<le> vx sz" "600 \<le> vy sz" "vx sz * vy sz < 2 ^ 31"
  shows "\<exists>mgr'. make_background font sz mgr = Some (n + 1, mgr') \<and>
    built (fmt, dbl, R) (n + 1) (S @ [(n + 1, vec 0 0, None, False, sz)]) st mgr'"
proof -
  obtain m1 where m1: "new_layer mgr sz = (n + 1, m1)" "built (fmt, dbl, R) (n + 1) (S @ [(n + 1, vec 0 0, None, False, sz)]) st m1"
    by (rule new_built[OF b n, of sz]) (use sz in auto)
  note new = built_new[OF b n]
  obtain m2 where m2: "layer_move m1 (n + 1) (vec 0 0) = Some m2" "built (fmt, dbl, R) (n + 1) (S @ [(n + 1, vec 0 0, None, False, sz)]) st m2"
    using move_built[OF m1(2) find_new[OF new], of "vec 0 0"] new by auto
  from paint_built[OF m2(2) find_new[OF new] font background_ops_fit[OF sz(1,2)]] m1(1) m2(1)
  show ?thesis by (auto simp: make_background_def)
qed

lemma make_console_built:
  assumes b: "built (fmt, dbl, R) n S st mgr" and n: "n < n + 1"
  shows "\<exists>con mgr'. make_console_layer mgr = Some (n + 1, con, mgr') \<and> fast_cursor con [[]] \<and>
    built (fmt, dbl, R) (n + 1) (S @ [(n + 1, vec 200 150, None, False, text_size)]) st mgr'"
proof -
  have ts: "vec 640 400 = text_size" by (simp add: text_size_def rows_def columns_def)
  obtain m1 where m1: "new_layer mgr text_size = (n + 1, m1)" "built (fmt, dbl, R) (n + 1) (S @ [(n + 1, vec 0 0, None, False, text_size)]) st m1"
    using new_built[OF b n, of text_size] by (auto simp: ts[symmetric])
  note new = built_new[OF b n]
  obtain m2 where m2: "layer_move m1 (n + 1) (vec 200 150) = Some m2"
      "built (fmt, dbl, R) (n + 1) (S @ [(n + 1, vec 200 150, None, False, text_size)]) st m2"
    using move_built[OF m1(2) find_new[OF new], of "vec 200 150"] new by auto
  obtain l where l: "find_layer m2 (n + 1) = Some l" "layer_shape l = (n + 1, vec 200 150, None, False, text_size)" "layer_ok fmt l"
    using find_built[OF m2(2) find_new[OF new]] by auto
  have "paint_fits (fb_size (l_buffer l)) (Filled (rect 0 0 (8 * int columns) (16 * int rows)) c)" for c
    using l(2) by (simp add: layer_shape_def layer_size_def text_size_def includes_rect_def with_size_def)
  from paint_step_inv[OF start_paint_inv[OF l(3)] _ this, of "replicate 16 0"] obtain p where
      p: "painter_draw_filled_rectangle (start_paint l) (rect 0 0 (8 * int columns) (16 * int rows)) \<lparr>col_r = 0, col_g = 0, col_b = 123\<rparr> = Some p"
      "painter_inv (l_buffer l) p" by (auto simp: font_ok_def)
  from painted_built[OF m2(2) find_new[OF new] l(1) p(2)] m1 m2 l p(1)
  show ?thesis by (auto simp: make_console_layer_def ts new_fast_console_def fast_cursor_def visible_lines_def)
qed

lemma place_mouse_built:
  assumes b: "built (fmt, dbl, R) n S st mgr" and n: "n < n + 1"
  shows "\<exists>mgr'. place_mouse_layer mgr = Some (n + 1, mgr') \<and>
    built (fmt, dbl, R) (n + 1) (S @ [(n + 1, vec 200 200, Some (pixel_color_of 0xff0000), False, vec 15 24)]) st mgr'"
proof -
  let ?c = "Some (pixel_color_of 0xff0000)"
  obtain m1 where m1: "new_layer mgr (vec 15 24) = (n + 1, m1)" "built (fmt, dbl, R) (n + 1) (S @ [(n + 1, vec 0 0, None, False, vec 15 24)]) st m1"
    using new_built[OF b n, of "vec 15 24"] by auto
  note new = built_new[OF b n]
  define m2 where "m2 = update_layer m1 (n + 1) (set_transparent_color ?c)"
  have m2: "built (fmt, dbl, R) (n + 1) (S @ [(n + 1, vec 0 0, ?c, False, vec 15 24)]) st m2"
    using update_built[OF m1(2), of "n + 1" "set_transparent_color ?c" "\<lambda>(i, p, t, x). (i, p, ?c, x)"] new
    by (auto simp: m2_def set_transparent_color_def layer_ok_def layer_shape_def layer_size_def)
  obtain l where l: "find_layer m2 (n + 1) = Some l" "layer_shape l = (n + 1, vec 0 0, ?c, False, vec 15 24)" "layer_ok fmt l"
    using find_built[OF m2 find_new[OF new]] by auto
  have rect: "buffer_rect (l_buffer l) = with_size (vec 0 0) (vec 15 24)" using l(2) by (simp add: layer_shape_def layer_size_def buffer_rect_def)
  have "wf_frame_buffer (l_buffer l)" using l(3) by (simp add: layer_ok_def)
  then obtain fb where fb: "draw_mouse_cursor (l_buffer l) (vec 0 0) = Some fb" "changed_within (points (buffer_rect (l_buffer l))) (l_buffer l) fb"
    using draw_picture_changed[of "l_buffer l" 0 0 15 24 "points (buffer_rect (l_buffer l))"]
    by (auto simp: draw_mouse_cursor_def mouse_cursor_width_def mouse_cursor_height_def rect)
  have "wf_frame_buffer fb" "pixel_format fb = fmt" "fb_size fb = vec 15 24"
    using changed_within_wf[OF fb(2)] changed_within_format[OF fb(2)] changed_within_fb_size[OF fb(2)] l(2,3)
    by (auto simp: layer_ok_def layer_shape_def layer_size_def)
  then obtain m3 where m3: "painter_end m2 (n + 1) ((painter_pixel_writer (start_paint l))\<lparr>p_buffer := fb\<rparr>) = Some m3"
      "built (fmt, dbl, R) (n + 1) (S @ [(n + 1, vec 0 0, ?c, False, vec 15 24)]) st m3"
    using painter_end_built[OF m2 find_new[OF new], of "(painter_pixel_writer (start_paint l))\<lparr>p_buffer := fb\<rparr>"] by auto
  have "p_buffer (painter_pixel_writer (start_paint l)) = l_buffer l" by (simp add: painter_pixel_writer_def start_paint_def)
  then have "make_mouse_layer mgr = Some (n + 1, m3)"
    using m1(1) l(1) fb(1) m3(1)
    by (simp add: make_mouse_layer_def mouse_cursor_width_def mouse_cursor_height_def Let_def flip: m2_def)
  with move_built[OF m3(2) find_new[OF new], of "vec 200 200"] new show ?thesis by (auto simp: place_mouse_layer_def)
qed

lemma make_main_window_built:
  assumes b: "built (fmt, dbl, R) n S st mgr" and n: "n < n + 1" and font: "font_ok font"
  shows "\<exists>mgr'. make_main_window font mgr = Some (n + 1, mgr') \<and>
    built (fmt, dbl, R) (n + 1) (S @ [(n + 1, vec 300 300, None, True, vec 160 68)]) st mgr'"
proof -
  let ?sz = "vec 160 68"
  obtain m1 where m1: "new_layer mgr ?sz = (n + 1, m1)" "built (fmt, dbl, R) (n + 1) (S @ [(n + 1, vec 0 0, None, False, ?sz)]) st m1"
    using new_built[OF b n, of ?sz] by auto
  note new = built_new[OF b n]
  obtain l where l: "find_layer m1 (n + 1) = Some l" "layer_shape l = (n + 1, vec 0 0, None, False, ?sz)" "layer_ok fmt l"
    using find_built[OF m1(2) find_new[OF new]] by auto
  have size: "layer_size l = ?sz" "fb_size (l_buffer l) = ?sz" using l(2) by (simp_all add: layer_shape_def layer_size_def)
  have "wf_frame_buffer (l_buffer l)" using l(3) by (simp add: layer_ok_def)
  then obtain p1 where p1: "draw_window font (start_paint l) (ascii ''Hello Window'') = Some p1" "painter_inv (l_buffer l) p1"
    using draw_window_inv[of l font "ascii ''Hello Window''"] font size by (auto simp: ascii_def)
  have "paint_fits (fb_size (l_buffer l)) (Text (vec 8 44) (ascii ''Chino-chan Kawaii!'') c)" for c
    by (simp add: size ascii_def includes_rect_def with_size_def)
  from paint_step_inv[OF p1(2) font this] obtain p2 where
      p2: "paint_step font p1 (Text (vec 8 44) (ascii ''Chino-chan Kawaii!'') \<lparr>col_r = 0, col_g = 0, col_b = 0\<rparr>) = Some p2"
        "painter_inv (l_buffer l) p2" by blast
  obtain m2 where m2: "painter_end m1 (n + 1) p2 = Some m2" "built (fmt, dbl, R) (n + 1) (S @ [(n + 1, vec 0 0, None, False, ?sz)]) st m2"
    using painted_built[OF m1(2) find_new[OF new] l(1) p2(2)] by blast
  obtain m3 where m3: "layer_move m2 (n + 1) (vec 300 300) = Some m3"
      "built (fmt, dbl, R) (n + 1) (S @ [(n + 1, vec 300 300, None, False, ?sz)]) st m3"
    using move_built[OF m2(2) find_new[OF new], of "vec 300 300"] new by auto
  have "built (fmt, dbl, R) (n + 1) (S @ [(n + 1, vec 300 300, None, True, ?sz)]) st (update_layer m3 (n + 1) (set_draggable True))"
    using update_built[OF m3(2), of "n + 1" "set_draggable True" "\<lambda>(i, p, t, d, x). (i, p, t, True, x)"] new
    by (auto simp: set_draggable_def layer_ok_def layer_shape_def layer_size_def)
  then show ?thesis using m1(1) l(1) p1(1) p2(1) m2(1) m3(1) by (simp add: make_main_window_def)
qed

subsection \<open>The group layer under construction\<close>

lemma with_size_inject: "with_size p a = with_size p b \<longleftrightarrow> a = b"
  by (auto simp: with_size_def rect_of_def rect_def vec_add_def vec_def intro: vec_eqI)

lemma new_group_built:
  assumes b: "built (fmt, dbl, R) n S st mgr" and n: "n < n + 1" and sz: "0 \<le> vx sz" "0 \<le> vy sz" "vx sz * vy sz < 2 ^ 31"
  obtains mgr' child l where "new_group_layer mgr sz = (n + 1, mgr', child)"
    and "built (fmt, dbl, R) (n + 1) (S @ [(n + 1, vec 0 0, None, False, sz)]) st mgr'"
    and "built (fmt, False, Some (with_size (vec 0 0) sz)) 0 [] [] child"
proof -
  obtain m1 where m1: "new_layer mgr sz = (n + 1, m1)" "built (fmt, dbl, R) (n + 1) (S @ [(n + 1, vec 0 0, None, False, sz)]) st m1"
    by (rule new_built[OF b n sz])
  have fmt: "lm_format mgr = fmt" "lm_latest_id mgr = n" using b by (auto simp: built_def)
  let ?l = "make_layer (n + 1) fmt sz"
  have ok: "layer_ok fmt ?l" "layer_size ?l = sz" using make_layer_ok[OF sz] by (simp_all add: layer_shape_def)
  have "buffer_rect (l_buffer ?l) = with_size (vec 0 0) sz" using ok(2) by (simp add: buffer_rect_def layer_size_def)
  then have "built (fmt, False, Some (with_size (vec 0 0) sz)) 0 [] [] (set_buffer (new_layer_manager False fmt) (Some (l_buffer ?l)))"
    using ok(1) by (simp add: built_def wf_manager_def buffers_ok_def canvas_ok_def layer_ok_def set_buffer_defs new_layer_manager_def)
  moreover have "new_group_layer mgr sz = (n + 1, m1, set_buffer (new_layer_manager False fmt) (Some (l_buffer ?l)))"
    using m1(1) fmt by (auto simp: new_group_layer_def new_layer_def make_group_layer_def Let_def)
  ultimately show thesis using that m1(2) by blast
qed

text \<open>
  The group layer shows the buffer of its manager. Its manager reports every damage, so this holds again after each
  operation on a layer of the group.
\<close>

definition linked :: "layer_id \<Rightarrow> layer_manager \<Rightarrow> layer_manager \<Rightarrow> bool" where
  "linked gid mgr child \<longleftrightarrow> (\<exists>l. find_layer mgr gid = Some l \<and> lm_buffer child = Some (l_buffer l))"

lemma parent_damage_built:
  assumes b: "built (fmt, dbl, R) n S st mgr" and s: "find (\<lambda>s. fst s = gid) S = Some (gid, pos, t, d, sz)"
    and child: "built (fmt, False, Some (with_size (vec 0 0) sz)) k T ct child" and rects: "rects \<noteq> []"
  shows "\<exists>mgr'. parent_damage mgr gid child rects = Some mgr' \<and> built (fmt, dbl, R) n S st mgr' \<and> linked gid mgr' child"
proof -
  obtain fb where fb: "lm_buffer child = Some fb" "wf_frame_buffer fb" "pixel_format fb = fmt" "buffer_rect fb = with_size (vec 0 0) sz"
    using child by (auto simp: built_def buffers_ok_def canvas_ok_def)
  then have "fb_size fb = sz" by (simp add: buffer_rect_def with_size_inject)
  note re = rebuffer_built[OF b s fb(2,3) this]
  obtain mgr' where m: "layer_damage (update_layer mgr gid (\<lambda>l. l\<lparr>l_buffer := fb\<rparr>)) gid rects = Some mgr'"
      "built (fmt, dbl, R) n S st mgr'" "lm_layers mgr' = lm_layers (update_layer mgr gid (\<lambda>l. l\<lparr>l_buffer := fb\<rparr>))"
    using layer_damage_built[OF re s] by blast
  obtain l where l: "find_layer mgr gid = Some l" "l_id l = gid" using find_built[OF b s] by blast
  have "find_layer mgr' gid = find_layer (update_layer mgr gid (\<lambda>l. l\<lparr>l_buffer := fb\<rparr>)) gid" by (rule find_layers_eq) (rule m(3))
  also have "\<dots> = Some (l\<lparr>l_buffer := fb\<rparr>)" using l by (subst find_layer_update) auto
  finally have "linked gid mgr' child" using fb(1) by (simp add: linked_def)
  then show ?thesis using m(1,2) fb(1) rects by (simp add: parent_damage_def)
qed

text \<open>The two managers: the group layer's entry \<open>s\<close> is in the list of the outer manager.\<close>

definition group_built where
  "group_built A gid sz B = (\<lambda>(mgr, child). (case (A, B) of ((fmt, dbl, R, n, S, st), (k, T, ct)) \<Rightarrow>
     built (fmt, dbl, R) n S st mgr \<and> built (fmt, False, Some (with_size (vec 0 0) sz)) k T ct child \<and>
     (\<exists>pos t d. find (\<lambda>s. fst s = gid) S = Some (gid, pos, t, d, sz))))"

lemma parent_damage_group:
  assumes "group_built A gid sz B (mgr, child)" and "rects \<noteq> []"
  shows "\<exists>mgr'. parent_damage mgr gid child rects = Some mgr' \<and> group_built A gid sz B (mgr', child) \<and> linked gid mgr' child"
  using parent_damage_built[OF _ _ _ assms(2)] assms(1) unfolding group_built_def prod.case by (auto split: prod.splits)

lemma group_built_child:
  "group_built A gid sz B (mgr, child) \<Longrightarrow> (\<And>fmt R. built (fmt, False, R) k T ct child \<Longrightarrow> built (fmt, False, R) k' T' ct' child') \<Longrightarrow>
    B = (k, T, ct) \<Longrightarrow> group_built A gid sz (k', T', ct') (mgr, child')"
  by (auto simp: group_built_def split: prod.splits)

lemma group_new_built:
  assumes g: "group_built A gid sz (k, T, ct) (mgr, child)" and k: "k < k + 1"
    and z: "0 \<le> vx z" "0 \<le> vy z" "vx z * vy z < 2 ^ 31"
  obtains child' where "new_layer child z = (k + 1, child')"
    and "group_built A gid sz (k + 1, T @ [(k + 1, vec 0 0, None, False, z)], ct) (mgr, child')"
proof -
  obtain fmt dbl R n S st where A: "A = (fmt, dbl, R, n, S, st)" by (metis surj_pair)
  have b: "built (fmt, False, Some (with_size (vec 0 0) sz)) k T ct child" using g by (simp add: group_built_def A)
  obtain child' where "new_layer child z = (k + 1, child')"
      "built (fmt, False, Some (with_size (vec 0 0) sz)) (k + 1) (T @ [(k + 1, vec 0 0, None, False, z)]) ct child'"
    by (rule new_built[OF b k z])
  then show thesis using that g by (simp add: group_built_def A)
qed

lemma group_paint_built:
  assumes g: "group_built A gid sz (k, T, ct) (mgr, child)" and s: "find (\<lambda>s. fst s = lid) T = Some (lid, pos, t, d, z)"
    and font: "font_ok font" and fits: "\<forall>a\<in>set as. paint_fits z a" and ne: "as \<noteq> []"
  shows "\<exists>mgr' child'. group_paint font gid (mgr, child) lid as = Some (mgr', child') \<and> group_built A gid sz (k, T, ct) (mgr', child')"
proof -
  obtain fmt dbl R n S st where A: "A = (fmt, dbl, R, n, S, st)" by (metis surj_pair)
  have b: "built (fmt, False, Some (with_size (vec 0 0) sz)) k T ct child" using g by (simp add: group_built_def A)
  obtain l where l: "find_layer child lid = Some l" "layer_shape l = (lid, pos, t, d, z)" "layer_ok fmt l" using find_built[OF b s] .
  from paint_run_inv[OF start_paint_inv[OF l(3)] font] fits l(2) ne obtain p where
      p: "paint_run font (start_paint l) as = Some p" "painter_inv (l_buffer l) p" "p_damaged p"
    by (fastforce simp: layer_shape_def layer_size_def)
  obtain child' where c: "painter_end child lid p = Some child'" "built (fmt, False, Some (with_size (vec 0 0) sz)) k T ct child'"
    using painted_built[OF b s l(1) p(2)] by blast
  have "group_built A gid sz (k, T, ct) (mgr, child')" using g c(2) by (simp add: group_built_def A)
  from parent_damage_group[OF this, of "[rect_offset (rect_of (p_top_left p) (p_bottom_right p)) (l_pos l)]"] l(1) p c(1)
  show ?thesis by (auto simp: group_paint_def)
qed

lemma group_move_built:
  assumes g: "group_built A gid sz (k, T, ct) (mgr, child)" and s: "find (\<lambda>s. fst s = lid) T = Some s"
  shows "\<exists>mgr' child'. group_move gid (mgr, child) lid pos = Some (mgr', child') \<and>
    group_built A gid sz (k, reshape lid (\<lambda>(i, p, t). (i, pos, t)) T, ct) (mgr', child')"
proof -
  obtain fmt dbl R n S st where A: "A = (fmt, dbl, R, n, S, st)" by (metis surj_pair)
  have b: "built (fmt, False, Some (with_size (vec 0 0) sz)) k T ct child" using g by (simp add: group_built_def A)
  obtain l where l: "find_layer child lid = Some l" using find_built[OF b s] .
  obtain child' where c: "layer_move child lid pos = Some child'"
      "built (fmt, False, Some (with_size (vec 0 0) sz)) k (reshape lid (\<lambda>(i, p, t). (i, pos, t)) T) ct child'"
    using move_built[OF b s, of pos] by auto
  have "group_built A gid sz (k, reshape lid (\<lambda>(i, p, t). (i, pos, t)) T, ct) (mgr, child')" using g c(2) by (simp add: group_built_def A)
  from parent_damage_group[OF this, of "[manager_area l, manager_area (l\<lparr>l_pos := pos\<rparr>)]"] l c(1)
  show ?thesis by (auto simp: group_move_def)
qed

lemma group_up_down_built:
  assumes g: "group_built A gid sz (k, T, ct) (mgr, child)" and s: "find (\<lambda>s. fst s = lid) T = Some s" and h: "0 \<le> h"
  shows "\<exists>mgr' child'. group_up_down gid (mgr, child) lid h = Some (mgr', child') \<and> up_down child lid h = Some child' \<and>
    group_built A gid sz (k, T, insert_at (new_index ct lid h) lid (remove1 lid ct)) (mgr', child') \<and> linked gid mgr' child'"
proof -
  obtain fmt dbl R n S st where A: "A = (fmt, dbl, R, n, S, st)" by (metis surj_pair)
  have b: "built (fmt, False, Some (with_size (vec 0 0) sz)) k T ct child" using g by (simp add: group_built_def A)
  obtain l where l: "find_layer child lid = Some l" using find_built[OF b s] .
  let ?ct = "insert_at (new_index ct lid h) lid (remove1 lid ct)"
  obtain child' where c: "up_down child lid h = Some child'" "built (fmt, False, Some (with_size (vec 0 0) sz)) k T ?ct child'"
    using up_down_built[OF b s h] by auto
  have "group_built A gid sz (k, T, ?ct) (mgr, child')" using g c(2) by (simp add: group_built_def A)
  from parent_damage_group[OF this, of "[manager_area l]"] l c(1) h
  show ?thesis by (auto simp: group_up_down_def)
qed

text \<open>The first layer that comes into the stack of a manager with one buffer: when it is opaque and covers it, it is shown.\<close>

lemma first_layer_current:
  assumes wf: "wf_manager mgr" "buffers_ok mgr" "\<not> lm_double mgr" "lm_stack mgr = []" and l: "find_layer mgr lid = Some l"
    and fb: "lm_buffer mgr = Some fb" and op: "\<not> has_transparency l" and cover: "points (buffer_rect fb) \<subseteq> points (manager_area l)"
    and ud: "up_down mgr lid 0 = Some mgr'"
  shows "screen_current mgr'"
proof -
  let ?m = "mgr\<lparr>lm_stack := [lid]\<rparr>"
  have lid: "l_id l = lid" and ok: "layer_ok (lm_format mgr) l" using l find_layer_iff[OF wf(1)] wf(1) by (auto simp: wf_manager_def)
  have cfb: "canvas_ok (buffer_rect fb) (lm_format mgr) fb" using wf(2) fb by (simp add: buffers_ok_def)
  have fl: "find_layer ?m = find_layer mgr" by (simp add: fun_eq_iff find_layer_def)
  have st: "stack_layers ?m = [l]" unfolding stack_layers_def fl by (simp add: List.map_filter_simps l)
  obtain b where b: "layer_draw_damage_to l fb (manager_area l) = Some b" "canvas_ok (buffer_rect fb) (lm_format mgr) b"
      "\<forall>p\<in>points (buffer_rect fb). pixel b p = (if p \<in> points (manager_area l) then case_option (pixel fb p) id (layer_col l p) else pixel fb p)"
    using layer_draw_damage_law[OF ok cfb] by blast
  have "draw_damage_to [l] fb lid (manager_area l) = Some b" using b(1) op lid by (simp add: draw_damage_to_def)
  moreover have "up_down mgr lid 0 = damage ?m lid [manager_area l]"
    using up_down_damage[OF l, of 0] wf(4) by (simp add: insert_at_def new_index_def)
  ultimately have m': "mgr' = ?m\<lparr>lm_buffer := Some b, lm_back := lm_back ?m\<rparr>"
    using ud fb wf(3) st by (simp add: damage_defs merge_rects_def)
  have hb: "has_background ?m" using st op cover fb by (simp add: has_background_def)
  have "wf_manager ?m" using wf(1) l find_layer_iff[OF wf(1)] by (auto simp: wf_manager_def)
  moreover have "pixel b p = stack_picture [l] c p" if "p \<in> points (buffer_rect fb)" for p c
    using b(3) that cover canvas.opaque[OF ok op, of p] by (auto simp: stack_picture_def split: option.split)
  ultimately show ?thesis unfolding m'
    using hb b(2) fb wf(3) st by (intro screen_current_buffers) (auto simp: buffers_show_def shows_on_def canvas_ok_def)
qed

lemma built_parts:
  assumes "built (fmt, dbl, R) n S st mgr"
  shows "wf_manager mgr" "buffers_ok mgr" "lm_double mgr = dbl" "lm_format mgr = fmt" "lm_stack mgr = st"
    "map_option buffer_rect (lm_buffer mgr) = R"
  using assms by (simp_all add: built_def)

lemma fill_group_built:
  assumes g: "group_built (fmt, dbl, R, n, S, st) gid (vec 500 500) (0, [], []) (mgr, child)" and font: "font_ok font"
  defines "c \<equiv> Some \<lparr>col_r = 0x00, col_g = 0xff, col_b = 0x00\<rparr>"
  shows "\<exists>mgr' child'. fill_group font gid (mgr, child) = Some (2, mgr', child') \<and> linked gid mgr' child' \<and>
    built (fmt, dbl, R) n (reshape gid (\<lambda>(i, p, t, x). (i, p, c, x)) S) st mgr' \<and>
    built (fmt, False, Some (with_size (vec 0 0) (vec 500 500))) 2
      [(1, vec 0 0, None, False, vec 500 500), (2, vec 10 10, None, False, vec 100 100)] [1, 2] child' \<and> screen_current child'"
proof -
  let ?S = "reshape gid (\<lambda>(i, p, t, x). (i, p, c, x)) S"
  let ?A = "(fmt, dbl, R, n, ?S, st)"
  let ?G = "\<lambda>k T ct. group_built ?A gid (vec 500 500) (k, T, ct)"
  let ?m0 = "update_layer mgr gid (set_transparent_color c)"
  have b: "built (fmt, dbl, R) n S st mgr" "built (fmt, False, Some (with_size (vec 0 0) (vec 500 500))) 0 [] [] child"
    using g by (simp_all add: group_built_def)
  have "built (fmt, dbl, R) n ?S st ?m0"
    by (rule update_built[OF b(1)]) (auto simp: set_transparent_color_def layer_ok_def layer_shape_def layer_size_def)
  moreover obtain pos t d where "find (\<lambda>s. fst s = gid) S = Some (gid, pos, t, d, vec 500 500)" using g by (auto simp: group_built_def)
  then have "find (\<lambda>s. fst s = gid) ?S = Some (gid, pos, c, d, vec 500 500)"
    unfolding reshape_def by (induction S) (auto split: if_splits)
  ultimately have g0: "?G 0 [] [] (?m0, child)" using b(2) by (auto simp: group_built_def)
  obtain c1 where c1: "new_layer child (vec 500 500) = (1, c1)" "?G 1 [(1, vec 0 0, None, False, vec 500 500)] [] (?m0, c1)"
    by (rule group_new_built[OF g0, of "vec 500 500"]) (auto simp del: One_nat_def)
  obtain m2 c2 where s2: "group_paint font gid (?m0, c1) 1 [Filled (rect 0 0 500 500) (the c)] = Some (m2, c2)"
      "?G 1 [(1, vec 0 0, None, False, vec 500 500)] [] (m2, c2)"
    using group_paint_built[OF c1(2) _ font, of 1 "vec 0 0" None False "vec 500 500" "[Filled (rect 0 0 500 500) (the c)]"]
    by (auto simp: includes_rect_def with_size_def)
  obtain c3 where c3: "new_layer c2 (vec 100 100) = (2, c3)"
      "?G 2 [(1, vec 0 0, None, False, vec 500 500), (2, vec 0 0, None, False, vec 100 100)] [] (m2, c3)"
    by (rule group_new_built[OF s2(2), of "vec 100 100"]) auto
  let ?ops = "[Filled (with_size (vec 0 0) (vec 100 100)) \<lparr>col_r = 0xff, col_g = 0x00, col_b = 0xff\<rparr>,
            Filled (with_size (vec 30 30) (vec 50 50)) \<lparr>col_r = 0xff, col_g = 0xff, col_b = 0x00\<rparr>]"
  obtain m4 c4 where s4: "group_paint font gid (m2, c3) 2 ?ops = Some (m4, c4)"
      "?G 2 [(1, vec 0 0, None, False, vec 500 500), (2, vec 0 0, None, False, vec 100 100)] [] (m4, c4)"
    using group_paint_built[OF c3(2) _ font, of 2 "vec 0 0" None False "vec 100 100" ?ops]
    by (auto simp: includes_rect_def with_size_def)
  let ?T = "[(1, vec 0 0, None, False, vec 500 500), (2, vec 10 10, None, False, vec 100 100)]"
  obtain m5 c5 where s5: "group_move gid (m4, c4) 2 (vec 10 10) = Some (m5, c5)" "?G 2 ?T [] (m5, c5)"
    using group_move_built[OF s4(2), of 2 _ "vec 10 10"] by (auto simp: reshape_def)
  obtain m6 c6 where s6: "group_up_down gid (m5, c5) 1 0 = Some (m6, c6)" "up_down c5 1 0 = Some c6" "?G 2 ?T [1] (m6, c6)"
    using group_up_down_built[OF s5(2), of 1 _ 0] by (auto simp: insert_at_def new_index_def)
  obtain m7 c7 where s7: "group_up_down gid (m6, c6) 2 1 = Some (m7, c7)" "up_down c6 2 1 = Some c7" "?G 2 ?T [1, 2] (m7, c7)"
      "linked gid m7 c7"
    using group_up_down_built[OF s6(3), of 2 _ 1] by (auto simp: insert_at_def new_index_def)
  have b5: "built (fmt, False, Some (with_size (vec 0 0) (vec 500 500))) 2 ?T [] c5" using s5(2) by (simp add: group_built_def)
  obtain l where l: "find_layer c5 1 = Some l" "layer_shape l = (1, vec 0 0, None, False, vec 500 500)"
    by (rule find_built[OF b5, of 1]) auto
  obtain fb where fb: "lm_buffer c5 = Some fb" "buffer_rect fb = with_size (vec 0 0) (vec 500 500)"
    using built_parts(6)[OF b5] by auto
  have "screen_current c6"
    using built_parts[OF b5] l fb s6(2)
    by (intro first_layer_current[OF _ _ _ _ l(1) fb(1), of c6])
      (auto simp: layer_shape_def has_transparency_def manager_area_def points_def includes_point_def with_size_def)
  moreover have b6: "built (fmt, False, Some (with_size (vec 0 0) (vec 500 500))) 2 ?T [1] c6" using s6(3) by (simp add: group_built_def)
  obtain k where "find_layer c6 2 = Some k" by (rule find_built[OF b6, of 2]) auto
  ultimately have "screen_current c7"
    using up_down_shows[of c6 2 k 1] s7(2) built_parts(5)[OF b6] by auto
  moreover have "fill_group font gid (mgr, child) = Some (2, m7, c7)"
    using c1(1) s2(1) c3(1) s4(1) s5(1) s6(1) s7(1) by (simp add: fill_group_def c_def)
  ultimately show ?thesis using s7(3,4) by (auto simp: group_built_def)
qed

end
