(* ===== verification/Desktop_Run.thy ===== *)
theory Desktop_Run
  imports Graphics_Setup
begin

text \<open>
  The desktop while the kernel runs: what \<open>initialize_graphics\<close> establishes, and that the counter and the moving square
  of the main loop (\<open>src/kernel/main.cpp\<close>), the reports of the mouse and messages on the console keep it, in any
  order.
\<close>

subsection \<open>One round of the main loop\<close>

text \<open>\<open>snprintf(str, sizeof(str), "%010u", c)\<close>.\<close>

definition counter_string :: "int \<Rightarrow> u8 list" where
  "counter_string c = map (\<lambda>i. 48 + of_int (c div 10 ^ i mod 10)) (rev [0..<10])"

text \<open>The counter is an \<open>int\<close>: incrementing its largest value is undefined.\<close>

definition main_round :: "u8 list \<Rightarrow> int \<Rightarrow> desktop \<Rightarrow> (int \<times> desktop) option" where
  "main_round font c d =
     (if c = 2 ^ 31 - 1 then None
      else
        let c = c + 1; str = counter_string c
        in do {
          mgr \<leftarrow> paint_layer font (d_manager d) (d_main_window d)
            [Filled (with_size (vec 24 28) (vec (8 * 10) 16)) (pixel_color_of 0xc6c6c6), Text (vec 24 28) str (pixel_color_of 0x000000)];
          (mgr, child) \<leftarrow> group_move (d_group_layer d) (mgr, d_group_manager d) (d_test_layer d) (vec 10 (c mod 100));
          Some (c, d\<lparr>d_manager := mgr, d_group_manager := child\<rparr>) })"

text \<open>What happens to the desktop: a round of the main loop, a report of the mouse, a message of the kernel.\<close>

datatype desktop_event = Round | Report u8 "8 word" "8 word" | Log log_level "u8 list"

record main_state =
  m_desktop :: desktop
  m_mouse :: mouse_state
  m_counter :: int
  m_logger :: "layer_id console_logger"

definition desktop_step :: "u8 list \<Rightarrow> vec \<Rightarrow> main_state \<Rightarrow> desktop_event \<Rightarrow> main_state option" where
  "desktop_step font screen_size s e =
     (case e of
        Round \<Rightarrow> do {
          (c, d) \<leftarrow> main_round font (m_counter s) (m_desktop s);
          Some (s\<lparr>m_counter := c, m_desktop := d\<rparr>) }
      | Report buttons dx dy \<Rightarrow> do {
          (mgr, st) \<leftarrow> mouse_observer screen_size (d_mouse (m_desktop s)) (d_manager (m_desktop s), m_mouse s) buttons dx dy;
          Some (s\<lparr>m_desktop := (m_desktop s)\<lparr>d_manager := mgr\<rparr>, m_mouse := st\<rparr>) }
      | Log level formatted \<Rightarrow> do {
          d \<leftarrow> log_format (put_string font) (m_logger s) level (Some formatted) (m_desktop s);
          Some (s\<lparr>m_desktop := d\<rparr>) })"

fun desktop_run :: "u8 list \<Rightarrow> vec \<Rightarrow> main_state \<Rightarrow> desktop_event list \<Rightarrow> main_state option" where
  "desktop_run font screen_size s [] = Some s"
| "desktop_run font screen_size s (e # es) = do { s \<leftarrow> desktop_step font screen_size s e; desktop_run font screen_size s es }"

subsection \<open>What operations on managers leave alone\<close>

lemma find_layerD: "find_layer mgr i = Some k \<Longrightarrow> l_id k = i \<and> k \<in> set (lm_layers mgr)"
  by (auto simp: find_layer_def find_Some_iff)

lemma damage_frame:
  assumes "damage mgr lid rects = Some mgr'"
  shows "lm_layers mgr' = lm_layers mgr"
  using assms by (auto simp: damage_defs split: option.split_asm if_split_asm Option.bind_split_asm)

lemma layer_damage_frame: "layer_damage mgr lid rects = Some mgr' \<Longrightarrow> lm_layers mgr' = lm_layers mgr"
  by (auto simp: layer_damage_def bind_eq_Some_conv dest: damage_frame)

lemma painter_end_frame:
  assumes "painter_end mgr lid p = Some mgr'" and "i \<noteq> lid"
  shows "find_layer mgr' i = find_layer mgr i"
proof -
  let ?m = "update_layer mgr lid (\<lambda>l. l\<lparr>l_buffer := p_buffer p\<rparr>)"
  have "lm_layers mgr' = lm_layers ?m"
    using assms(1) by (auto simp: painter_end_def Let_def split: if_split_asm dest: layer_damage_frame)
  then have "find_layer mgr' i = find_layer ?m i" by (rule find_layers_eq)
  also have "\<dots> = map_option (\<lambda>l. if l_id l = lid then l\<lparr>l_buffer := p_buffer p\<rparr> else l) (find_layer mgr i)"
    by (rule find_layer_update) simp
  also have "\<dots> = find_layer mgr i"
    using assms(2) find_layerD[of mgr i] by (cases "find_layer mgr i") (simp, fastforce)
  finally show ?thesis .
qed

lemma layer_move_buffers:
  assumes wf: "wf_manager mgr" and m: "layer_move mgr lid pos = Some mgr'"
  shows "map_option l_buffer (find_layer mgr' i) = map_option l_buffer (find_layer mgr i)"
proof -
  obtain l where l: "find_layer mgr lid = Some l" "l_id l = lid"
    using m find_layer_iff[OF wf] by (auto simp: layer_move_def bind_eq_Some_conv)
  have "lm_layers mgr' = lm_layers (update_layer mgr lid (\<lambda>_. l\<lparr>l_pos := pos\<rparr>))"
    using m l by (auto simp: layer_move_def Let_def dest: damage_frame)
  then have "find_layer mgr' i = find_layer (update_layer mgr lid (\<lambda>_. l\<lparr>l_pos := pos\<rparr>)) i" by (rule find_layers_eq)
  also have "\<dots> = map_option (\<lambda>k. if l_id k = lid then l\<lparr>l_pos := pos\<rparr> else k) (find_layer mgr i)"
    using l(2) by (intro find_layer_update) simp
  finally have eq: "find_layer mgr' i = map_option (\<lambda>k. if l_id k = lid then l\<lparr>l_pos := pos\<rparr> else k) (find_layer mgr i)" .
  show ?thesis
  proof (cases "find_layer mgr i")
    case (Some k)
    then have "l_id k = lid \<Longrightarrow> k = l" using find_layer_unique[OF wf l(1)] find_layerD by blast
    then show ?thesis using Some eq by auto
  qed (simp add: eq)
qed

lemma mouse_observer_preserves:
  assumes "mouse_observer sz mouse_id (mgr, st) buttons dx dy = Some (mgr', st')" and "P mgr"
    and P: "\<And>m lid pos m'. P m \<Longrightarrow> layer_move m lid pos = Some m' \<Longrightarrow> P m'"
  shows "P mgr'"
proof -
  obtain m1 pos where m1: "layer_move mgr mouse_id pos = Some m1"
      "mgr' = m1 \<or> (\<exists>d diff. layer_move_relative m1 d diff = Some mgr')"
    using assms(1) unfolding mouse_observer_def
    by (auto simp: Let_def bind_eq_Some_conv split: if_split_asm option.split_asm)
  have "P m1" using assms(2) m1(1) by (rule P)
  then show ?thesis using m1(2) P by (auto simp: layer_move_relative_def bind_eq_Some_conv)
qed

subsection \<open>The invariant of the desktop\<close>

text \<open>
  The layers that \<open>initialize_graphics\<close> creates, without their positions, and what holds of the two managers: the layers
  are these, the stack is in order, the group layer shows the buffer of its manager.
\<close>

definition group_color :: "pixel_color option" where
  "group_color = Some \<lparr>col_r = 0x00, col_g = 0xff, col_b = 0x00\<rparr>"

definition desktop_layers :: "vec \<Rightarrow> (layer_id \<times> pixel_color option \<times> bool \<times> vec) list" where
  "desktop_layers sz =
     [(1, None, False, sz), (2, None, False, text_size), (3, Some (pixel_color_of 0xff0000), False, vec 15 24),
      (4, group_color, False, vec 500 500), (5, None, True, vec 160 68)]"

definition group_layers :: "(layer_id \<times> pixel_color option \<times> bool \<times> vec) list" where
  "group_layers = [(1, None, False, vec 500 500), (2, None, False, vec 100 100)]"

definition unplaced where
  "unplaced S = map (\<lambda>(i, p, t). (i, t)) S"

definition manager_inv :: "pixel_format \<Rightarrow> vec \<Rightarrow> layer_manager \<Rightarrow> layer_manager \<Rightarrow> bool" where
  "manager_inv fmt sz child mgr \<longleftrightarrow>
     (\<exists>S. built (fmt, True, Some (with_size (vec 0 0) sz)) 5 S [1, 2, 4, 5, 3] mgr \<and> unplaced S = desktop_layers sz) \<and> linked 4 mgr child"

definition group_inv :: "pixel_format \<Rightarrow> layer_manager \<Rightarrow> bool" where
  "group_inv fmt child \<longleftrightarrow>
     (\<exists>T. built (fmt, False, Some (with_size (vec 0 0) (vec 500 500))) 2 T [1, 2] child \<and> unplaced T = group_layers)"

definition desktop_ok :: "pixel_format \<Rightarrow> vec \<Rightarrow> u8 list list \<Rightarrow> desktop \<Rightarrow> bool" where
  "desktop_ok fmt sz ls d \<longleftrightarrow>
     d_console_layer d = 2 \<and> d_mouse d = 3 \<and> d_group_layer d = 4 \<and> d_main_window d = 5 \<and> d_test_layer d = 2 \<and>
     fast_cursor (d_console d) ls \<and> screen_current (d_manager d) \<and> screen_current (d_group_manager d) \<and>
     manager_inv fmt sz (d_group_manager d) (d_manager d) \<and> group_inv fmt (d_group_manager d)"

lemma unplaced_reshape [simp]: "unplaced (reshape lid (\<lambda>(i, p, t). (i, pos, t)) S) = unplaced S"
  by (auto simp: unplaced_def reshape_def)

lemma find_unplaced:
  assumes "find (\<lambda>x. fst x = lid) (unplaced S) = Some (i, t)"
  obtains p where "find (\<lambda>s. fst s = lid) S = Some (lid, p, t)"
proof -
  have "\<exists>p. find (\<lambda>s. fst s = lid) S = Some (lid, p, t)"
    using assms unfolding unplaced_def by (induction S) (auto split: if_splits)
  then show thesis using that by blast
qed

lemma built_find:
  assumes "built K n S st mgr" and "find_layer mgr lid = Some l"
  shows "find (\<lambda>s. fst s = lid) S = Some (layer_shape l)"
proof -
  have "find (\<lambda>s. fst s = lid) (map layer_shape ls) = map_option layer_shape (find (\<lambda>l. l_id l = lid) ls)" for ls
    by (induction ls) auto
  moreover have "S = map layer_shape (lm_layers mgr)" using assms(1) by (simp add: built_def)
  ultimately have "find (\<lambda>s. fst s = lid) S = map_option layer_shape (find_layer mgr lid)" by (simp only: find_layer_def)
  then show ?thesis using assms(2) by simp
qed

lemma manager_inv_layer:
  assumes "manager_inv fmt sz child mgr" and "find (\<lambda>x. fst x = lid) (desktop_layers sz) = Some (lid, t, d, z)"
  obtains l where "find_layer mgr lid = Some l" "layer_size l = z" "l_draggable l = d" "l_transparent_color l = t" "layer_ok fmt l"
proof -
  obtain S where S: "built (fmt, True, Some (with_size (vec 0 0) sz)) 5 S [1, 2, 4, 5, 3] mgr" "unplaced S = desktop_layers sz"
    using assms(1) by (auto simp: manager_inv_def)
  have "find (\<lambda>x. fst x = lid) (unplaced S) = Some (lid, t, d, z)" using assms(2) by (simp only: S(2))
  then obtain p where "find (\<lambda>s. fst s = lid) S = Some (lid, p, t, d, z)" by (rule find_unplaced)
  from S(1) this obtain l where "find_layer mgr lid = Some l" "layer_shape l = (lid, p, t, d, z)" "layer_ok fmt l" by (rule find_built)
  then show thesis using that by (auto simp: layer_shape_def)
qed

lemma manager_inv_move:
  assumes inv: "manager_inv fmt sz child mgr" and m: "layer_move mgr lid pos = Some mgr'"
  shows "manager_inv fmt sz child mgr'"
proof -
  obtain S where S: "built (fmt, True, Some (with_size (vec 0 0) sz)) 5 S [1, 2, 4, 5, 3] mgr" "unplaced S = desktop_layers sz"
    using inv by (auto simp: manager_inv_def)
  obtain l where "find_layer mgr lid = Some l" using m by (auto simp: layer_move_def bind_eq_Some_conv)
  from move_built[OF S(1) built_find[OF S(1) this], of pos] m
  have "built (fmt, True, Some (with_size (vec 0 0) sz)) 5 (reshape lid (\<lambda>(i, p, t). (i, pos, t)) S) [1, 2, 4, 5, 3] mgr'" by simp
  moreover have "linked 4 mgr' child"
    using inv layer_move_buffers[OF built_parts(1)[OF S(1)] m, of 4] by (auto simp: manager_inv_def linked_def)
  ultimately show ?thesis using S(2) unfolding manager_inv_def by (metis unplaced_reshape)
qed

lemma manager_inv_paint:
  assumes inv: "manager_inv fmt sz child mgr" and l: "find_layer mgr lid = Some l" and lid: "lid \<noteq> 4"
    and p: "painter_inv (l_buffer l) p" and e: "painter_end mgr lid p = Some mgr'"
  shows "manager_inv fmt sz child mgr'"
proof -
  obtain S where S: "built (fmt, True, Some (with_size (vec 0 0) sz)) 5 S [1, 2, 4, 5, 3] mgr" "unplaced S = desktop_layers sz"
    using inv by (auto simp: manager_inv_def)
  have "find (\<lambda>s. fst s = lid) S = Some (lid, snd (layer_shape l))"
    using built_find[OF S(1) l] find_layerD[OF l] by (simp add: layer_shape_def)
  then have "find (\<lambda>s. fst s = lid) S = Some (lid, l_pos l, l_transparent_color l, l_draggable l, layer_size l)"
    by (simp add: layer_shape_def)
  from painted_built[OF S(1) this l p] e have "built (fmt, True, Some (with_size (vec 0 0) sz)) 5 S [1, 2, 4, 5, 3] mgr'" by simp
  moreover have "linked 4 mgr' child" using inv painter_end_frame[OF e, of 4] lid by (simp add: manager_inv_def linked_def)
  ultimately show ?thesis using S(2) unfolding manager_inv_def by blast
qed

subsection \<open>The steps keep the invariant\<close>

lemma put_string_ok:
  assumes d: "desktop_ok fmt sz ls d" and font: "font_ok font"
  shows "\<exists>d'. put_string font (d_console_layer d) s d = Some d' \<and> desktop_ok fmt sz (foldl terminal_put ls s) d'"
proof -
  have inv: "manager_inv fmt sz (d_group_manager d) (d_manager d)" and cur: "screen_current (d_manager d)" "fast_cursor (d_console d) ls"
    using d by (simp_all add: desktop_ok_def)
  obtain l where l: "find_layer (d_manager d) 2 = Some l" "layer_size l = text_size" "layer_ok fmt l"
    by (rule manager_inv_layer[OF inv, of 2 None False text_size]) (auto simp: desktop_layers_def)
  from fast_put_chars_ok[OF l(2) font cur(2) start_paint_inv[OF l(3)]] obtain con p where
      p: "fast_put_chars font (d_console d) (start_paint l) s = Some (con, p)" "fast_cursor con (foldl terminal_put ls s)"
        "painter_inv (l_buffer l) p" by blast
  obtain mgr' where m: "painter_end (d_manager d) 2 p = Some mgr'" "screen_current mgr'"
    using painter_end_current[OF cur(1) l(1) p(3)] by blast
  have "manager_inv fmt sz (d_group_manager d) mgr'" by (rule manager_inv_paint[OF inv l(1) _ p(3) m(1)]) simp
  then show ?thesis using d l(1) p(1,2) m by (simp add: put_string_def fast_put_string_def desktop_ok_def)
qed

text \<open>The console of the desktop keeps the contract of the loggers.\<close>

definition desktop_text :: "u8 list \<Rightarrow> pixel_format \<Rightarrow> vec \<Rightarrow> layer_id \<Rightarrow> u8 list \<Rightarrow> desktop \<Rightarrow> bool" where
  "desktop_text font fmt sz con_layer t d \<longleftrightarrow>
     font_ok font \<and> con_layer = 2 \<and> desktop_ok fmt sz (foldl terminal_put [[]] t) d"

interpretation desktop_console: console_sink "put_string font" "desktop_text font fmt sz" for font fmt sz
proof unfold_locales
  fix c t s m assume t: "desktop_text font fmt sz c t s"
  then have "d_console_layer s = c" by (simp add: desktop_text_def desktop_ok_def)
  with put_string_ok[of fmt sz "foldl terminal_put [[]] t" s font m] t
  show "\<exists>s'. put_string font c m s = Some s' \<and> desktop_text font fmt sz c (t @ m) s'" by (auto simp: desktop_text_def)
qed

lemma paint_window_ok:
  assumes inv: "manager_inv fmt sz child mgr" and cur: "screen_current mgr" and font: "font_ok font"
    and fits: "\<forall>a\<in>set ops. paint_fits (vec 160 68) a"
  shows "\<exists>mgr'. paint_layer font mgr 5 ops = Some mgr' \<and> screen_current mgr' \<and> manager_inv fmt sz child mgr'"
proof -
  obtain l where l: "find_layer mgr 5 = Some l" "layer_size l = vec 160 68" "layer_ok fmt l"
    by (rule manager_inv_layer[OF inv, of 5 None True "vec 160 68"]) (auto simp: desktop_layers_def)
  from paint_run_inv[OF start_paint_inv[OF l(3)] font] fits l(2) obtain p where
      p: "paint_run font (start_paint l) ops = Some p" "painter_inv (l_buffer l) p" by (auto simp: layer_size_def)
  obtain mgr' where m: "painter_end mgr 5 p = Some mgr'" "screen_current mgr'"
    using painter_end_current[OF cur l(1) p(2)] by blast
  have "manager_inv fmt sz child mgr'" by (rule manager_inv_paint[OF inv l(1) _ p(2) m(1)]) simp
  then show ?thesis using l(1) p(1) m by (simp add: paint_layer_def)
qed

text \<open>Where the picture of a stack stays the same when one of its layers moves.\<close>

lemma moved_pixel:
  assumes cur: "screen_current mgr" "screen_current mgr'" and st: "lm_stack mgr' = lm_stack mgr"
    and find: "\<forall>i. find_layer mgr' i = map_option (\<lambda>k. if l_id k = lid then k\<lparr>l_pos := pos\<rparr> else k) (find_layer mgr i)"
    and l: "find_layer mgr lid = Some l" and b: "lm_buffer mgr = Some b" "lm_buffer mgr' = Some b'" "buffer_rect b' = buffer_rect b"
    and p: "p \<in> points (buffer_rect b)" "p \<notin> points (manager_area l)" "p \<notin> points (manager_area (l\<lparr>l_pos := pos\<rparr>))"
  shows "pixel b' p = pixel b p"
proof -
  define f where "f = (\<lambda>k :: layer. if l_id k = lid then k\<lparr>l_pos := pos\<rparr> else k)"
  have wf: "wf_manager mgr" using cur(1) by (simp add: screen_current_def)
  have "List.map_filter (find_layer mgr') is = map f (List.map_filter (find_layer mgr) is)" for "is"
    using find by (induction "is") (simp_all add: List.map_filter_simps f_def split: option.split)
  then have layers: "stack_layers mgr' = map f (stack_layers mgr)" by (simp add: stack_layers_def st)
  have "layer_col (f k) p = layer_col k p" if "k \<in> set (stack_layers mgr)" for k
  proof (cases "l_id k = lid")
    case True
    then have "k = l" using that stack_layers_subset[OF wf] find_layer_unique[OF wf l] by blast
    then show ?thesis
      using p(2,3) True points_manager_area[of p l] points_manager_area[of p "l\<lparr>l_pos := pos\<rparr>"] by (simp add: f_def layer_col_def)
  qed (simp add: f_def)
  then have "stack_picture (stack_layers mgr') c p = stack_picture (stack_layers mgr) c p" for c
    unfolding layers stack_picture_canvas by (rule canvas.picture_cong)
  moreover have "pixel b p = stack_picture (stack_layers mgr) [] p" "pixel b' p = stack_picture (stack_layers mgr') [] p"
    using cur b p(1) by (auto simp: screen_current_def buffers_show_def shows_on_def)
  ultimately show ?thesis by simp
qed

lemma group_move_ok:
  assumes inv: "manager_inv fmt sz child mgr" "group_inv fmt child" and cur: "screen_current mgr" "screen_current child"
  shows "\<exists>mgr' child'. group_move 4 (mgr, child) 2 pos = Some (mgr', child') \<and> screen_current mgr' \<and> screen_current child' \<and>
    manager_inv fmt sz child' mgr' \<and> group_inv fmt child'"
proof -
  let ?R = "with_size (vec 0 0) (vec 500 500)"
  obtain T where T: "built (fmt, False, Some ?R) 2 T [1, 2] child" "unplaced T = group_layers" using inv(2) by (auto simp: group_inv_def)
  obtain q where q: "find (\<lambda>s. fst s = 2) T = Some (2, q, None, False, vec 100 100)"
    by (rule find_unplaced[of 2 T 2]) (simp add: T(2) group_layers_def)
  obtain k where k: "find_layer child 2 = Some k" using find_built[OF T(1) q] by blast
  have "(2 :: layer_id) \<noteq> hd (lm_stack child)" using built_parts(5)[OF T(1)] by simp
  from layer_move_current[OF cur(2) k this, of pos] obtain child' where c: "layer_move child 2 pos = Some child'" "screen_current child'"
      "lm_stack child' = lm_stack child" "map_option buffer_rect (lm_buffer child') = map_option buffer_rect (lm_buffer child)"
      "\<forall>i. find_layer child' i = map_option (\<lambda>k. if l_id k = 2 then k\<lparr>l_pos := pos\<rparr> else k) (find_layer child i)"
    by blast
  have T': "built (fmt, False, Some ?R) 2 (reshape 2 (\<lambda>(i, p, t). (i, pos, t)) T) [1, 2] child'"
    using move_built[OF T(1) q, of pos] c(1) by simp
  then have "group_inv fmt child'" using T(2) unfolding group_inv_def by (metis unplaced_reshape)
  obtain S where S: "built (fmt, True, Some (with_size (vec 0 0) sz)) 5 S [1, 2, 4, 5, 3] mgr" "unplaced S = desktop_layers sz"
    using inv(1) by (auto simp: manager_inv_def)
  obtain r where r: "find (\<lambda>s. fst s = 4) S = Some (4, r, group_color, False, vec 500 500)"
    by (rule find_unplaced[of 4 S 4]) (simp add: S(2) desktop_layers_def)
  obtain l where l: "find_layer mgr 4 = Some l" "layer_shape l = (4, r, group_color, False, vec 500 500)" "layer_ok fmt l"
    by (rule find_built[OF S(1) r])
  have b: "lm_buffer child = Some (l_buffer l)" using inv(1) l(1) by (auto simp: manager_inv_def linked_def)
  obtain b' where b': "lm_buffer child' = Some b'" "buffer_rect b' = buffer_rect (l_buffer l)" using c(4) b by auto
  have wfb: "wf_frame_buffer b'" "pixel_format b' = fmt"
    using built_parts(2,4)[OF T'] b'(1) by (auto simp: buffers_ok_def canvas_ok_def)
  have size: "fb_size b' = fb_size (l_buffer l)" using b'(2) by (simp add: buffer_rect_def with_size_inject)
  let ?rects = "[manager_area k, manager_area (k\<lparr>l_pos := pos\<rparr>)]"
  have "pixel b' p = pixel (l_buffer l) p" if "includes_point (buffer_rect b') p" "\<forall>r\<in>set ?rects. p \<notin> points r" for p
    using moved_pixel[OF cur(2) c(2,3,5) k b b'(1,2), of p] that by (simp add: b'(2) points_def)
  then obtain mgr' where m: "layer_damage (update_layer mgr 4 (\<lambda>l. l\<lparr>l_buffer := b'\<rparr>)) 4 ?rects = Some mgr'" "screen_current mgr'"
    using paint_current[OF cur(1) l(1) wfb(1) _ size, of ?rects] wfb(2) l(3) by (auto simp: layer_ok_def)
  then have pd: "parent_damage mgr 4 child' ?rects = Some mgr'" using b'(1) by (simp add: parent_damage_def)
  from parent_damage_built[OF S(1) r T', of ?rects] pd have "manager_inv fmt sz child' mgr'"
    using S(2) unfolding manager_inv_def by auto
  moreover have "group_move 4 (mgr, child) 2 pos = Some (mgr', child')" using k c(1) pd by (simp add: group_move_def)
  ultimately show ?thesis using m(2) c(2) \<open>group_inv fmt child'\<close> by blast
qed

lemma counter_string_length [simp]: "length (counter_string c) = 10"
  by (simp add: counter_string_def)

lemma main_round_ok:
  assumes d: "desktop_ok fmt sz ls d" and font: "font_ok font" and c: "c \<noteq> 2 ^ 31 - 1"
  shows "\<exists>d'. main_round font c d = Some (c + 1, d') \<and> desktop_ok fmt sz ls d'"
proof -
  let ?ops = "[Filled (with_size (vec 24 28) (vec (8 * 10) 16)) (pixel_color_of 0xc6c6c6), Text (vec 24 28) (counter_string (c + 1)) (pixel_color_of 0x000000)]"
  have inv: "manager_inv fmt sz (d_group_manager d) (d_manager d)" "group_inv fmt (d_group_manager d)"
    and cur: "screen_current (d_manager d)" "screen_current (d_group_manager d)" using d by (simp_all add: desktop_ok_def)
  have "\<forall>a\<in>set ?ops. paint_fits (vec 160 68) a" by (simp add: includes_rect_def with_size_def)
  from paint_window_ok[OF inv(1) cur(1) font this] obtain m1 where
      m1: "paint_layer font (d_manager d) 5 ?ops = Some m1" "screen_current m1" "manager_inv fmt sz (d_group_manager d) m1" by blast
  from group_move_ok[OF m1(3) inv(2) m1(2) cur(2), of "vec 10 ((c + 1) mod 100)"] obtain m2 child where
      "group_move 4 (m1, d_group_manager d) 2 (vec 10 ((c + 1) mod 100)) = Some (m2, child)" "screen_current m2" "screen_current child"
      "manager_inv fmt sz child m2" "group_inv fmt child" by blast
  with m1(1) d c show ?thesis by (simp add: main_round_def Let_def desktop_ok_def)
qed

text \<open>Whether a layer can be dragged is the same in all managers with the layers of the desktop.\<close>

lemma manager_inv_draggable:
  assumes "manager_inv fmt sz child mgr" "manager_inv fmt sz child' mgr'"
  shows "map_option l_draggable (find_layer mgr' i) = map_option l_draggable (find_layer mgr i)"
proof -
  have "map_option l_draggable (find_layer m i) = map_option (\<lambda>(_, _, d, _). d) (find (\<lambda>x. fst x = i) (desktop_layers sz))"
    if "manager_inv fmt sz c m" for m c
  proof -
    obtain S where S: "built (fmt, True, Some (with_size (vec 0 0) sz)) 5 S [1, 2, 4, 5, 3] m" "unplaced S = desktop_layers sz"
      using \<open>manager_inv fmt sz c m\<close> by (auto simp: manager_inv_def)
    have "map_option (\<lambda>(_, _, d, _). d) (find (\<lambda>x. fst x = i) (unplaced (map layer_shape ks))) =
        map_option l_draggable (find (\<lambda>l. l_id l = i) ks)" for ks
      by (induction ks) (simp_all add: unplaced_def layer_shape_def)
    moreover have "S = map layer_shape (lm_layers m)" using S(1) by (simp add: built_def)
    ultimately show ?thesis unfolding S(2)[symmetric] find_layer_def by simp
  qed
  from this[OF assms(1)] this[OF assms(2)] show ?thesis by simp
qed

lemma mouse_inv_desktop:
  assumes "manager_inv fmt sz child mgr" "manager_inv fmt sz child' mgr'" and "screen_current mgr'" and m: "mouse_inv sz 3 (mgr, st)"
  shows "mouse_inv sz 3 (mgr', st)"
proof -
  have st: "lm_stack mgr = [1, 2, 4, 5, 3]" "lm_stack mgr' = [1, 2, 4, 5, 3]"
    using assms(1,2) by (auto simp: manager_inv_def built_def)
  have "find_layer mgr' i = None \<longleftrightarrow> find_layer mgr i = None" for i
    using manager_inv_draggable[OF assms(1,2), of i] by (metis option.map_disc_iff)
  then show ?thesis
    using m assms(3) manager_inv_draggable[OF assms(1,2)] unfolding mouse_inv_def prod.case st by (simp del: map_option_eq_Some)
qed

text \<open>The state of the main loop, with the number of rounds so far.\<close>

definition main_ok :: "u8 list \<Rightarrow> pixel_format \<Rightarrow> vec \<Rightarrow> u8 list \<Rightarrow> int \<Rightarrow> main_state \<Rightarrow> bool" where
  "main_ok font fmt sz t c s \<longleftrightarrow>
     desktop_text font fmt sz 2 t (m_desktop s) \<and> mouse_inv sz 3 (d_manager (m_desktop s), m_mouse s) \<and> m_counter s = c \<and>
     m_logger s = \<lparr>cl_console = Some 2, cl_level = Log_Info\<rparr>"

fun rounds :: "desktop_event list \<Rightarrow> nat" where
  "rounds [] = 0"
| "rounds (Round # es) = Suc (rounds es)"
| "rounds (_ # es) = rounds es"

fun messages :: "desktop_event list \<Rightarrow> u8 list" where
  "messages [] = []"
| "messages (Log level formatted # es) = (if level \<le> Log_Info then char_buffer 1024 formatted else []) @ messages es"
| "messages (_ # es) = messages es"

lemma desktop_step_ok:
  assumes s: "main_ok font fmt sz t c s" and c: "e = Round \<Longrightarrow> c \<noteq> 2 ^ 31 - 1"
  shows "\<exists>s'. desktop_step font sz s e = Some s' \<and> main_ok font fmt sz (t @ messages [e]) (c + int (rounds [e])) s'"
proof -
  have shown: "desktop_text font fmt sz 2 t (m_desktop s)" and m: "mouse_inv sz 3 (d_manager (m_desktop s), m_mouse s)" "m_counter s = c"
    and lg: "m_logger s = \<lparr>cl_console = Some 2, cl_level = Log_Info\<rparr>"
    using s by (simp_all add: main_ok_def)
  then have d: "desktop_ok fmt sz (foldl terminal_put [[]] t) (m_desktop s)" and font: "font_ok font" by (simp_all add: desktop_text_def)
  have inv: "manager_inv fmt sz (d_group_manager (m_desktop s)) (d_manager (m_desktop s))" using d by (simp add: desktop_ok_def)
  have mouse: "mouse_inv sz 3 (d_manager d', m_mouse s)" if "desktop_ok fmt sz ls' d'" for d' ls'
    using that unfolding desktop_ok_def by (blast intro: mouse_inv_desktop[OF inv _ _ m(1)])
  show ?thesis
  proof (cases e)
    case Round
    with main_round_ok[OF d font c] m(2) obtain d' where "main_round font (m_counter s) (m_desktop s) = Some (c + 1, d')"
        "desktop_ok fmt sz (foldl terminal_put [[]] t) d'" by auto
    then show ?thesis using Round mouse font lg by (simp add: desktop_step_def main_ok_def desktop_text_def)
  next
    case (Log level str)
    from desktop_console.log_format_shows[OF _ shown, of "m_logger s" level str] lg obtain d' where
        "log_format (put_string font) (m_logger s) level (Some str) (m_desktop s) = Some d'"
        "desktop_text font fmt sz 2 (t @ messages [e]) d'" by (auto simp: Log logged_def will_be_logged_def)
    moreover from this(2) have "mouse_inv sz 3 (d_manager d', m_mouse s)" unfolding desktop_text_def by (blast intro: mouse)
    ultimately show ?thesis using Log m(2) lg by (simp add: desktop_step_def main_ok_def)
  next
    case (Report b dx dy)
    from mouse_observer_inv[OF m(1), of b dx dy] obtain mgr st where
        o: "mouse_observer sz 3 (d_manager (m_desktop s), m_mouse s) b dx dy = Some (mgr, st)" "mouse_inv sz 3 (mgr, st)" by blast
    have "manager_inv fmt sz (d_group_manager (m_desktop s)) mgr"
      by (rule mouse_observer_preserves[where P = "manager_inv fmt sz (d_group_manager (m_desktop s))", OF o(1) inv]) (rule manager_inv_move)
    moreover have "screen_current mgr" using o(2) by (simp add: mouse_inv_def)
    ultimately have "desktop_ok fmt sz (foldl terminal_put [[]] t) ((m_desktop s)\<lparr>d_manager := mgr\<rparr>)" using d by (simp add: desktop_ok_def)
    moreover have "d_mouse (m_desktop s) = 3" using d by (simp add: desktop_ok_def)
    ultimately show ?thesis using Report o m(2) lg font by (simp add: desktop_step_def main_ok_def desktop_text_def)
  qed
qed

lemma desktop_run_ok:
  assumes "main_ok font fmt sz t c s" and "c < 2 ^ 31"
  shows "if c + int (rounds es) < 2 ^ 31
    then \<exists>s'. desktop_run font sz s es = Some s' \<and> main_ok font fmt sz (t @ messages es) (c + int (rounds es)) s'
    else desktop_run font sz s es = None"
  using assms
proof (induction es arbitrary: s t c)
  case (Cons e es)
  show ?case
  proof (cases "e = Round \<and> c = 2 ^ 31 - 1")
    case True
    then have "desktop_step font sz s e = None" using Cons.prems(1) by (simp add: desktop_step_def main_ok_def main_round_def)
    then show ?thesis using True by simp
  next
    case False
    with desktop_step_ok[OF Cons.prems(1), of e] obtain s1 where
        s1: "desktop_step font sz s e = Some s1" "main_ok font fmt sz (t @ messages [e]) (c + int (rounds [e])) s1" by auto
    have "c + int (rounds [e]) < 2 ^ 31" using False Cons.prems(2) by (cases e) auto
    from Cons.IH[OF s1(2) this] s1(1) show ?thesis
      by (cases e) (auto simp: algebra_simps split: if_splits)
  qed
qed simp

subsection \<open>The start\<close>

lemma manager_draw_frame: "manager_draw m = Some m' \<Longrightarrow> lm_format m' = lm_format m \<and> lm_latest_id m' = lm_latest_id m"
  by (auto simp: manager_draw_defs bind_eq_Some_conv split: option.split_asm if_split_asm)

text \<open>The first drawing of a manager whose bottom layer covers the screen.\<close>

lemma built_drawn:
  assumes b: "built (fmt, True, None) n S (i # st) mgr" and fb: "wf_frame_buffer fb" "pixel_format fb = fmt"
    and s: "find (\<lambda>s. fst s = i) S = Some (i, vec 0 0, None, d, fb_size fb)"
  shows "\<exists>mgr'. manager_draw (set_buffer mgr (Some fb)) = Some mgr' \<and> screen_current mgr' \<and> lm_layers mgr' = lm_layers mgr \<and>
    built (fmt, True, Some (buffer_rect fb)) n S (i # st) mgr'"
proof -
  obtain l where l: "find_layer mgr i = Some l" "layer_shape l = (i, vec 0 0, None, d, fb_size fb)" by (rule find_built[OF b s])
  note parts = built_parts[OF b]
  have "stack_layers mgr = l # List.map_filter (find_layer mgr) st" using l(1) parts(5) by (simp add: stack_layers_def List.map_filter_simps)
  moreover have "manager_area l = buffer_rect fb" "\<not> has_transparency l"
    using l(2) by (auto simp: layer_shape_def manager_area_def buffer_rect_def with_size_def has_transparency_def)
  moreover have "lm_buffer (set_buffer mgr (Some fb)) = Some fb" by (simp add: set_buffer_defs)
  ultimately have "has_background (set_buffer mgr (Some fb))" by (simp add: has_background_def)
  from first_draw_current[OF parts(1) fb(1) _ this] fb(2) parts(4) obtain mgr' where
      m: "manager_draw (set_buffer mgr (Some fb)) = Some mgr'" "screen_current mgr'" "lm_layers mgr' = lm_layers mgr"
        "lm_stack mgr' = lm_stack mgr" "lm_double mgr' = lm_double mgr" "map_option buffer_rect (lm_buffer mgr') = Some (buffer_rect fb)"
    by auto
  have "lm_format (set_buffer mgr (Some fb)) = lm_format mgr \<and> lm_latest_id (set_buffer mgr (Some fb)) = lm_latest_id mgr"
    by (simp add: set_buffer_defs)
  then have "lm_format mgr' = fmt \<and> lm_latest_id mgr' = n" using manager_draw_frame[OF m(1)] b by (simp add: built_def)
  moreover have "wf_manager mgr'" "buffers_ok mgr'" using m(2) buffers_show_ok by (auto simp: screen_current_def)
  ultimately have "built (fmt, True, Some (buffer_rect fb)) n S (i # st) mgr'" using b m(3-6) by (simp add: built_def)
  then show ?thesis using m(1-3) by blast
qed

lemma linked_layers: "linked i mgr child \<Longrightarrow> lm_layers mgr' = lm_layers mgr \<Longrightarrow> linked i mgr' child"
  by (simp add: linked_def find_layer_def)

definition greeting :: "u8 list" where
  "greeting = ascii ''chino chan kawaii!'' @ [newline] @ ascii ''gochuumon wa usagi desu ka?'' @ [newline]"

lemma greeting_buffers:
  "char_buffer 1024 (ascii ''chino chan kawaii!'' @ [newline]) = ascii ''chino chan kawaii!'' @ [newline]"
  "char_buffer 1024 (ascii ''gochuumon wa usagi desu ka?'' @ [newline]) = ascii ''gochuumon wa usagi desu ka?'' @ [newline]"
  by (simp_all add: char_buffer_def ascii_def newline_def)

lemma initialize_graphics_ok:
  assumes screen: "wf_frame_buffer screen" "600 \<le> horizontal_resolution screen" "600 \<le> vertical_resolution screen"
    and font: "font_ok font"
  shows "\<exists>d. initialize_graphics font screen = Some d \<and> desktop_text font (pixel_format screen) (fb_size screen) 2 greeting d"
proof -
  define fmt sz where "fmt = pixel_format screen" and "sz = fb_size screen"
  have "horizontal_resolution screen * vertical_resolution screen < 2 ^ 31"
    using screen(1) by (auto simp: wf_frame_buffer_def intro: le_less_trans[OF mult_le_mono1])
  then have sz: "600 \<le> vx sz" "600 \<le> vy sz" "vx sz * vy sz < 2 ^ 31"
    using screen(2,3) by (simp_all add: sz_def fb_size_def flip: of_nat_mult)
  let ?K = "(fmt, True, None :: rect option)"
  have b0: "built ?K 0 [] [] (new_layer_manager True fmt)" by (simp add: built_def new_layer_manager_def wf_manager_def buffers_ok_def)
  let ?S1 = "[(1 :: layer_id, vec 0 0, None, False, sz)]"
  obtain m1 where m1: "make_background font sz (new_layer_manager True fmt) = Some (1, m1)" "built ?K 1 ?S1 [] m1"
    using make_background_built[OF b0 _ font sz] by auto
  let ?S2 = "?S1 @ [(2, vec 200 150, None, False, text_size)]"
  obtain con m2 where m2: "make_console_layer m1 = Some (2, con, m2)" "fast_cursor con [[]]" "built ?K 2 ?S2 [] m2"
    using make_console_built[OF m1(2)] by auto
  let ?S3 = "?S2 @ [(3, vec 200 200, Some (pixel_color_of 0xff0000), False, vec 15 24)]"
  obtain m3 where m3: "place_mouse_layer m2 = Some (3, m3)" "built ?K 3 ?S3 [] m3"
    using place_mouse_built[OF m2(3)] by auto
  let ?S4 = "?S3 @ [(4, vec 0 0, None, False, vec 500 500)]"
  obtain m4 child where m4: "new_group_layer m3 (vec 500 500) = (4, m4, child)" "built ?K 4 ?S4 [] m4"
      "built (fmt, False, Some (with_size (vec 0 0) (vec 500 500))) 0 [] [] child"
    by (rule new_group_built[OF m3(2), of "vec 500 500"]) auto
  obtain m5 where m5: "layer_move m4 4 (vec 0 0) = Some m5" "built ?K 4 ?S4 [] m5"
    using move_built[OF m4(2), of 4 _ "vec 0 0"] by (auto simp: reshape_def)
  let ?S6 = "?S4 @ [(5, vec 300 300, None, True, vec 160 68)]"
  obtain m6 where m6: "make_main_window font m5 = Some (5, m6)" "built ?K 5 ?S6 [] m6"
    using make_main_window_built[OF m5(2) _ font] by auto
  have "group_built (fmt, True, None, 5, ?S6, []) 4 (vec 500 500) (0, [], []) (m6, child)"
    using m6(2) m4(3) unfolding group_built_def prod.case
    by (intro conjI exI[of _ "vec 0 0"] exI[of _ None] exI[of _ False]) simp_all
  from fill_group_built[OF this font] obtain m7 child' where m7: "fill_group font 4 (m6, child) = Some (2, m7, child')" "linked 4 m7 child'"
      "built ?K 5 (reshape 4 (\<lambda>(i, p, t, x). (i, p, group_color, x)) ?S6) [] m7"
      "built (fmt, False, Some (with_size (vec 0 0) (vec 500 500))) 2
        [(1, vec 0 0, None, False, vec 500 500), (2, vec 10 10, None, False, vec 100 100)] [1, 2] child'" "screen_current child'"
    unfolding group_color_def by blast
  define S where "S = reshape 4 (\<lambda>(i, p, t, x). (i, p, group_color, x)) ?S6"
  have S: "unplaced S = desktop_layers sz" "find (\<lambda>s. fst s = 1) S = Some (1, vec 0 0, None, False, sz)" "find (\<lambda>s. fst s = 2) S \<noteq> None"
      "find (\<lambda>s. fst s = 4) S \<noteq> None" "find (\<lambda>s. fst s = 5) S \<noteq> None" "find (\<lambda>s. fst s = 3) S \<noteq> None"
    by (simp_all add: S_def unplaced_def reshape_def desktop_layers_def)
  note b7 = m7(3)[folded S_def]
  have up: "\<exists>m'. up_down m lid h = Some m' \<and> lm_layers m' = lm_layers m \<and> built ?K 5 S (insert_at (new_index st lid h) lid (remove1 lid st)) m'"
    if "built ?K 5 S st m" "find (\<lambda>s. fst s = lid) S \<noteq> None" "0 \<le> h" for m st lid h
    using up_down_built[OF that(1) _ that(3)] that(2) by blast
  obtain m8 where m8: "up_down m7 1 0 = Some m8" "lm_layers m8 = lm_layers m7" "built ?K 5 S [1] m8"
    using up[OF b7, of 1 0] S(2) by (auto simp: insert_at_def new_index_def)
  obtain m9 where m9: "up_down m8 2 1 = Some m9" "lm_layers m9 = lm_layers m7" "built ?K 5 S [1, 2] m9"
    using up[OF m8(3) S(3), of 1] m8(2) by (auto simp: insert_at_def new_index_def)
  obtain m10 where m10: "up_down m9 4 2 = Some m10" "lm_layers m10 = lm_layers m7" "built ?K 5 S [1, 2, 4] m10"
    using up[OF m9(3) S(4), of 2] m9(2) by (auto simp: insert_at_def new_index_def)
  obtain m11 where m11: "up_down m10 5 3 = Some m11" "lm_layers m11 = lm_layers m7" "built ?K 5 S [1, 2, 4, 5] m11"
    using up[OF m10(3) S(5), of 3] m10(2) by (auto simp: insert_at_def new_index_def)
  obtain m12 where m12: "up_down m11 3 4 = Some m12" "lm_layers m12 = lm_layers m7" "built ?K 5 S [1, 2, 4, 5, 3] m12"
    using up[OF m11(3) S(6), of 4] m11(2) by (auto simp: insert_at_def new_index_def)
  from built_drawn[OF m12(3) screen(1) _ S(2)[unfolded sz_def]] obtain m13 where m13: "manager_draw (set_buffer m12 (Some screen)) = Some m13"
      "screen_current m13" "lm_layers m13 = lm_layers m7" "built (fmt, True, Some (buffer_rect screen)) 5 S [1, 2, 4, 5, 3] m13"
    unfolding fmt_def using m12(2) by auto
  let ?d = "\<lparr>d_manager = m13, d_group_manager = child', d_console = con, d_console_layer = 2, d_mouse = 3, d_group_layer = 4,
      d_main_window = 5, d_test_layer = 2\<rparr>"
  have "manager_inv fmt sz child' m13"
    using m13(4) S(1) linked_layers[OF m7(2) m13(3)] unfolding manager_inv_def by (auto simp: buffer_rect_def sz_def)
  moreover have "group_inv fmt child'" unfolding group_inv_def
    using m7(4) by (intro exI conjI) (assumption, simp add: unplaced_def group_layers_def)
  ultimately have d: "desktop_ok fmt sz [[]] ?d" using m2(2) m13(2) m7(5) by (simp add: desktop_ok_def)
  have d: "desktop_text font fmt sz 2 [] ?d" using d font by (simp add: desktop_text_def)
  from desktop_console.put[OF d] obtain d1 where d1: "put_string font 2 (ascii ''chino chan kawaii!'' @ [newline]) ?d = Some d1"
      "desktop_text font fmt sz 2 ([] @ ascii ''chino chan kawaii!'' @ [newline]) d1" by blast
  from desktop_console.put[OF d1(2)] obtain d2 where d2: "put_string font 2 (ascii ''gochuumon wa usagi desu ka?'' @ [newline]) d1 = Some d2"
      "desktop_text font fmt sz 2 greeting d2" by (auto simp: greeting_def)
  have "d_console_layer d1 = 2" using d1(2) by (simp add: desktop_text_def desktop_ok_def)
  then have prints: "printk font ?d (ascii ''chino chan kawaii!'' @ [newline]) = Some d1"
      "printk font d1 (ascii ''gochuumon wa usagi desu ka?'' @ [newline]) = Some d2"
    using d1(1) d2(1) by (simp_all add: printk_def greeting_buffers)
  have "initialize_graphics font screen = Some d2"
    using m1(1) m2(1) m3(1) m4(1) m5(1) m6(1) m7(1) m8(1) m9(1) m10(1) m11(1) m12(1) m13(1) prints
    by (simp add: initialize_graphics_def Let_def flip: fmt_def sz_def)
  then show ?thesis using d2(2) unfolding fmt_def sz_def by blast
qed

subsection \<open>The desktop never fails\<close>

text \<open>The kernel sets the level of its logger to \<open>Info\<close>, and \<open>initialize_graphics\<close> its console to the fast one.\<close>

definition initial_main :: "desktop \<Rightarrow> main_state" where
  "initial_main d =
     \<lparr>m_desktop = d, m_mouse = initial_mouse, m_counter = 0,
      m_logger = set_console (Some (d_console_layer d)) \<lparr>cl_console = None, cl_level = Log_Info\<rparr>\<rparr>"

lemma initial_main_ok:
  assumes t: "desktop_text font fmt sz 2 t d" and sz: "600 \<le> vx sz" "600 \<le> vy sz"
  shows "main_ok font fmt sz t 0 (initial_main d)"
proof -
  have d: "desktop_ok fmt sz (foldl terminal_put [[]] t) d" using t by (simp add: desktop_text_def)
  have inv: "manager_inv fmt sz (d_group_manager d) (d_manager d)" using d by (simp add: desktop_ok_def)
  obtain l where "find_layer (d_manager d) 3 = Some l"
    by (rule manager_inv_layer[OF inv, of 3 "Some (pixel_color_of 0xff0000)" False "vec 15 24"]) (simp add: desktop_layers_def)
  moreover obtain k where "find_layer (d_manager d) 1 = Some k" "\<not> l_draggable k"
    by (rule manager_inv_layer[OF inv, of 1 None False sz]) (simp_all add: desktop_layers_def)
  moreover have "lm_stack (d_manager d) = [1, 2, 4, 5, 3]" using inv by (auto simp: manager_inv_def built_def)
  ultimately show ?thesis
    using d t sz by (simp add: main_ok_def initial_main_def set_console_def initial_mouse_def mouse_inv_def desktop_ok_def includes_point_def with_size_def)
qed

text \<open>Claim C23.
  The desktop from its start on: on a screen of at least 600 x 600 pixels \<open>initialize_graphics\<close> succeeds, and then
  rounds of the main loop (the counter in the window, the moving square of the group layer), mouse reports and
  log messages can follow in any order. As long as there are fewer than \<open>2 ^ 31\<close> rounds every one of them succeeds, no byte outside a buffer
  is accessed, the screen shows the picture of the layer stack, the group layer that of its own layers, the
  console has the cursor of the terminal with the messages up to level \<open>Info\<close> so far, each cut to the 1023 characters of its buffer, and the mouse stays on the screen. The round
  after that increments the largest \<open>int\<close>, which is undefined.
\<close>

theorem desktop_run_keeps:
  assumes screen: "wf_frame_buffer screen" "600 \<le> horizontal_resolution screen" "600 \<le> vertical_resolution screen"
    and font: "font_ok font"
  shows "\<exists>d. initialize_graphics font screen = Some d \<and>
    (if rounds es < 2 ^ 31
     then \<exists>s. desktop_run font (fb_size screen) (initial_main d) es = Some s \<and>
       screen_current (d_manager (m_desktop s)) \<and> screen_current (d_group_manager (m_desktop s)) \<and>
       linked (d_group_layer (m_desktop s)) (d_manager (m_desktop s)) (d_group_manager (m_desktop s)) \<and>
       fast_cursor (d_console (m_desktop s)) (foldl terminal_put [[]] (greeting @ messages es)) \<and>
       includes_point (with_size (vec 0 0) (fb_size screen)) (mouse_position (m_mouse s)) \<and> m_counter s = int (rounds es)
     else desktop_run font (fb_size screen) (initial_main d) es = None)"
proof -
  obtain d where d: "initialize_graphics font screen = Some d"
      "desktop_text font (pixel_format screen) (fb_size screen) 2 greeting d"
    using initialize_graphics_ok[OF screen font] by blast
  have "600 \<le> vx (fb_size screen)" "600 \<le> vy (fb_size screen)" using screen(2,3) by (simp_all add: fb_size_def)
  note main = initial_main_ok[OF d(2) this]
  have "int (rounds es) < 2 ^ 31 \<longleftrightarrow> rounds es < 2 ^ 31" by simp
  with desktop_run_ok[OF main, of es] d(1) show ?thesis
    by (auto simp: main_ok_def desktop_text_def desktop_ok_def manager_inv_def mouse_inv_def split: if_splits)
qed

theorem desktop_run_keeps_witness:
  "\<exists>d s. initialize_graphics (replicate 16 0) (new_frame_buffer None 600 600 600 RGBResv8BitPerColor) = Some d \<and>
     desktop_run (replicate 16 0) (vec 600 600) (initial_main d)
       [Round, Report 1 (-5) 7, Log Log_Error [72, 105, 10], Report 1 100 100, Round] = Some s \<and>
     screen_current (d_manager (m_desktop s)) \<and> m_counter s = 2"
proof -
  have "wf_frame_buffer (new_frame_buffer None 600 600 600 RGBResv8BitPerColor)"
    by (simp add: new_frame_buffer_def wf_frame_buffer_def buffer_size_def bytes_per_pixel_def Let_def)
  moreover have "horizontal_resolution (new_frame_buffer None 600 600 600 RGBResv8BitPerColor) = 600"
      "vertical_resolution (new_frame_buffer None 600 600 600 RGBResv8BitPerColor) = 600"
      "fb_size (new_frame_buffer None 600 600 600 RGBResv8BitPerColor) = vec 600 600"
    by (simp_all add: new_frame_buffer_def fb_size_def Let_def)
  moreover have "font_ok (replicate 16 0)" by (simp add: font_ok_def)
  ultimately show ?thesis
    using desktop_run_keeps[of "new_frame_buffer None 600 600 600 RGBResv8BitPerColor" "replicate 16 0"
        "[Round, Report 1 (-5) 7, Log Log_Error [72, 105, 10], Report 1 100 100, Round]"]
    by auto
qed

end
