(* ===== verification/Screen_Limits.thy ===== *)
theory Screen_Limits
  imports Desktop_Run
begin

text \<open>
  What the start of the desktop (\<open>initialize_graphics\<close> of \<open>src/kernel/graphics/graphics.cpp\<close>) asks of the screen: the painters do not
  clip, so an operation that leaves its layer also leaves the layer's memory when it goes below the last line.
\<close>

text \<open>A painter's operation keeps the geometry of the buffer and the size of its memory.\<close>

definition same_geometry :: "frame_buffer \<Rightarrow> frame_buffer \<Rightarrow> bool" where
  "same_geometry fb fb' \<longleftrightarrow> (\<exists>m. fb' = fb\<lparr>memory := m\<rparr> \<and> length m = length (memory fb))"

lemma same_geometry_refl [simp]: "same_geometry fb fb"
  by (auto simp: same_geometry_def intro: exI[of _ "memory fb"])

lemma same_geometry_trans: "same_geometry a b \<Longrightarrow> same_geometry b c \<Longrightarrow> same_geometry a c"
  by (auto simp: same_geometry_def)

lemma write_pixel_geometry: "write_pixel fb x y c = Some fb' \<Longrightarrow> same_geometry fb fb'"
  by (auto simp: write_pixel_def mem_copy_def same_geometry_def bind_eq_Some_conv split: if_split_asm)

lemma for_range_geometry:
  assumes "for_range body i k fb = Some fb'" and "\<And>j t t'. body j t = Some t' \<Longrightarrow> same_geometry t t'"
  shows "same_geometry fb fb'"
  by (rule for_range_inv[where P = "\<lambda>_ t. same_geometry fb t", OF assms(1)]) (auto intro: same_geometry_trans assms(2))

lemma draw_filled_geometry: "draw_filled_rectangle fb pos sz c = Some fb' \<Longrightarrow> same_geometry fb fb'"
  unfolding draw_filled_rectangle_def by (erule for_range_geometry) (erule for_range_geometry, erule write_pixel_geometry)

lemma two_pixels_geometry:
  "do { fb \<leftarrow> write_pixel fb x y c; write_pixel fb x' y' c } = Some fb' \<Longrightarrow> same_geometry fb fb'"
  by (auto simp: bind_eq_Some_conv dest!: write_pixel_geometry intro: same_geometry_trans)

lemma draw_rectangle_geometry:
  assumes "draw_rectangle fb pos sz c = Some fb'"
  shows "same_geometry fb fb'"
proof -
  from assms obtain t where t:
      "for_range (\<lambda>dx fb. do { fb \<leftarrow> write_pixel fb (vx pos + int dx) (vy pos) c; write_pixel fb (vx pos + int dx) (vy pos + vy sz - 1) c })
        0 (nat (vx sz)) fb = Some t"
      "for_range (\<lambda>dy fb. do { fb \<leftarrow> write_pixel fb (vx pos) (vy pos + int dy) c; write_pixel fb (vx pos + vx sz - 1) (vy pos + int dy) c })
        0 (nat (vy sz)) t = Some fb'"
    unfolding draw_rectangle_def by (auto simp: bind_eq_Some_conv)
  then show ?thesis by (blast intro: same_geometry_trans for_range_geometry two_pixels_geometry)
qed

lemma paint_step_geometry:
  "paint_step font p (Filled r c) = Some p' \<Longrightarrow> same_geometry (p_buffer p) (p_buffer p')"
  "paint_step font p (Rectangle r c) = Some p' \<Longrightarrow> same_geometry (p_buffer p) (p_buffer p')"
  by (auto simp: painter_draw_filled_rectangle_def painter_draw_rectangle_def bind_eq_Some_conv
      dest: draw_filled_geometry draw_rectangle_geometry)

text \<open>A pixel below the buffer is outside its memory.\<close>

lemma write_pixel_below:
  assumes "length (memory fb) = buffer_size fb" and "int (vertical_resolution fb) \<le> y" and "0 \<le> x"
  shows "write_pixel fb x y c = None"
proof -
  have "int (pixels_per_scan_line fb) * int (vertical_resolution fb) \<le> int (pixels_per_scan_line fb) * y"
    using assms(2) by (intro mult_left_mono) auto
  then have "int (pixels_per_scan_line fb * vertical_resolution fb) \<le> int (pixels_per_scan_line fb) * y + x"
    using assms(3) by simp
  then have "pixels_per_scan_line fb * vertical_resolution fb \<le> nat (int (pixels_per_scan_line fb) * y + x)" by arith
  then have "buffer_size fb \<le> bytes_per_pixel (pixel_format fb) * nat (int (pixels_per_scan_line fb) * y + x)"
    by (simp add: buffer_size_def mult.assoc)
  moreover have "0 < bytes_per_pixel (pixel_format fb)" by (cases "pixel_format fb") (auto simp: bytes_per_pixel_def)
  ultimately show ?thesis using assms(1) by (auto simp: write_pixel_def frame_addr_at_def mem_copy_def Let_def)
qed

lemma draw_filled_below:
  assumes len: "length (memory fb) = buffer_size fb" and low: "int (vertical_resolution fb) < vy pos + vy sz" "0 \<le> vx pos"
    and sz: "0 < vx sz" "0 < vy sz"
  shows "draw_filled_rectangle fb pos sz c = None"
proof (rule ccontr)
  assume "draw_filled_rectangle fb pos sz c \<noteq> None"
  then obtain fb' where fb': "for_range (\<lambda>dy fb. for_range (\<lambda>dx fb. write_pixel fb (vx pos + int dx) (vy pos + int dy) c) 0 (nat (vx sz)) fb)
      0 (nat (vy sz)) fb = Some fb'" unfolding draw_filled_rectangle_def by blast
  have "same_geometry fb fb' \<and> 0 + nat (vy sz) < nat (vy sz)"
  proof (rule for_range_inv[where P = "\<lambda>j t. same_geometry fb t \<and> j < nat (vy sz)", OF fb'])
    show "same_geometry fb fb \<and> 0 < nat (vy sz)" using sz by simp
    fix j t t' assume j: "j < 0 + nat (vy sz)" and t: "same_geometry fb t \<and> j < nat (vy sz)"
      and row: "for_range (\<lambda>dx fb. write_pixel fb (vx pos + int dx) (vy pos + int j) c) 0 (nat (vx sz)) t = Some t'"
    obtain m where m: "t = fb\<lparr>memory := m\<rparr>" "length m = length (memory fb)" using t by (auto simp: same_geometry_def)
    have "Suc j \<noteq> nat (vy sz)"
    proof
      assume last: "Suc j = nat (vy sz)"
      have "write_pixel t (vx pos + int 0) (vy pos + int j) c = None"
        using m len low last sz by (intro write_pixel_below) (auto simp: buffer_size_def)
      moreover obtain n where "nat (vx sz) = Suc n" using sz(1) by (cases "nat (vx sz)") auto
      ultimately show False using row by simp
    qed
    moreover have "same_geometry t t'" by (rule for_range_geometry[OF row write_pixel_geometry])
    ultimately show "same_geometry fb t' \<and> Suc j < nat (vy sz)" using t j by (auto intro: same_geometry_trans)
  qed
  then show False by simp
qed

text \<open>Claim C24.
  A screen that is lower than 600 pixels: the start of the desktop paints a red square at (500, 500) to (600, 600)
  on the background, whose size is that of the screen. The painter does not clip, so the square is written outside the
  memory of the background layer, and \<open>initialize_graphics\<close> has no defined result.
\<close>

theorem low_screen_undefined:
  assumes screen: "wf_frame_buffer screen" and low: "vertical_resolution screen < 600"
  shows "initialize_graphics font screen = None"
proof -
  define fmt sz where "fmt = pixel_format screen" and "sz = fb_size screen"
  have "horizontal_resolution screen * vertical_resolution screen < 2 ^ 31"
    using screen by (auto simp: wf_frame_buffer_def intro: le_less_trans[OF mult_le_mono1])
  then have sz: "0 \<le> vx sz" "0 \<le> vy sz" "vx sz * vy sz < 2 ^ 31" by (simp_all add: sz_def fb_size_def flip: of_nat_mult)
  have b0: "built (fmt, True, None) 0 [] [] (new_layer_manager True fmt)"
    by (simp add: built_def new_layer_manager_def wf_manager_def buffers_ok_def)
  obtain m1 where m1: "new_layer (new_layer_manager True fmt) sz = (1, m1)" "built (fmt, True, None) 1 [(1, vec 0 0, None, False, sz)] [] m1"
    by (rule new_built[OF b0 _ sz]) auto
  obtain m2 where m2: "layer_move m1 1 (vec 0 0) = Some m2" "built (fmt, True, None) 1 [(1, vec 0 0, None, False, sz)] [] m2"
    using move_built[OF m1(2), of 1 _ "vec 0 0"] by (auto simp: reshape_def)
  obtain l where l: "find_layer m2 1 = Some l" "layer_shape l = (1, vec 0 0, None, False, sz)" "layer_ok fmt l"
    by (rule find_built[OF m2(2), of 1]) auto
  have len: "length (memory (l_buffer l)) = buffer_size (l_buffer l)" "int (vertical_resolution (l_buffer l)) < 600"
    using l(2,3) low by (auto simp: layer_ok_def wf_frame_buffer_def layer_shape_def layer_size_def sz_def fb_size_def vec_def)
  have "paint_run font (start_paint l) (background_ops sz) = None"
  proof (rule ccontr)
    assume "paint_run font (start_paint l) (background_ops sz) \<noteq> None"
    then obtain p1 p2 p3 p q r1 r2 r3 r4 c1 c2 c3 c4 c where p1: "paint_step font (start_paint l) (Filled r1 c1) = Some p1"
        and p2: "paint_step font p1 (Filled r2 c2) = Some p2" and p3: "paint_step font p2 (Filled r3 c3) = Some p3"
        and p4: "paint_step font p3 (Rectangle r4 c4) = Some p"
        and red: "paint_step font p (Filled (rect 500 500 600 600) c) = Some q"
      unfolding background_ops_def Let_def paint_run.simps by (auto simp: bind_eq_Some_conv simp del: paint_step.simps)
    have p: "same_geometry (l_buffer l) (p_buffer p)"
      using paint_step_geometry(1)[OF p1] paint_step_geometry(1)[OF p2] paint_step_geometry(1)[OF p3] paint_step_geometry(2)[OF p4]
      by (auto simp: start_paint_def intro: same_geometry_trans)
    have square: "top_left (rect 500 500 600 600) = vec 500 500" "rect_size (rect 500 500 600 600) = vec 100 100"
      by (rule vec_eqI; simp)+
    have "draw_filled_rectangle (p_buffer p) (vec 500 500) (vec 100 100) c \<noteq> None"
      using red square by (auto simp: painter_draw_filled_rectangle_def bind_eq_Some_conv)
    moreover have "draw_filled_rectangle (p_buffer p) (vec 500 500) (vec 100 100) c = None"
      using p len by (intro draw_filled_below) (auto simp: same_geometry_def buffer_size_def)
    ultimately show False by simp
  qed
  then show ?thesis using m1(1) m2(1) l(1) by (simp add: initialize_graphics_def make_background_def paint_layer_def flip: fmt_def sz_def)
qed

theorem low_screen_undefined_witness:
  "initialize_graphics (replicate 16 0) (new_frame_buffer None 640 640 480 BGRResv8BitPerColor) = None"
  by (rule low_screen_undefined)
    (simp_all add: new_frame_buffer_def wf_frame_buffer_def buffer_size_def bytes_per_pixel_def Let_def)

end
