(* ===== verification/Layer_Types.thy ===== *)
theory Layer_Types
  imports Graphics_Setup
begin

text \<open>
  Programs over a layer manager (\<open>layer_manager.cpp\<close>, \<open>layer.cpp\<close>, \<open>painter.cpp\<close> of \<open>src/kernel/graphics\<close>) and a type system for
  them. The code passes layer ids and raw pointers and draws without clipping; a program is well-typed when it uses
  the ids of layers it has created and draws inside them. The type environment has the sizes of the layers.
\<close>

subsection \<open>Programs\<close>

datatype manager_op =
    New_Layer vec
  | Move layer_id vec
  | Move_Relative layer_id vec
  | Up_Down layer_id int
  | Paint layer_id "paint_op list"
  | Transparent layer_id "pixel_color option"
  | Buffer "frame_buffer option"

fun manager_step :: "u8 list \<Rightarrow> layer_manager \<Rightarrow> manager_op \<Rightarrow> layer_manager option" where
  "manager_step font mgr (New_Layer sz) = Some (snd (new_layer mgr sz))"
| "manager_step font mgr (Move lid pos) = layer_move mgr lid pos"
| "manager_step font mgr (Move_Relative lid diff) = layer_move_relative mgr lid diff"
| "manager_step font mgr (Up_Down lid h) = up_down mgr lid h"
| "manager_step font mgr (Paint lid ops) = paint_layer font mgr lid ops"
| "manager_step font mgr (Transparent lid c) = Some (update_layer mgr lid (set_transparent_color c))"
| "manager_step font mgr (Buffer fb) = Some (set_buffer mgr fb)"

fun manager_run :: "u8 list \<Rightarrow> layer_manager \<Rightarrow> manager_op list \<Rightarrow> layer_manager option" where
  "manager_run font mgr [] = Some mgr"
| "manager_run font mgr (a # as) = do { mgr \<leftarrow> manager_step font mgr a; manager_run font mgr as }"

subsection \<open>Types\<close>

text \<open>The layers are numbered from 1 in the order of their creation.\<close>

definition known :: "vec list \<Rightarrow> layer_id \<Rightarrow> bool" where
  "known G lid \<longleftrightarrow> 0 < unat lid \<and> unat lid \<le> length G"

fun op_type :: "pixel_format \<Rightarrow> vec list \<Rightarrow> manager_op \<Rightarrow> vec list option" where
  "op_type fmt G (New_Layer sz) =
     (if 0 \<le> vx sz \<and> 0 \<le> vy sz \<and> vx sz * vy sz < 2 ^ 31 \<and> length G + 1 < 2 ^ 32 then Some (G @ [sz]) else None)"
| "op_type fmt G (Move lid pos) = (if known G lid then Some G else None)"
| "op_type fmt G (Move_Relative lid diff) = (if known G lid then Some G else None)"
| "op_type fmt G (Up_Down lid h) = (if known G lid then Some G else None)"
| "op_type fmt G (Paint lid ops) =
     (if known G lid \<and> list_all (paint_fits (G ! (unat lid - 1))) ops then Some G else None)"
| "op_type fmt G (Transparent lid c) = (if known G lid then Some G else None)"
| "op_type fmt G (Buffer fb) =
     (case fb of None \<Rightarrow> Some G | Some fb \<Rightarrow> if wf_frame_buffer fb \<and> pixel_format fb = fmt then Some G else None)"

fun program_type :: "pixel_format \<Rightarrow> vec list \<Rightarrow> manager_op list \<Rightarrow> vec list option" where
  "program_type fmt G [] = Some G"
| "program_type fmt G (a # as) = do { G \<leftarrow> op_type fmt G a; program_type fmt G as }"

text \<open>A manager has the type of an environment.\<close>

definition has_type :: "pixel_format \<Rightarrow> vec list \<Rightarrow> layer_manager \<Rightarrow> bool" where
  "has_type fmt G mgr \<longleftrightarrow>
     wf_manager mgr \<and> buffers_ok mgr \<and> lm_format mgr = fmt \<and> unat (lm_latest_id mgr) = length G \<and> length (lm_layers mgr) = length G \<and>
     (\<forall>j<length G. l_id (lm_layers mgr ! j) = of_nat (j + 1) \<and> layer_size (lm_layers mgr ! j) = G ! j)"

definition shape_size :: "layer_id \<times> vec \<times> pixel_color option \<times> bool \<times> vec \<Rightarrow> vec" where
  "shape_size s = snd (snd (snd (snd s)))"

definition shapes_typed where
  "shapes_typed S G \<longleftrightarrow> length S = length G \<and> (\<forall>j<length G. fst (S ! j) = of_nat (j + 1) \<and> shape_size (S ! j) = G ! j)"

lemma has_type_built:
  "has_type fmt G mgr \<longleftrightarrow> (\<exists>dbl R n S st. built (fmt, dbl, R) n S st mgr \<and> unat n = length G \<and> shapes_typed S G)"
proof -
  have size: "shape_size (layer_shape l) = layer_size l" for l by (simp add: shape_size_def layer_shape_def)
  have typed: "shapes_typed (map layer_shape ls) G \<longleftrightarrow>
      length ls = length G \<and> (\<forall>j<length G. l_id (ls ! j) = of_nat (j + 1) \<and> layer_size (ls ! j) = G ! j)" for ls
    unfolding shapes_typed_def by (auto simp: size)
  have "(\<exists>dbl R n S st. built (fmt, dbl, R) n S st mgr \<and> unat n = length G \<and> shapes_typed S G) \<longleftrightarrow>
      wf_manager mgr \<and> buffers_ok mgr \<and> lm_format mgr = fmt \<and> unat (lm_latest_id mgr) = length G \<and>
      shapes_typed (map layer_shape (lm_layers mgr)) G"
    unfolding built_def by auto
  then show ?thesis unfolding has_type_def typed by blast
qed

lemma shapes_typed_find:
  assumes "shapes_typed S G" and "known G lid"
  obtains p t d where "find (\<lambda>s. fst s = lid) S = Some (lid, p, t, d, G ! (unat lid - 1))"
proof -
  define i where "i = unat lid - 1"
  have len: "length S = length G" "i < length G" "unat lid = i + 1" using assms by (auto simp: shapes_typed_def known_def i_def)
  have "lid = of_nat (unat lid)" by simp
  then have lid: "lid = of_nat (i + 1)" by (simp only: len(3))
  have "fst (S ! j) \<noteq> lid" if "j < i" for j
  proof -
    have "j + 1 < 2 ^ LENGTH(32)" using that len(3) unat_lt2p[of lid] by simp
    then have "unat (of_nat (j + 1) :: layer_id) = j + 1" by (rule unat_of_nat_eq)
    moreover have "fst (S ! j) = of_nat (j + 1)" using assms(1) that len by (simp add: shapes_typed_def)
    ultimately show ?thesis using that len(3) by auto
  qed
  moreover have "fst (S ! i) = lid" "shape_size (S ! i) = G ! i" using assms(1) len(2) by (auto simp: shapes_typed_def lid)
  ultimately have "find (\<lambda>s. fst s = lid) S = Some (S ! i)" using len by (auto simp: find_Some_iff intro: exI[of _ i])
  then show thesis using that \<open>fst (S ! i) = lid\<close> \<open>shape_size (S ! i) = G ! i\<close>
    by (cases "S ! i") (auto simp: shape_size_def i_def)
qed

lemma shapes_typed_reshape:
  assumes "shapes_typed S G" and "\<And>s. fst (g s) = fst s \<and> shape_size (g s) = shape_size s"
  shows "shapes_typed (reshape lid g S) G"
  using assms by (auto simp: shapes_typed_def reshape_def)

subsection \<open>Well-typed programs do not go wrong\<close>

lemma manager_step_sound:
  assumes t: "has_type fmt G mgr" and ty: "op_type fmt G a = Some G'" and font: "font_ok font"
  shows "\<exists>mgr'. manager_step font mgr a = Some mgr' \<and> has_type fmt G' mgr'"
proof -
  obtain dbl R n S st where b: "built (fmt, dbl, R) n S st mgr" and n: "unat n = length G" and S: "shapes_typed S G"
    using t unfolding has_type_built by blast
  have typed: "has_type fmt G mgr'" if "built (fmt, dbl, R) n S' st' mgr'" "shapes_typed S' G" for S' st' mgr'
    using that n unfolding has_type_built by blast
  have moved: "\<exists>mgr'. layer_move mgr lid pos = Some mgr' \<and> has_type fmt G mgr'" if k: "known G lid" for lid pos
  proof -
    obtain p t d where s: "find (\<lambda>s. fst s = lid) S = Some (lid, p, t, d, G ! (unat lid - 1))" using shapes_typed_find[OF S k] .
    have "shapes_typed (reshape lid (\<lambda>(i, p, t). (i, pos, t)) S) G"
      by (rule shapes_typed_reshape[OF S]) (simp add: shape_size_def split: prod.split)
    with move_built[OF b s, of pos] typed show ?thesis by blast
  qed
  show ?thesis
  proof (cases a)
    case (New_Layer sz)
    then have sz: "0 \<le> vx sz" "0 \<le> vy sz" "vx sz * vy sz < 2 ^ 31" "length G + 1 < 2 ^ 32" and G': "G' = G @ [sz]"
      using ty by (auto split: if_split_asm)
    have n1: "unat (n + 1) = length G + 1" using n sz(4) by (simp add: unat_word_ariths)
    then have "n < n + 1" using n by (simp add: word_less_nat_alt)
    from new_built[OF b this sz(1-3)] obtain mgr' where m: "new_layer mgr sz = (n + 1, mgr')"
        "built (fmt, dbl, R) (n + 1) (S @ [(n + 1, vec 0 0, None, False, sz)]) st mgr'" .
    have "n + 1 = of_nat (unat (n + 1))" by simp
    then have "n + 1 = of_nat (length G + 1)" by (simp only: n1)
    then have "shapes_typed (S @ [(n + 1, vec 0 0, None, False, sz)]) (G @ [sz])"
      using S by (auto simp: shapes_typed_def nth_append less_Suc_eq shape_size_def)
    moreover have "unat (n + 1) = length (G @ [sz])" using n1 by simp
    ultimately have "has_type fmt G' mgr'" using m(2) unfolding has_type_built G' by blast
    then show ?thesis using New_Layer m(1) by simp
  next
    case (Move lid pos)
    then show ?thesis using moved ty by (simp split: if_split_asm)
  next
    case (Move_Relative lid diff)
    then have k: "known G lid" "G' = G" using ty by (auto split: if_split_asm)
    obtain p t d where s: "find (\<lambda>s. fst s = lid) S = Some (lid, p, t, d, G ! (unat lid - 1))" using shapes_typed_find[OF S k(1)] .
    obtain l where "find_layer mgr lid = Some l" using find_built[OF b s] by blast
    then show ?thesis using Move_Relative moved[OF k(1)] k(2) by (simp add: layer_move_relative_def)
  next
    case (Up_Down lid h)
    then have k: "known G lid" "G' = G" using ty by (auto split: if_split_asm)
    obtain p t d where s: "find (\<lambda>s. fst s = lid) S = Some (lid, p, t, d, G ! (unat lid - 1))" using shapes_typed_find[OF S k(1)] .
    show ?thesis
    proof (cases "h < 0")
      case True
      have "set (remove1 lid st) \<subseteq> set st" by (rule set_remove1_subset)
      then have "built (fmt, dbl, R) n S (remove1 lid st) (hide mgr lid)"
        using b by (auto simp: built_def hide_def wf_manager_def buffers_ok_def split: option.splits)
      then show ?thesis using True Up_Down typed S k(2) by (auto simp: up_down_def)
    next
      case False
      then show ?thesis using up_down_built[OF b s, of h] Up_Down typed[OF _ S] k(2) by auto
    qed
  next
    case (Paint lid ops)
    then have k: "known G lid" "\<forall>a\<in>set ops. paint_fits (G ! (unat lid - 1)) a" "G' = G"
      using ty by (auto simp: list_all_iff split: if_split_asm)
    obtain p t d where s: "find (\<lambda>s. fst s = lid) S = Some (lid, p, t, d, G ! (unat lid - 1))" using shapes_typed_find[OF S k(1)] .
    show ?thesis using paint_built[OF b s font k(2)] Paint typed[OF _ S] k(3) by auto
  next
    case (Transparent lid c)
    have "shapes_typed (reshape lid (\<lambda>(i, p, t, x). (i, p, c, x)) S) G"
      by (rule shapes_typed_reshape[OF S]) (simp add: shape_size_def split: prod.split)
    moreover have "built (fmt, dbl, R) n (reshape lid (\<lambda>(i, p, t, x). (i, p, c, x)) S) st (update_layer mgr lid (set_transparent_color c))"
      by (rule update_built[OF b]) (auto simp: set_transparent_color_def layer_ok_def layer_shape_def layer_size_def)
    ultimately show ?thesis using Transparent ty typed by (auto split: if_split_asm)
  next
    case (Buffer fb)
    then have fb: "G' = G" "\<And>b. fb = Some b \<Longrightarrow> wf_frame_buffer b \<and> pixel_format b = fmt" using ty by (auto split: option.split_asm if_split_asm)
    have clone: "clone b = b" if "wf_frame_buffer b" for b using that by (simp add: clone_def wf_frame_buffer_def)
    have "buffers_ok (set_buffer mgr fb)"
      using b fb(2) clone by (auto simp: set_buffer_defs buffers_ok_def canvas_ok_def built_def split: option.split)
    then have "built (fmt, dbl, map_option buffer_rect fb) n S st (set_buffer mgr fb)"
      using b by (auto simp: built_def set_buffer_defs wf_manager_def)
    then have "has_type fmt G (set_buffer mgr fb)" using n S unfolding has_type_built by blast
    then show ?thesis using Buffer fb(1) by simp
  qed
qed



end
