(* ===== verification/Event_Loop.thy ===== *)
theory Event_Loop
  imports Xhci_Startup Descriptors
begin

text \<open>
  The part of \<open>kernel_main\<close> (\<open>src/kernel/main.cpp\<close>) that drives the host controller: the configuration of the ports that
  are connected at the start, the interrupt handler with its queue of messages, and the loop that handles events.

  The interrupt handler can run between any two steps of the main loop while interrupts are enabled. So the
  main loop is a step relation with a program counter, whose steps are the statements that touch what the
  handler or the controller also touches. The memory that the controller writes to may be different at each event.
\<close>

subsection \<open>Handling events leaves the event ring alone\<close>

text \<open>Only \<open>ProcessEvent\<close> itself moves the dequeue pointer, after the handler.\<close>

lemma event_ring_frame [simp]:
  "primary_event_ring (set_device s d c) = primary_event_ring c" "primary_event_ring (push_command t c) = primary_event_ring c"
  "primary_event_ring (write_port p v n c) = primary_event_ring c" "primary_event_ring (set_phase p ph c) = primary_event_ring c"
  by (simp_all add: set_device_def push_command_def write_port_def set_phase_def)

lemma alloc_device_ring: "alloc_device env slot c = Some (e, c') \<Longrightarrow> primary_event_ring c' = primary_event_ring c"
  by (auto simp: alloc_device_def Let_def split: if_splits prod.splits)

lemma load_dcbaa_ring: "load_dcbaa env slot c = Some (e, c') \<Longrightarrow> primary_event_ring c' = primary_event_ring c"
  by (auto simp: load_dcbaa_def bind_eq_Some_conv split: if_splits)

lemma reset_port_ring: "reset_port hw p c = Some (e, c') \<Longrightarrow> primary_event_ring c' = primary_event_ring c"
  by (auto simp: reset_port_def port_reset_operation_def bind_eq_Some_conv Let_def split: if_splits)

lemma reset_next_ring: "reset_next hw c = Some (e, c') \<Longrightarrow> primary_event_ring c' = primary_event_ring c"
  by (auto simp: reset_next_def dest: reset_port_ring split: option.splits)

lemma enable_slot_ring: "enable_slot hw p c = (e, c') \<Longrightarrow> primary_event_ring c' = primary_event_ring c"
  by (auto simp: enable_slot_def clear_port_reset_change_def Let_def split: if_splits)

lemma address_device_ring: "address_device env port slot c = Some (e, c') \<Longrightarrow> primary_event_ring c' = primary_event_ring c"
  by (auto simp: address_device_def bind_eq_Some_conv Let_def dest!: alloc_device_ring load_dcbaa_ring split: option.splits prod.splits)

lemma initialize_device_ring: "initialize_device env port slot c = Some (e, c') \<Longrightarrow> primary_event_ring c' = primary_event_ring c"
  by (auto simp: initialize_device_def bind_eq_Some_conv split: option.splits)

lemma complete_configuration_ring:
  "complete_configuration port slot c = Some (e, c') \<Longrightarrow> primary_event_ring c' = primary_event_ring c"
  by (auto simp: complete_configuration_def bind_eq_Some_conv split: option.splits)

lemma configure_endpoints_ring: "configure_endpoints env slot c = Some (e, c') \<Longrightarrow> primary_event_ring c' = primary_event_ring c"
  by (auto simp: configure_endpoints_def bind_eq_Some_conv Let_def split: if_splits prod.splits)

lemmas operation_rings = reset_port_ring reset_next_ring enable_slot_ring address_device_ring initialize_device_ring
  complete_configuration_ring configure_endpoints_ring

lemma on_port_status_change_ring:
  "on_port_status_change hw event c = Some (e, c') \<Longrightarrow> primary_event_ring c' = primary_event_ring c"
  by (auto simp: on_port_status_change_def Let_def dest: operation_rings split: config_phase.splits)

lemma on_transfer_event_ring:
  "on_transfer_event env mem event c = Some (e, c') \<Longrightarrow> primary_event_ring c' = primary_event_ring c"
  by (auto simp: on_transfer_event_def Let_def bind_eq_Some_conv dest: operation_rings split: option.splits if_splits)

lemma on_command_completion_ring:
  "on_command_completion hw env event c = Some (e, c') \<Longrightarrow> primary_event_ring c' = primary_event_ring c"
  by (auto simp: on_command_completion_def Let_def bind_eq_Some_conv dest!: operation_rings split: option.splits if_splits)

lemma handle_event_ring: "handle_event hw env mem event c = Some (e, c') \<Longrightarrow> primary_event_ring c' = primary_event_ring c"
  unfolding handle_event_def
  by (auto dest: on_port_status_change_ring on_transfer_event_ring on_command_completion_ring split: if_splits)

subsection \<open>The event pump\<close>

text \<open>
  \<open>while (xhc.PrimaryEventRing()->HasFront()) ProcessEvent(xhc)\<close>; the results are logged. \<open>mems k\<close> is the memory at the
  \<open>k\<close>th event. As long as the hardware posts no further event, this is what one message leads to.
\<close>

partial_function (option) pump ::
    "port_hw \<Rightarrow> usb_env \<Rightarrow> (nat \<Rightarrow> u64 \<Rightarrow> u8) \<Rightarrow> nat \<Rightarrow> usb_error list \<Rightarrow> controller \<Rightarrow> (usb_error list \<times> controller) option" where
  "pump hw env mems k errs c = do {
     waiting \<leftarrow> has_front (primary_event_ring c);
     if waiting then do {
       (e, c) \<leftarrow> process_event hw env (mems k) c;
       pump hw env mems (Suc k) (errs @ [e]) c }
     else Some (errs, c) }"

text \<open>The specification: the handlers of the events of a list, one after the other.\<close>

primrec handle_all ::
    "port_hw \<Rightarrow> usb_env \<Rightarrow> (nat \<Rightarrow> u64 \<Rightarrow> u8) \<Rightarrow> nat \<Rightarrow> trb list \<Rightarrow> controller \<Rightarrow> (usb_error list \<times> controller) option" where
  "handle_all hw env mems k [] c = Some ([], c)"
| "handle_all hw env mems k (event # events) c = do {
     (e, c) \<leftarrow> handle_event hw env (mems k) event c;
     (es, c) \<leftarrow> handle_all hw env mems (Suc k) events (c\<lparr>primary_event_ring := pop (primary_event_ring c)\<rparr>);
     Some (e # es, c) }"

text \<open>What the driver sees of the ring, from the laws of the event queue.\<close>

lemma has_front_posted:
  assumes "event_queue_ok (er, e, pc)"
  shows "has_front er = Some (posted (er, e, pc) \<noteq> [])"
    and "posted (er, e, pc) = y # ys \<Longrightarrow> front er = Some y \<and> event_queue_ok (pop er, e, pc) \<and> posted (pop er, e, pc) = ys"
proof -
  have "event_ring_ok er" using assms by (simp add: event_queue_ok_def)
  then obtain t where t: "front er = Some t" using front_eq by blast
  show "has_front er = Some (posted (er, e, pc) \<noteq> [])"
    using take_event_law[OF assms] t by (cases "posted (er, e, pc)") (auto simp: take_event_def has_front_def split: if_split_asm)
  show "front er = Some y \<and> event_queue_ok (pop er, e, pc) \<and> posted (pop er, e, pc) = ys" if "posted (er, e, pc) = y # ys"
    using take_event_law[OF assms] that t by (auto simp: take_event_def has_front_def split: if_split_asm)
qed

lemma process_event_first:
  assumes "event_queue_ok (primary_event_ring c, e, pc)" and "posted (primary_event_ring c, e, pc) = y # ys"
  shows "process_event hw env mem c = do {
     (err, c) \<leftarrow> handle_event hw env mem y c;
     Some (err, c\<lparr>primary_event_ring := pop (primary_event_ring c)\<rparr>) }"
  using has_front_posted[OF assms(1)] assms(2) by (simp add: process_event_def)

lemma pump_handle_all:
  assumes "event_queue_ok (primary_event_ring c, e, pc)"
  shows "pump hw env mems k errs c =
    map_option (\<lambda>(es, c). (errs @ es, c)) (handle_all hw env mems k (posted (primary_event_ring c, e, pc)) c)"
  using assms
proof (induction "posted (primary_event_ring c, e, pc)" arbitrary: c k errs)
  case Nil
  then show ?case using has_front_posted(1)[OF Nil(2)] by (subst pump.simps) simp
next
  case (Cons y ys)
  have w: "has_front (primary_event_ring c) = Some True" using has_front_posted(1)[OF Cons(3)] Cons(2)[symmetric] by simp
  note next_ok = has_front_posted(2)[OF Cons(3) Cons(2)[symmetric]]
  show ?case
  proof (cases "handle_event hw env (mems k) y c")
    case None
    then show ?thesis
      using process_event_first[OF Cons(3) Cons(2)[symmetric]] unfolding Cons(2)[symmetric] by (subst pump.simps) (simp add: w)
  next
    case (Some r)
    obtain err c1 where r: "handle_event hw env (mems k) y c = Some (err, c1)" using Some by (cases r) simp
    let ?c = "c1\<lparr>primary_event_ring := pop (primary_event_ring c1)\<rparr>"
    have ring: "primary_event_ring ?c = pop (primary_event_ring c)" using handle_event_ring[OF r] by simp
    have ok: "event_queue_ok (primary_event_ring ?c, e, pc)" and ys: "ys = posted (primary_event_ring ?c, e, pc)"
      using next_ok ring by simp_all
    have "pump hw env mems k errs c = pump hw env mems (Suc k) (errs @ [err]) ?c"
      using process_event_first[OF Cons(3) Cons(2)[symmetric], of hw env "mems k"] by (subst pump.simps) (simp add: w r)
    also have "\<dots> = map_option (\<lambda>(es, c). ((errs @ [err]) @ es, c)) (handle_all hw env mems (Suc k) ys ?c)"
      unfolding ys by (rule Cons(1)[OF ys ok])
    finally show ?thesis
      unfolding Cons(2)[symmetric] by (cases "handle_all hw env mems (Suc k) ys ?c") (auto simp: r)
  qed
qed

lemma handle_all_drains:
  assumes "event_queue_ok (primary_event_ring c, e, pc)"
    and "handle_all hw env mems k (posted (primary_event_ring c, e, pc)) c = Some (es, c')"
  shows "event_queue_ok (primary_event_ring c', e, pc) \<and> posted (primary_event_ring c', e, pc) = [] \<and>
    length es = length (posted (primary_event_ring c, e, pc))"
  using assms
proof (induction "posted (primary_event_ring c, e, pc)" arbitrary: c k es)
  case Nil
  then show ?case using Nil(1)[symmetric] by simp
next
  case (Cons y ys)
  note next_ok = has_front_posted(2)[OF Cons(3) Cons(2)[symmetric]]
  from Cons(4) obtain err c1 es1 where r: "handle_event hw env (mems k) y c = Some (err, c1)"
    and rest: "handle_all hw env mems (Suc k) ys (c1\<lparr>primary_event_ring := pop (primary_event_ring c1)\<rparr>) = Some (es1, c')"
    and es: "es = err # es1"
    unfolding Cons(2)[symmetric] by (auto simp: bind_eq_Some_conv)
  let ?c = "c1\<lparr>primary_event_ring := pop (primary_event_ring c1)\<rparr>"
  have ring: "primary_event_ring ?c = pop (primary_event_ring c)" using handle_event_ring[OF r] by simp
  have ok: "event_queue_ok (primary_event_ring ?c, e, pc)" and ys: "ys = posted (primary_event_ring ?c, e, pc)"
    using next_ok ring by simp_all
  from Cons(1)[OF ys ok rest[unfolded ys]] show ?case
    unfolding Cons(2)[symmetric] es using ys by simp
qed

text \<open>Claim C36.
  One message empties the event ring. In every state of the ring, the loop that an interrupt message starts ends, unless one of the
  handlers has undefined behaviour, and it has run the handlers of exactly the posted events, in the order in which the
  controller posted them, each once; afterwards the ring is empty and well-formed. The loop is equal to
  running the handlers over the list of the posted events.
\<close>

theorem event_pump_drains:
  assumes "event_queue_ok (primary_event_ring c, e, pc)"
  shows "pump hw env mems 0 [] c = handle_all hw env mems 0 (posted (primary_event_ring c, e, pc)) c \<and>
    (case pump hw env mems 0 [] c of
       None \<Rightarrow> True
     | Some (es, c') \<Rightarrow> event_queue_ok (primary_event_ring c', e, pc) \<and> posted (primary_event_ring c', e, pc) = [] \<and>
         length es = length (posted (primary_event_ring c, e, pc)))"
proof -
  have eq: "pump hw env mems 0 [] c = handle_all hw env mems 0 (posted (primary_event_ring c, e, pc)) c"
    using pump_handle_all[OF assms, of hw env mems 0 "[]"]
    by (simp add: option.map_ident_strong case_prod_beta)
  then show ?thesis using handle_all_drains[OF assms] by (auto split: option.splits)
qed

subsection \<open>Interrupts and the main loop\<close>

datatype message = InterruptXHCI

text \<open>
  Where \<open>kernel_main\<close> is: in the loop over the ports, with those still to come, before the \<open>cli\<close> of the main loop,
  between \<open>cli\<close> and \<open>sti\<close>, or in the loop that handles events.
\<close>

datatype main_pc = Main_Ports "u8 list" | Main_Top | Main_Checking | Main_Handling

text \<open>
  \<open>k_producer\<close> is the controller's position in the event ring, and \<open>k_request\<close> says whether it has an interrupt to deliver.
\<close>

record kernel =
  k_xhc :: controller
  k_producer :: "nat \<times> bool"
  k_request :: bool
  main_queue :: "message list"
  interrupts_enabled :: bool
  k_lapic :: lapic
  k_pc :: main_pc

definition int_handler_xhci :: "kernel \<Rightarrow> kernel" where
  "int_handler_xhci s = s\<lparr>main_queue := main_queue s @ [InterruptXHCI], k_lapic := notify_end_of_interrput (k_lapic s)\<rparr>"

definition k_events :: "kernel \<Rightarrow> event_queue" where
  "k_events s = (primary_event_ring (k_xhc s), k_producer s)"

text \<open>
  The steps. The controller posts an event if there is room and then has an interrupt to deliver; the processor takes it if
  interrupts are enabled. The hardware also changes port registers and device contexts at any time. After the ports, the main loop disables interrupts, looks at the queue, and either goes round again or takes
  the first message, enables interrupts and handles events until there is none.
\<close>

inductive kernel_step :: "port_hw \<Rightarrow> usb_env \<Rightarrow> kernel \<Rightarrow> kernel \<Rightarrow> bool" for hw env where
  Post: "length (posted (k_events s)) < event_capacity (k_events s) \<Longrightarrow> xhc_post t (k_events s) = (er, p) \<Longrightarrow>
    kernel_step hw env s (s\<lparr>k_xhc := (k_xhc s)\<lparr>primary_event_ring := er\<rparr>, k_producer := p, k_request := True\<rparr>)"
| Hardware: "list_all2 same_driver_part (devices (k_xhc s)) devs \<Longrightarrow>
    kernel_step hw env s (s\<lparr>k_xhc := (k_xhc s)\<lparr>portsc := sc, devices := devs\<rparr>\<rparr>)"
| Interrupt: "k_request s \<Longrightarrow> interrupts_enabled s \<Longrightarrow> kernel_step hw env s (int_handler_xhci (s\<lparr>k_request := False\<rparr>))"
| Port: "k_pc s = Main_Ports (p # ps) \<Longrightarrow> is_connected (portsc (k_xhc s) p) \<Longrightarrow>
    configure_port hw p (k_xhc s) = Some (e, c) \<Longrightarrow> kernel_step hw env s (s\<lparr>k_xhc := c, k_pc := Main_Ports ps\<rparr>)"
| Port_Empty: "k_pc s = Main_Ports (p # ps) \<Longrightarrow> \<not> is_connected (portsc (k_xhc s) p) \<Longrightarrow>
    kernel_step hw env s (s\<lparr>k_pc := Main_Ports ps\<rparr>)"
| Ports_Done: "k_pc s = Main_Ports [] \<Longrightarrow> kernel_step hw env s (s\<lparr>k_pc := Main_Top\<rparr>)"
| Cli: "k_pc s = Main_Top \<Longrightarrow> kernel_step hw env s (s\<lparr>interrupts_enabled := False, k_pc := Main_Checking\<rparr>)"
| Empty: "k_pc s = Main_Checking \<Longrightarrow> main_queue s = [] \<Longrightarrow>
    kernel_step hw env s (s\<lparr>interrupts_enabled := True, k_pc := Main_Top\<rparr>)"
| Take: "k_pc s = Main_Checking \<Longrightarrow> main_queue s = m # q \<Longrightarrow>
    kernel_step hw env s (s\<lparr>main_queue := q, interrupts_enabled := True, k_pc := Main_Handling\<rparr>)"
| Handle: "k_pc s = Main_Handling \<Longrightarrow> has_front (primary_event_ring (k_xhc s)) = Some True \<Longrightarrow>
    process_event hw env mem (k_xhc s) = Some (e, c) \<Longrightarrow> kernel_step hw env s (s\<lparr>k_xhc := c\<rparr>)"
| Drained: "k_pc s = Main_Handling \<Longrightarrow> has_front (primary_event_ring (k_xhc s)) = Some False \<Longrightarrow>
    kernel_step hw env s (s\<lparr>k_pc := Main_Top\<rparr>)"

inductive_cases kernel_stepE: "kernel_step hw env s s'"

inductive kernel_reachable :: "port_hw \<Rightarrow> usb_env \<Rightarrow> kernel \<Rightarrow> kernel \<Rightarrow> bool" for hw env s0 where
  start: "kernel_reachable hw env s0 s0"
| step: "kernel_reachable hw env s0 s \<Longrightarrow> kernel_step hw env s s' \<Longrightarrow> kernel_reachable hw env s0 s'"

text \<open>The invariant: an event in the ring always has an interrupt, a message or the main loop that takes care of it.\<close>

definition kernel_ok :: "kernel \<Rightarrow> bool" where
  "kernel_ok s \<longleftrightarrow> event_queue_ok (k_events s) \<and> (interrupts_enabled s \<longleftrightarrow> k_pc s \<noteq> Main_Checking) \<and>
     (posted (k_events s) \<noteq> [] \<longrightarrow> k_request s \<or> main_queue s \<noteq> [] \<or> k_pc s = Main_Handling)"

lemma kernel_step_ok:
  assumes "kernel_step hw env s s'" and "kernel_ok s"
  shows "kernel_ok s'"
  using assms
proof (cases rule: kernel_step.cases)
  case (Post t er p)
  then have "k_events s' = xhc_post t (k_events s)" by (simp add: k_events_def)
  moreover have "event_queue_ok (xhc_post t (k_events s))"
    using xhc_post_law[of "k_events s" t] Post(2) assms(2) by (simp add: kernel_ok_def)
  ultimately show ?thesis using Post(1) assms(2) by (simp add: kernel_ok_def)
next
  case (Handle mem e c)
  obtain n pc where p: "k_producer s = (n, pc)" by fastforce
  have ok: "event_queue_ok (primary_event_ring (k_xhc s), n, pc)" using assms(2) by (simp add: kernel_ok_def k_events_def p)
  obtain y ys where y: "posted (primary_event_ring (k_xhc s), n, pc) = y # ys"
    using has_front_posted(1)[OF ok] Handle(3) by (cases "posted (primary_event_ring (k_xhc s), n, pc)") auto
  have "primary_event_ring c = pop (primary_event_ring (k_xhc s))"
    using Handle(4) process_event_first[OF ok y, of hw env mem] by (auto simp: bind_eq_Some_conv dest: handle_event_ring)
  then have "event_queue_ok (k_events s')"
    using has_front_posted(2)[OF ok y] Handle(1) by (simp add: k_events_def p)
  then show ?thesis using Handle(1,2) assms(2) by (simp add: kernel_ok_def)
next
  case (Port p ps e c)
  then have "primary_event_ring c = primary_event_ring (k_xhc s)"
    by (auto simp: configure_port_def dest: reset_port_ring split: if_split_asm)
  then show ?thesis using Port(1,2) assms(2) by (simp add: kernel_ok_def k_events_def)
next
  case Drained
  obtain n pc where p: "k_producer s = (n, pc)" by fastforce
  have "posted (k_events s) = []"
    using has_front_posted(1)[of "primary_event_ring (k_xhc s)" n pc] Drained(3) assms(2)
    by (simp add: kernel_ok_def k_events_def p)
  then show ?thesis using Drained(1,2) assms(2) by (simp add: kernel_ok_def k_events_def)
qed (auto simp: kernel_ok_def k_events_def int_handler_xhci_def)

lemma kernel_reachable_ok: "kernel_reachable hw env s0 s \<Longrightarrow> kernel_ok s0 \<Longrightarrow> kernel_ok s"
  by (induction rule: kernel_reachable.induct) (auto dest: kernel_step_ok)

text \<open>The state after the \<open>sti\<close> that follows \<open>Run\<close>, for a controller with \<open>n\<close> ports.\<close>

definition all_ports :: "u8 \<Rightarrow> u8 list" where
  "all_ports n = map of_nat [1..<Suc (unat n)]"

definition kernel_started :: "controller \<Rightarrow> lapic \<Rightarrow> u8 \<Rightarrow> kernel" where
  "kernel_started c l n = \<lparr>k_xhc = c, k_producer = (0, True), k_request = False, main_queue = [], interrupts_enabled = True,
     k_lapic = l, k_pc = Main_Ports (all_ports n)\<rparr>"

lemma kernel_started_ok: "controller_started b h c h' \<Longrightarrow> kernel_ok (kernel_started c l n)"
  by (simp add: controller_started_def kernel_ok_def kernel_started_def k_events_def)

text \<open>Claim C35.
  No event is forgotten and the queue of messages is not raced for. From the \<open>sti\<close> after the start of the controller on, in every
  interleaving of the loop over the ports and the main loop with interrupts and with the controller's posts: whenever an event is in the ring, an
  interrupt is about to be delivered, or a message is in the queue, or the main loop is handling events; the event ring stays
  well-formed; and interrupts are disabled exactly while the main loop looks at the queue, so that no step out of such
  a state adds a message.
\<close>

theorem no_event_forgotten:
  assumes "controller_started b h c h'" and "kernel_reachable hw env (kernel_started c l n) s"
  shows "event_queue_ok (k_events s) \<and>
    (posted (k_events s) \<noteq> [] \<longrightarrow> k_request s \<or> main_queue s \<noteq> [] \<or> k_pc s = Main_Handling) \<and>
    (interrupts_enabled s \<longleftrightarrow> k_pc s \<noteq> Main_Checking) \<and>
    (\<forall>s'. k_pc s = Main_Checking \<and> kernel_step hw env s s' \<longrightarrow> length (main_queue s') \<le> length (main_queue s))"
proof -
  have ok: "kernel_ok s" using kernel_reachable_ok[OF assms(2)] kernel_started_ok[OF assms(1)] by blast
  have "length (main_queue s') \<le> length (main_queue s)" if "k_pc s = Main_Checking" "kernel_step hw env s s'" for s'
    using that(2,1) ok by (cases rule: kernel_step.cases) (auto simp: kernel_ok_def)
  with ok show ?thesis by (simp add: kernel_ok_def)
qed

subsection \<open>The ports at the start\<close>

text \<open>The loop over the ports after \<open>Run\<close>; an error is logged and the loop goes on.\<close>

fun configure_ports :: "port_hw \<Rightarrow> u8 list \<Rightarrow> controller \<Rightarrow> controller option" where
  "configure_ports hw [] c = Some c"
| "configure_ports hw (p # ps) c =
     (if is_connected (portsc c p) then do {
        (_, c) \<leftarrow> configure_port hw p c;
        configure_ports hw ps c }
      else configure_ports hw ps c)"

lemma phase_of_set_phase:
  "length (port_config_phase c) = 256 \<Longrightarrow> phase_of (set_phase p ph c) q = (if q = p then ph else phase_of c q)"
  using unat_lt2p[of p] by (auto simp: phase_of_def set_phase_def nth_list_update word_unat_eq_iff)

text \<open>While a port is being addressed, the other ports that are connected have to wait.\<close>

lemma configure_ports_wait:
  assumes "addressing_port c \<noteq> 0" and "distinct ps" and "\<forall>p\<in>set ps. phase_of c p = kNotConnected"
    and "length (port_config_phase c) = 256"
  shows "\<exists>c'. configure_ports hw ps c = Some c' \<and> addressing_port c' = addressing_port c \<and>
    portsc_writes c' = portsc_writes c \<and>
    (\<forall>q. phase_of c' q = (if q \<in> set ps \<and> is_connected (portsc c q) then kWaitingAddressed else phase_of c q))"
  using assms
proof (induction ps arbitrary: c)
  case (Cons p ps)
  show ?case
  proof (cases "is_connected (portsc c p)")
    case True
    let ?c = "set_phase p kWaitingAddressed c"
    have kept: "addressing_port ?c = addressing_port c" "portsc ?c = portsc c" "length (port_config_phase ?c) = 256"
      "portsc_writes ?c = portsc_writes c"
      using Cons.prems(4) by (simp_all add: set_phase_def)
    have "\<forall>q\<in>set ps. phase_of ?c q = kNotConnected"
      using Cons.prems(2,3) by (auto simp: phase_of_set_phase[OF Cons.prems(4)])
    from Cons.IH[OF _ _ this kept(3)] Cons.prems(1,2) kept obtain c' where
      "configure_ports hw ps ?c = Some c'" "addressing_port c' = addressing_port c" "portsc_writes c' = portsc_writes c"
      "\<forall>q. phase_of c' q = (if q \<in> set ps \<and> is_connected (portsc c q) then kWaitingAddressed else phase_of ?c q)"
      by auto
    with True Cons.prems show ?thesis
      by (auto simp: configure_port_def reset_port_def phase_of_set_phase[OF Cons.prems(4)])
  next
    case False
    with Cons.IH[of c] Cons.prems show ?thesis by auto
  qed
qed simp

text \<open>The first connected port is reset.\<close>

lemma configure_ports_first:
  assumes "addressing_port c = 0" and "distinct ps" and "0 \<notin> set ps" and "\<forall>q. phase_of c q = kNotConnected"
    and "length (port_config_phase c) = 256" and "\<And>p. wait_reset (reset_reads hw p) 0 \<noteq> None"
  shows "\<exists>c'. configure_ports hw ps c = Some c' \<and>
    (case find (\<lambda>p. is_connected (portsc c p)) ps of
       None \<Rightarrow> c' = c
     | Some p \<Rightarrow> addressing_port c' = p \<and> portsc_writes c' = portsc_writes c @ [(p, reset_value (portsc c p))] \<and>
         (\<forall>q. phase_of c' q = (if q = p then kResettingPort
            else if q \<in> set ps \<and> is_connected (portsc c q) then kWaitingAddressed else kNotConnected)))"
  using assms(2,3)
proof (induction ps)
  case (Cons p ps)
  show ?case
  proof (cases "is_connected (portsc c p)")
    case True
    obtain n where n: "wait_reset (reset_reads hw p) 0 = Some n" using assms(6) by blast
    let ?c = "write_port p (reset_value (portsc c p)) (reset_reads hw p n) (set_phase p kResettingPort (c\<lparr>addressing_port := p\<rparr>))"
    have conf: "configure_port hw p c = Some (kSuccess, ?c)"
      using assms(1,4) True n
      by (simp add: configure_port_def reset_port_def port_reset_operation_def phase_of_def Let_def) (simp add: set_phase_def)
    have kept: "addressing_port ?c = p" "length (port_config_phase ?c) = 256" "\<And>q. q \<noteq> p \<Longrightarrow> portsc ?c q = portsc c q"
      "portsc_writes ?c = portsc_writes c @ [(p, reset_value (portsc c p))]"
      using assms(5) by (simp_all add: write_port_def set_phase_def)
    have phases: "phase_of ?c q = (if q = p then kResettingPort else kNotConnected)" for q
      using phase_of_set_phase[of "c\<lparr>addressing_port := p\<rparr>" p kResettingPort q] assms(4,5)
      by (simp add: write_port_def phase_of_def set_phase_def)
    have p: "p \<noteq> 0" "distinct ps" "p \<notin> set ps" using Cons.prems by auto
    have "\<forall>q\<in>set ps. phase_of ?c q = kNotConnected" using phases p(3) by auto
    from configure_ports_wait[OF _ p(2) this kept(2), of hw] p(1) kept(1) obtain c' where "configure_ports hw ps ?c = Some c'"
      "addressing_port c' = p" "portsc_writes c' = portsc_writes ?c"
      "\<forall>q. phase_of c' q = (if q \<in> set ps \<and> is_connected (portsc ?c q) then kWaitingAddressed else phase_of ?c q)" by auto
    with True conf kept(3,4) phases p(3) show ?thesis by auto
  next
    case False
    then have find_eq: "find (\<lambda>p. is_connected (portsc c p)) (p # ps) = find (\<lambda>p. is_connected (portsc c p)) ps"
      and conf_eq: "configure_ports hw (p # ps) c = configure_ports hw ps c" by simp_all
    have mem_eq: "(q \<in> set (p # ps) \<and> is_connected (portsc c q)) = (q \<in> set ps \<and> is_connected (portsc c q))" for q
      using False by auto
    show ?thesis unfolding find_eq conf_eq mem_eq by (rule Cons.IH) (use Cons.prems in auto)
  qed
qed simp

lemma all_ports_facts: "distinct (all_ports n)" "0 \<notin> set (all_ports n)" "p \<in> set (all_ports n) \<longleftrightarrow> p \<noteq> 0 \<and> p \<le> n"
proof -
  have inj: "inj_on (of_nat :: nat \<Rightarrow> u8) {..<256}"
  proof (rule inj_onI)
    fix x y assume xy: "x \<in> {..<256}" "y \<in> {..<256}" and "(of_nat x :: u8) = of_nat y"
    then have "unat (of_nat x :: u8) = unat (of_nat y :: u8)" by simp
    with xy show "x = y" by (simp add: unat_of_nat_eq)
  qed
  show "distinct (all_ports n)"
    unfolding all_ports_def distinct_map using unat_lt2p[of n] by (auto intro: inj_on_subset[OF inj])
  have mem: "p \<in> set (all_ports n) \<longleftrightarrow> p \<noteq> 0 \<and> p \<le> n" for p :: u8
  proof
    assume "p \<in> set (all_ports n)"
    then obtain i where i: "1 \<le> i" "i \<le> unat n" "p = of_nat i" by (auto simp: all_ports_def)
    then have "unat p = i" using unat_lt2p[of n] by (simp add: unat_of_nat_eq)
    with i show "p \<noteq> 0 \<and> p \<le> n" by (auto simp: word_le_nat_alt)
  next
    assume "p \<noteq> 0 \<and> p \<le> n"
    then have "0 < unat p" "unat p \<le> unat n" by (simp_all add: word_le_nat_alt unat_gt_0)
    then have "unat p \<in> {1..<Suc (unat n)}" by simp
    moreover have "p = of_nat (unat p)" by simp
    ultimately show "p \<in> set (all_ports n)" unfolding all_ports_def set_map set_upt by (intro image_eqI)
  qed
  then show "0 \<notin> set (all_ports n)" "p \<in> set (all_ports n) \<longleftrightarrow> p \<noteq> 0 \<and> p \<le> n" by simp_all
qed

text \<open>Claim C33.
  The ports at the start. If every port reset ends, the loop over the ports of a freshly initialised controller returns;
  the first port that is connected is reset and becomes the port that is being addressed, every other connected port
  waits, and the remaining ports are untouched. If no port is connected, nothing happens.
\<close>

theorem ports_at_start:
  assumes "initial_controller c" and "\<And>p. wait_reset (reset_reads hw p) 0 \<noteq> None"
  shows "\<exists>c'. configure_ports hw (all_ports n) c = Some c' \<and>
    (case find (\<lambda>p. is_connected (portsc c p)) (all_ports n) of
       None \<Rightarrow> c' = c
     | Some p \<Rightarrow> addressing_port c' = p \<and> portsc_writes c' = portsc_writes c @ [(p, reset_value (portsc c p))] \<and>
         (\<forall>q. phase_of c' q = (if q = p then kResettingPort
            else if q \<noteq> 0 \<and> q \<le> n \<and> is_connected (portsc c q) then kWaitingAddressed else kNotConnected)))"
proof -
  have "\<forall>q. phase_of c q = kNotConnected" "length (port_config_phase c) = 256" "addressing_port c = 0"
    using assms(1) port_in_table by (simp_all add: initial_controller_def phase_of_def)
  from configure_ports_first[OF this(3) all_ports_facts(1,2) this(1,2) assms(2), of n]
  show ?thesis unfolding all_ports_facts(3) conj_assoc .
qed

lemma demo_all_connected: "is_connected (portsc demo_controller p)"
  by (simp add: demo_controller_def is_connected_def bits_get_def)

theorem ports_at_start_witness:
  "\<exists>c. configure_ports demo_hw (all_ports 2) demo_controller = Some c \<and> addressing_port c = 1 \<and>
     phase_of c 1 = kResettingPort \<and> phase_of c 2 = kWaitingAddressed \<and> phase_of c 3 = kNotConnected"
proof -
  have wait: "\<And>p. wait_reset (reset_reads demo_hw p) 0 \<noteq> None" using demo_wait by simp
  have ports: "all_ports 2 = [1, 2]" by (simp add: all_ports_def upt_rec)
  have le: "\<not> (3 :: u8) \<le> 2" by (simp add: word_le_nat_alt)
  from ports_at_start[OF demo_initial wait, of 2] show ?thesis
    using le by (auto simp: ports demo_all_connected)
qed

subsection \<open>Examples\<close>

text \<open>The started controller of the example in which the controller has posted one event.\<close>

lemma controller_started_rings:
  assumes "controller_started b h c h'"
  shows "event_queue_ok (primary_event_ring c, 0, True)" and "posted (primary_event_ring c, 0, True) = []"
    and "length (devices c) = Suc (max_slots c)"
  using assms unfolding controller_started_def by simp_all

lemma demo_started:
  obtains c h where "controller_started demo_base [] c h" and "initial_controller c"
proof -
  have pool: "pool_ok (usb_pool demo_env) (alloc_ptr demo_controller)"
    using pool_limit_bounds(1)[of "0x100000"] by (simp add: pool_ok_def demo_env_def demo_controller_def)
  obtain e bufs c h where r: "initialize demo_xhc demo_base demo_env demo_controller [] = Some (e, bufs, c, h)"
    using initialize_returns[OF demo_xhc_responds demo_array_fits, of "[]"] by blast
  note e = demo_initialize_success[OF r]
  note started = initialize_success[OF r[unfolded e] pool]
  have "initial_controller c"
    using started(2) controller_started_rings(3)[OF started(1)]
    by (simp add: initial_controller_def table_def) (simp add: demo_controller_def)
  with started(1) show thesis by (rule that)
qed

lemma started_room:
  assumes "controller_started b h c h'"
  shows "length (posted (primary_event_ring c, 0, True)) < event_capacity (primary_event_ring c, 0, True)"
  using controller_started_rings(1,2)[OF assms] by (simp add: event_capacity_def event_queue_ok_def event_ring_ok_def)

definition demo_lapic :: lapic where
  "demo_lapic = \<lparr>eoi = None, lvt_timer = 0, initial_count = 0, current_count = 0, divide_config = 0\<rparr>"

theorem no_event_forgotten_witness:
  "\<exists>c h s. controller_started demo_base [] c h \<and> kernel_reachable demo_hw demo_env (kernel_started c demo_lapic 0) s \<and>
     posted (k_events s) \<noteq> [] \<and> k_pc s = Main_Checking \<and> \<not> interrupts_enabled s \<and> (k_request s \<or> main_queue s \<noteq> [])"
proof -
  obtain c h where c: "controller_started demo_base [] c h" by (rule demo_started)
  let ?s0 = "kernel_started c demo_lapic 0"
  have ev: "k_events ?s0 = (primary_event_ring c, 0, True)" by (simp add: kernel_started_def k_events_def)
  note room = started_room[OF c, folded ev]
  obtain er p where post: "xhc_post port_status_change_event_trb (k_events ?s0) = (er, p)" by (metis surj_pair)
  let ?s1 = "?s0\<lparr>k_xhc := (k_xhc ?s0)\<lparr>primary_event_ring := er\<rparr>, k_producer := p, k_request := True\<rparr>"
  let ?s1' = "?s1\<lparr>k_pc := Main_Top\<rparr>"
  let ?s2 = "?s1'\<lparr>interrupts_enabled := False, k_pc := Main_Checking\<rparr>"
  have "kernel_step demo_hw demo_env ?s0 ?s1" by (rule kernel_step.Post[OF room post])
  moreover have "kernel_step demo_hw demo_env ?s1 ?s1'"
    by (rule kernel_step.Ports_Done) (simp add: kernel_started_def all_ports_def)
  moreover have "kernel_step demo_hw demo_env ?s1' ?s2" by (rule kernel_step.Cli) simp
  ultimately have r: "kernel_reachable demo_hw demo_env ?s0 ?s2"
    by (blast intro: kernel_reachable.intros)
  have "posted (k_events ?s2) \<noteq> []"
    using xhc_post_law[OF controller_started_rings(1)[OF c, folded ev] room, of port_status_change_event_trb] post
    by (auto simp: k_events_def)
  with c r no_event_forgotten[OF c r] show ?thesis by (intro exI[of _ c] exI[of _ h] exI[of _ ?s2]) simp
qed

text \<open>An event of a type the driver does not know is taken from the ring and reported.\<close>

theorem event_pump_drains_witness:
  "\<exists>c e pc c'. posted (primary_event_ring c, e, pc) \<noteq> [] \<and> pump demo_hw demo_env (\<lambda>_ _. 0) 0 [] c = Some ([kNotImplemented], c') \<and>
     posted (primary_event_ring c', e, pc) = []"
proof -
  obtain c h where c: "controller_started demo_base [] c h" by (rule demo_started)
  obtain er e pc where post: "xhc_post enable_slot_command_trb (primary_event_ring c, 0, True) = (er, e, pc)" by (metis surj_pair)
  let ?c = "c\<lparr>primary_event_ring := er\<rparr>"
  from xhc_post_law[OF controller_started_rings(1)[OF c] started_room[OF c], of enable_slot_command_trb]
  obtain y where ok: "event_queue_ok (primary_event_ring ?c, e, pc)" and y: "posted (primary_event_ring ?c, e, pc) = [y]"
    and same: "same_request enable_slot_command_trb y"
    using controller_started_rings(2)[OF c] post by auto
  have "trb_type y = trb_type enable_slot_command_trb"
    using same unfolding trb_type_def by (intro bit_word_eqI) (auto simp: same_request_def bits_get_def bit_simps)
  then have "handle_event demo_hw demo_env mem y ?c = Some (kNotImplemented, ?c)" for mem
    by (simp add: handle_event_def enable_slot_command_trb_def trb_type_def new_trb_def set_trb3_def field_simps_bits enable_slot_command_trb_type_def
        transfer_event_trb_type_def port_status_change_event_trb_type_def command_completion_event_trb_type_def)
  then obtain c' where all: "handle_all demo_hw demo_env (\<lambda>_ _. 0) 0 [y] ?c = Some ([kNotImplemented], c')" by auto
  note drains = event_pump_drains[OF ok, of demo_hw demo_env "\<lambda>_ _. 0", unfolded y all]
  from conjunct1[OF drains] have run: "pump demo_hw demo_env (\<lambda>_ _. 0) 0 [] ?c = Some ([kNotImplemented], c')" .
  from conjunct2[OF drains] have "posted (primary_event_ring c', e, pc) = []" unfolding run by simp
  with run y show ?thesis by (intro exI[of _ ?c] exI[of _ e] exI[of _ pc] exI[of _ c']) simp
qed

end
