(* ===== verification/Kernel_Start.thy ===== *)
theory Kernel_Start
  imports Heap Memory_Init Paging Pci_Config Event_Loop Desktop_Run
begin

text \<open>
  \<open>kernel_main\<close> (\<open>src/kernel/main.cpp\<close>) from its start to the \<open>sti\<close> that lets the interrupts of the host controller in:
  the order in which it calls the initialisation of every other component, and what the result of one call is for the next.

  The messages of level \<open>Debug\<close> are left out, since the logger of level \<open>Info\<close> drops them.
\<close>

subsection \<open>What the kernel finds and what it builds\<close>

text \<open>
  What the linker, the boot loader and the hardware fix: addresses of tables and of the interrupt handler, the memory
  the memory map is in, the local APIC's identification register, the reaction of the configuration space and of the
  host controller's registers, the memory pool and object sizes of the USB driver, the font.
\<close>

record platform =
  pf_gdt_addr :: u64
  pf_tables :: table_addrs
  pf_idt_addr :: u64
  pf_int_handler_xhci :: u64
  pf_memory :: "u64 \<Rightarrow> memory_descriptor"
  pf_local_apic_id :: u32
  pf_config_write :: "u32 \<Rightarrow> u32 \<Rightarrow> (u32 \<Rightarrow> u32) \<Rightarrow> u32 \<Rightarrow> u32"
  pf_xhc :: hardware
  pf_usb :: usb_env
  pf_font :: "u8 list"

text \<open>The global state of the kernel and of the processor outside the desktop.\<close>

record machine =
  mc_segments :: segment_state
  mc_paging :: page_tables
  mc_frames :: bitmap_memory_manager
  mc_heap :: heap_state
  mc_lapic :: lapic
  mc_pci :: pci
  mc_idt :: "interrupt_descriptor list"
  mc_idtr_limit :: u16
  mc_idtr_base :: u64
  mc_usb :: controller

text \<open>
  \<open>log->panic\<close> prints a message and halts. The first panic leaves it on the text console, the second one on the console of the
  desktop.
\<close>

datatype kernel_panic = Failed_To_Allocate_Pages error_code console | Could_Not_Found_xHC main_state

subsection \<open>Messages\<close>

text \<open>\<open>%d\<close> prints a number in decimal, \<open>%s\<close> a string.\<close>

fun decimal :: "nat \<Rightarrow> u8 list" where
  "decimal n = (if n < 10 then [48 + of_nat n] else decimal (n div 10) @ [48 + of_nat (n mod 10)])"

declare decimal.simps [simp del]

definition pages_message :: "error_code \<Rightarrow> u8 list" where
  "pages_message err = ascii ''Failed to allocate pages: '' @ ascii (error_name err) @ [newline]"

definition not_found_message :: "u8 list" where
  "not_found_message = ascii ''Could not found xHC!'' @ [newline]"

definition found_message :: "pci_device \<Rightarrow> u8 list" where
  "found_message d =
     ascii ''xHC has been found: '' @ decimal (unat (dev_bus d)) @ ascii ''.'' @ decimal (unat (dev_device d)) @
     ascii ''.'' @ decimal (unat (dev_function d)) @ [newline]"

definition starting_message :: "u8 list" where
  "starting_message = ascii ''xHC starting'' @ [newline]"

subsection \<open>The steps of the start\<close>

text \<open>
  The text console, which draws on the whole screen until the desktop does, and the logger, which has the level \<open>Info\<close> and
  this console for now.
\<close>

definition boot_console :: "u8 list \<Rightarrow> frame_buffer \<Rightarrow> console option" where
  "boot_console font screen = set_pixel_writer font (new_console desktop_fg_color desktop_bg_color) (Some screen)"

definition boot_log :: "u8 list \<Rightarrow> log_level \<Rightarrow> u8 list \<Rightarrow> console \<Rightarrow> console option" where
  "boot_log font level formatted con =
     log_format (\<lambda>_ s con. console_put_string font con s) \<lparr>cl_console = Some (), cl_level = Log_Info\<rparr> level (Some formatted) con"

definition set_up_memory :: "platform \<Rightarrow> memory_map \<Rightarrow> machine \<Rightarrow> (error_code \<times> machine) option" where
  "set_up_memory P memory_map m =
     (let m = m\<lparr>mc_segments := initialize_segmentation (pf_gdt_addr P) (mc_segments m)\<rparr>;
          m = m\<lparr>mc_paging := setup_identity_page_table (pf_tables P) (mc_paging m)\<rparr>
      in do {
        mm \<leftarrow> initialize_memory_manager (pf_memory P) memory_map new_bitmap_memory_manager;
        (err, mm, h) \<leftarrow> initialize_heap mm (mc_heap m);
        Some (err, m\<lparr>mc_frames := mm, mc_heap := h\<rparr>) })"

text \<open>The result of the scan is only logged. 33 levels are enough for every scan.\<close>

definition find_controller :: "machine \<Rightarrow> (pci_device option \<times> machine) option" where
  "find_controller m = do {
     (err, p) \<leftarrow> scan_all_bus 33 (mc_pci m);
     Some (map_option (\<lambda>i. pci.devices p ! i) (find_xhc_device p), m\<lparr>mc_pci := p\<rparr>) }"

definition set_up_interrupts :: "platform \<Rightarrow> pci_device \<Rightarrow> machine \<Rightarrow> machine option" where
  "set_up_interrupts P xhc_device m =
     (let m = m\<lparr>mc_idt := (mc_idt m)[interrupt_vector_xhci :=
                set_idt_entry (mc_idt m ! interrupt_vector_xhci) (make_idt_attr InterruptGate 0 True 0)
                  (pf_int_handler_xhci P) (cs (mc_segments m))]\<rparr>;
          m = m\<lparr>mc_idtr_limit := of_nat (16 * 256 - 1), mc_idtr_base := pf_idt_addr P\<rparr>;
          bsp_local_apic_id = ucast (drop_bit 24 (pf_local_apic_id P))
      in do {
        (err, p) \<leftarrow> configure_msi_fixed_destination (pf_config_write P) xhc_device bsp_local_apic_id Level Fixed
          (of_nat interrupt_vector_xhci) 0 (mc_pci m);
        Some (m\<lparr>mc_pci := p\<rparr>) })"

definition read_mmio_base :: "pci_device \<Rightarrow> machine \<Rightarrow> u64 \<times> machine" where
  "read_mmio_base xhc_device m =
     (let (xhc_bar, p) = read_bar xhc_device 0 (mc_pci m)
      in (we_value xhc_bar AND NOT 0xf, m\<lparr>mc_pci := p\<rparr>))"

text \<open>The error of \<open>Initialize\<close> is only logged: \<open>Run\<close> follows in any case.\<close>

definition start_controller ::
    "platform \<Rightarrow> u64 \<Rightarrow> machine \<Rightarrow> (usb_error \<times> xhc_base \<times> io list \<times> machine) option" where
  "start_controller P xhc_mmio_base m =
     (let (xhc, h) = new_controller (pf_xhc P) xhc_mmio_base [] in do {
        (err, bufs, c, h) \<leftarrow> initialize (pf_xhc P) xhc (pf_usb P) (mc_usb m) h;
        (e, h) \<leftarrow> run (pf_xhc P) xhc h;
        Some (err, xhc, h, m\<lparr>mc_usb := c\<rparr>) })"

text \<open>The state at the \<open>sti\<close>.\<close>

record started =
  st_machine :: machine
  st_main :: main_state
  st_device :: pci_device
  st_xhc :: xhc_base
  st_initialized :: usb_error
  st_accesses :: "io list"
  st_kernel :: kernel

text \<open>From the scan of the PCI buses on.\<close>

definition start_devices :: "platform \<Rightarrow> vec \<Rightarrow> desktop \<Rightarrow> machine \<Rightarrow> (kernel_panic + started) option" where
  "start_devices P screen_size d m = do {
     (found, m) \<leftarrow> find_controller m;
     case found of
       None \<Rightarrow> do {
         s \<leftarrow> desktop_step (pf_font P) screen_size (initial_main d) (Log Log_Panic not_found_message);
         Some (Inl (Could_Not_Found_xHC s)) }
     | Some xhc_device \<Rightarrow> do {
         s \<leftarrow> desktop_step (pf_font P) screen_size (initial_main d) (Log Log_Info (found_message xhc_device));
         m \<leftarrow> set_up_interrupts P xhc_device m;
         let (xhc_mmio_base, m) = read_mmio_base xhc_device m in do {
           (err, xhc, h, m) \<leftarrow> start_controller P xhc_mmio_base m;
           s \<leftarrow> desktop_step (pf_font P) screen_size s (Log Log_Info starting_message);
           Some (Inr \<lparr>st_machine = m, st_main = s, st_device = xhc_device, st_xhc = xhc, st_initialized = err,
             st_accesses = h, st_kernel = kernel_started (mc_usb m) (mc_lapic m) (xhc_max_ports xhc)\<rparr>) } } }"

definition kernel_main :: "platform \<Rightarrow> frame_buffer \<Rightarrow> memory_map \<Rightarrow> machine \<Rightarrow> (kernel_panic + started) option" where
  "kernel_main P screen memory_map m = do {
     con \<leftarrow> boot_console (pf_font P) screen;
     (err, m) \<leftarrow> set_up_memory P memory_map m;
     if error_bool err then do {
       con \<leftarrow> boot_log (pf_font P) Log_Panic (pages_message err) con;
       Some (Inl (Failed_To_Allocate_Pages err con)) }
     else
       let m = m\<lparr>mc_lapic := initialize_lapic_timer (mc_lapic m)\<rparr> in do {
         screen \<leftarrow> c_writer con;
         d \<leftarrow> initialize_graphics (pf_font P) screen;
         start_devices P (fb_size screen) d m } }"

subsection \<open>Memory\<close>

text \<open>
  The memory after the start, given the frames that are usable: every address below 64 GiB is mapped to itself and no other,
  the heap has 32768 of the usable frames, and the manager keeps the rest.
\<close>

definition memory_ready :: "platform \<Rightarrow> nat set \<Rightarrow> machine \<Rightarrow> bool" where
  "memory_ready P usable m \<longleftrightarrow>
     (\<forall>va. canonical va \<longrightarrow> translate (read_table (pf_tables P) (mc_paging m)) (cr3 (mc_paging m)) va =
        (if va < 0x1000000000 then Some va else None)) \<and>
     heap_ok (mc_heap m) \<and>
     (\<exists>f. {f..<f + 32768} \<subseteq> usable \<and> heap_area (mc_heap m) = frame_bytes {f..<f + 32768} \<and>
        managed_frames (mc_frames m) - allocated_frames (mc_frames m) = usable - {f..<f + 32768})"

lemma initialize_heap_free:
  assumes ok: "manager_ok mm" and b: "range_begin mm = FrameID 1"
  defines "avail \<equiv> managed_frames mm - allocated_frames mm"
  shows "(initialize_heap mm h = Some (NoEnoughMemory, mm, h) \<and> (\<nexists>f. {f..<f + 32768} \<subseteq> avail)) \<or>
    (\<exists>mm' h' f. initialize_heap mm h = Some (Success, mm', h') \<and> {f..<f + 32768} \<subseteq> avail \<and> heap_ok h' \<and>
       heap_area h' = frame_bytes {f..<f + 32768} \<and> managed_frames mm' - allocated_frames mm' = avail - {f..<f + 32768})"
proof -
  let ?A = "allocated_frames mm" and ?E = "unat (frame_num (range_end mm))"
  have spec: "refines_first_fit mm 32768 (first_fit ?A 1 ?E 32768) (allocate mm heap_frames)"
    using allocate_from_spec[OF ok, of 32768 1] by (simp add: allocate_def b heap_frames_def)
  have avail: "avail = {1..<?E} - ?A" by (simp add: avail_def managed_frames_def b)
  show ?thesis
  proof (cases "first_fit ?A 1 ?E 32768")
    case None
    have "\<not> {f..<f + 32768} \<subseteq> avail" for f
    proof
      assume sub: "{f..<f + 32768} \<subseteq> avail"
      then have "f \<in> avail" "f + 32767 \<in> avail" by auto
      then have "f \<in> set [1..<?E]" "f + 32768 \<le> ?E" by (auto simp: avail)
      with sub have "block_fits ?A ?E 32768 f" by (auto simp: block_fits_def avail)
      with \<open>f \<in> set _\<close> None show False by (simp add: first_fit_def find_None_iff)
    qed
    with spec None show ?thesis by (auto simp: refines_first_fit_def initialize_heap_def error_bool_def)
  next
    case (Some f)
    then have f: "1 \<le> f" "block_fits ?A ?E 32768 f" by (auto simp: first_fit_def find_Some_iff simp del: upt_Suc)
    have E: "?E \<le> 33554432" using ok by (simp add: manager_ok_def word_le_nat_alt)
    then have u: "unat (of_nat f :: u64) = f" using f(2) by (simp add: block_fits_def unat_of_nat_eq)
    have sub: "{f..<f + 32768} \<subseteq> avail" using f by (auto simp: block_fits_def avail)
    from spec Some obtain mm' where mm': "allocate mm heap_frames = Some (\<lparr>we_value = FrameID (of_nat f), we_error = Success\<rparr>, mm')"
        "range_begin mm' = range_begin mm" "range_end mm' = range_end mm" "allocated_frames mm' = ?A \<union> {f..<f + 32768}"
      by (auto simp: refines_first_fit_def)
    let ?h = "h\<lparr>program_break := of_nat f * 4096, program_break_end := of_nat f * 4096 + 134217728\<rparr>"
    have blk: "frame_block (FrameID (of_nat f)) 32768 = {f..<f + 32768}" by (simp add: frame_block_def u)
    have "frame_block (FrameID (of_nat f)) 32768 \<subseteq> managed_frames mm" "1 \<le> frame_num (range_begin mm)"
      using sub by (auto simp: blk avail_def b)
    note heap = heap_area_frames[OF ok this refl, of h, unfolded blk]
    have "initialize_heap mm h = Some (Success, mm', ?h)"
      using mm'(1) by (simp add: initialize_heap_def error_bool_def Let_def heap_frames_def)
    moreover have "managed_frames mm' - allocated_frames mm' = avail - {f..<f + 32768}"
      using mm'(2-4) by (auto simp: avail_def managed_frames_def)
    ultimately show ?thesis using sub heap by (intro disjI2 exI conjI)
  qed
qed

lemma set_up_memory_ok:
  assumes "map_has mmap k" and "sound_map 0 (descriptors (pf_memory P) mmap k)"
    and tables: "addrs_ok (pf_tables P)" "mc_paging m = new_page_tables c"
  defines "usable \<equiv> usable_frames (descriptors (pf_memory P) mmap k) - {0}"
  shows "(\<exists>m'. set_up_memory P mmap m = Some (NoEnoughMemory, m') \<and> (\<nexists>f. {f..<f + 32768} \<subseteq> usable)) \<or>
    (\<exists>t mm h. let m' = m\<lparr>mc_segments := initialize_segmentation (pf_gdt_addr P) (mc_segments m), mc_paging := t, mc_frames := mm, mc_heap := h\<rparr>
       in set_up_memory P mmap m = Some (Success, m') \<and> memory_ready P usable m')"
proof -
  obtain mm where mm: "initialize_memory_manager (pf_memory P) mmap new_bitmap_memory_manager = Some mm" "manager_ok mm"
      "range_begin mm = FrameID 1" "managed_frames mm - allocated_frames mm = usable"
    using initialize_usable[OF assms(1,2)] by (auto simp: usable_def)
  have map: "translate (read_table (pf_tables P) t) (cr3 t) va = (if va < 0x1000000000 then Some va else None)"
    if "canonical va" "t = setup_identity_page_table (pf_tables P) (mc_paging m)" for va t
    using identity_translation[OF tables(1) that(1), of c] that(2) by (simp add: tables(2) Let_def)
  from initialize_heap_free[OF mm(2,3), of "mc_heap m", unfolded mm(4)] show ?thesis
  proof (elim disjE exE conjE)
    assume "initialize_heap mm (mc_heap m) = Some (NoEnoughMemory, mm, mc_heap m)" "\<nexists>f. {f..<f + 32768} \<subseteq> usable"
    then show ?thesis using mm(1) by (simp add: set_up_memory_def Let_def error_bool_def)
  next
    fix mm' h f
    assume h: "initialize_heap mm (mc_heap m) = Some (Success, mm', h)" "{f..<f + 32768} \<subseteq> usable" "heap_ok h"
      "heap_area h = frame_bytes {f..<f + 32768}" "managed_frames mm' - allocated_frames mm' = usable - {f..<f + 32768}"
    show ?thesis
      by (rule disjI2, intro exI[of _ "setup_identity_page_table (pf_tables P) (mc_paging m)"] exI[of _ mm'] exI[of _ h])
        (use mm(1) h map in \<open>auto simp: set_up_memory_def Let_def error_bool_def memory_ready_def intro!: exI[of _ f]\<close>)
  qed
qed

subsection \<open>The host controller on the bus\<close>

text \<open>What the first base address register of a function says, without the low bits.\<close>

definition bar_base :: "(u32 \<Rightarrow> u32) \<Rightarrow> pci_device \<Rightarrow> u64" where
  "bar_base cfg x =
     (let bar = bar_reg cfg x 0
      in (if bit bar 2 then ucast bar OR push_bit 32 (ucast (bar_reg cfg x 1)) else ucast bar) AND NOT 0xf)"

lemma find_controller_ok:
  assumes "length (pci.devices (mc_pci m)) = 32"
  defines "cfg \<equiv> config_space (mc_pci m)"
  shows "(\<exists>m'. find_controller m = Some (None, m') \<and>
      (map_option fst (scan_all_bus 33 (mc_pci m)) = Some Full \<or> (\<forall>x\<in>reachable_entries cfg. \<not> is_xhc x))) \<or>
    (\<exists>x p. find_controller m = Some (Some x, m\<lparr>mc_pci := p\<rparr>) \<and> x \<in> reachable_entries cfg \<and> is_xhc x \<and> config_space p = cfg)"
proof -
  obtain e p where p: "scan_all_bus 33 (mc_pci m) = Some (e, p)" "scan_error e" "set (recorded p) \<subseteq> reachable_entries cfg" "config_space p = cfg"
    using scan_all_bus_result[OF assms(1)] unfolding cfg_def by blast
  show ?thesis
  proof (cases "find_xhc_device p")
    case None
    have "\<not> is_xhc x" if "e = Success" "x \<in> reachable_entries cfg" for x
    proof -
      have "x \<in> set (recorded p)" using scan_all_bus_covers[OF assms(1) order_refl p(1)[unfolded that(1)]] that(2) by (simp add: cfg_def)
      with None show ?thesis by (auto simp: find_xhc_device_spec Let_def find_None_iff in_set_conv_nth split: option.split_asm)
    qed
    then show ?thesis using None p(1,2) by (auto simp: find_controller_def scan_error_def)
  next
    case (Some i)
    then have "i < length (recorded p) \<and> is_xhc (recorded p ! i)"
      by (auto simp: find_xhc_device_spec Let_def find_Some_iff rev_nth split: option.split_asm simp del: upt_Suc)
    then have "pci.devices p ! i \<in> reachable_entries cfg" "is_xhc (pci.devices p ! i)"
      using p(3) nth_mem[of i "recorded p"] by (auto simp: recorded_def)
    then show ?thesis using Some p by (auto simp: find_controller_def)
  qed
qed

lemma read_mmio_base_eq:
  "\<exists>r. read_mmio_base x m = (bar_base (config_space (mc_pci m)) x, m\<lparr>mc_pci := (mc_pci m)\<lparr>config_reg := r\<rparr>\<rparr>)"
  by (auto simp: read_mmio_base_def read_bar_def read_conf_reg_eq calc_bar_address_def and_4_eq_0 bar_base_def bar_reg_def Let_def
      split: prod.split)

subsection \<open>Interrupts\<close>

text \<open>
  The interrupts of the controller after the start: the entry of its vector leads to the handler in the kernel's code segment, and an
  MSI capability of the function is enabled and addresses the local APIC of this processor with that vector, delivered
  fixed and by level.
\<close>

definition interrupts_ready :: "platform \<Rightarrow> (u32 \<Rightarrow> u32) \<Rightarrow> pci_device \<Rightarrow> machine \<Rightarrow> bool" where
  "interrupts_ready P cfg x m \<longleftrightarrow>
     (let entry = mc_idt m ! 0x40
      in length (mc_idt m) = 256 \<and> handler_offset entry = pf_int_handler_xhci P \<and> segment_selector entry = cs (mc_segments m) \<and>
         bits_get 8 4 (attr entry) = 14 \<and> bits_get 15 1 (attr entry) = 1) \<and>
     mc_idtr_limit m = 4095 \<and> mc_idtr_base m = pf_idt_addr P \<and>
     (\<exists>as. cap_chain cfg x (ucast (dev_reg cfg x 0x34 AND 0xff)) as \<and>
        (caps_with cfg x capability_msi as \<noteq> [] \<longrightarrow>
          (let a = last (caps_with cfg x capability_msi as); h = dev_reg cfg x a; cfg' = config_space (mc_pci m)
           in bits_get 16 1 (dev_reg cfg' x a) = 1 \<and>
              dev_reg cfg' x (a + 4) = 0xfee00000 OR push_bit 12 (ucast (ucast (drop_bit 24 (pf_local_apic_id P)) :: u8)) \<and>
              dev_reg cfg' x (a + (if bits_get 23 1 h \<noteq> 0 then 12 else 8)) = 0xc040)))"

text \<open>The registers of a function keep what is written to them, and its capabilities are in the device specific part.\<close>

definition plain_function :: "platform \<Rightarrow> (u32 \<Rightarrow> u32) \<Rightarrow> pci_device \<Rightarrow> bool" where
  "plain_function P cfg x \<longleftrightarrow> plain_registers (pf_config_write P) x \<and>
     (\<exists>as. cap_chain cfg x (ucast (dev_reg cfg x 0x34 AND 0xff)) as \<and> (\<forall>a\<in>set as. 0x40 \<le> a \<and> a \<le> 0xf0))"

lemma low_register:
  fixes a r k :: u8
  assumes "0x40 \<le> a" and "a \<le> 0xf0" and "r \<le> 0x14" and "k \<le> 12"
  shows "\<not> same_reg r (a + k)"
proof
  assume "same_reg r (a + k)"
  then have "unat (r AND 0xfc) = unat ((a + k) AND 0xfc)" by (simp add: same_reg_def)
  moreover have "unat (a + k) = unat a + unat k" using assms by (intro unat_plus_eq) (simp add: word_le_nat_alt)
  ultimately show False using assms by (simp add: unat_and_fc word_le_nat_alt)
qed

lemma set_up_interrupts_ok:
  assumes x: "plain_function P (config_space (mc_pci m)) x" and idt: "length (mc_idt m) = 256"
  shows "\<exists>i p. let m' = m\<lparr>mc_idt := i, mc_idtr_limit := 4095, mc_idtr_base := pf_idt_addr P, mc_pci := p\<rparr>
    in set_up_interrupts P x m = Some m' \<and> interrupts_ready P (config_space (mc_pci m)) x m' \<and>
       bar_base (config_space p) x = bar_base (config_space (mc_pci m)) x"
proof -
  let ?cfg = "config_space (mc_pci m)" and ?apic = "ucast (drop_bit 24 (pf_local_apic_id P)) :: u8"
  let ?i = "(mc_idt m)[interrupt_vector_xhci := set_idt_entry (mc_idt m ! interrupt_vector_xhci) (make_idt_attr InterruptGate 0 True 0)
    (pf_int_handler_xhci P) (cs (mc_segments m))]"
  obtain as where plain: "plain_registers (pf_config_write P) x" and
    as: "cap_chain ?cfg x (ucast (dev_reg ?cfg x 0x34 AND 0xff)) as" "\<forall>a\<in>set as. 0x40 \<le> a \<and> a \<le> 0xf0"
    using x by (auto simp: plain_function_def)
  let ?msi = "caps_with ?cfg x capability_msi as"
  let ?a = "last ?msi" and ?h = "dev_reg ?cfg x (last ?msi)"
  let ?d = "if bits_get 23 1 ?h \<noteq> 0 then 12 else 8 :: u8"
  note msi = msi_fixed_destination[OF plain as(1), where apic_id = ?apic and trigger = Level and mode = Fixed and vector = "0x40" and n = 0,
      unfolded Let_def]
  from msi obtain e p where run: "configure_msi_fixed_destination (pf_config_write P) x ?apic Level Fixed 0x40 0 (mc_pci m) = Some (e, p)"
    and res: "if ?msi = [] then e = (if caps_with ?cfg x capability_msix as = [] then NoPCIMSI else NotImplemented) \<and> config_space p = ?cfg
      else e = Success \<and> (\<forall>r. dev_reg (config_space p) x r =
        (if same_reg r ?a then bits_set 16 1 1 (bits_set 20 3 (min (bits_get 17 3 ?h) 0) ?h)
         else if same_reg r (?a + 4) then 0xfee00000 OR push_bit 12 (ucast ?apic)
         else if same_reg r (?a + ?d) then push_bit 8 (delivery_mode_num Fixed) OR ucast (0x40 :: u8) OR (if Level = Level then 0xc000 else 0)
         else dev_reg ?cfg x r))"
    by (elim exE conjE) (rule that)
  have none: "config_space p = ?cfg" if "?msi = []" using res that by simp
  have regs: "dev_reg (config_space p) x r =
      (if same_reg r ?a then bits_set 16 1 1 (bits_set 20 3 (min (bits_get 17 3 ?h) 0) ?h)
       else if same_reg r (?a + 4) then 0xfee00000 OR push_bit 12 (ucast ?apic)
       else if same_reg r (?a + ?d) then 0xc040 else dev_reg ?cfg x r)" if "?msi \<noteq> []" for r
    using conjunct2[OF res[unfolded if_not_P[OF that]], rule_format, of r] by (simp only: delivery_mode_num.simps refl if_True) simp
  have low: "dev_reg (config_space p) x r = dev_reg ?cfg x r" if "r \<le> 0x14" for r
  proof (cases "?msi = []")
    case False
    then have "?a \<in> set ?msi" by (rule last_in_set)
    then have "0x40 \<le> ?a" "?a \<le> 0xf0" using as(2) by (auto simp: caps_with_def)
    note nr = low_register[OF this that]
    show ?thesis using regs[OF False, of r] nr[of 0] nr[of 4] nr[of ?d] by simp
  qed (simp add: none)
  have "bar_reg (config_space p) x 0 = bar_reg ?cfg x 0" "bar_reg (config_space p) x 1 = bar_reg ?cfg x 1"
    unfolding bar_reg_def by (rule low, simp)+
  then have "bar_base (config_space p) x = bar_base ?cfg x" by (simp only: bar_base_def)
  moreover have "set_up_interrupts P x m = Some (m\<lparr>mc_idt := ?i, mc_idtr_limit := 4095, mc_idtr_base := pf_idt_addr P, mc_pci := p\<rparr>)"
    using run by (simp add: set_up_interrupts_def Let_def interrupt_vector_xhci_def)
  moreover have "interrupts_ready P ?cfg x (m\<lparr>mc_idt := ?i, mc_idtr_limit := 4095, mc_idtr_base := pf_idt_addr P, mc_pci := p\<rparr>)"
    unfolding interrupts_ready_def
    using idt as(1) regs idt_entry_roundtrip[of "mc_idt m ! 0x40" InterruptGate 0 True 0 "pf_int_handler_xhci P" "cs (mc_segments m)"]
    by (auto simp: Let_def interrupt_vector_xhci_def field_simps_bits)
  ultimately show ?thesis by (intro exI[of _ ?i] exI[of _ p]) (simp add: Let_def)
qed

subsection \<open>Messages fit their buffers\<close>

lemma decimal_digits: "0 \<notin> set (decimal n)"
proof (induction n rule: decimal.induct)
  case (1 n)
  have digit: "(48 :: u8) + of_nat k \<noteq> 0" if "k < 10" for k
  proof
    assume "(48 :: u8) + of_nat k = 0"
    then have "unat ((48 :: u8) + of_nat k) = 0" by simp
    moreover have "unat ((48 :: u8) + of_nat k) = 48 + k" using that by (simp add: unat_of_nat_eq unat_plus_eq)
    ultimately show False by simp
  qed
  show ?case using 1 digit[of n] digit[of "n mod 10"] by (subst decimal.simps) (auto simp: eq_commute[of 0])
qed

lemma decimal_length: "n < 1000 \<Longrightarrow> length (decimal n) \<le> 3"
  by (simp add: decimal.simps[of n] decimal.simps[of "n div 10"] decimal.simps[of "n div 100"] div_mult2_eq[symmetric])

lemma char_buffer_whole: "0 \<notin> set s \<Longrightarrow> length s < 1024 \<Longrightarrow> char_buffer 1024 s = s"
  by (auto simp: char_buffer_def)

lemma start_messages:
  "char_buffer 1024 (found_message d) = found_message d" "char_buffer 1024 starting_message = starting_message"
  "char_buffer 1024 not_found_message = not_found_message" "char_buffer 1024 (pages_message err) = pages_message err"
proof -
  have "unat b < 1000" for b :: u8 using unat_lt2p[of b] by simp
  note len = decimal_length[OF this]
  have "length (found_message d) < 1024"
    using len[of "dev_bus d"] len[of "dev_device d"] len[of "dev_function d"] by (simp add: found_message_def ascii_def)
  moreover have "0 \<notin> set (found_message d)"
    by (simp add: found_message_def ascii_def newline_def decimal_digits)
  ultimately show "char_buffer 1024 (found_message d) = found_message d" by (rule char_buffer_whole[rotated])
  show "char_buffer 1024 starting_message = starting_message"
    by (rule char_buffer_whole) (simp_all add: starting_message_def ascii_def newline_def)
  show "char_buffer 1024 not_found_message = not_found_message"
    by (rule char_buffer_whole) (simp_all add: not_found_message_def ascii_def newline_def)
  show "char_buffer 1024 (pages_message err) = pages_message err"
    by (rule char_buffer_whole) (cases err; simp add: pages_message_def ascii_def newline_def error_name_eq)+
qed

subsection \<open>The whole start\<close>

text \<open>The static variables before the start: zeroed tables, an empty device table and a USB driver that has not been used.\<close>

definition initial_machine :: "platform \<Rightarrow> machine \<Rightarrow> bool" where
  "initial_machine P m \<longleftrightarrow> mc_paging m = new_page_tables (cr3 (mc_paging m)) \<and> length (mc_idt m) = 256 \<and>
     length (pci.devices (mc_pci m)) = 32 \<and> pool_ok (usb_pool (pf_usb P)) (alloc_ptr (mc_usb m)) \<and>
     port_config_phase (mc_usb m) = replicate 256 kNotConnected \<and> addressing_port (mc_usb m) = 0"

text \<open>A host controller that answers at the address in its base address register.\<close>

definition answering_xhc :: "platform \<Rightarrow> machine \<Rightarrow> u64 \<Rightarrow> bool" where
  "answering_xhc P m mmio \<longleftrightarrow>
     (let b = fst (new_controller (pf_xhc P) mmio [])
      in hw_responds (pf_xhc P) b \<and> scratchpad_array_fits (pf_xhc P) b (pf_usb P) (mc_usb m))"

text \<open>
  The controller \<open>b\<close> with the driver's state \<open>c\<close> after the accesses \<open>h\<close>: it was started with nothing written before, then told to run,
  and has answered that it is not halted.
\<close>

definition controller_ready :: "xhc_base \<Rightarrow> controller \<Rightarrow> io list \<Rightarrow> bool" where
  "controller_ready b c h \<longleftrightarrow> initial_controller c \<and>
     (\<exists>h0 h1 v sts. writes h0 = [] \<and> controller_started b h0 c h1 \<and> writes h = writes h1 @ [(reg_usbcmd (op_base b), v)] \<and>
        bits_get 0 1 (ucast v :: u32) = 1 \<and> hd h = Rd (reg_usbsts (op_base b)) sts \<and> \<not> host_controller_halted sts)"

lemma start_controller_ok:
  assumes x: "answering_xhc P m mmio" and pool: "pool_ok (usb_pool (pf_usb P)) (alloc_ptr (mc_usb m))"
    and fresh: "port_config_phase (mc_usb m) = replicate 256 kNotConnected" "addressing_port (mc_usb m) = 0"
  shows "\<exists>e b h c. start_controller P mmio m = Some (e, b, h, m\<lparr>mc_usb := c\<rparr>) \<and> mmio_base b = mmio \<and> (e = kSuccess \<or> e = kNoEnoughMemory) \<and>
    (e = kSuccess \<longrightarrow> controller_ready b c h)"
proof -
  obtain b h0 where b: "new_controller (pf_xhc P) mmio [] = (b, h0)" "mmio_base b = mmio" "writes h0 = []"
    by (simp add: new_controller_def io_read_def Let_def)
  then have resp: "hw_responds (pf_xhc P) b" "scratchpad_array_fits (pf_xhc P) b (pf_usb P) (mc_usb m)"
    using x by (simp_all add: answering_xhc_def Let_def)
  from initialize_and_run[OF resp pool fresh, of h0] obtain e bufs c h1 where
    i: "initialize (pf_xhc P) b (pf_usb P) (mc_usb m) h0 = Some (e, bufs, c, h1)" "e = kSuccess \<or> e = kNoEnoughMemory"
      "e = kSuccess \<Longrightarrow> controller_started b h0 c h1 \<and> initial_controller c" by blast
  obtain h2 v s where r: "run (pf_xhc P) b h1 = Some (kSuccess, h2)" "writes h2 = writes h1 @ [(reg_usbcmd (op_base b), v)]"
      "bits_get 0 1 (ucast v :: u32) = 1" "hd h2 = Rd (reg_usbsts (op_base b)) s" "\<not> host_controller_halted s"
    using run_returns[of "pf_xhc P" b h1] resp(1) by (auto simp: hw_responds_def)
  have "start_controller P mmio m = Some (e, b, h2, m\<lparr>mc_usb := c\<rparr>)"
    using b(1) i(1) r(1) by (simp add: start_controller_def)
  moreover have "controller_ready b c h2" if "e = kSuccess"
    unfolding controller_ready_def using i(3)[OF that] r(2-5) b(3) by blast
  ultimately show ?thesis using b(2) i(2) by blast
qed

lemma controller_ready_events:
  assumes "controller_ready b c h" and "kernel_reachable hw env (kernel_started c l n) k"
  shows "kernel_ok k"
  using assms kernel_reachable_ok kernel_started_ok unfolding controller_ready_def by blast

lemma start_devices_ok:
  assumes main: "main_ok (pf_font P) fmt sz text0 0 (initial_main d)"
    and m: "length (pci.devices (mc_pci m)) = 32" "length (mc_idt m) = 256" "memory_ready P usable m"
    and usb: "pool_ok (usb_pool (pf_usb P)) (alloc_ptr (mc_usb m))" "port_config_phase (mc_usb m) = replicate 256 kNotConnected"
      "addressing_port (mc_usb m) = 0"
  defines "cfg \<equiv> config_space (mc_pci m)"
  assumes xhc: "\<forall>x\<in>reachable_entries cfg. is_xhc x \<longrightarrow> plain_function P cfg x \<and> answering_xhc P m (bar_base cfg x)"
  shows "(\<exists>s. start_devices P sz d m = Some (Inl (Could_Not_Found_xHC s)) \<and> main_ok (pf_font P) fmt sz (text0 @ not_found_message) 0 s \<and>
      (map_option fst (scan_all_bus 33 (mc_pci m)) = Some Full \<or> (\<forall>x\<in>reachable_entries cfg. \<not> is_xhc x))) \<or>
    (\<exists>s. start_devices P sz d m = Some (Inr s) \<and>
       st_device s \<in> reachable_entries cfg \<and> is_xhc (st_device s) \<and> mmio_base (st_xhc s) = bar_base cfg (st_device s) \<and>
       memory_ready P usable (st_machine s) \<and> interrupts_ready P cfg (st_device s) (st_machine s) \<and>
       main_ok (pf_font P) fmt sz (text0 @ found_message (st_device s) @ starting_message) 0 (st_main s) \<and>
       (st_initialized s = kNoEnoughMemory \<or> st_initialized s = kSuccess \<and> controller_ready (st_xhc s) (mc_usb (st_machine s)) (st_accesses s) \<and>
              (\<forall>hw k. kernel_reachable hw (pf_usb P) (st_kernel s) k \<longrightarrow> kernel_ok k)))"
proof -
  from find_controller_ok[OF m(1), folded cfg_def]
  consider (none) m' where "find_controller m = Some (None, m')"
      "map_option fst (scan_all_bus 33 (mc_pci m)) = Some Full \<or> (\<forall>x\<in>reachable_entries cfg. \<not> is_xhc x)"
    | (found) x p where "find_controller m = Some (Some x, m\<lparr>mc_pci := p\<rparr>)" "x \<in> reachable_entries cfg" "is_xhc x" "config_space p = cfg"
    by blast
  then show ?thesis
  proof cases
    case none
    then show ?thesis
      using desktop_step_ok[OF main, of "Log Log_Panic not_found_message"]
      by (auto simp: start_devices_def start_messages less_eq_log_level_def)
  next
    case x: (found x p)
    let ?m2 = "m\<lparr>mc_pci := p\<rparr>"
    have hyp: "plain_function P (config_space (mc_pci ?m2)) x" "answering_xhc P m (bar_base cfg x)" "length (mc_idt ?m2) = 256"
      using xhc x(2-4) m(2) by simp_all
    from set_up_interrupts_ok[OF hyp(1,3)] obtain i q where int: "set_up_interrupts P x ?m2 = Some (?m2\<lparr>mc_idt := i, mc_idtr_limit := 4095,
        mc_idtr_base := pf_idt_addr P, mc_pci := q\<rparr>)" "interrupts_ready P cfg x (?m2\<lparr>mc_idt := i, mc_idtr_limit := 4095,
        mc_idtr_base := pf_idt_addr P, mc_pci := q\<rparr>)" "bar_base (config_space q) x = bar_base cfg x"
      using x(4) by (auto simp: Let_def)
    let ?m3 = "m\<lparr>mc_idt := i, mc_idtr_limit := 4095, mc_idtr_base := pf_idt_addr P, mc_pci := q\<rparr>"
    obtain g where bar: "read_mmio_base x ?m3 = (bar_base cfg x, ?m3\<lparr>mc_pci := q\<lparr>config_reg := g\<rparr>\<rparr>)"
      using read_mmio_base_eq[of x ?m3] int(3) by auto
    let ?m4 = "?m3\<lparr>mc_pci := q\<lparr>config_reg := g\<rparr>\<rparr>"
    have "answering_xhc P ?m4 (bar_base cfg x)" using hyp(2) by (simp add: answering_xhc_def)
    from start_controller_ok[OF this] usb obtain e b hist c where c: "start_controller P (bar_base cfg x) ?m4 = Some (e, b, hist, ?m4\<lparr>mc_usb := c\<rparr>)"
        "mmio_base b = bar_base cfg x" "e = kSuccess \<or> e = kNoEnoughMemory"
        "e = kSuccess \<longrightarrow> controller_ready b c hist" by auto
    obtain s1 where s1: "desktop_step (pf_font P) sz (initial_main d) (Log Log_Info (found_message x)) = Some s1"
        "main_ok (pf_font P) fmt sz (text0 @ found_message x) 0 s1"
      using desktop_step_ok[OF main, of "Log Log_Info (found_message x)"] by (auto simp: start_messages)
    obtain s2 where s2: "desktop_step (pf_font P) sz s1 (Log Log_Info starting_message) = Some s2"
        "main_ok (pf_font P) fmt sz (text0 @ found_message x @ starting_message) 0 s2"
      using desktop_step_ok[OF s1(2), of "Log Log_Info starting_message"] by (auto simp: start_messages)
    let ?s = "\<lparr>st_machine = ?m4\<lparr>mc_usb := c\<rparr>, st_main = s2, st_device = x, st_xhc = b, st_initialized = e, st_accesses = hist,
      st_kernel = kernel_started c (mc_lapic m) (xhc_max_ports b)\<rparr>"
    have "start_devices P sz d m = Some (Inr ?s)"
      using x(1) s1(1) int(1) bar c(1) s2(1) by (simp add: start_devices_def)
    moreover have "memory_ready P usable (st_machine ?s)" "interrupts_ready P cfg x (st_machine ?s)"
      using m(3) int(2) by (simp_all add: memory_ready_def interrupts_ready_def)
    ultimately show ?thesis
      using x(2,3) c(2-4) s2(2) controller_ready_events by (intro disjI2 exI[of _ ?s]) auto
  qed
qed

lemma boot_console_ok:
  assumes font: "font_ok font" and screen: "wf_frame_buffer screen" "640 \<le> horizontal_resolution screen" "600 \<le> vertical_resolution screen"
  shows "\<exists>con fb. boot_console font screen = Some con \<and> c_writer con = Some fb \<and> changed_within (points text_area) screen fb \<and>
    (\<exists>con'. boot_log font Log_Panic (pages_message err) con = Some con' \<and> console_shows con' (terminal_text (pages_message err)))"
proof -
  have "points text_area \<subseteq> points (buffer_rect screen)"
    using screen(2,3) by (auto simp: text_area_def points_def includes_point_def buffer_rect_def fb_size_def with_size_def rows_columns)
  from set_pixel_writer_shows[OF font screen(1) this, of "Some screen" desktop_fg_color desktop_bg_color] obtain con fb where
      con: "boot_console font screen = Some con" "console_shows con [[]]" "writer_ok con" "c_writer con = Some fb"
        "changed_within (points text_area) screen fb"
    by (auto simp: boot_console_def)
  obtain con' where "console_put_string font con (pages_message err) = Some con'" "console_shows con' (foldl terminal_put [[]] (pages_message err))"
    using console_put_string_shows[OF con(2,3) font] by blast
  then show ?thesis
    using con by (auto simp: boot_log_def log_format_def console_log_def will_be_logged_def less_eq_log_level_def start_messages terminal_text_def)
qed


subsection \<open>An example\<close>

text \<open>
  A machine with 256 MiB of memory and one xHCI controller, function 0 of device 3 on bus 0, whose registers are at
  \<open>0xc0000000\<close> and which has an MSI capability at \<open>0x50\<close>.
\<close>

definition start_config :: "u32 \<Rightarrow> u32" where
  "start_config a =
     (if a = 0x80001810 then 0xc0000000 else if a = 0x80001834 then 0x50 else if a = 0x80001850 then 0x00860005 else example_config a)"

definition start_platform :: platform where
  "start_platform = \<lparr>pf_gdt_addr = 0x110000, pf_tables = example_addrs, pf_idt_addr = 0x120000, pf_int_handler_xhci = 0x101230,
     pf_memory = (\<lambda>_. \<lparr>md_type = 7, physical_start = 0, virtual_start = 0, number_of_pages = 0x10000, attribute = 0\<rparr>),
     pf_local_apic_id = 0x01000000, pf_config_write = (\<lambda>a v c. c(a := v)), pf_xhc = demo_xhc, pf_usb = demo_env,
     pf_font = replicate 16 0\<rparr>"

definition start_machine :: machine where
  "start_machine = \<lparr>mc_segments = \<lparr>gdt = [0, 0, 0], gdtr_limit = 0, gdtr_base = 0, ds_all = 0, cs = 0, ss = 0\<rparr>,
     mc_paging = new_page_tables 0, mc_frames = new_bitmap_memory_manager, mc_heap = example_heap, mc_lapic = demo_lapic,
     mc_pci = example_pci\<lparr>config_space := start_config\<rparr>,
     mc_idt = replicate 256 \<lparr>offset_low = 0, segment_selector = 0, attr = 0, offset_middle = 0, offset_high = 0, reserved = 0\<rparr>,
     mc_idtr_limit = 0, mc_idtr_base = 0, mc_usb = demo_controller\<rparr>"

lemma start_scan:
  "map_option (\<lambda>(e, s'). (e, recorded s')) (scan_all_bus 33 (example_pci\<lparr>config_space := start_config\<rparr>)) = Some (Success, [example_xhc])"
  by code_simp

lemma start_reachable:
  "reachable_entries start_config = {example_xhc}" "map_option fst (scan_all_bus 33 (mc_pci start_machine)) = Some Success"
proof -
  let ?p = "example_pci\<lparr>config_space := start_config\<rparr>"
  obtain s' where s': "scan_all_bus 33 ?p = Some (Success, s')" "recorded s' = [example_xhc]"
    using start_scan by (cases "scan_all_bus 33 ?p") auto
  have "length (pci.devices ?p) = 32" by simp
  from scan_all_bus_covers[OF this order_refl s'(1)] s'(2) show "reachable_entries start_config = {example_xhc}" by simp
  show "map_option fst (scan_all_bus 33 (mc_pci start_machine)) = Some Success" using s'(1) by (simp add: start_machine_def)
qed

lemma start_plain: "plain_function start_platform start_config example_xhc"
proof -
  have caps: "dev_reg start_config example_xhc 0x34 = 0x50" "dev_reg start_config example_xhc 0x50 = 0x00860005" by code_simp+
  have "cap_chain start_config example_xhc 0x50 [0x50]"
  proof (rule cap_chain.step)
    have "ucast (bits_get 8 8 (dev_reg start_config example_xhc 0x50)) = (0 :: u8)"
      by (simp add: caps bits_get_def drop_bit_eq_div take_bit_eq_mod)
    then show "cap_chain start_config example_xhc (ucast (bits_get 8 8 (dev_reg start_config example_xhc 0x50))) []"
      by (simp add: cap_chain.last)
  qed simp
  then have "cap_chain start_config example_xhc (ucast (dev_reg start_config example_xhc 0x34 AND 0xff)) [0x50]" by (simp add: caps)
  moreover have "(0x40 :: u8) \<le> 0x50" "(0x50 :: u8) \<le> 0xf0" by simp_all
  ultimately show ?thesis
    unfolding plain_function_def by (auto simp: plain_registers_def start_platform_def Let_def intro!: exI[of _ "[0x50]"])
qed

lemma start_bar: "bar_base start_config example_xhc = 0xc0000000"
proof -
  have "bar_reg start_config example_xhc 0 = 0xc0000000" by code_simp
  then show ?thesis by (simp add: bar_base_def bit_iff_odd)
qed

lemma start_answers: "answering_xhc start_platform start_machine (bar_base start_config example_xhc)"
proof -
  have "fst (new_controller demo_xhc 0xc0000000 []) = demo_base"
    by (simp add: new_controller_def io_read_def demo_base_def demo_xhc_def reg_caplength_def reg_hcsparams1_def max_ports_def bits_get_def Let_def)
  then show ?thesis
    using demo_xhc_responds demo_array_fits by (simp add: start_bar answering_xhc_def start_platform_def start_machine_def)
qed


end
