(* ===== verification/Kernel_Loader.thy ===== *)
theory Kernel_Loader
  imports Memory_Manager
begin

text \<open>
  The UEFI boot loader: \<open>src/MikanLoaderPkg/LoadKernel.c\<close> and the part of \<open>Main.c\<close> that prepares
  what the kernel gets.

  \<open>memory\<close> is the physical memory, a byte for each address. The boot services of the firmware are
  code that is not in the repository: their results are parameters, in the record
  \<open>boot_services\<close>. \<open>CopyMem\<close> and \<open>SetMem\<close> are modelled by their documented effect, which for \<open>CopyMem\<close>
  is right also for overlapping areas. \<open>Halt\<close> never returns; it is the result \<open>Halted\<close>, and so is a copy loop that
  never ends.
\<close>

type_synonym memory = "u64 \<Rightarrow> u8"

subsection \<open>Reading the file format\<close>

text \<open>Little-endian numbers of \<open>k\<close> bytes.\<close>

primrec read_le :: "memory \<Rightarrow> u64 \<Rightarrow> nat \<Rightarrow> nat" where
  "read_le mem p 0 = 0"
| "read_le mem p (Suc k) = unat (mem p) + 256 * read_le mem (p + 1) k"

definition read_u16 :: "memory \<Rightarrow> u64 \<Rightarrow> u16" where "read_u16 mem p = of_nat (read_le mem p 2)"
definition read_u32 :: "memory \<Rightarrow> u64 \<Rightarrow> u32" where "read_u32 mem p = of_nat (read_le mem p 4)"
definition read_u64 :: "memory \<Rightarrow> u64 \<Rightarrow> u64" where "read_u64 mem p = of_nat (read_le mem p 8)"

text \<open>The fields of \<open>Elf64_Ehdr\<close> and \<open>Elf64_Phdr\<close> that the loader reads, at their offsets in the ELF format.\<close>

definition e_phoff :: "memory \<Rightarrow> u64 \<Rightarrow> u64" where "e_phoff mem ehdr = read_u64 mem (ehdr + 32)"
definition e_phnum :: "memory \<Rightarrow> u64 \<Rightarrow> u16" where "e_phnum mem ehdr = read_u16 mem (ehdr + 56)"

record elf64_phdr =
  p_type :: u32
  p_offset :: u64
  p_vaddr :: u64
  p_filesz :: u64
  p_memsz :: u64

definition pt_load :: u32 where
  "pt_load = 1"

definition phdr_at :: "memory \<Rightarrow> u64 \<Rightarrow> nat \<Rightarrow> elf64_phdr" where
  "phdr_at mem phdr i =
     (let p = phdr + 56 * of_nat i
      in \<lparr>p_type = read_u32 mem p, p_offset = read_u64 mem (p + 8), p_vaddr = read_u64 mem (p + 16),
          p_filesz = read_u64 mem (p + 32), p_memsz = read_u64 mem (p + 40)\<rparr>)"

subsection \<open>Loading the segments\<close>

definition load_range_step :: "elf64_phdr \<Rightarrow> u64 \<times> u64 \<Rightarrow> u64 \<times> u64" where
  "load_range_step ph = (\<lambda>(first, limit).
     if p_type ph = pt_load then (min first (p_vaddr ph), max limit (p_vaddr ph + p_memsz ph)) else (first, limit))"

definition calc_load_address_range :: "memory \<Rightarrow> u64 \<Rightarrow> u64 \<times> u64" where
  "calc_load_address_range mem ehdr =
     (let phdr = ehdr + e_phoff mem ehdr
      in fold (\<lambda>i. load_range_step (phdr_at mem phdr i)) [0..<unat (e_phnum mem ehdr)] (- 1, 0))"

definition copy_mem :: "u64 \<Rightarrow> u64 \<Rightarrow> u64 \<Rightarrow> memory \<Rightarrow> memory" where
  "copy_mem dst src n mem = (\<lambda>a. if a - dst < n then mem (src + (a - dst)) else mem a)"

definition set_mem :: "u64 \<Rightarrow> u64 \<Rightarrow> u8 \<Rightarrow> memory \<Rightarrow> memory" where
  "set_mem dst n v mem = (\<lambda>a. if a - dst < n then v else mem a)"

text \<open>
  One program header, read again after the copy: \<open>CopyMem\<close> may have written to the header itself. The number
  of bytes to clear wraps around if the file has more bytes than the segment.
\<close>

definition load_segment :: "u64 \<Rightarrow> u64 \<Rightarrow> nat \<Rightarrow> memory \<Rightarrow> memory" where
  "load_segment ehdr phdr i mem =
     (let ph = phdr_at mem phdr i
      in if p_type ph = pt_load then
           let segm_in_file = ehdr + p_offset ph;
               mem = copy_mem (p_vaddr ph) segm_in_file (p_filesz ph) mem;
               ph = phdr_at mem phdr i;
               remain_bytes = p_memsz ph - p_filesz ph
           in set_mem (p_vaddr ph + p_filesz ph) remain_bytes 0 mem
         else mem)"

text \<open>
  The loop reads each program header, and the number of them, from the memory as it is by then. It
  never ends if the segments overwrite the header in the buffer so that \<open>i\<close> wraps around for ever.
\<close>

partial_function (option) copy_loop :: "u64 \<Rightarrow> u64 \<Rightarrow> u16 \<Rightarrow> memory \<Rightarrow> memory option" where
  "copy_loop ehdr phdr i mem =
     (if i < e_phnum mem ehdr then copy_loop ehdr phdr (i + 1) (load_segment ehdr phdr (unat i) mem)
      else Some mem)"

definition copy_load_segments :: "u64 \<Rightarrow> memory \<Rightarrow> memory option" where
  "copy_load_segments ehdr mem = copy_loop ehdr (ehdr + e_phoff mem ehdr) 0 mem"

subsection \<open>The boot services\<close>

text \<open>
  The results of the firmware's services in the order of the calls. \<open>None\<close> is an error status. What a
  service writes to memory is a function on memories.
\<close>

record boot_services =
  open_kernel :: bool
  kernel_file_size :: "u64 option"
  allocate_pool :: "u64 \<Rightarrow> u64 option"
  read_file :: "u64 \<Rightarrow> u64 \<Rightarrow> (memory \<Rightarrow> memory) option"
  allocate_pages :: "u64 \<Rightarrow> u64 \<Rightarrow> bool"
  free_pool :: "u64 \<Rightarrow> (memory \<Rightarrow> memory) option"
  bs_get_memory_map :: "memory_map \<Rightarrow> (memory_map \<times> (memory \<Rightarrow> memory)) option"
  exit_boot_services :: "u64 \<Rightarrow> (memory \<Rightarrow> memory) option"

datatype load_result = Halted | Entered u64 memory_map memory

definition number_of_kernel_pages :: "u64 \<Rightarrow> u64 \<Rightarrow> u64" where
  "number_of_kernel_pages first limit = (limit - first + 0xfff) div 0x1000"

definition load_kernel_to_temp_memory :: "boot_services \<Rightarrow> u64 \<Rightarrow> memory \<Rightarrow> (u64 \<times> memory) option" where
  "load_kernel_to_temp_memory bs sz mem = do {
     buf \<leftarrow> allocate_pool bs sz;
     f \<leftarrow> read_file bs sz buf;
     Some (buf, f mem) }"

text \<open>
  \<open>GetMemoryMap\<close> of \<open>Common.c\<close>, and \<open>ExitBootServices\<close> of the loader: the memory map and then the firmware's
  service with its key.
\<close>

definition get_memory_map :: "boot_services \<Rightarrow> memory_map \<Rightarrow> (memory_map \<times> (memory \<Rightarrow> memory)) option" where
  "get_memory_map bs memmap =
     (if buffer memmap = 0 then None else bs_get_memory_map bs (memmap\<lparr>map_size := buffer_size memmap\<rparr>))"

definition loader_exit :: "boot_services \<Rightarrow> memory_map \<Rightarrow> memory \<Rightarrow> (memory_map \<times> memory) option" where
  "loader_exit bs memmap mem = do {
     (memmap, f) \<leftarrow> get_memory_map bs memmap;
     g \<leftarrow> exit_boot_services bs (map_key memmap);
     Some (memmap, g (f mem)) }"

definition new_memory_map :: "u64 \<Rightarrow> memory_map" where
  "new_memory_map memmap_buf = \<lparr>buffer_size = 4096 * 4, buffer = memmap_buf, map_size = 0, map_key = 0,
     descriptor_size = 0, descriptor_version = 0\<rparr>"

text \<open>\<open>memmap_buf\<close> is the address of the buffer for the memory map on the loader's stack.\<close>

definition load_kernel_steps :: "boot_services \<Rightarrow> u64 \<Rightarrow> memory \<Rightarrow> (u64 \<times> memory_map \<times> memory) option" where
  "load_kernel_steps bs memmap_buf mem =
     (if \<not> open_kernel bs then None
      else do {
        kernel_filesize \<leftarrow> kernel_file_size bs;
        (kernel_buffer, mem) \<leftarrow> load_kernel_to_temp_memory bs kernel_filesize mem;
        let (first, limit) = calc_load_address_range mem kernel_buffer;
            num_pages = number_of_kernel_pages first limit
        in if \<not> allocate_pages bs first num_pages then None
           else do {
             mem \<leftarrow> copy_load_segments kernel_buffer mem;
             f \<leftarrow> free_pool bs kernel_buffer;
             (memmap, mem) \<leftarrow> loader_exit bs (new_memory_map memmap_buf) (f mem);
             Some (read_u64 mem (first + 24), memmap, mem) } })"

definition load_kernel :: "boot_services \<Rightarrow> u64 \<Rightarrow> memory \<Rightarrow> load_result" where
  "load_kernel bs memmap_buf mem =
     (case load_kernel_steps bs memmap_buf mem of None \<Rightarrow> Halted | Some (entry, memmap, mem) \<Rightarrow> Entered entry memmap mem)"

subsection \<open>Areas of memory\<close>

definition area :: "u64 \<Rightarrow> u64 \<Rightarrow> u64 set" where
  "area p n = {a. a - p < n}"

lemma area_iff: "a \<in> area p n \<longleftrightarrow> a - p < n"
  by (simp add: area_def)

lemma in_area: "k < unat n \<Longrightarrow> p + of_nat k \<in> area p n"
  using unat_lt2p[of n] by (simp add: area_iff word_less_nat_alt unat_of_nat_eq)

lemma area_mono: "n \<le> k \<Longrightarrow> area p n \<subseteq> area p k"
  by (auto simp: area_def)

lemma word_between: "(n :: u64) \<le> k \<Longrightarrow> d - n < k - n \<longleftrightarrow> n \<le> d \<and> d < k"
  by (auto simp: word_less_nat_alt word_le_nat_alt unat_sub_if' intro: diff_less_mono split: if_splits)
     (use unat_lt2p[of k] in simp)+

lemma read_le_cong: "(\<And>j. j < k \<Longrightarrow> m (p + of_nat j) = m' (q + of_nat j)) \<Longrightarrow> read_le m p k = read_le m' q k"
proof (induction k arbitrary: p q)
  case (Suc k)
  have "read_le m (p + 1) k = read_le m' (q + 1) k"
    using Suc.prems by (intro Suc.IH) (metis Suc_less_eq add.assoc of_nat_Suc)
  with Suc.prems[of 0] show ?case by simp
qed simp

text \<open>Numbers inside an area on which two memories agree.\<close>

lemma read_le_area:
  assumes "\<And>a. a \<in> area e n \<Longrightarrow> m a = m' a" and "c + k \<le> unat n"
  shows "read_le m (e + of_nat c) k = read_le m' (e + of_nat c) k"
proof (rule read_le_cong)
  fix j assume "j < k"
  then have "e + of_nat (c + j) \<in> area e n" using assms(2) by (intro in_area) simp
  then show "m (e + of_nat c + of_nat j) = m' (e + of_nat c + of_nat j)" using assms(1) by (simp add: add.assoc)
qed

subsection \<open>What the loader does\<close>

definition program_headers :: "memory \<Rightarrow> u64 \<Rightarrow> elf64_phdr list" where
  "program_headers mem ehdr = map (phdr_at mem (ehdr + e_phoff mem ehdr)) [0..<unat (e_phnum mem ehdr)]"

definition load_headers :: "memory \<Rightarrow> u64 \<Rightarrow> elf64_phdr list" where
  "load_headers mem ehdr = filter (\<lambda>ph. p_type ph = pt_load) (program_headers mem ehdr)"

definition target :: "elf64_phdr \<Rightarrow> u64 set" where
  "target ph = area (p_vaddr ph) (p_memsz ph)"

text \<open>
  A loadable ELF file of \<open>n\<close> bytes at \<open>ehdr\<close>: the headers and the contents of the segments are inside it, no
  segment has more bytes in the file than in memory or wraps around the address space, the
  segments do not overlap each other and none of them overlaps the buffer.
\<close>

definition segment_ok :: "u64 \<Rightarrow> u64 \<Rightarrow> elf64_phdr \<Rightarrow> bool" where
  "segment_ok ehdr n ph \<longleftrightarrow> p_filesz ph \<le> p_memsz ph \<and> unat (p_offset ph) + unat (p_filesz ph) \<le> unat n \<and>
     unat (p_vaddr ph) + unat (p_memsz ph) < 2 ^ 64 \<and> target ph \<inter> area ehdr n = {}"

definition loadable :: "memory \<Rightarrow> u64 \<Rightarrow> u64 \<Rightarrow> bool" where
  "loadable mem ehdr n \<longleftrightarrow> 64 \<le> unat n \<and> unat (e_phoff mem ehdr) + 56 * unat (e_phnum mem ehdr) \<le> unat n \<and>
     (\<forall>ph\<in>set (load_headers mem ehdr). segment_ok ehdr n ph) \<and>
     sorted_wrt (\<lambda>x y. target x \<inter> target y = {}) (load_headers mem ehdr)"

lemma phdr_at_same:
  assumes "\<And>a. a \<in> area ehdr n \<Longrightarrow> m a = m' a" and "64 \<le> unat n"
    and "unat (e_phoff m' ehdr) + 56 * unat (e_phnum m' ehdr) \<le> unat n"
  shows "e_phnum m ehdr = e_phnum m' ehdr" and "e_phoff m ehdr = e_phoff m' ehdr"
    and "i < unat (e_phnum m' ehdr) \<Longrightarrow> phdr_at m (ehdr + e_phoff m' ehdr) i = phdr_at m' (ehdr + e_phoff m' ehdr) i"
proof -
  have same: "read_le m (ehdr + of_nat c) k = read_le m' (ehdr + of_nat c) k" if "c + k \<le> unat n" for c k
    using read_le_area[OF assms(1) that] .
  show "e_phnum m ehdr = e_phnum m' ehdr" using same[of 56 2] assms(2) by (simp add: e_phnum_def read_u16_def)
  show "e_phoff m ehdr = e_phoff m' ehdr" using same[of 32 8] assms(2) by (simp add: e_phoff_def read_u64_def)
  assume i: "i < unat (e_phnum m' ehdr)"
  have "read_le m (ehdr + e_phoff m' ehdr + 56 * of_nat i + of_nat c) k = read_le m' (ehdr + e_phoff m' ehdr + 56 * of_nat i + of_nat c) k"
    if "c + k \<le> 56" for c k
    using same[of "unat (e_phoff m' ehdr) + 56 * i + c" k] assms(3) that i by (simp add: algebra_simps)
  from this[of 0 4] this[of 8 8] this[of 16 8] this[of 32 8] this[of 40 8]
  show "phdr_at m (ehdr + e_phoff m' ehdr) i = phdr_at m' (ehdr + e_phoff m' ehdr) i"
    by (simp add: phdr_at_def Let_def read_u32_def read_u64_def)
qed

text \<open>The contents of the memory after one segment, for a header that stays as it was read.\<close>

definition place :: "memory \<Rightarrow> u64 \<Rightarrow> elf64_phdr \<Rightarrow> memory \<Rightarrow> memory" where
  "place file ehdr ph mem = (\<lambda>a. if p_type ph = pt_load \<and> a \<in> target ph then
     if a \<in> area (p_vaddr ph) (p_filesz ph) then file (ehdr + p_offset ph + (a - p_vaddr ph)) else 0
   else mem a)"

lemma source_in_area:
  assumes "d < p_filesz ph" and "unat (p_offset ph) + unat (p_filesz ph) \<le> unat n"
  shows "ehdr + p_offset ph + d \<in> area ehdr n"
  using in_area[of "unat (p_offset ph) + unat d" n ehdr] assms by (simp add: word_less_nat_alt add.assoc)

lemma load_segment_place:
  assumes same: "\<And>a. a \<in> area ehdr n \<Longrightarrow> mem a = file a"
    and bounds: "64 \<le> unat n" "unat (e_phoff file ehdr) + 56 * unat (e_phnum file ehdr) \<le> unat n"
    and i: "i < unat (e_phnum file ehdr)"
    and ph: "ph = phdr_at file (ehdr + e_phoff file ehdr) i" and ok: "p_type ph = pt_load \<Longrightarrow> segment_ok ehdr n ph"
  shows "load_segment ehdr (ehdr + e_phoff file ehdr) i mem = place file ehdr ph mem"
proof -
  have read: "phdr_at mem (ehdr + e_phoff file ehdr) i = ph"
    by (rule trans[OF phdr_at_same(3)[OF same bounds i] ph[symmetric]])
  show ?thesis
  proof (cases "p_type ph = pt_load")
    case True
    note ok = ok[OF True, unfolded segment_ok_def]
    let ?mem = "copy_mem (p_vaddr ph) (ehdr + p_offset ph) (p_filesz ph) mem"
    have "?mem a = file a" if "a \<in> area ehdr n" for a
    proof -
      have "a \<notin> area (p_vaddr ph) (p_filesz ph)"
        using that ok area_mono[of "p_filesz ph" "p_memsz ph" "p_vaddr ph"] by (auto simp: target_def)
      with same[OF that] show ?thesis by (simp add: copy_mem_def area_iff)
    qed
    then have again: "phdr_at ?mem (ehdr + e_phoff file ehdr) i = ph"
      by (intro trans[OF phdr_at_same(3)[OF _ bounds i] ph[symmetric]])
    show ?thesis
    proof (rule ext)
      fix a
      let ?d = "a - p_vaddr ph"
      have sub: "a - (p_vaddr ph + p_filesz ph) = ?d - p_filesz ph" by simp
      have source: "mem (ehdr + p_offset ph + ?d) = file (ehdr + p_offset ph + ?d)" if "?d < p_filesz ph"
        by (rule same[OF source_in_area[OF that]]) (use ok in blast)
      have "load_segment ehdr (ehdr + e_phoff file ehdr) i mem a =
        (if ?d - p_filesz ph < p_memsz ph - p_filesz ph then 0
         else if ?d < p_filesz ph then mem (ehdr + p_offset ph + ?d) else mem a)"
        unfolding load_segment_def Let_def read again using True by (simp add: set_mem_def copy_mem_def sub)
      also have "\<dots> = place file ehdr ph mem a"
        unfolding word_between[OF conjunct1[OF ok]] place_def target_def area_iff
        using True source conjunct1[OF ok] by (auto simp: not_less)
      finally show "load_segment ehdr (ehdr + e_phoff file ehdr) i mem a = place file ehdr ph mem a" .
    qed
  next
    case False
    then show ?thesis by (simp add: load_segment_def Let_def read place_def fun_eq_iff)
  qed
qed

lemma place_outside: "p_type ph = pt_load \<Longrightarrow> a \<notin> target ph \<Longrightarrow> place file ehdr ph mem a = mem a"
  "p_type ph \<noteq> pt_load \<Longrightarrow> place file ehdr ph mem a = mem a"
  by (simp_all add: place_def)

lemma fold_place_outside:
  "(\<And>ph. ph \<in> set phs \<Longrightarrow> p_type ph = pt_load \<Longrightarrow> a \<notin> target ph) \<Longrightarrow> fold (place file ehdr) phs mem a = mem a"
  by (induction phs arbitrary: mem) (auto simp: place_def)

text \<open>The loop is the fold of \<open>place\<close> over the program headers as they are in the file.\<close>

lemma copy_loop_fold:
  assumes same: "\<And>a. a \<in> area ehdr n \<Longrightarrow> mem a = file a"
    and bounds: "64 \<le> unat n" "unat (e_phoff file ehdr) + 56 * unat (e_phnum file ehdr) \<le> unat n"
    and i: "i \<le> unat (e_phnum file ehdr)"
    and ok: "\<And>ph. ph \<in> set (load_headers file ehdr) \<Longrightarrow> segment_ok ehdr n ph"
  shows "copy_loop ehdr (ehdr + e_phoff file ehdr) (of_nat i) mem =
    Some (fold (place file ehdr) (drop i (program_headers file ehdr)) mem)"
  using same i
proof (induction "unat (e_phnum file ehdr) - i" arbitrary: i mem)
  case 0
  then show ?case
    using phdr_at_same(1)[OF 0(2) bounds] by (subst copy_loop.simps) (simp add: program_headers_def)
next
  case (Suc k)
  let ?phdr = "ehdr + e_phoff file ehdr" and ?ph = "phdr_at file (ehdr + e_phoff file ehdr) i"
  have i: "i < unat (e_phnum file ehdr)" using Suc.hyps(2) by simp
  then have unat_i: "unat (of_nat i :: u16) = i" using unat_lt2p[of "e_phnum file ehdr"] by (simp add: unat_of_nat_eq)
  have head: "drop i (program_headers file ehdr) = ?ph # drop (Suc i) (program_headers file ehdr)"
    unfolding program_headers_def drop_map drop_upt using upt_conv_Cons[OF i] by simp
  have mem_ph: "segment_ok ehdr n ?ph" if "p_type ?ph = pt_load"
    using that i by (intro ok) (auto simp: load_headers_def program_headers_def)
  have step: "load_segment ehdr ?phdr i mem = place file ehdr ?ph mem"
    by (rule load_segment_place[OF Suc.prems(1) bounds i refl mem_ph])
  have kept: "place file ehdr ?ph mem a = file a" if "a \<in> area ehdr n" for a
    using that mem_ph Suc.prems(1) by (auto simp: place_def segment_ok_def)
  have "(of_nat i :: u16) < e_phnum mem ehdr"
    using i unat_i phdr_at_same(1)[OF Suc.prems(1) bounds] by (simp add: word_less_nat_alt)
  then have "copy_loop ehdr ?phdr (of_nat i) mem = copy_loop ehdr ?phdr (of_nat (Suc i)) (place file ehdr ?ph mem)"
    by (subst copy_loop.simps) (simp add: unat_i step add.commute)
  also have "\<dots> = Some (fold (place file ehdr) (drop (Suc i) (program_headers file ehdr)) (place file ehdr ?ph mem))"
    using Suc.hyps(2) i kept by (intro Suc.hyps(1)) auto
  finally show ?case by (simp add: head)
qed

lemma loadableD:
  assumes "loadable file ehdr n"
  shows "64 \<le> unat n" and "unat (e_phoff file ehdr) + 56 * unat (e_phnum file ehdr) \<le> unat n"
    and "\<And>ph. ph \<in> set (load_headers file ehdr) \<Longrightarrow> segment_ok ehdr n ph"
    and "sorted_wrt (\<lambda>x y. target x \<inter> target y = {}) (load_headers file ehdr)"
  using assms by (auto simp: loadable_def)

lemma copy_load_segments_fold:
  assumes "loadable mem ehdr n"
  shows "copy_load_segments ehdr mem = Some (fold (place mem ehdr) (program_headers mem ehdr) mem)"
  using copy_loop_fold[OF refl loadableD(1-2)[OF assms] le0 loadableD(3)[OF assms]] by (simp add: copy_load_segments_def)

lemma fold_place_load:
  "fold (place file ehdr) phs mem = fold (place file ehdr) (filter (\<lambda>ph. p_type ph = pt_load) phs) mem"
proof (induction phs arbitrary: mem)
  case (Cons ph phs)
  have "place file ehdr ph mem = mem" if "p_type ph \<noteq> pt_load" using that by (simp add: place_def)
  with Cons.IH show ?case by simp
qed simp

text \<open>Disjoint segments do not disturb each other.\<close>

lemma fold_place_inside:
  assumes "sorted_wrt (\<lambda>x y. target x \<inter> target y = {}) phs" and "\<forall>ph\<in>set phs. p_type ph = pt_load"
    and "ph \<in> set phs" and "a \<in> target ph"
  shows "fold (place file ehdr) phs mem a = place file ehdr ph mem a"
  using assms
proof (induction phs arbitrary: mem)
  case (Cons x phs)
  show ?case
  proof (cases "ph = x")
    case True
    with Cons.prems have "\<forall>y\<in>set phs. a \<notin> target y" by auto
    with True show ?thesis by (simp add: fold_place_outside)
  next
    case False
    with Cons.prems have "ph \<in> set phs" "p_type ph = pt_load" by auto
    with Cons.IH Cons.prems show ?thesis by (simp add: place_def)
  qed
qed simp

definition segment_loaded :: "memory \<Rightarrow> u64 \<Rightarrow> memory \<Rightarrow> elf64_phdr \<Rightarrow> bool" where
  "segment_loaded file ehdr mem ph \<longleftrightarrow>
     (\<forall>k. k < p_filesz ph \<longrightarrow> mem (p_vaddr ph + k) = file (ehdr + p_offset ph + k)) \<and>
     (\<forall>k. p_filesz ph \<le> k \<and> k < p_memsz ph \<longrightarrow> mem (p_vaddr ph + k) = 0)"

lemma copy_load_segments_loads:
  assumes ok: "loadable mem ehdr n"
  obtains mem' where "copy_load_segments ehdr mem = Some mem'"
    and "\<And>ph. ph \<in> set (load_headers mem ehdr) \<Longrightarrow> segment_loaded mem ehdr mem' ph"
    and "\<And>a. (\<And>ph. ph \<in> set (load_headers mem ehdr) \<Longrightarrow> a \<notin> target ph) \<Longrightarrow> mem' a = mem a"
proof
  let ?mem = "fold (place mem ehdr) (load_headers mem ehdr) mem"
  show "copy_load_segments ehdr mem = Some ?mem"
    using copy_load_segments_fold[OF ok] by (subst (asm) fold_place_load) (simp add: load_headers_def)
  show "?mem a = mem a" if "\<And>ph. ph \<in> set (load_headers mem ehdr) \<Longrightarrow> a \<notin> target ph" for a
    using that by (intro fold_place_outside) blast
  fix ph assume ph: "ph \<in> set (load_headers mem ehdr)"
  have load: "\<forall>ph\<in>set (load_headers mem ehdr). p_type ph = pt_load" by (simp add: load_headers_def)
  have le: "p_filesz ph \<le> p_memsz ph" using loadableD(3)[OF ok ph] by (simp add: segment_ok_def)
  have "?mem (p_vaddr ph + k) = (if k < p_filesz ph then mem (ehdr + p_offset ph + k) else 0)" if "k < p_memsz ph" for k
    using fold_place_inside[OF loadableD(4)[OF ok] load ph, of "p_vaddr ph + k" mem ehdr mem] that load ph
    by (simp add: target_def area_iff place_def)
  with le show "segment_loaded mem ehdr ?mem ph" by (auto simp: segment_loaded_def dest: less_le_trans)
qed

subsection \<open>The range of addresses\<close>

lemma calc_load_address_range_fold:
  "calc_load_address_range mem ehdr = fold load_range_step (load_headers mem ehdr) (- 1, 0)"
proof -
  have "fold load_range_step phs = fold load_range_step (filter (\<lambda>ph. p_type ph = pt_load) phs)" for phs
    by (induction phs) (auto simp: load_range_step_def fun_eq_iff)
  moreover have "calc_load_address_range mem ehdr = fold load_range_step (program_headers mem ehdr) (- 1, 0)"
    by (simp add: calc_load_address_range_def program_headers_def fold_map comp_def)
  ultimately show ?thesis unfolding load_headers_def by metis
qed

lemma load_range_step_load [simp]:
  "p_type ph = pt_load \<Longrightarrow> load_range_step ph (f, l) = (min f (p_vaddr ph), max l (p_vaddr ph + p_memsz ph))"
  by (simp add: load_range_step_def)

lemma load_range_fold:
  assumes "\<forall>ph\<in>set phs. p_type ph = pt_load" and "fold load_range_step phs (f0, l0) = (f, l)"
  shows "f \<le> f0 \<and> l0 \<le> l \<and> (\<forall>ph\<in>set phs. f \<le> p_vaddr ph \<and> p_vaddr ph + p_memsz ph \<le> l) \<and>
    (f = f0 \<or> f \<in> p_vaddr ` set phs)"
  using assms
proof (induction phs arbitrary: f0 l0)
  case (Cons ph phs)
  from Cons.prems have "fold load_range_step phs (min f0 (p_vaddr ph), max l0 (p_vaddr ph + p_memsz ph)) = (f, l)"
    by simp
  then have "f \<le> min f0 (p_vaddr ph) \<and> max l0 (p_vaddr ph + p_memsz ph) \<le> l \<and>
    (\<forall>ph\<in>set phs. f \<le> p_vaddr ph \<and> p_vaddr ph + p_memsz ph \<le> l) \<and>
    (f = min f0 (p_vaddr ph) \<or> f \<in> p_vaddr ` set phs)" using Cons.prems(1) by (intro Cons.IH) simp_all
  then show ?case by (auto simp: min_def split: if_splits)
qed auto

text \<open>Enough pages for the range.\<close>

lemma number_of_kernel_pages_cover:
  assumes fl: "unat f \<le> unat l" and room: "unat l + 0xfff < 2 ^ 64"
  shows "unat l - unat f \<le> unat (0x1000 * number_of_kernel_pages f l)"
proof -
  let ?bytes = "unat l - unat f + 0xfff"
  have sum: "unat (l - f + 0xfff) = ?bytes"
    using fl room by (subst unat_add_lem[THEN iffD1]) (simp_all add: unat_sub word_le_nat_alt)
  have pages: "unat (number_of_kernel_pages f l) = ?bytes div 0x1000"
    unfolding number_of_kernel_pages_def unat_div sum by simp
  have "0x1000 * (?bytes div 0x1000) \<le> ?bytes" by (rule times_div_less_eq_dividend)
  then have "0x1000 * unat (number_of_kernel_pages f l) < 2 ^ 64" unfolding pages using room by linarith
  then have "unat (0x1000 * number_of_kernel_pages f l) = 0x1000 * (?bytes div 0x1000)"
    using unat_mult_lem[of "0x1000" "number_of_kernel_pages f l"] by (simp add: pages)
  moreover have "unat l - unat f \<le> 0x1000 * (?bytes div 0x1000)" by linarith
  ultimately show ?thesis by simp
qed

text \<open>The range is that of the segments, and the pages the loader asks for hold all of them.\<close>

lemma load_range_pages:
  assumes ok: "loadable mem ehdr n" and range: "calc_load_address_range mem ehdr = (f, l)"
    and room: "unat l + 0xfff < 2 ^ 64" and ph: "ph \<in> set (load_headers mem ehdr)"
  shows "f \<le> p_vaddr ph" and "target ph \<subseteq> area f (0x1000 * number_of_kernel_pages f l)"
proof -
  have load: "\<forall>ph\<in>set (load_headers mem ehdr). p_type ph = pt_load" by (simp add: load_headers_def)
  have bounds: "f \<le> p_vaddr ph" "p_vaddr ph + p_memsz ph \<le> l"
    using load_range_fold[OF load] range ph by (auto simp: calc_load_address_range_fold)
  then show "f \<le> p_vaddr ph" by simp
  have fits: "unat (p_vaddr ph) + unat (p_memsz ph) < 2 ^ 64"
    using loadableD(3)[OF ok ph] by (simp add: segment_ok_def)
  then have sum: "unat (p_vaddr ph + p_memsz ph) = unat (p_vaddr ph) + unat (p_memsz ph)"
    by (simp add: unat_add_lem[THEN iffD1])
  have "unat f \<le> unat l" using bounds sum by (simp add: word_le_nat_alt)
  note cover = number_of_kernel_pages_cover[OF this room]
  show "target ph \<subseteq> area f (0x1000 * number_of_kernel_pages f l)"
  proof
    fix a assume "a \<in> target ph"
    then have d: "unat (a - p_vaddr ph) < unat (p_memsz ph)" by (simp add: target_def area_iff word_less_nat_alt)
    have "unat (p_vaddr ph + (a - p_vaddr ph)) = unat (p_vaddr ph) + unat (a - p_vaddr ph)"
      using d fits by (intro unat_add_lem[THEN iffD1]) simp
    then have at: "unat a = unat (p_vaddr ph) + unat (a - p_vaddr ph)" by simp
    then have "f \<le> a" using bounds by (simp add: word_le_nat_alt)
    then have "unat (a - f) = unat a - unat f" by (rule unat_sub)
    then have "unat (a - f) < unat l - unat f" using at d sum bounds by (simp add: word_le_nat_alt)
    with cover show "a \<in> area f (0x1000 * number_of_kernel_pages f l)" by (simp add: area_iff word_less_nat_alt)
  qed
qed

subsection \<open>Starting the kernel\<close>

text \<open>
  What the loader relies on: all services succeed, the file is loadable where it was read to, and the
  services after the copy write nothing to the pages of the kernel, which the loader has allocated.
\<close>

definition services_ok :: "boot_services \<Rightarrow> u64 \<Rightarrow> memory \<Rightarrow> u64 \<Rightarrow> (memory \<Rightarrow> memory) \<Rightarrow> memory_map \<Rightarrow> bool" where
  "services_ok bs memmap_buf mem kernel_buffer reading memmap \<longleftrightarrow>
     (\<exists>sz f g h. open_kernel bs \<and> kernel_file_size bs = Some sz \<and> allocate_pool bs sz = Some kernel_buffer \<and>
        read_file bs sz kernel_buffer = Some reading \<and> loadable (reading mem) kernel_buffer sz \<and>
        (case calc_load_address_range (reading mem) kernel_buffer of (first, limit) \<Rightarrow>
           allocate_pages bs first (number_of_kernel_pages first limit) \<and> unat limit + 0xfff < 2 ^ 64) \<and>
        free_pool bs kernel_buffer = Some f \<and> memmap_buf \<noteq> 0 \<and>
        bs_get_memory_map bs ((new_memory_map memmap_buf)\<lparr>map_size := 4096 * 4\<rparr>) = Some (memmap, g) \<and>
        exit_boot_services bs (map_key memmap) = Some h \<and>
        (\<forall>ph m a. ph \<in> set (load_headers (reading mem) kernel_buffer) \<and> a \<in> target ph \<longrightarrow> h (g (f m)) a = m a))"

text \<open>The lowest segment starts with the header of the file.\<close>

definition header_first :: "memory \<Rightarrow> u64 \<Rightarrow> bool" where
  "header_first file ehdr \<longleftrightarrow> (\<exists>ph\<in>set (load_headers file ehdr).
     (\<forall>x\<in>set (load_headers file ehdr). p_vaddr ph \<le> p_vaddr x) \<and> p_offset ph = 0 \<and> 32 \<le> p_filesz ph)"

lemma load_range_first:
  assumes "header_first file ehdr" and "calc_load_address_range file ehdr = (first, limit)"
  obtains ph where "ph \<in> set (load_headers file ehdr)" and "p_vaddr ph = first" and "p_offset ph = 0" and "32 \<le> p_filesz ph"
proof -
  have load: "\<forall>ph\<in>set (load_headers file ehdr). p_type ph = pt_load" by (simp add: load_headers_def)
  from assms(1) obtain ph where ph: "ph \<in> set (load_headers file ehdr)" "p_offset ph = 0" "32 \<le> p_filesz ph"
    and least: "\<forall>x\<in>set (load_headers file ehdr). p_vaddr ph \<le> p_vaddr x"
    by (auto simp: header_first_def)
  from load_range_fold[OF load assms(2)[unfolded calc_load_address_range_fold]]
  have "first \<le> p_vaddr ph" "first = - 1 \<or> first \<in> p_vaddr ` set (load_headers file ehdr)" using ph by auto
  then have "first = p_vaddr ph" using least by (auto simp: word_order.extremum_unique)
  with that ph show ?thesis by blast
qed

lemma segment_loaded_header:
  assumes "segment_loaded file ehdr mem ph" and "p_offset ph = 0" and "32 \<le> p_filesz ph"
  shows "read_u64 mem (p_vaddr ph + 24) = read_u64 file (ehdr + 24)"
proof -
  have "mem (p_vaddr ph + of_nat (24 + j)) = file (ehdr + of_nat (24 + j))" if "j < 8" for j
  proof -
    have "(of_nat (24 + j) :: u64) < p_filesz ph"
      using that assms(3) by (simp add: word_less_nat_alt word_le_nat_alt unat_of_nat_eq del: of_nat_add)
    with assms(1-2) show ?thesis by (simp add: segment_loaded_def)
  qed
  then have "read_le mem (p_vaddr ph + 24) 8 = read_le file (ehdr + 24) 8"
    by (intro read_le_cong) (simp add: add.assoc)
  then show ?thesis by (simp add: read_u64_def)
qed

lemma load_kernel_enters:
  assumes ok: "services_ok bs memmap_buf mem kernel_buffer reading memmap" and img: "file = reading mem"
    and head: "header_first file kernel_buffer"
  shows "\<exists>mem' first limit. calc_load_address_range file kernel_buffer = (first, limit) \<and>
    load_kernel bs memmap_buf mem = Entered (read_u64 file (kernel_buffer + 24)) memmap mem' \<and>
    (\<forall>ph\<in>set (load_headers file kernel_buffer). segment_loaded file kernel_buffer mem' ph \<and>
       target ph \<subseteq> area first (0x1000 * number_of_kernel_pages first limit))"
proof -
  obtain first limit where range: "calc_load_address_range file kernel_buffer = (first, limit)" by fastforce
  from ok[unfolded services_ok_def] obtain sz f g h where
    steps: "open_kernel bs" "kernel_file_size bs = Some sz" "allocate_pool bs sz = Some kernel_buffer"
      "read_file bs sz kernel_buffer = Some reading" "allocate_pages bs first (number_of_kernel_pages first limit)"
      "free_pool bs kernel_buffer = Some f" "memmap_buf \<noteq> 0"
      "bs_get_memory_map bs ((new_memory_map memmap_buf)\<lparr>map_size := 4096 * 4\<rparr>) = Some (memmap, g)"
      "exit_boot_services bs (map_key memmap) = Some h"
    and loadable: "loadable file kernel_buffer sz" and room: "unat limit + 0xfff < 2 ^ 64"
    and keeps: "\<forall>ph m a. ph \<in> set (load_headers file kernel_buffer) \<and> a \<in> target ph \<longrightarrow> h (g (f m)) a = m a"
    using range img by auto
  obtain mem1 where copy: "copy_load_segments kernel_buffer file = Some mem1"
    and loaded: "\<And>ph. ph \<in> set (load_headers file kernel_buffer) \<Longrightarrow> segment_loaded file kernel_buffer mem1 ph"
    using copy_load_segments_loads[OF loadable] by metis
  let ?mem = "h (g (f mem1))"
  have loaded': "segment_loaded file kernel_buffer ?mem ph" if ph: "ph \<in> set (load_headers file kernel_buffer)" for ph
  proof -
    have le: "p_filesz ph \<le> p_memsz ph" using loadableD(3)[OF loadable ph] by (simp add: segment_ok_def)
    have "?mem (p_vaddr ph + k) = mem1 (p_vaddr ph + k)" if "k < p_memsz ph" for k
    proof -
      have "p_vaddr ph + k \<in> target ph" using that by (simp add: target_def area_iff)
      with keeps ph show ?thesis by blast
    qed
    with loaded[OF ph] le show ?thesis by (auto simp: segment_loaded_def dest: less_le_trans)
  qed
  obtain ph where ph: "ph \<in> set (load_headers file kernel_buffer)" "p_vaddr ph = first" "p_offset ph = 0" "32 \<le> p_filesz ph"
    by (rule load_range_first[OF head range])
  have entry: "read_u64 ?mem (first + 24) = read_u64 file (kernel_buffer + 24)"
    using segment_loaded_header[OF loaded'[OF ph(1)] ph(3,4)] ph(2) by simp
  have "load_kernel_steps bs memmap_buf mem = Some (read_u64 file (kernel_buffer + 24), memmap, ?mem)"
    using steps range copy img entry
    by (simp add: load_kernel_steps_def load_kernel_to_temp_memory_def loader_exit_def get_memory_map_def new_memory_map_def)
  then show ?thesis
    using range loaded' load_range_pages(2)[OF loadable range room] by (auto simp: load_kernel_def)
qed

text \<open>Claim C38.
  When the firmware's services succeed, the file read to the buffer is loadable (its headers and
  segments are inside the file, the segments overlap neither each other nor the buffer and do not wrap) and its
  lowest segment starts with the ELF header, the loader enters the kernel at the file's entry point with the
  memory map it got from the firmware; then every loadable segment is in memory at its address, its
  bytes from the file followed by zeros, inside the pages the loader has allocated.
\<close>

theorem kernel_loaded:
  assumes "services_ok bs memmap_buf mem kernel_buffer reading memmap" and "file = reading mem"
    and "header_first file kernel_buffer"
  shows "\<exists>mem' first limit. calc_load_address_range file kernel_buffer = (first, limit) \<and>
    load_kernel bs memmap_buf mem = Entered (read_u64 file (kernel_buffer + 24)) memmap mem' \<and>
    (\<forall>ph\<in>set (load_headers file kernel_buffer). segment_loaded file kernel_buffer mem' ph \<and>
       target ph \<subseteq> area first (0x1000 * number_of_kernel_pages first limit))"
  using assms by (rule load_kernel_enters)

text \<open>A file of 120 bytes with one segment at 1 MiB, which has eight more bytes in memory.\<close>

definition demo_file :: "nat \<Rightarrow> u8" where
  "demo_file i = (if i = 24 then 0x50 else if i = 26 then 0x10 else if i = 32 then 64 else if i = 56 then 1
     else if i = 64 then 1 else if i = 82 then 0x10 else if i = 96 then 120 else if i = 104 then 128 else 0)"

definition demo_reading :: "memory \<Rightarrow> memory" where
  "demo_reading mem = (\<lambda>a. if a - 0x2000 < 120 then demo_file (unat (a - 0x2000)) else mem a)"

definition demo_memory_map :: memory_map where
  "demo_memory_map = (new_memory_map 0x8000)\<lparr>map_size := 96, map_key := 7, descriptor_size := 48\<rparr>"

definition demo_services :: boot_services where
  "demo_services = \<lparr>open_kernel = True, kernel_file_size = Some 120, allocate_pool = (\<lambda>_. Some 0x2000),
     read_file = (\<lambda>_ _. Some demo_reading), allocate_pages = (\<lambda>p n. p = 0x100000 \<and> n = 1), free_pool = (\<lambda>_. Some id),
     bs_get_memory_map = (\<lambda>_. Some (demo_memory_map, id)), exit_boot_services = (\<lambda>k. if k = 7 then Some id else None)\<rparr>"

lemma area_disjoint:
  assumes "unat p + unat n \<le> unat q" and "unat q + unat k \<le> 2 ^ 64"
  shows "area q k \<inter> area p n = {}"
proof -
  have False if a: "unat (a - q) < unat k" "unat (a - p) < unat n" for a
  proof -
    have "unat (q + (a - q)) = unat q + unat (a - q)" using a assms by (intro unat_add_lem[THEN iffD1]) simp
    moreover have "unat (p + (a - p)) = unat p + unat (a - p)" using a assms by (intro unat_add_lem[THEN iffD1]) simp
    ultimately show False using a assms by simp
  qed
  then show ?thesis by (auto simp: area_iff word_less_nat_alt)
qed

definition demo_phdr :: elf64_phdr where
  "demo_phdr = \<lparr>p_type = 1, p_offset = 0, p_vaddr = 0x100000, p_filesz = 120, p_memsz = 128\<rparr>"

lemma read_le_numeral:
  "read_le mem p (numeral k) = unat (mem p) + 256 * read_le mem (p + 1) (pred_numeral k)"
  by (simp add: numeral_eq_Suc)

lemma demo_load_headers: "load_headers (demo_reading mem) 0x2000 = [demo_phdr]"
  and demo_phnum: "e_phnum (demo_reading mem) 0x2000 = 1" and demo_phoff: "e_phoff (demo_reading mem) 0x2000 = 64"
  and demo_entry: "read_u64 (demo_reading mem) 0x2018 = 0x100050"
proof -
  note read = read_u64_def read_u32_def read_u16_def demo_reading_def demo_file_def read_le_numeral
  show num: "e_phnum (demo_reading mem) 0x2000 = 1" by (simp add: e_phnum_def read)
  show off: "e_phoff (demo_reading mem) 0x2000 = 64" by (simp add: e_phoff_def read)
  show "read_u64 (demo_reading mem) 0x2018 = 0x100050" by (simp add: read)
  have "phdr_at (demo_reading mem) 0x2040 0 = demo_phdr"
    by (simp add: phdr_at_def Let_def read demo_phdr_def)
  then show "load_headers (demo_reading mem) 0x2000 = [demo_phdr]"
    by (simp add: load_headers_def program_headers_def num off pt_load_def demo_phdr_def)
qed

lemma demo_services_ok: "services_ok demo_services 0x8000 mem 0x2000 demo_reading demo_memory_map"
proof -
  have "area 0x100000 128 \<inter> area 0x2000 120 = {}" by (rule area_disjoint) simp_all
  then have "loadable (demo_reading mem) 0x2000 120"
    by (simp add: loadable_def demo_load_headers demo_phnum demo_phoff segment_ok_def target_def demo_phdr_def)
  moreover have "calc_load_address_range (demo_reading mem) 0x2000 = (0x100000, 0x100080)"
    by (simp add: calc_load_address_range_fold demo_load_headers load_range_step_def demo_phdr_def pt_load_def)
  ultimately show ?thesis
    by (simp add: services_ok_def demo_services_def number_of_kernel_pages_def demo_memory_map_def new_memory_map_def)
qed

theorem kernel_loaded_witness:
  "\<exists>mem'. load_kernel demo_services 0x8000 (\<lambda>_. 0xff) = Entered 0x100050 demo_memory_map mem' \<and>
    segment_loaded (demo_reading (\<lambda>_. 0xff)) 0x2000 mem' demo_phdr"
proof -
  have "header_first (demo_reading (\<lambda>_. 0xff)) 0x2000"
    by (simp add: header_first_def demo_load_headers demo_phdr_def)
  from kernel_loaded[OF demo_services_ok refl this] show ?thesis
    by (auto simp: demo_load_headers demo_entry)
qed

end
