(* ===== verification/Boot_Loader.thy ===== *)
theory Boot_Loader
  imports Kernel_Loader Memory_Init
begin

text \<open>
  \<open>UefiMain\<close> of \<open>src/MikanLoaderPkg/Main.c\<close>: it saves the memory map to a file, paints the screen white and
  hands the frame buffer's description, the memory map and the processor to the kernel.

  The record \<open>firmware\<close> holds what the protocols of the firmware answer, and \<open>ascii_sprint\<close>, the library's
  formatting function. \<open>None\<close> as the result of \<open>uefi_main\<close> stands for undefined behaviour or a loop
  that never ends, \<open>Halted\<close> for the loader's endless \<open>hlt\<close>.
\<close>

subsection \<open>The memory map in a file\<close>

fun get_memory_type_unicode :: "memory_type \<Rightarrow> string" where
  "get_memory_type_unicode EfiReservedMemoryType = ''EfiReservedMemoryType''"
| "get_memory_type_unicode EfiLoaderCode = ''EfiLoaderCode''"
| "get_memory_type_unicode EfiLoaderData = ''EfiLoaderData''"
| "get_memory_type_unicode EfiBootServicesCode = ''EfiBootServicesCode''"
| "get_memory_type_unicode EfiBootServicesData = ''EfiBootServicesData''"
| "get_memory_type_unicode EfiRuntimeServicesCode = ''EfiRuntimeServicesCode''"
| "get_memory_type_unicode EfiRuntimeServicesData = ''EfiRuntimeServicesData''"
| "get_memory_type_unicode EfiConventionalMemory = ''EfiConventionalMemory''"
| "get_memory_type_unicode EfiUnusableMemory = ''EfiUnusableMemory''"
| "get_memory_type_unicode EfiACPIReclaimMemory = ''EfiACPIReclaimMemory''"
| "get_memory_type_unicode EfiACPIMemoryNVS = ''EfiACPIMemoryNVS''"
| "get_memory_type_unicode EfiMemoryMappedIO = ''EfiMemoryMappedIO''"
| "get_memory_type_unicode EfiMemoryMappedIOPortSpace = ''EfiMemoryMappedIOPortSpace''"
| "get_memory_type_unicode EfiPalCode = ''EfiPalCode''"
| "get_memory_type_unicode EfiPersistentMemory = ''EfiPersistentMemory''"
| "get_memory_type_unicode EfiMaxMemoryType = ''EfiMaxMemoryType''"
| "get_memory_type_unicode (EfiUnnamed n) = ''InvalidMemoryType''"

text \<open>The fields of \<open>EFI_MEMORY_DESCRIPTOR\<close> at their offsets, which are those of the kernel's \<open>MemoryDescriptor\<close>.\<close>

definition descriptor_at :: "memory \<Rightarrow> u64 \<Rightarrow> memory_descriptor" where
  "descriptor_at mem p = \<lparr>md_type = read_u32 mem p, physical_start = read_u64 mem (p + 8),
     virtual_start = read_u64 mem (p + 16), number_of_pages = read_u64 mem (p + 24), attribute = read_u64 mem (p + 32)\<rparr>"

text \<open>The arguments of one line: index, type, its name, first address, pages and attributes.\<close>

type_synonym line_args = "nat \<times> u32 \<times> string \<times> u64 \<times> u64 \<times> u64"

definition line_args :: "nat \<Rightarrow> memory_descriptor \<Rightarrow> line_args" where
  "line_args i desc = (i, md_type desc, get_memory_type_unicode (memory_type_of (md_type desc)),
     physical_start desc, number_of_pages desc, attribute desc AND 0xfffff)"

definition memmap_header :: string where
  "memmap_header = ''Index, Type, Type(name), PhysicalStart, NumberOfPages, Attribute'' @ [CHR 10]"

text \<open>
  \<open>write_ok k\<close> says whether the \<open>k\<close>-th write succeeds; the result is the status and what was written.
  \<open>i\<close> is the code's \<open>int\<close>, which stays far below its bound for a buffer of 16 KiB.
\<close>

partial_function (option) save_loop ::
    "(nat \<Rightarrow> bool) \<Rightarrow> (line_args \<Rightarrow> string) \<Rightarrow> memory \<Rightarrow> u64 \<Rightarrow> u64 \<Rightarrow> u64 \<Rightarrow> nat \<Rightarrow> string list \<Rightarrow> (bool \<times> string list) option" where
  "save_loop write_ok ascii_sprint mem map_end desc_size iter i written =
     (if iter < map_end then
        let buf = ascii_sprint (line_args i (descriptor_at mem iter))
        in if \<not> write_ok (Suc i) then Some (False, written)
           else save_loop write_ok ascii_sprint mem map_end desc_size (iter + desc_size) (Suc i) (written @ [buf])
      else Some (True, written))"

definition save_memory_map ::
    "(nat \<Rightarrow> bool) \<Rightarrow> (line_args \<Rightarrow> string) \<Rightarrow> memory \<Rightarrow> memory_map \<Rightarrow> (bool \<times> string list) option" where
  "save_memory_map write_ok ascii_sprint mem memmap =
     (if \<not> write_ok 0 then Some (False, [])
      else save_loop write_ok ascii_sprint mem (buffer memmap + map_size memmap) (descriptor_size memmap)
             (buffer memmap) 0 [memmap_header])"

subsection \<open>The screen\<close>

datatype efi_pixel_format =
    PixelRedGreenBlueReserved8BitPerColor | PixelBlueGreenRedReserved8BitPerColor
  | PixelBitMask | PixelBltOnly | PixelFormatMax | PixelFormatUnnamed u32

fun get_pixel_format_unicode :: "efi_pixel_format \<Rightarrow> string" where
  "get_pixel_format_unicode PixelRedGreenBlueReserved8BitPerColor = ''PixelRedGreenBlueReserved8BitPerColor''"
| "get_pixel_format_unicode PixelBlueGreenRedReserved8BitPerColor = ''PixelBlueGreenRedReserved8BitPerColor''"
| "get_pixel_format_unicode PixelBitMask = ''PixelBitMask''"
| "get_pixel_format_unicode PixelBltOnly = ''PixelBltOnly''"
| "get_pixel_format_unicode PixelFormatMax = ''PixelFormatMax''"
| "get_pixel_format_unicode (PixelFormatUnnamed n) = ''InvalidPixelFormat''"

record gop_mode =
  gop_base :: u64
  gop_size :: u64
  gop_pixels_per_scan_line :: u32
  gop_horizontal_resolution :: u32
  gop_vertical_resolution :: u32
  gop_pixel_format :: efi_pixel_format

datatype loader_pixel_format = PixelRGBResv8BitPerColor | PixelBGRResv8BitPerColor

record frame_buffer_config =
  cfg_frame_buffer :: u64
  cfg_pixels_per_scan_line :: u32
  cfg_horizontal_resolution :: u32
  cfg_vertical_resolution :: u32
  cfg_pixel_format :: loader_pixel_format

text \<open>The part of \<open>DrawPixels\<close> that writes to the frame buffer, byte by byte.\<close>

definition draw_pixels :: "gop_mode \<Rightarrow> memory \<Rightarrow> memory" where
  "draw_pixels mode mem = fold (\<lambda>i m. m(gop_base mode + of_nat i := 0xff)) [0..<unat (gop_size mode)] mem"

fun config_pixel_format :: "efi_pixel_format \<Rightarrow> loader_pixel_format option" where
  "config_pixel_format PixelRedGreenBlueReserved8BitPerColor = Some PixelRGBResv8BitPerColor"
| "config_pixel_format PixelBlueGreenRedReserved8BitPerColor = Some PixelBGRResv8BitPerColor"
| "config_pixel_format _ = None"

definition loader_config :: "gop_mode \<Rightarrow> frame_buffer_config option" where
  "loader_config mode = do {
     fmt \<leftarrow> config_pixel_format (gop_pixel_format mode);
     Some \<lparr>cfg_frame_buffer = gop_base mode, cfg_pixels_per_scan_line = gop_pixels_per_scan_line mode,
       cfg_horizontal_resolution = gop_horizontal_resolution mode, cfg_vertical_resolution = gop_vertical_resolution mode,
       cfg_pixel_format = fmt\<rparr> }"

subsection \<open>The entry point\<close>

record firmware =
  services :: boot_services
  map_buffer :: u64
  kernel_map_buffer :: u64
  loaded_image :: bool
  file_system :: bool
  volume :: bool
  open_memmap :: bool
  memmap_write :: "nat \<Rightarrow> bool"
  sprint :: "line_args \<Rightarrow> string"
  close_memmap :: bool
  gop_handles :: u64
  open_gop_protocol :: "gop_mode option"

definition open_root_dir :: "firmware \<Rightarrow> bool" where
  "open_root_dir fw \<longleftrightarrow> loaded_image fw \<and> file_system fw \<and> volume fw"

text \<open>
  \<open>LocateHandleBuffer\<close>'s status is not looked at, and \<open>gop_handles\<close> is \<open>NULL\<close> when it has failed: the first
  handle is read through a null pointer then. The inner option is the status.
\<close>

definition open_gop :: "firmware \<Rightarrow> gop_mode option option" where
  "open_gop fw = (if gop_handles fw = 0 then None else Some (open_gop_protocol fw))"

datatype boot_result = Boot_Halted "string list" | Kernel_Entered u64 frame_buffer_config memory_map memory "string list"

text \<open>The memory map's file: \<open>None\<close> inside is a status that halts the loader. A file that cannot be opened is ignored.\<close>

definition write_memmap_file :: "firmware \<Rightarrow> memory \<Rightarrow> memory_map \<Rightarrow> (bool \<times> string list) option" where
  "write_memmap_file fw mem memmap =
     (if \<not> open_memmap fw then Some (True, [])
      else do {
        (saved, written) \<leftarrow> save_memory_map (memmap_write fw) (sprint fw) mem memmap;
        Some (saved \<and> close_memmap fw, written) })"

definition uefi_main :: "firmware \<Rightarrow> memory \<Rightarrow> boot_result option" where
  "uefi_main fw mem =
     (case get_memory_map (services fw) (new_memory_map (map_buffer fw)) of
        None \<Rightarrow> Some (Boot_Halted [])
      | Some (memmap, f) \<Rightarrow>
          if \<not> open_root_dir fw then Some (Boot_Halted [])
          else do {
            (go_on, written) \<leftarrow> write_memmap_file fw (f mem) memmap;
            if \<not> go_on then Some (Boot_Halted written)
            else do {
              gop \<leftarrow> open_gop fw;
              case gop of
                None \<Rightarrow> Some (Boot_Halted written)
              | Some mode \<Rightarrow>
                  (case loader_config mode of
                     None \<Rightarrow> Some (Boot_Halted written)
                   | Some config \<Rightarrow>
                       (case load_kernel (services fw) (kernel_map_buffer fw) (draw_pixels mode (f mem)) of
                          Halted \<Rightarrow> Some (Boot_Halted written)
                        | Entered entry kernel_map mem' \<Rightarrow> Some (Kernel_Entered entry config kernel_map mem' written))) } })"

subsection \<open>What the loader leaves behind\<close>

lemma draw_pixels_at: "draw_pixels mode mem a = (if a \<in> area (gop_base mode) (gop_size mode) then 0xff else mem a)"
proof -
  have "fold (\<lambda>i m. m(p + of_nat i := v)) [0..<k] mem a = (if \<exists>i<k. a = p + of_nat i then v else mem a)" for p v k
    by (induction k) (auto simp: less_Suc_eq)
  moreover have "(\<exists>i<unat n. a = p + of_nat i) \<longleftrightarrow> a \<in> area p n" for p n :: u64
  proof
    assume "a \<in> area p n"
    then have "unat (a - p) < unat n \<and> a = p + of_nat (unat (a - p))" by (simp add: area_iff word_less_nat_alt)
    then show "\<exists>i<unat n. a = p + of_nat i" by blast
  qed (auto intro: in_area)
  ultimately show ?thesis by (simp add: draw_pixels_def)
qed

definition memmap_lines :: "(line_args \<Rightarrow> string) \<Rightarrow> nat \<Rightarrow> memory_descriptor list \<Rightarrow> string list" where
  "memmap_lines ascii_sprint i ds = map (\<lambda>(k, desc). ascii_sprint (line_args k desc)) (enumerate i ds)"

text \<open>A loop over \<open>k\<close> descriptors ends. It writes a prefix of the lines, and all of them exactly if all writes succeed.\<close>

lemma save_loop_lines:
  assumes "0 < d" and "unat iter + k * unat d < 2 ^ 64" and "unat e = unat iter + k * unat d"
  shows "\<exists>n\<le>k. save_loop write_ok ascii_sprint mem e d iter i written =
    Some (n = k, written @ take n (memmap_lines ascii_sprint i
      (map (\<lambda>j. descriptor_at mem (iter + of_nat j * d)) [0..<k]))) \<and> (n = k \<longleftrightarrow> (\<forall>j<k. write_ok (Suc (i + j))))"
  using assms(2,3)
proof (induction k arbitrary: iter i written)
  case 0
  then have "\<not> iter < e" by (simp add: word_less_nat_alt)
  then show ?case by (subst save_loop.simps) (simp add: memmap_lines_def)
next
  case (Suc k)
  let ?line = "ascii_sprint (line_args i (descriptor_at mem iter))"
  have d: "0 < unat d" using assms(1) by (simp add: word_less_nat_alt)
  then have lt: "iter < e" using Suc.prems(2) by (simp add: word_less_nat_alt)
  have "unat iter + unat d < 2 ^ LENGTH(64)" using Suc.prems(1) by simp
  then have nxt: "unat (iter + d) = unat iter + unat d" by (rule unat_plus_eq)
  have ds: "map (\<lambda>j. descriptor_at mem (iter + of_nat j * d)) [0..<Suc k] =
      descriptor_at mem iter # map (\<lambda>j. descriptor_at mem (iter + d + of_nat j * d)) [0..<k]"
    by (simp add: upt_conv_Cons map_Suc_upt[symmetric] algebra_simps del: upt_Suc)
  have step: "save_loop write_ok ascii_sprint mem e d iter i written =
     (if write_ok (Suc i) then save_loop write_ok ascii_sprint mem e d (iter + d) (Suc i) (written @ [?line])
      else Some (False, written))"
    by (subst save_loop.simps) (simp add: lt Let_def)
  have all: "(\<forall>j<Suc k. write_ok (Suc (i + j))) \<longleftrightarrow> write_ok (Suc i) \<and> (\<forall>j<k. write_ok (Suc (Suc i + j)))"
    by (auto simp: less_Suc_eq_0_disj)
  have "unat (iter + d) + k * unat d < 2 ^ 64" "unat e = unat (iter + d) + k * unat d"
    using Suc.prems nxt by simp_all
  from Suc.IH[OF this, of "Suc i" "written @ [?line]"] obtain n where "n \<le> k"
    "save_loop write_ok ascii_sprint mem e d (iter + d) (Suc i) (written @ [?line]) =
       Some (n = k, (written @ [?line]) @ take n (memmap_lines ascii_sprint (Suc i)
         (map (\<lambda>j. descriptor_at mem (iter + d + of_nat j * d)) [0..<k])))"
    "n = k \<longleftrightarrow> (\<forall>j<k. write_ok (Suc (Suc i + j)))" by blast
  then show ?case
    unfolding ds step all
    by (cases "write_ok (Suc i)") (auto simp: memmap_lines_def intro: exI[of _ "Suc n"] exI[of _ 0])
qed

lemma save_memory_map_lines:
  assumes "map_has memmap k"
  shows "\<exists>n. save_memory_map write_ok ascii_sprint mem memmap =
    Some (\<forall>j\<le>k. write_ok j,
      take n (memmap_header # memmap_lines ascii_sprint 0 (descriptors (descriptor_at mem) memmap k))) \<and>
    ((\<forall>j\<le>k. write_ok j) \<longrightarrow> n = Suc k)"
proof -
  have "unat (buffer memmap) + unat (map_size memmap) < 2 ^ LENGTH(64)" using assms(1) by (simp add: map_has_def)
  note e = unat_plus_eq[OF this]
  have all: "(\<forall>j\<le>k. write_ok j) \<longleftrightarrow> write_ok 0 \<and> (\<forall>j<k. write_ok (Suc (0 + j)))"
    using All_less_Suc2[of k write_ok] by (simp add: less_Suc_eq_le)
  show ?thesis
  proof (cases "write_ok 0")
    case True
    have "0 < descriptor_size memmap" "unat (buffer memmap) + k * unat (descriptor_size memmap) < 2 ^ 64"
      "unat (buffer memmap + map_size memmap) = unat (buffer memmap) + k * unat (descriptor_size memmap)"
      using e assms by (simp_all add: map_has_def)
    from save_loop_lines[OF this, of write_ok ascii_sprint mem 0 "[memmap_header]"]
    obtain n where "n \<le> k" "save_loop write_ok ascii_sprint mem (buffer memmap + map_size memmap) (descriptor_size memmap)
        (buffer memmap) 0 [memmap_header] =
      Some (n = k, [memmap_header] @ take n (memmap_lines ascii_sprint 0 (descriptors (descriptor_at mem) memmap k)))"
      "n = k \<longleftrightarrow> (\<forall>j<k. write_ok (Suc (0 + j)))"
      unfolding descriptors_def by blast
    with True show ?thesis
      unfolding all by (intro exI[of _ "Suc n"]) (simp add: save_memory_map_def)
  next
    case False
    then show ?thesis unfolding all by (intro exI[of _ 0]) (simp add: save_memory_map_def)
  qed
qed

text \<open>A descriptor size of 0 keeps the loader in the loop for ever.\<close>

lemma save_loop_stuck:
  assumes "iter < e" and "\<And>j. write_ok j"
  shows "save_loop write_ok ascii_sprint mem e 0 iter i written = None"
proof -
  have "\<not> (d = 0 \<and> p < e' \<and> (\<forall>j. w j))" if "save_loop w f m e' d p k out = Some r" for w f m e' d p k out r
  proof (rule save_loop.raw_induct[of "\<lambda>w f m e' d p k out r. \<not> (d = 0 \<and> p < e' \<and> (\<forall>j. w j))", OF _ that], goal_cases)
    case (1 rec w f m e' d p k out r)
    show ?case
    proof
      assume stuck: "d = 0 \<and> p < e' \<and> (\<forall>j. w j)"
      then have "rec w f m e' d p (Suc k) (out @ [f (line_args k (descriptor_at m p))]) = Some r"
        using 1(2) by (simp add: Let_def)
      from 1(1)[OF this] stuck show False by blast
    qed
  qed
  with assms show ?thesis by (cases "save_loop write_ok ascii_sprint mem e 0 iter i written") blast+
qed

lemma loader_config_Some:
  "loader_config mode = Some config \<longleftrightarrow>
    (gop_pixel_format mode = PixelRedGreenBlueReserved8BitPerColor \<and> cfg_pixel_format config = PixelRGBResv8BitPerColor \<or>
     gop_pixel_format mode = PixelBlueGreenRedReserved8BitPerColor \<and> cfg_pixel_format config = PixelBGRResv8BitPerColor) \<and>
    cfg_frame_buffer config = gop_base mode \<and> cfg_pixels_per_scan_line config = gop_pixels_per_scan_line mode \<and>
    cfg_horizontal_resolution config = gop_horizontal_resolution mode \<and>
    cfg_vertical_resolution config = gop_vertical_resolution mode"
  by (cases "gop_pixel_format mode") (auto simp: loader_config_def)

lemma load_kernel_Entered:
  assumes "load_kernel bs memmap_buf mem = Entered entry kernel_map mem'"
  shows "\<exists>f. get_memory_map bs (new_memory_map memmap_buf) = Some (kernel_map, f) \<and>
    exit_boot_services bs (map_key kernel_map) \<noteq> None"
  using assms by (auto simp: load_kernel_def load_kernel_steps_def loader_exit_def bind_eq_Some_conv Let_def
      case_prod_beta split: option.split_asm if_split_asm)

lemma uefi_main_entered:
  assumes "uefi_main fw mem = Some (Kernel_Entered entry config kernel_map mem' written)"
  obtains memmap f mode where "get_memory_map (services fw) (new_memory_map (map_buffer fw)) = Some (memmap, f)"
    and "open_root_dir fw" and "write_memmap_file fw (f mem) memmap = Some (True, written)"
    and "open_gop fw = Some (Some mode)" and "loader_config mode = Some config"
    and "load_kernel (services fw) (kernel_map_buffer fw) (draw_pixels mode (f mem)) = Entered entry kernel_map mem'"
proof -
  note run = assms[unfolded uefi_main_def]
  from run obtain memmap f where 1: "get_memory_map (services fw) (new_memory_map (map_buffer fw)) = Some (memmap, f)"
    by (auto split: option.split_asm)
  with run have 2: "open_root_dir fw" by (auto split: if_split_asm)
  from run 1 2 obtain w where 3: "write_memmap_file fw (f mem) memmap = Some (True, w)"
    by (auto simp: bind_eq_Some_conv split: if_split_asm)
  from run 1 2 3 obtain gop where gop: "open_gop fw = Some gop" by (auto simp: bind_eq_Some_conv)
  with run 1 2 3 obtain mode where 4: "open_gop fw = Some (Some mode)" by (cases gop) auto
  with run 1 2 3 obtain c where 5: "loader_config mode = Some c" by (cases "loader_config mode") auto
  with run 1 2 3 4 have "w = written" "c = config"
    "load_kernel (services fw) (kernel_map_buffer fw) (draw_pixels mode (f mem)) = Entered entry kernel_map mem'"
    by (auto split: load_result.split_asm)
  with that 1 2 3 4 5 show thesis by simp
qed

text \<open>Claim C39.
  The kernel is entered only with a description of the screen that is right and a memory map
  that is current: if the loader enters it, the graphics protocol was opened and has one of the two pixel formats the
  kernel can draw in, the configuration has this format and the mode's base address, resolution and line length, the memory
  map handed over is the one the firmware gave last, and the firmware has accepted its key. The file of
  the memory map, if it could be opened, then has the header and a line for each of the map's \<open>k\<close> descriptors.
\<close>

theorem kernel_entered_with:
  assumes "uefi_main fw mem = Some (Kernel_Entered entry config kernel_map mem' written)"
  shows "(\<exists>mode. open_gop_protocol fw = Some mode \<and>
      (gop_pixel_format mode = PixelRedGreenBlueReserved8BitPerColor \<and> cfg_pixel_format config = PixelRGBResv8BitPerColor \<or>
       gop_pixel_format mode = PixelBlueGreenRedReserved8BitPerColor \<and> cfg_pixel_format config = PixelBGRResv8BitPerColor) \<and>
      cfg_frame_buffer config = gop_base mode \<and> cfg_pixels_per_scan_line config = gop_pixels_per_scan_line mode \<and>
      cfg_horizontal_resolution config = gop_horizontal_resolution mode \<and>
      cfg_vertical_resolution config = gop_vertical_resolution mode) \<and>
    (\<exists>f. get_memory_map (services fw) (new_memory_map (kernel_map_buffer fw)) = Some (kernel_map, f)) \<and>
    exit_boot_services (services fw) (map_key kernel_map) \<noteq> None \<and>
    (\<exists>memmap f. get_memory_map (services fw) (new_memory_map (map_buffer fw)) = Some (memmap, f) \<and>
      (\<forall>k. open_memmap fw \<and> map_has memmap k \<longrightarrow>
         written = memmap_header # memmap_lines (sprint fw) 0 (descriptors (descriptor_at (f mem)) memmap k)))"
proof -
  from assms obtain memmap f mode where run:
    "get_memory_map (services fw) (new_memory_map (map_buffer fw)) = Some (memmap, f)"
    "write_memmap_file fw (f mem) memmap = Some (True, written)" "open_gop fw = Some (Some mode)" "loader_config mode = Some config"
    "load_kernel (services fw) (kernel_map_buffer fw) (draw_pixels mode (f mem)) = Entered entry kernel_map mem'"
    by (rule uefi_main_entered)
  have "written = memmap_header # memmap_lines (sprint fw) 0 (descriptors (descriptor_at (f mem)) memmap k)"
    if "open_memmap fw" "map_has memmap k" for k
    using save_memory_map_lines[OF that(2), of "memmap_write fw" "sprint fw" "f mem"] run(2) that(1)
    by (auto simp: write_memmap_file_def memmap_lines_def descriptors_def)
  with run load_kernel_Entered[OF run(5)] show ?thesis
    unfolding loader_config_Some by (auto simp: open_gop_def split: if_split_asm)
qed

definition demo_firmware :: firmware where
  "demo_firmware = \<lparr>services = demo_services, map_buffer = 0x9000, kernel_map_buffer = 0x8000, loaded_image = True,
     file_system = True, volume = True, open_memmap = False, memmap_write = (\<lambda>_. True), sprint = (\<lambda>_. []),
     close_memmap = True, gop_handles = 0x7000,
     open_gop_protocol = Some \<lparr>gop_base = 0xc0000000, gop_size = 0, gop_pixels_per_scan_line = 1024,
       gop_horizontal_resolution = 800, gop_vertical_resolution = 600,
       gop_pixel_format = PixelBlueGreenRedReserved8BitPerColor\<rparr>\<rparr>"

lemma demo_firmware_enters:
  "\<exists>mem' config. uefi_main demo_firmware (\<lambda>_. 0xff) = Some (Kernel_Entered 0x100050 config demo_memory_map mem' [])"
proof -
  have head: "header_first (demo_reading mem) 0x2000" for mem
    by (simp add: header_first_def demo_load_headers demo_phdr_def)
  obtain mem' where "load_kernel demo_services 0x8000 (\<lambda>_. 0xff) = Entered 0x100050 demo_memory_map mem'"
    using load_kernel_enters[OF demo_services_ok refl head, of "\<lambda>_. 0xff"] by (auto simp: demo_entry)
  then show ?thesis
    by (simp add: uefi_main_def demo_firmware_def get_memory_map_def new_memory_map_def open_root_dir_def write_memmap_file_def
        open_gop_def loader_config_def draw_pixels_def demo_services_def)
qed

theorem kernel_entered_with_witness:
  "\<exists>entry config mem'. uefi_main demo_firmware (\<lambda>_. 0xff) = Some (Kernel_Entered entry config demo_memory_map mem' []) \<and>
     cfg_pixel_format config = PixelBGRResv8BitPerColor \<and> cfg_pixels_per_scan_line config = 1024"
proof -
  from demo_firmware_enters obtain mem' config
    where run: "uefi_main demo_firmware (\<lambda>_. 0xff) = Some (Kernel_Entered 0x100050 config demo_memory_map mem' [])" by blast
  from kernel_entered_with[OF this] have "cfg_pixel_format config = PixelBGRResv8BitPerColor" "cfg_pixels_per_scan_line config = 1024"
    by (auto simp: demo_firmware_def)
  with run show ?thesis by blast
qed

subsection \<open>The kernel's frames\<close>

text \<open>
  The loader's pages are of type \<open>EfiLoaderData\<close>, which the kernel does not count as available. So the
  kernel's frame allocator never hands out the frames the kernel itself lies in.
\<close>

lemma sound_map_later: "sound_map lo ds \<Longrightarrow> d \<in> set ds \<Longrightarrow> lo \<le> desc_first d"
proof (induction ds arbitrary: lo)
  case (Cons x ds)
  then have "d = x \<or> desc_end x \<le> desc_first d" "lo \<le> desc_first x" "desc_first x \<le> desc_end x"
    by (auto simp: desc_end_def)
  then show ?case by auto
qed simp

lemma sound_map_disjoint:
  "sound_map lo ds \<Longrightarrow> d \<in> set ds \<Longrightarrow> e \<in> set ds \<Longrightarrow> d \<noteq> e \<Longrightarrow> desc_frames d \<inter> desc_frames e = {}"
proof (induction ds arbitrary: lo)
  case (Cons x ds)
  have apart: "desc_frames x \<inter> desc_frames y = {}" if "y \<in> set ds" for y
    using sound_map_later[OF _ that, of "desc_end x"] Cons.prems(1) by (auto simp: desc_frames_def)
  with Cons show ?case by (cases "d = x"; cases "e = x") (auto simp: Int_commute)
qed simp

lemma loader_data_unusable:
  assumes "sound_map 0 ds" and "d \<in> set ds" and "md_type d = 2"
  shows "desc_frames d \<inter> usable_frames ds = {}"
proof -
  have "\<not> is_available (memory_type_of (md_type d))"
    using assms(3) by (simp add: memory_type_of_def memory_type_names_def is_available_def)
  then show ?thesis using sound_map_disjoint[OF assms(1,2)] by (auto simp: usable_frames_def)
qed

lemma area_frames:
  assumes "a \<in> area first (0x1000 * n)" and "unat first mod 4096 = 0" and "unat first + 4096 * unat n < 2 ^ 64"
  shows "unat a div 4096 \<in> {unat first div 4096..<unat first div 4096 + unat n}"
proof -
  have size: "unat (0x1000 * n) = 4096 * unat n"
    using assms(3) unat_mult_lem[of "0x1000" n] by simp
  have d: "unat (a - first) < 4096 * unat n" using assms(1) size by (simp add: area_iff word_less_nat_alt)
  have "unat (first + (a - first)) = unat first + unat (a - first)"
    using d assms(3) by (intro unat_add_lem[THEN iffD1]) simp
  then have at: "unat a = unat first + unat (a - first)" by simp
  have "unat first = 4096 * (unat first div 4096)" using assms(2) by auto
  with at d show ?thesis by (simp add: div_le_mono less_mult_imp_div_less algebra_simps)
qed

text \<open>Claim C40.
  The kernel's own memory is never handed out. Let the loader enter the kernel with the memory map
  \<open>memmap\<close> of \<open>k\<close> page-aligned, ascending, disjoint regions below 128 GiB, in which the pages the loader has
  allocated for the kernel belong to a region of type \<open>EfiLoaderData\<close>, as the firmware promises for \<open>AllocatePages\<close>.
  Then \<open>initialize_memory_manager\<close> on the descriptors as they are in memory gives a manager, and no
  sequence of allocations from it gives a block with a frame of one of the kernel's segments.
\<close>

theorem kernel_frames_kept:
  assumes "services_ok bs memmap_buf mem kernel_buffer reading memmap" and "file = reading mem"
    and "header_first file kernel_buffer" and "calc_load_address_range file kernel_buffer = (first, limit)"
    and "unat first mod 4096 = 0" and "unat first + 4096 * unat (number_of_kernel_pages first limit) < 2 ^ 64"
    and "load_kernel bs memmap_buf mem = Entered entry memmap mem'"
    and "map_has memmap k" and "sound_map 0 (descriptors (descriptor_at mem') memmap k)"
    and "d \<in> set (descriptors (descriptor_at mem') memmap k)" and "md_type d = 2"
    and "{unat first div 4096..<unat first div 4096 + unat (number_of_kernel_pages first limit)} \<subseteq> desc_frames d"
  shows "\<exists>m. initialize_memory_manager (descriptor_at mem') memmap new_bitmap_memory_manager = Some m \<and>
    (\<forall>ns. \<exists>blocks m'. alloc_seq allocate m ns = Some (blocks, m') \<and>
      (\<forall>b\<in>set blocks. \<forall>ph\<in>set (load_headers file kernel_buffer). \<forall>a\<in>target ph. unat a div 4096 \<notin> b))"
proof -
  let ?ds = "descriptors (descriptor_at mem') memmap k"
  from initialize_usable[OF assms(8,9)] obtain m where
    m: "initialize_memory_manager (descriptor_at mem') memmap new_bitmap_memory_manager = Some m" "manager_ok m"
      "managed_frames m - allocated_frames m = usable_frames ?ds - {0}" by blast
  have kernel: "unat a div 4096 \<in> desc_frames d" if "ph \<in> set (load_headers file kernel_buffer)" "a \<in> target ph" for ph a
  proof -
    have "a \<in> area first (0x1000 * number_of_kernel_pages first limit)"
      using load_kernel_enters[OF assms(1-3)] assms(4) that by auto
    from area_frames[OF this assms(5,6)] assms(12) show ?thesis by blast
  qed
  have "\<exists>blocks m'. alloc_seq allocate m ns = Some (blocks, m') \<and>
      (\<forall>b\<in>set blocks. \<forall>ph\<in>set (load_headers file kernel_buffer). \<forall>a\<in>target ph. unat a div 4096 \<notin> b)" for ns
  proof -
    obtain blocks m' where run: "alloc_seq allocate m ns = Some (blocks, m')" using bitmap.seq_total[OF m(2)] by blast
    have "\<forall>b\<in>set blocks. b \<subseteq> usable_frames ?ds" using bitmap.seq_blocks[OF m(2) run] m(3) by auto
    with run kernel loader_data_unusable[OF assms(9-11)] show ?thesis by blast
  qed
  with m(1) show ?thesis by blast
qed

text \<open>The memory map of the example: one region, the kernel's page.\<close>

definition demo_map_reading :: "memory \<Rightarrow> memory" where
  "demo_map_reading mem = (\<lambda>a. if a - 0x8000 < 48 then
     (if a = 0x8000 then 2 else if a = 0x800a then 0x10 else if a = 0x8018 then 1 else 0) else mem a)"

definition demo_services1 :: boot_services where
  "demo_services1 = demo_services\<lparr>bs_get_memory_map := (\<lambda>_. Some (demo_memory_map\<lparr>map_size := 48\<rparr>, demo_map_reading))\<rparr>"

lemma demo_map_keeps: "a \<in> target demo_phdr \<Longrightarrow> demo_map_reading mem a = mem a"
proof -
  assume a: "a \<in> target demo_phdr"
  have "area 0x100000 128 \<inter> area 0x8000 48 = {}" by (rule area_disjoint) simp_all
  with a show ?thesis by (auto simp: demo_map_reading_def target_def demo_phdr_def area_iff)
qed

lemma demo_services1_ok: "services_ok demo_services1 0x8000 mem 0x2000 demo_reading (demo_memory_map\<lparr>map_size := 48\<rparr>)"
  using demo_services_ok[of mem] demo_map_keeps
  by (auto simp: services_ok_def demo_services1_def demo_services_def demo_load_headers demo_memory_map_def)

lemma demo_services1_memory:
  assumes "load_kernel demo_services1 0x8000 mem = Entered entry memmap mem'"
  shows "\<exists>m. mem' = demo_map_reading m"
  using assms by (auto simp: load_kernel_def load_kernel_steps_def loader_exit_def get_memory_map_def new_memory_map_def
      demo_services1_def demo_services_def demo_memory_map_def bind_eq_Some_conv Let_def case_prod_beta
      split: option.split_asm if_split_asm)

lemma demo_descriptor:
  "descriptors (descriptor_at (demo_map_reading m)) (demo_memory_map\<lparr>map_size := 48\<rparr>) 1 =
    [\<lparr>md_type = 2, physical_start = 0x100000, virtual_start = 0, number_of_pages = 1, attribute = 0\<rparr>]"
  by (simp add: descriptors_def demo_memory_map_def new_memory_map_def descriptor_at_def read_u32_def read_u64_def
      read_le_numeral demo_map_reading_def)

theorem kernel_frames_kept_witness:
  "\<exists>m mem'. load_kernel demo_services1 0x8000 (\<lambda>_. 0) = Entered 0x100050 (demo_memory_map\<lparr>map_size := 48\<rparr>) mem' \<and>
     initialize_memory_manager (descriptor_at mem') (demo_memory_map\<lparr>map_size := 48\<rparr>) new_bitmap_memory_manager = Some m \<and>
     (\<forall>ns. \<exists>blocks m'. alloc_seq allocate m ns = Some (blocks, m') \<and>
       (\<forall>b\<in>set blocks. \<forall>a\<in>target demo_phdr. unat a div 4096 \<notin> b))"
proof -
  let ?map = "demo_memory_map\<lparr>map_size := 48\<rparr>" and ?file = "demo_reading (\<lambda>_. 0)"
  have head: "header_first ?file 0x2000" by (simp add: header_first_def demo_load_headers demo_phdr_def)
  have range: "calc_load_address_range ?file 0x2000 = (0x100000, 0x100080)"
    by (simp add: calc_load_address_range_fold demo_load_headers load_range_step_def demo_phdr_def pt_load_def)
  obtain mem' where run: "load_kernel demo_services1 0x8000 (\<lambda>_. 0) = Entered 0x100050 ?map mem'"
    using load_kernel_enters[OF demo_services1_ok refl head] by (auto simp: demo_entry)
  then obtain m where mem': "mem' = demo_map_reading m" using demo_services1_memory by blast
  have has: "map_has ?map 1" by (simp add: map_has_def demo_memory_map_def new_memory_map_def)
  have sound: "sound_map 0 (descriptors (descriptor_at mem') ?map 1)"
    unfolding mem' demo_descriptor by (simp add: desc_end_def desc_first_def)
  let ?d = "\<lparr>md_type = 2, physical_start = 0x100000, virtual_start = 0, number_of_pages = 1, attribute = 0\<rparr>"
  have d: "?d \<in> set (descriptors (descriptor_at mem') ?map 1)" unfolding mem' demo_descriptor by simp
  have "\<exists>m. initialize_memory_manager (descriptor_at mem') ?map new_bitmap_memory_manager = Some m \<and>
    (\<forall>ns. \<exists>blocks m'. alloc_seq allocate m ns = Some (blocks, m') \<and>
      (\<forall>b\<in>set blocks. \<forall>ph\<in>set (load_headers ?file 0x2000). \<forall>a\<in>target ph. unat a div 4096 \<notin> b))"
    by (rule kernel_frames_kept[OF demo_services1_ok refl head range _ _ run has sound d])
      (simp_all add: number_of_kernel_pages_def desc_frames_def desc_end_def desc_first_def)
  with run show ?thesis by (auto simp: demo_load_headers)
qed

end
